(* ===== verification/Prelude.thy ===== *)
theory Prelude
  imports Main "HOL-Library.Word"
begin

text \<open>
  Shared vocabulary of the development: the machine integer types of the C++ sources, byte
  strings and the little-endian layout that \<^verbatim>\<open>*(T*)str = value\<close> produces on the supported
  platforms, the status codes of \<^verbatim>\<open>indexlib/base/Status.h\<close>, and generic facts on lists and
  words that several components use.

  The collection \<open>word_nat_simps\<close> moves comparisons and the two index computations of the
  sources (predecessor, successor) from words to natural numbers.
\<close>

unbundle bit_operations_syntax

named_theorems word_nat_simps \<open>comparisons and index arithmetic of words, read as natural numbers\<close>

type_synonym u8 = "8 word"
type_synonym u16 = "16 word"
type_synonym u32 = "32 word"
type_synonym u64 = "64 word"
type_synonym bytes = "u8 list"

text \<open>The status codes of \<^verbatim>\<open>indexlib::Status\<close> that the modelled operations return.\<close>

datatype status = StatusOK | InvalidArgs | Exist | Unimplement | OutOfRange

section \<open>Word arithmetic through natural numbers\<close>

lemmas word_less_unat [word_nat_simps] = word_less_nat_alt
lemmas word_le_unat [word_nat_simps] = word_le_nat_alt

lemma unat_pred: "(a :: 'a::len word) < b \<Longrightarrow> unat (b - 1) = unat b - 1"
proof -
  assume "a < b"
  then have "b \<noteq> 0" by (metis word_not_simps(1))
  then show ?thesis by (metis unat_minus_one)
qed

lemma unat_succ: "(a :: 'a::len word) < b \<Longrightarrow> unat (a + 1) = Suc (unat a)"
proof -
  assume "a < b"
  then have "Suc (unat a) < 2 ^ LENGTH('a)"
    using unsigned_less [of b, where ?'a = nat] by (simp add: word_less_nat_alt del: unsigned_less)
  then show ?thesis
    by (simp add: unat_word_ariths)
qed

lemma word_succ_le: "(a :: 'a::len word) < b \<Longrightarrow> a + 1 \<le> b"
  by (simp add: word_le_nat_alt unat_succ word_less_nat_alt)

lemma word_le_pred: "(a :: 'a::len word) < b \<Longrightarrow> h \<le> b - 1 \<longleftrightarrow> h < b"
  by (simp add: word_le_nat_alt unat_pred word_less_nat_alt) linarith

lemma word_succ_le_iff: "(a :: 'a::len word) < b \<Longrightarrow> a + 1 \<le> h \<longleftrightarrow> a < h"
  by (simp add: word_le_nat_alt unat_succ word_less_nat_alt) linarith

lemma word_pred_less: "(a :: 'a::len word) < b \<Longrightarrow> b - 1 < b"
  by (simp add: word_less_nat_alt unat_pred)

lemma word_less_succ: "(a :: 'a::len word) < b \<Longrightarrow> a < a + 1"
  by (simp add: word_less_nat_alt unat_succ)

section \<open>Little-endian byte layout\<close>

fun bytes_of :: "nat \<Rightarrow> 'a::len word \<Rightarrow> bytes" where
  "bytes_of 0 w = []"
| "bytes_of (Suc n) w = ucast w # bytes_of n (drop_bit 8 w)"

fun word_of :: "bytes \<Rightarrow> 'a::len word" where
  "word_of [] = 0"
| "word_of (b # bs) = push_bit 8 (word_of bs) OR ucast b"

lemma length_bytes_of [simp]: "length (bytes_of n w) = n"
  by (induction n arbitrary: w) simp_all

lemma word_of_bytes_of:
  "(word_of (bytes_of n w) :: 'b::len word) = ucast (take_bit (8 * n) (w :: 'a::len word))"
proof (induction n arbitrary: w)
  case 0
  show ?case by simp
next
  case (Suc n)
  show ?case
  proof (rule bit_word_eqI)
    fix m
    assume "m < LENGTH('b)"
    then show "bit (word_of (bytes_of (Suc n) w) :: 'b word) m
        = bit (ucast (take_bit (8 * Suc n) w) :: 'b word) m"
      by (auto simp: Suc bit_simps)
  qed
qed

definition write_u64 :: "u64 \<Rightarrow> bytes" where "write_u64 w = bytes_of 8 w"
definition write_u32 :: "u32 \<Rightarrow> bytes" where "write_u32 w = bytes_of 4 w"

definition read_u64 :: "bytes \<Rightarrow> (u64 \<times> bytes) option" where
  "read_u64 bs = (if length bs < 8 then None else Some (word_of (take 8 bs), drop 8 bs))"

definition read_u32 :: "bytes \<Rightarrow> (u32 \<times> bytes) option" where
  "read_u32 bs = (if length bs < 4 then None else Some (word_of (take 4 bs), drop 4 bs))"

lemma take_bit_full_word: "take_bit LENGTH('a) (w :: 'a::len word) = w"
  by (rule bit_word_eqI) (simp add: bit_simps)

lemma read_write_u64 [simp]: "read_u64 (write_u64 w @ bs) = Some (w, bs)"
  using take_bit_full_word [of w]
  by (simp add: read_u64_def write_u64_def word_of_bytes_of)

lemma read_write_u32 [simp]: "read_u32 (write_u32 w @ bs) = Some (w, bs)"
  using take_bit_full_word [of w]
  by (simp add: read_u32_def write_u32_def word_of_bytes_of)

lemma read_u32_write_u64 [simp]:
  "read_u32 (write_u64 w @ bs) = Some (ucast w, drop 4 (write_u64 w) @ bs)"
proof -
  have t: "take 4 (bytes_of 8 w) = bytes_of 4 w"
    by (simp add: eval_nat_numeral)
  have "(word_of (bytes_of 4 w) :: u32) = ucast w"
    by (rule bit_word_eqI) (simp add: word_of_bytes_of bit_simps)
  with t have "(word_of (take 4 (bytes_of 8 w)) :: u32) = ucast w"
    by simp
  then show ?thesis
    by (simp add: read_u32_def write_u64_def)
qed

lemma length_write [simp]: "length (write_u64 w) = 8" "length (write_u32 v) = 4"
  by (simp_all add: write_u64_def write_u32_def)

lemma nth_bytes_of: "i < n \<Longrightarrow> bytes_of n w ! i = ucast (drop_bit (8 * i) w)"
proof (induction n arbitrary: i w)
  case (Suc n)
  then show ?case
    by (cases i) (simp_all add: drop_bit_drop_bit add.commute)
qed simp

lemma write_u64_halves: "write_u64 w = write_u32 (ucast w) @ write_u32 (ucast (drop_bit 32 w))"
proof (rule nth_equalityI)
  fix i
  assume "i < length (write_u64 w)"
  then consider "i < 4" | j where "i = 4 + j" "j < 4"
    by (cases "i < 4") (auto simp: not_less dest!: le_Suc_ex)
  then show "write_u64 w ! i = (write_u32 (ucast w) @ write_u32 (ucast (drop_bit 32 w))) ! i"
    by cases (auto simp: write_u64_def write_u32_def nth_append nth_bytes_of bit_simps distrib_left ac_simps intro!: bit_word_eqI)
qed simp

lemma read_u64_short [simp]: "length bs < 8 \<Longrightarrow> read_u64 bs = None"
  by (simp add: read_u64_def)

lemma read_u32_short [simp]: "length bs < 4 \<Longrightarrow> read_u32 bs = None"
  by (simp add: read_u32_def)

section \<open>Lists\<close>

text \<open>Enumerating an interval whose bounds are numerals.\<close>

lemma upt_step: "[i..<j] = (if i < j then i # [i + 1..<j] else [])"
  by (simp add: upt_rec)

lemmas numeral_upt = upt_step One_nat_def [symmetric]

lemma filter_nth_append_last: "xs \<noteq> [] \<Longrightarrow> butlast xs @ [last xs] = xs"
  by simp

lemma sorted_wrt_drop: "sorted_wrt P xs \<Longrightarrow> sorted_wrt P (drop n xs)"
  by (metis append_take_drop_id sorted_wrt_append)

lemma drop_eq_Cons_nth: "i < length xs \<Longrightarrow> drop i xs = xs ! i # drop (Suc i) xs"
  by (simp add: Cons_nth_drop_Suc)

text \<open>The sorted list of a set with a least element, and of a set and a later one.\<close>

lemma sorted_list_first:
  assumes "finite S" "\<And>x. x \<in> S \<Longrightarrow> d < (x :: 'a::linorder)"
  shows "sorted_list_of_set (insert d S) = d # sorted_list_of_set S"
  using assms by (subst sorted_list_of_set.sorted_key_list_of_set_insert) (auto intro!: insort_is_Cons less_imp_le)

lemma sorted_list_of_set_append:
  assumes "finite A" "finite B" "\<And>x y. x \<in> A \<Longrightarrow> y \<in> B \<Longrightarrow> x < (y :: 'a::linorder)"
  shows "sorted_list_of_set (A \<union> B) = sorted_list_of_set A @ sorted_list_of_set B"
proof (rule sorted_distinct_set_unique)
  show "sorted (sorted_list_of_set A @ sorted_list_of_set B)"
    using assms by (force simp: sorted_append intro: less_imp_le)
  show "distinct (sorted_list_of_set A @ sorted_list_of_set B)"
    using assms by force
qed (use assms in simp_all)

section \<open>Words\<close>

lemma unat_sub_of_nat:
  fixes q :: "'a::len word"
  assumes "n \<le> unat q"
  shows "unat (q - of_nat n) = unat q - n"
proof -
  have "n < 2 ^ LENGTH('a)"
    using unsigned_less [of q] assms by (metis le_less_trans)
  then have "unat (of_nat n :: 'a word) = n"
    by (simp add: unat_of_nat)
  then show ?thesis
    using assms by (simp add: unat_sub word_le_nat_alt)
qed

end
