(* ===== verification/Progress.thy ===== *)
theory Progress
  imports Prelude
begin

text \<open>
  Model of \<^verbatim>\<open>indexlib/base/Progress.h\<close>: an offset is a pair of a signed 64-bit timestamp and an
  unsigned 32-bit index, ordered lexicographically as \<^verbatim>\<open>std::pair\<close> is; a progress gives the
  offset reached for a closed range of hash ids; a progress vector lists such ranges.

  \<open>offset_at\<close> is the abstract reading of a progress vector, a partial map from hash ids to
  offsets, against which the operations of the locator are specified.  \<open>wf_pv\<close> is the
  well-formedness the locator relies on: non-empty ranges in ascending order without overlap.
\<close>

datatype offset = Offset (offset_first: u64) (offset_second: u32)

instantiation offset :: linorder
begin

definition less_eq_offset :: "offset \<Rightarrow> offset \<Rightarrow> bool" where
  "less_eq_offset a b \<longleftrightarrow>
     sint (offset_first a) < sint (offset_first b) \<or>
     offset_first a = offset_first b \<and> offset_second a \<le> offset_second b"

definition less_offset :: "offset \<Rightarrow> offset \<Rightarrow> bool" where
  "less_offset a b \<longleftrightarrow>
     sint (offset_first a) < sint (offset_first b) \<or>
     offset_first a = offset_first b \<and> offset_second a < offset_second b"

instance
proof
  fix x y z :: offset
  show "(x < y) = (x \<le> y \<and> \<not> y \<le> x)"
    by (auto simp: less_eq_offset_def less_offset_def)
  show "x \<le> x"
    by (simp add: less_eq_offset_def)
  show "x \<le> y \<Longrightarrow> y \<le> z \<Longrightarrow> x \<le> z"
    by (auto simp: less_eq_offset_def)
  show "x \<le> y \<Longrightarrow> y \<le> x \<Longrightarrow> x = y"
    by (cases x; cases y) (auto simp: less_eq_offset_def)
  show "x \<le> y \<or> y \<le> x"
    using linorder_less_linear [of "sint (offset_first x)" "sint (offset_first y)"]
      linear [of "offset_second x" "offset_second y"]
    by (auto simp: less_eq_offset_def dest: signed_word_eqI)
qed

end

definition INVALID_OFFSET :: offset where "INVALID_OFFSET = Offset (-1) 0"
definition MIN_OFFSET :: offset where "MIN_OFFSET = Offset 0 0"

lemma invalid_less_min [simp]: "INVALID_OFFSET < MIN_OFFSET"
  by (simp add: INVALID_OFFSET_def MIN_OFFSET_def less_offset_def)

record progress =
  p_from :: u32
  p_to :: u32
  p_offset :: offset

type_synonym progress_vector = "progress list"
type_synonym multi_progress = "progress_vector list"

definition progress_of_offset :: "offset \<Rightarrow> progress" where
  "progress_of_offset ofs = \<lparr>p_from = 0, p_to = 65535, p_offset = ofs\<rparr>"

definition default_progress :: progress where
  "default_progress = progress_of_offset INVALID_OFFSET"

section \<open>The abstract reading of a progress vector\<close>

definition covers :: "progress \<Rightarrow> u32 \<Rightarrow> bool" where
  "covers p h \<longleftrightarrow> p_from p \<le> h \<and> h \<le> p_to p"

fun offset_at :: "progress_vector \<Rightarrow> u32 \<Rightarrow> offset option" where
  "offset_at [] h = None"
| "offset_at (p # ps) h = (if covers p h then Some (p_offset p) else offset_at ps h)"

fun wf_pv :: "progress_vector \<Rightarrow> bool" where
  "wf_pv [] \<longleftrightarrow> True"
| "wf_pv [p] \<longleftrightarrow> p_from p \<le> p_to p"
| "wf_pv (p # q # ps) \<longleftrightarrow> p_from p \<le> p_to p \<and> p_to p < p_from q \<and> wf_pv (q # ps)"

lemma wf_pv_Cons: "wf_pv (p # ps) \<longleftrightarrow>
    p_from p \<le> p_to p \<and> (\<forall>q \<in> set ps. p_to p < p_from q) \<and> wf_pv ps"
proof (induction ps arbitrary: p)
  case (Cons q ps)
  have "p_to p < p_from q \<Longrightarrow> wf_pv (q # ps) \<Longrightarrow> r \<in> set ps \<Longrightarrow> p_to p < p_from r" for r
    using Cons.IH [of q] by (meson order.strict_trans less_le_trans)
  then show ?case by auto
qed simp

lemma wf_pv_head_least: "wf_pv (p # ps) \<Longrightarrow> q \<in> set (p # ps) \<Longrightarrow> p_from p \<le> p_from q"
  unfolding wf_pv_Cons list.set
  by (metis insertE order.refl less_imp_le order.trans)

lemma wf_pv_tail_above: "wf_pv (p # ps) \<Longrightarrow> q \<in> set ps \<Longrightarrow> p_to p < p_from q"
  by (simp add: wf_pv_Cons)

lemma wf_pv_append: "wf_pv (ps @ qs) \<longleftrightarrow>
    wf_pv ps \<and> wf_pv qs \<and> (\<forall>p \<in> set ps. \<forall>q \<in> set qs. p_to p < p_from q)"
  by (induction ps) (auto simp: wf_pv_Cons)

lemma wf_pv_range: "wf_pv ps \<Longrightarrow> p \<in> set ps \<Longrightarrow> p_from p \<le> p_to p"
  by (induction ps) (auto simp: wf_pv_Cons)

lemma offset_at_append:
  "offset_at (ps @ qs) h = (case offset_at ps h of None \<Rightarrow> offset_at qs h | Some ofs \<Rightarrow> Some ofs)"
  by (induction ps) auto

lemma offset_at_Some_iff:
  "wf_pv ps \<Longrightarrow> offset_at ps h = Some ofs \<longleftrightarrow> (\<exists>p \<in> set ps. covers p h \<and> p_offset p = ofs)"
proof (induction ps)
  case (Cons p ps)
  have "\<not> covers q h" if "covers p h" "q \<in> set ps" for q
    using that Cons.prems by (auto simp: wf_pv_Cons covers_def)
  with Cons show ?case by (auto simp: wf_pv_Cons)
qed simp

lemma offset_at_None_iff: "offset_at ps h = None \<longleftrightarrow> (\<forall>p \<in> set ps. \<not> covers p h)"
  by (induction ps) auto

lemma offset_at_below: "wf_pv (p # ps) \<Longrightarrow> h < p_from p \<Longrightarrow> offset_at (p # ps) h = None"
  by (auto simp: offset_at_None_iff wf_pv_Cons covers_def)

lemma offset_at_D: "offset_at ps h = Some ofs \<Longrightarrow> \<exists>p \<in> set ps. covers p h \<and> p_offset p = ofs"
  by (induction ps) (auto split: if_splits)

end
