(* ===== verification/Locator.thy ===== *)
theory Locator
  imports Progress
begin

text \<open>
  Model of \<^verbatim>\<open>indexlib/framework/Locator.h\<close> and the progress part of \<^verbatim>\<open>Locator.cpp\<close>: the state of
  a locator, the merge of two progress vectors (\<^verbatim>\<open>GetLeftProgress\<close>, \<^verbatim>\<open>MergeProgress\<close>,
  \<^verbatim>\<open>UpdateProgressVec\<close>, \<^verbatim>\<open>Update\<close>), the comparisons (\<^verbatim>\<open>IsFullyFasterThan\<close>, \<^verbatim>\<open>IsFasterThan\<close>)
  and \<^verbatim>\<open>ShrinkToRange\<close>.  The byte layout is in \<open>LocatorCodec\<close>.

  Ranges keep their 32-bit width.  A boolean result together with a mutated object is returned as
  a pair; a read that is out of range in C++ (undefined behaviour) is the value \<open>None\<close>.
\<close>

record locator =
  l_src :: u64
  l_minOffset :: offset
  l_multiProgress :: multi_progress
  l_userData :: bytes
  l_isLegacy :: bool

record doc_info =
  d_timestamp :: u64
  d_concurrentIdx :: u32
  d_hashId :: u16
  d_sourceIdx :: u8

datatype compare_result = LCR_INVALID | LCR_SLOWER | LCR_PARTIAL_FASTER | LCR_FULLY_FASTER

definition get_progress_offset :: "doc_info \<Rightarrow> offset" where
  "get_progress_offset d = Offset (d_timestamp d) (d_concurrentIdx d)"

section \<open>Cursors over a progress vector\<close>

record compare_struct =
  cs_vec :: progress_vector
  cs_cursor :: nat
  cs_from :: u32

definition compare_struct_of :: "progress_vector \<Rightarrow> compare_struct" where
  "compare_struct_of pv =
     \<lparr>cs_vec = pv, cs_cursor = 0, cs_from = (if length pv > 0 then p_from (pv ! 0) else 0)\<rparr>"

definition is_eof :: "compare_struct \<Rightarrow> bool" where
  "is_eof cs \<longleftrightarrow> cs_cursor cs \<ge> length (cs_vec cs)"

definition get_current_progress :: "compare_struct \<Rightarrow> progress" where
  "get_current_progress cs = (cs_vec cs ! cs_cursor cs)\<lparr>p_from := cs_from cs\<rparr>"

definition get_current_offset :: "compare_struct \<Rightarrow> offset" where
  "get_current_offset cs = p_offset (cs_vec cs ! cs_cursor cs)"

definition move_to_next :: "compare_struct \<Rightarrow> compare_struct" where
  "move_to_next cs =
     (let cs' = cs\<lparr>cs_cursor := Suc (cs_cursor cs)\<rparr>
      in if \<not> is_eof cs' then cs'\<lparr>cs_from := p_from (cs_vec cs' ! cs_cursor cs')\<rparr> else cs')"

definition get_left_progress ::
  "compare_struct \<Rightarrow> compare_struct \<Rightarrow> progress option \<times> compare_struct \<times> compare_struct" where
  "get_left_progress cp up =
     (let current = get_current_progress cp; update = get_current_progress up
      in if p_from current < p_from update then
           (if p_to current < p_from update then (Some current, move_to_next cp, up)
            else (Some (current\<lparr>p_to := p_from update - 1\<rparr>), cp\<lparr>cs_from := p_from update\<rparr>, up))
         else if p_from current > p_from update then
           (if p_to update < p_from current then (Some update, cp, move_to_next up)
            else (Some (update\<lparr>p_to := p_from current - 1\<rparr>), cp, up\<lparr>cs_from := p_from current\<rparr>))
         else
           (let updateOffset = get_current_offset up; currentOffset = get_current_offset cp
            in if updateOffset \<noteq> INVALID_OFFSET \<and> updateOffset < currentOffset then (None, cp, up)
               else if p_to update < p_to current then
                 (Some update, cp\<lparr>cs_from := p_to update + 1\<rparr>, move_to_next up)
               else if p_to update > p_to current then
                 (Some (current\<lparr>p_offset := updateOffset\<rparr>), move_to_next cp,
                  up\<lparr>cs_from := p_to current + 1\<rparr>)
               else (Some update, move_to_next cp, move_to_next up)))"

text \<open>
  The merge loop of \<^verbatim>\<open>UpdateProgressVec\<close>.  Every round either moves a cursor or makes the two
  left ends equal, so the loop ends on every input, well-formed or not.
\<close>

definition cs_left :: "compare_struct \<Rightarrow> nat" where
  "cs_left cs = length (cs_vec cs) - cs_cursor cs"

definition update_measure :: "compare_struct \<times> compare_struct \<Rightarrow> nat" where
  "update_measure = (\<lambda>(cp, up). 2 * (cs_left cp + cs_left up) + of_bool (cs_from cp \<noteq> cs_from up))"

lemma move_to_next_simps [simp]:
  "cs_vec (move_to_next cs) = cs_vec cs" "cs_cursor (move_to_next cs) = Suc (cs_cursor cs)"
  by (simp_all add: move_to_next_def Let_def)

lemma get_current_simps [simp]:
  "p_from (get_current_progress cs) = cs_from cs"
  "p_offset (get_current_progress cs) = get_current_offset cs"
  by (simp_all add: get_current_progress_def get_current_offset_def)

lemma get_left_progress_decreases:
  assumes "\<not> is_eof cp" "\<not> is_eof up" "(Some p, cu) = get_left_progress cp up"
  shows "update_measure cu < update_measure (cp, up)"
  using assms
  by (auto simp: get_left_progress_def Let_def update_measure_def cs_left_def is_eof_def
      split: if_splits)

function drain :: "compare_struct \<Rightarrow> progress_vector" where
  "drain cs = (if is_eof cs then [] else get_current_progress cs # drain (move_to_next cs))"
  by pat_completeness auto
termination
  by (relation "measure cs_left") (auto simp: cs_left_def is_eof_def)

declare drain.simps [simp del]

function merge_loop :: "compare_struct \<Rightarrow> compare_struct \<Rightarrow> progress_vector option" where
  "merge_loop cp up =
     (if \<not> is_eof cp \<and> \<not> is_eof up then
        (case get_left_progress cp up of
           (None, _, _) \<Rightarrow> None
         | (Some p, cp', up') \<Rightarrow> map_option ((#) p) (merge_loop cp' up'))
      else Some (drain cp @ drain up))"
  by pat_completeness auto
termination
proof (relation "measure update_measure", goal_cases)
  case 1
  show ?case by simp
next
  case 2
  then show ?case
    using get_left_progress_decreases by auto
qed

declare merge_loop.simps [simp del]

definition merge_step :: "progress_vector \<Rightarrow> progress \<Rightarrow> progress_vector" where
  "merge_step res p =
     (if res = [] then [p]
      else let q = last res in
        if p_offset q = p_offset p \<and> p_to q + 1 = p_from p
        then butlast res @ [q\<lparr>p_to := p_to p\<rparr>] else res @ [p])"

definition merge_progress :: "progress_vector \<Rightarrow> progress_vector" where
  "merge_progress pv = foldl merge_step [] pv"

definition update_progress_vec :: "progress_vector \<Rightarrow> progress_vector \<Rightarrow> progress_vector option" where
  "update_progress_vec cur upd =
     (if length upd = 1 \<and> length cur = 1 \<and> p_from (upd ! 0) = p_from (cur ! 0) \<and>
         p_to (upd ! 0) = p_to (cur ! 0) then
        (if p_offset (upd ! 0) < p_offset (cur ! 0) then None
         else Some [(cur ! 0)\<lparr>p_offset := p_offset (upd ! 0)\<rparr>])
      else map_option merge_progress
             (merge_loop (compare_struct_of cur) (compare_struct_of upd)))"

section \<open>Construction and accessors\<close>

definition default_locator :: locator where
  "default_locator = \<lparr>l_src = 0, l_minOffset = INVALID_OFFSET, l_multiProgress = [[]],
     l_userData = [], l_isLegacy = False\<rparr>"

definition locator_reset :: "locator \<Rightarrow> locator" where
  "locator_reset l = l\<lparr>l_src := 0, l_minOffset := INVALID_OFFSET, l_multiProgress := [[]],
     l_userData := []\<rparr>"

definition set_multi_progress :: "locator \<Rightarrow> multi_progress \<Rightarrow> locator" where
  "set_multi_progress l mp =
     (if mp = [] \<or> mp ! 0 = [] then l
      else if list_ex (\<lambda>pv. pv = []) mp then l\<lparr>l_minOffset := INVALID_OFFSET\<rparr>
      else l\<lparr>l_minOffset := foldl (\<lambda>m p. min m (p_offset p)) (p_offset (mp ! 0 ! 0)) (concat mp),
             l_multiProgress := mp\<rparr>)"

definition set_offset :: "locator \<Rightarrow> offset \<Rightarrow> locator" where
  "set_offset l ofs = set_multi_progress l [[progress_of_offset ofs]]"

definition locator_of_offset :: "u64 \<Rightarrow> offset \<Rightarrow> locator" where
  "locator_of_offset src ofs =
     set_multi_progress (default_locator\<lparr>l_src := src, l_minOffset := ofs\<rparr>) [[progress_of_offset ofs]]"

definition get_max_offset :: "locator \<Rightarrow> offset" where
  "get_max_offset l =
     foldl (\<lambda>m p. max m (p_offset p)) INVALID_OFFSET (concat (l_multiProgress l))"

definition get_locator_range :: "locator \<Rightarrow> u32 \<times> u32" where
  "get_locator_range l =
     foldl (\<lambda>(f, t) p. (min f (p_from p), max t (p_to p))) (65535, 0) (concat (l_multiProgress l))"

definition locator_is_valid :: "locator \<Rightarrow> bool" where
  "locator_is_valid l \<longleftrightarrow> l_minOffset l \<ge> MIN_OFFSET \<or>
     list_ex (list_ex (\<lambda>p. p_offset p \<ge> MIN_OFFSET)) (l_multiProgress l)"

section \<open>Update\<close>

text \<open>
  The loop of \<^verbatim>\<open>Locator::Update\<close> over the sources: it stops at the first source that cannot be
  updated and keeps what it has written for the sources before it.
\<close>

fun update_vecs :: "multi_progress \<Rightarrow> multi_progress \<Rightarrow> bool \<times> multi_progress" where
  "update_vecs (cur # cs) (upd # us) =
     (case update_progress_vec cur upd of
        None \<Rightarrow> (False, cur # cs)
      | Some r \<Rightarrow> (case update_vecs cs us of (ok, rs) \<Rightarrow> (ok, r # rs)))"
| "update_vecs cs us = (True, cs)"

definition min_step :: "offset \<Rightarrow> progress \<Rightarrow> offset" where
  "min_step m p = (if m = INVALID_OFFSET then p_offset p else min m (p_offset p))"

definition locator_update :: "locator \<Rightarrow> locator \<Rightarrow> bool \<times> locator" where
  "locator_update l other =
     (if l_src other \<noteq> l_src l then (True, other)
      else if length (l_multiProgress l) \<noteq> length (l_multiProgress other) then (False, l)
      else case update_vecs (l_multiProgress l) (l_multiProgress other) of
        (False, mp) \<Rightarrow> (False, l\<lparr>l_multiProgress := mp\<rparr>)
      | (True, mp) \<Rightarrow>
          (True, l\<lparr>l_multiProgress := mp,
                   l_minOffset := foldl min_step INVALID_OFFSET (concat mp),
                   l_userData := l_userData other\<rparr>))"

section \<open>Comparison\<close>

fun faster_scan :: "progress \<Rightarrow> progress_vector \<Rightarrow> bool" where
  "faster_scan other [] = False"
| "faster_scan other (cur # cs) =
     (if p_offset other \<le> MIN_OFFSET then True
      else if p_from cur > p_from other then False
      else if p_to cur < p_from other then faster_scan other cs
      else if p_to cur \<ge> p_to other then p_offset cur \<ge> p_offset other
      else if p_offset cur < p_offset other then False
      else faster_scan (other\<lparr>p_from := p_to cur + 1\<rparr>) cs)"

definition vec_is_fully_faster :: "progress_vector \<Rightarrow> progress_vector \<Rightarrow> bool" where
  "vec_is_fully_faster pv others = list_all (\<lambda>other. faster_scan other pv) others"

definition is_fully_faster_than :: "locator \<Rightarrow> locator \<Rightarrow> bool" where
  "is_fully_faster_than l other =
     list_all (\<lambda>(pv, opv). vec_is_fully_faster pv opv)
       (zip (l_multiProgress l) (l_multiProgress other))"

definition is_same_src :: "locator \<Rightarrow> locator \<Rightarrow> bool \<Rightarrow> bool" where
  "is_same_src l other ignoreLegacyDiffSrc =
     (if ignoreLegacyDiffSrc \<and> (l_isLegacy l \<or> l_isLegacy other) then True
      else l_src l = l_src other)"

definition is_faster_than :: "locator \<Rightarrow> locator \<Rightarrow> bool \<Rightarrow> compare_result" where
  "is_faster_than l other ignoreLegacyDiffSrc =
     (if \<not> is_same_src l other ignoreLegacyDiffSrc then LCR_INVALID
      else if ignoreLegacyDiffSrc \<and> (l_isLegacy l \<or> l_isLegacy other) then
        (if l_isLegacy l then
           (let maxOffset = get_max_offset other; minOffset = l_minOffset other
            in if l_minOffset l < minOffset then LCR_SLOWER
               else if l_minOffset l \<ge> maxOffset then LCR_FULLY_FASTER
               else LCR_PARTIAL_FASTER)
         else
           (let maxOffset = get_max_offset l; minOffset = l_minOffset l
            in if l_minOffset other \<le> minOffset then LCR_FULLY_FASTER
               else if l_minOffset other > maxOffset then LCR_SLOWER
               else LCR_PARTIAL_FASTER))
      else if \<not> locator_is_valid other then LCR_FULLY_FASTER
      else if \<not> locator_is_valid l then LCR_SLOWER
      else if length (l_multiProgress l) \<noteq> length (l_multiProgress other) then LCR_INVALID
      else if is_fully_faster_than l other then LCR_FULLY_FASTER
      else if is_fully_faster_than other l then LCR_SLOWER
      else LCR_PARTIAL_FASTER)"

definition locator_eq :: "locator \<Rightarrow> locator \<Rightarrow> bool" where
  "locator_eq l other =
     (if l_userData l \<noteq> l_userData other then False
      else is_faster_than l other False = LCR_FULLY_FASTER \<and>
           is_faster_than other l False = LCR_FULLY_FASTER)"

fun doc_scan :: "u32 \<Rightarrow> offset \<Rightarrow> progress_vector \<Rightarrow> compare_result" where
  "doc_scan h ofs [] = LCR_SLOWER"
| "doc_scan h ofs (p # ps) =
     (if p_from p \<le> h \<and> h \<le> p_to p then
        (if p_offset p > ofs then LCR_FULLY_FASTER else LCR_SLOWER)
      else doc_scan h ofs ps)"

definition is_faster_than_doc :: "locator \<Rightarrow> doc_info \<Rightarrow> compare_result" where
  "is_faster_than_doc l d =
     (if \<not> locator_is_valid l then LCR_SLOWER
      else if unat (d_sourceIdx d) \<ge> length (l_multiProgress l) then LCR_INVALID
      else doc_scan (ucast (d_hashId d)) (get_progress_offset d)
             (l_multiProgress l ! unat (d_sourceIdx d)))"

section \<open>Shrinking to a range\<close>

definition shrink_vec :: "u32 \<Rightarrow> u32 \<Rightarrow> progress_vector \<Rightarrow> progress_vector" where
  "shrink_vec f t pv =
     map (\<lambda>p. \<lparr>p_from = max (p_from p) f, p_to = min (p_to p) t, p_offset = p_offset p\<rparr>)
       (filter (\<lambda>p. \<not> (p_to p < f \<or> p_from p > t)) pv)"

text \<open>
  \<open>None\<close>: \<^verbatim>\<open>progressVec[0]\<close> of an empty vector, undefined behaviour; \<open>Some None\<close>: the operation
  returns false; \<open>Some (Some mp)\<close>: the new progress.
\<close>

fun shrink_vecs :: "u32 \<Rightarrow> u32 \<Rightarrow> multi_progress \<Rightarrow> multi_progress option option" where
  "shrink_vecs f t [] = Some (Some [])"
| "shrink_vecs f t (pv # pvs) =
     (if pv = [] then None
      else if p_from (pv ! 0) > f \<or> p_to (pv ! (length pv - 1)) < t then Some None
      else map_option (map_option ((#) (shrink_vec f t pv))) (shrink_vecs f t pvs))"

definition shrink_to_range :: "locator \<Rightarrow> u32 \<Rightarrow> u32 \<Rightarrow> (bool \<times> locator) option" where
  "shrink_to_range l f t =
     map_option (\<lambda>r. case r of None \<Rightarrow> (False, l) | Some mp \<Rightarrow> (True, l\<lparr>l_multiProgress := mp\<rparr>))
       (shrink_vecs f t (l_multiProgress l))"

end
