(* ===== verification/LocatorCorrect.thy ===== *)
theory LocatorCorrect
  imports Locator
begin

text \<open>
  Correctness of the progress operations of the locator against the abstract reading \<open>offset_at\<close>
  of a progress vector: the merge of two vectors is the pointwise update of one partial map by the
  other, the comparison is the pointwise comparison, shrinking is the restriction of the map.
\<close>

section \<open>Cursors read as lists\<close>

definition cs_rest :: "compare_struct \<Rightarrow> progress_vector" where
  "cs_rest cs =
     (if is_eof cs then [] else get_current_progress cs # drop (Suc (cs_cursor cs)) (cs_vec cs))"

lemma cs_rest_compare_struct_of [simp]: "cs_rest (compare_struct_of pv) = pv"
  by (cases pv) (simp_all add: cs_rest_def compare_struct_of_def is_eof_def get_current_progress_def)

lemma cs_rest_move_to_next: "\<not> is_eof cs \<Longrightarrow> cs_rest (move_to_next cs) = tl (cs_rest cs)"
  by (auto simp: cs_rest_def move_to_next_def is_eof_def get_current_progress_def Let_def
      Cons_nth_drop_Suc)

lemma cs_rest_set_from: "\<not> is_eof cs \<Longrightarrow>
    cs_rest (cs\<lparr>cs_from := f\<rparr>) = (hd (cs_rest cs))\<lparr>p_from := f\<rparr> # tl (cs_rest cs)"
  by (simp add: cs_rest_def is_eof_def get_current_progress_def)

lemma drain_eq_cs_rest: "drain cs = cs_rest cs"
proof (induction cs rule: drain.induct)
  case (1 cs)
  then show ?case
    by (auto simp: drain.simps [of cs] cs_rest_move_to_next) (simp_all add: cs_rest_def)
qed

section \<open>One round of the merge\<close>

text \<open>
  \<open>left_step C U p C' U'\<close>: taking \<open>p\<close> off the two vectors \<open>C\<close> (current) and \<open>U\<close> (update)
  leaves \<open>C'\<close> and \<open>U'\<close>; \<open>p\<close> lies left of both, carries the offset that the update gives its
  range, and nothing in its range moves backwards.
\<close>

definition overriding :: "offset option \<Rightarrow> offset option \<Rightarrow> offset option" where
  "overriding uo co = (case uo of None \<Rightarrow> co | Some ofs \<Rightarrow> Some ofs)"

definition regress_at :: "progress_vector \<Rightarrow> progress_vector \<Rightarrow> u32 \<Rightarrow> bool" where
  "regress_at C U h \<longleftrightarrow>
     (\<exists>oc ou. offset_at C h = Some oc \<and> offset_at U h = Some ou \<and> ou \<noteq> INVALID_OFFSET \<and> ou < oc)"

definition left_step ::
  "progress_vector \<Rightarrow> progress_vector \<Rightarrow> progress \<Rightarrow> progress_vector \<Rightarrow> progress_vector \<Rightarrow> bool" where
  "left_step C U p C' U' \<longleftrightarrow>
     wf_pv C' \<and> wf_pv U' \<and> p_from p \<le> p_to p \<and>
     (\<forall>q \<in> set C' \<union> set U'. p_to p < p_from q) \<and>
     (\<forall>h. covers p h \<longrightarrow> overriding (offset_at U h) (offset_at C h) = Some (p_offset p) \<and> \<not> regress_at C U h) \<and>
     (\<forall>h. \<not> covers p h \<longrightarrow> offset_at C' h = offset_at C h \<and> offset_at U' h = offset_at U h)"

lemma left_stepI:
  assumes "wf_pv C'" "wf_pv U'" "p_from p \<le> p_to p"
    and "\<And>q. q \<in> set C' \<union> set U' \<Longrightarrow> p_to p < p_from q"
    and "\<And>h. covers p h \<Longrightarrow> overriding (offset_at U h) (offset_at C h) = Some (p_offset p)"
    and "\<And>h. covers p h \<Longrightarrow> \<not> regress_at C U h"
    and "\<And>h. \<not> covers p h \<Longrightarrow> offset_at C' h = offset_at C h"
    and "\<And>h. \<not> covers p h \<Longrightarrow> offset_at U' h = offset_at U h"
  shows "left_step C U p C' U'"
  using assms unfolding left_step_def by blast

lemma left_step_current_only:
  assumes wf: "wf_pv (c # cs)" "wf_pv (u # us)" and lt: "p_to c < p_from u"
  shows "left_step (c # cs) (u # us) c cs (u # us)"
proof (rule left_stepI)
  have below: "offset_at (u # us) h = None" if "covers c h" for h
    using that wf lt by (intro offset_at_below) (auto simp: covers_def)
  show "overriding (offset_at (u # us) h) (offset_at (c # cs) h) = Some (p_offset c)"
    "\<not> regress_at (c # cs) (u # us) h" if "covers c h" for h
    using that below [OF that] by (simp_all add: overriding_def regress_at_def)
  show "p_to c < p_from q" if "q \<in> set cs \<union> set (u # us)" for q
    using that wf_pv_tail_above [OF wf(1)] less_le_trans [OF lt wf_pv_head_least [OF wf(2)]] by blast
qed (use wf in \<open>simp_all add: wf_pv_Cons\<close>)

lemma left_step_update_only:
  assumes wf: "wf_pv (c # cs)" "wf_pv (u # us)" and lt: "p_to u < p_from c"
  shows "left_step (c # cs) (u # us) u (c # cs) us"
proof (rule left_stepI)
  have below: "offset_at (c # cs) h = None" if "covers u h" for h
    using that wf lt by (intro offset_at_below) (auto simp: covers_def)
  show "overriding (offset_at (u # us) h) (offset_at (c # cs) h) = Some (p_offset u)"
    "\<not> regress_at (c # cs) (u # us) h" if "covers u h" for h
    using that below [OF that] by (simp_all add: overriding_def regress_at_def)
  show "p_to u < p_from q" if "q \<in> set (c # cs) \<union> set us" for q
    using that wf_pv_tail_above [OF wf(2)] less_le_trans [OF lt wf_pv_head_least [OF wf(1)]] by blast
qed (use wf in \<open>simp_all add: wf_pv_Cons\<close>)

text \<open>Cutting the head of a vector at a point inside its range does not change its reading.\<close>

lemma wf_cut:
  assumes "wf_pv (c # cs)" "p_from c < k" "k \<le> p_to c"
  shows "wf_pv (c\<lparr>p_to := k - 1\<rparr> # c\<lparr>p_from := k\<rparr> # cs)"
proof -
  have "p_from c \<le> k - 1" "k - 1 < k"
    using assms(2) by (simp_all only: word_le_pred word_pred_less)
  then show ?thesis
    using assms(1,3) by (cases cs) simp_all
qed

lemma offset_at_cut:
  assumes "p_from c < k" "k \<le> p_to c"
  shows "offset_at (c\<lparr>p_to := k - 1\<rparr> # c\<lparr>p_from := k\<rparr> # cs) h = offset_at (c # cs) h"
proof -
  have "p_from c \<le> h \<and> h \<le> p_to c \<longleftrightarrow>
      p_from c \<le> h \<and> h < k \<or> k \<le> h \<and> h \<le> p_to c"
    using assms by (meson not_le order.strict_implies_order order.trans)
  with word_le_pred [OF assms(1), of h] show ?thesis
    by (simp add: covers_def)
qed

lemma left_step_cong:
  assumes "left_step C0 U0 p C' U'"
    and "\<And>h. offset_at C0 h = offset_at C h" "\<And>h. offset_at U0 h = offset_at U h"
  shows "left_step C U p C' U'"
  using assms by (simp add: left_step_def regress_at_def)

lemma left_step_both:
  assumes wf: "wf_pv (c # cs)" "wf_pv (u # us)" and eq: "p_from c = p_from u" "p_to c = p_to u"
    and mono: "p_offset u = INVALID_OFFSET \<or> p_offset c \<le> p_offset u"
  shows "left_step (c # cs) (u # us) u cs us"
proof (rule left_stepI)
  have same: "covers c h \<longleftrightarrow> covers u h" for h
    using eq by (simp add: covers_def)
  show "\<not> regress_at (c # cs) (u # us) h" if "covers u h" for h
    using that same mono by (auto simp: regress_at_def)
  show "p_to u < p_from q" if "q \<in> set cs \<union> set us" for q
    using that wf eq by (auto dest: wf_pv_tail_above)
  show "offset_at cs h = offset_at (c # cs) h" if "\<not> covers u h" for h
    using that same by simp
qed (use wf in \<open>simp_all add: wf_pv_Cons overriding_def\<close>)

lemma left_step_split_current:
  assumes wf: "wf_pv (c # cs)" "wf_pv (u # us)" and k: "p_from c < p_from u" "p_from u \<le> p_to c"
  shows "left_step (c # cs) (u # us) (c\<lparr>p_to := p_from u - 1\<rparr>) (c\<lparr>p_from := p_from u\<rparr> # cs) (u # us)"
  by (intro left_step_cong [OF left_step_current_only [OF wf_cut [OF wf(1) k] wf(2)]])
    (use k in \<open>simp_all add: offset_at_cut word_pred_less del: offset_at.simps\<close>)

lemma left_step_split_update:
  assumes wf: "wf_pv (c # cs)" "wf_pv (u # us)" and k: "p_from u < p_from c" "p_from c \<le> p_to u"
  shows "left_step (c # cs) (u # us) (u\<lparr>p_to := p_from c - 1\<rparr>) (c # cs) (u\<lparr>p_from := p_from c\<rparr> # us)"
  by (intro left_step_cong [OF left_step_update_only [OF wf(1) wf_cut [OF wf(2) k]]])
    (use k in \<open>simp_all add: offset_at_cut word_pred_less del: offset_at.simps\<close>)

lemma left_step_shorter_update:
  assumes wf: "wf_pv (c # cs)" "wf_pv (u # us)" and "p_from c = p_from u" and lt: "p_to u < p_to c"
    and "p_offset u = INVALID_OFFSET \<or> p_offset c \<le> p_offset u"
  shows "left_step (c # cs) (u # us) u (c\<lparr>p_from := p_to u + 1\<rparr> # cs) us"
proof -
  have k: "p_from c < p_to u + 1" "p_to u + 1 \<le> p_to c"
    using assms word_less_succ [OF lt] word_succ_le [OF lt] by (auto simp: wf_pv_Cons)
  show ?thesis
    by (intro left_step_cong [OF left_step_both [OF wf_cut [OF wf(1) k] wf(2)]])
      (use assms offset_at_cut [OF k] in \<open>simp_all del: offset_at.simps\<close>)
qed

lemma left_step_shorter_current:
  assumes wf: "wf_pv (c # cs)" "wf_pv (u # us)" and eq: "p_from c = p_from u" and gt: "p_to c < p_to u"
    and "p_offset u = INVALID_OFFSET \<or> p_offset c \<le> p_offset u"
  shows "left_step (c # cs) (u # us) (c\<lparr>p_offset := p_offset u\<rparr>) cs (u\<lparr>p_from := p_to c + 1\<rparr> # us)"
proof -
  have k: "p_from u < p_to c + 1" "p_to c + 1 \<le> p_to u"
    using assms word_less_succ [OF gt] word_succ_le [OF gt] by (auto simp: wf_pv_Cons)
  have "c\<lparr>p_offset := p_offset u\<rparr> = u\<lparr>p_to := p_to c + 1 - 1\<rparr>"
    using eq by (cases u; cases c) simp
  then show ?thesis
    by (simp only:) (intro left_step_cong [OF left_step_both [OF wf(1) wf_cut [OF wf(2) k]]],
      use assms offset_at_cut [OF k] in \<open>simp_all del: offset_at.simps\<close>)
qed

lemmas left_step_rules =
  left_step_current_only left_step_split_current left_step_update_only left_step_split_update
  left_step_shorter_update left_step_shorter_current left_step_both

text \<open>Every successful call of \<^verbatim>\<open>GetLeftProgress\<close> is such a step; a failing one exhibits a regress.\<close>

lemma get_left_progress_list:
  assumes "\<not> is_eof cp" "\<not> is_eof up" "cs_rest cp = c # cs" "cs_rest up = u # us"
  shows "get_current_progress cp = c" "get_current_progress up = u"
    "cs_rest (move_to_next cp) = cs" "cs_rest (move_to_next up) = us"
    "cs_rest (cp\<lparr>cs_from := f\<rparr>) = c\<lparr>p_from := f\<rparr> # cs"
    "cs_rest (up\<lparr>cs_from := f\<rparr>) = u\<lparr>p_from := f\<rparr> # us"
    "get_current_offset cp = p_offset c" "get_current_offset up = p_offset u"
  using assms cs_rest_move_to_next [of cp] cs_rest_move_to_next [of up]
    cs_rest_set_from [of cp f] cs_rest_set_from [of up f]
    get_current_simps(2) [of cp] get_current_simps(2) [of up]
  by (simp_all add: cs_rest_def)

lemma get_left_progress_step:
  assumes ne: "\<not> is_eof cp" "\<not> is_eof up" and rest: "cs_rest cp = c # cs" "cs_rest up = u # us"
    and wf: "wf_pv (c # cs)" "wf_pv (u # us)"
    and step: "get_left_progress cp up = (Some p, cp', up')"
  shows "left_step (c # cs) (u # us) p (cs_rest cp') (cs_rest up')"
proof -
  note rests = get_left_progress_list [OF ne rest]
  show ?thesis
    using step rest left_step_rules [OF wf] unfolding get_left_progress_def Let_def rests
    by (auto simp: rests not_less split: if_splits)
qed

lemma get_left_progress_fails:
  assumes ne: "\<not> is_eof cp" "\<not> is_eof up" and rest: "cs_rest cp = c # cs" "cs_rest up = u # us"
    and wf: "wf_pv (c # cs)" "wf_pv (u # us)"
    and step: "get_left_progress cp up = (None, cp', up')"
  shows "\<exists>h. regress_at (c # cs) (u # us) h"
proof -
  note rests = get_left_progress_list [OF ne rest]
  have "p_from c = p_from u" "p_offset u \<noteq> INVALID_OFFSET" "p_offset u < p_offset c"
    using step unfolding get_left_progress_def Let_def rests by (auto split: if_splits)
  then have "regress_at (c # cs) (u # us) (p_from c)"
    using wf by (simp add: regress_at_def covers_def wf_pv_Cons)
  then show ?thesis ..
qed

lemma left_step_above: "left_step C U p C' U' \<Longrightarrow> q \<in> set C' \<union> set U' \<Longrightarrow> p_to p < p_from q"
  by (simp add: left_step_def)

lemma left_step_outside:
  assumes "left_step C U p C' U'" "covers p h"
  shows "offset_at C' h = None" "offset_at U' h = None"
  using assms(2) left_step_above [OF assms(1)]
  by (fastforce simp: offset_at_None_iff covers_def)+

lemma left_step_merged:
  assumes step: "left_step C U p C' U'" and wf: "wf_pv r"
    and r: "\<And>h. offset_at r h = overriding (offset_at U' h) (offset_at C' h)"
  shows "wf_pv (p # r)" "offset_at (p # r) h = overriding (offset_at U h) (offset_at C h)"
proof -
  have "p_to p < p_from q" if q: "q \<in> set r" for q
  proof -
    have "offset_at r (p_from q) = Some (p_offset q)"
      using wf q wf_pv_range [OF wf q] by (auto simp: offset_at_Some_iff covers_def)
    then have "offset_at U' (p_from q) \<noteq> None \<or> offset_at C' (p_from q) \<noteq> None"
      using r [of "p_from q"] by (auto simp: overriding_def split: option.splits)
    then obtain x where "x \<in> set C' \<union> set U'" "covers x (p_from q)"
      by (auto simp: offset_at_None_iff)
    then show ?thesis
      using left_step_above [OF step, of x] by (auto simp: covers_def)
  qed
  then show "wf_pv (p # r)"
    using step wf by (simp add: wf_pv_Cons left_step_def)
  show "offset_at (p # r) h = overriding (offset_at U h) (offset_at C h)"
    using step r by (auto simp: left_step_def)
qed

lemma left_step_regress:
  assumes "left_step C U p C' U'"
  shows "(\<exists>h. regress_at C U h) \<longleftrightarrow> (\<exists>h. regress_at C' U' h)"
proof -
  have "regress_at C U h \<longleftrightarrow> regress_at C' U' h" for h
    using assms left_step_outside [OF assms, of h]
    by (cases "covers p h") (simp_all add: left_step_def regress_at_def)
  then show ?thesis by simp
qed

text \<open>The whole loop: it fails exactly when some hash id would move backwards.\<close>

definition merged :: "progress_vector \<Rightarrow> progress_vector \<Rightarrow> progress_vector option \<Rightarrow> bool" where
  "merged C U res \<longleftrightarrow>
     (case res of
        None \<Rightarrow> \<exists>h. regress_at C U h
      | Some r \<Rightarrow> wf_pv r \<and> (\<forall>h. offset_at r h = overriding (offset_at U h) (offset_at C h)) \<and>
                  \<not> (\<exists>h. regress_at C U h))"

lemma merge_loop_merged:
  "wf_pv (cs_rest cp) \<Longrightarrow> wf_pv (cs_rest up) \<Longrightarrow> merged (cs_rest cp) (cs_rest up) (merge_loop cp up)"
proof (induction cp up rule: merge_loop.induct)
  case (1 cp up)
  show ?case
  proof (cases "\<not> is_eof cp \<and> \<not> is_eof up")
    case False
    then have "cs_rest cp = [] \<or> cs_rest up = []"
      by (auto simp: cs_rest_def)
    with False "1.prems" show ?thesis
      by (auto simp: merge_loop.simps [of cp up] merged_def drain_eq_cs_rest overriding_def
          regress_at_def split: option.splits)
  next
    case True
    then obtain c cs u us where rest: "cs_rest cp = c # cs" "cs_rest up = u # us"
      by (auto simp: cs_rest_def)
    obtain po cp' up' where g: "get_left_progress cp up = (po, cp', up')"
      by (metis prod_cases3)
    show ?thesis
    proof (cases po)
      case None
      then show ?thesis
        using True g rest "1.prems" get_left_progress_fails [of cp up c cs u us cp' up']
        by (simp add: merge_loop.simps [of cp up] merged_def)
    next
      case (Some p)
      have step: "left_step (c # cs) (u # us) p (cs_rest cp') (cs_rest up')"
        using True g rest "1.prems" Some by (intro get_left_progress_step) auto
      then have "merged (cs_rest cp') (cs_rest up') (merge_loop cp' up')"
        using True g Some by (intro "1.IH") (auto simp: left_step_def)
      then show ?thesis
        using True g rest Some left_step_regress [OF step] left_step_merged [OF step]
        by (auto simp: merge_loop.simps [of cp up] merged_def simp del: offset_at.simps
            split: option.splits)
    qed
  qed
qed

section \<open>Coalescing adjacent ranges\<close>

lemma wf_pv_last_greatest: "wf_pv ps \<Longrightarrow> q \<in> set ps \<Longrightarrow> p_to q \<le> p_to (last ps)"
proof (induction ps)
  case (Cons p ps)
  show ?case
  proof (cases "q \<in> set ps")
    case True
    with Cons show ?thesis by (auto simp: wf_pv_Cons)
  next
    case False
    with Cons.prems show ?thesis
      by (cases ps rule: rev_cases) (auto simp: wf_pv_Cons wf_pv_append)
  qed
qed simp

lemma offset_at_glue:
  assumes "p_offset q = p_offset p" "p_to q + 1 = p_from p" "p_from q \<le> p_to q"
    "p_to q < p_from p" "p_from p \<le> p_to p"
  shows "offset_at [q\<lparr>p_to := p_to p\<rparr>] h = offset_at [q, p] h"
proof -
  have "p_from p \<le> h \<longleftrightarrow> p_to q < h"
    using word_succ_le_iff [OF assms(4), of h] assms(2) by simp
  with assms show ?thesis by (auto simp: covers_def)
qed

lemma merge_step_inv:
  assumes wf: "wf_pv (ps @ [p])" and R: "wf_pv R" "\<And>h. offset_at R h = offset_at ps h"
    and last: "ps \<noteq> [] \<Longrightarrow> R \<noteq> [] \<and> p_to (last R) = p_to (last ps)" and nil: "ps = [] \<Longrightarrow> R = []"
  shows "wf_pv (merge_step R p) \<and> (\<forall>h. offset_at (merge_step R p) h = offset_at (ps @ [p]) h) \<and>
    merge_step R p \<noteq> [] \<and> p_to (last (merge_step R p)) = p_to p"
proof (cases ps rule: rev_cases)
  case Nil
  with wf nil show ?thesis by (simp add: merge_step_def)
next
  case (snoc ps' l)
  then have "R \<noteq> []" "p_to (last R) < p_from p"
    using last wf by (simp_all add: wf_pv_append)
  then obtain Rb q where Rq: "R = Rb @ [q]" and lt: "p_to q < p_from p"
    by (metis append_butlast_last_id last_snoc)
  have below: "p_to x < p_from p" if "x \<in> set R" for x
    using wf_pv_last_greatest [OF R(1) that] lt Rq by (auto intro: le_less_trans)
  have p: "p_from p \<le> p_to p"
    using wf by (simp add: wf_pv_append)
  show ?thesis
  proof (cases "p_offset q = p_offset p \<and> p_to q + 1 = p_from p")
    case True
    have eq: "merge_step R p = Rb @ [q\<lparr>p_to := p_to p\<rparr>]"
      using True Rq by (simp add: merge_step_def)
    have "p_from q \<le> p_to q"
      using R(1) Rq by (simp add: wf_pv_append)
    then have "offset_at [q\<lparr>p_to := p_to p\<rparr>] h = offset_at [q, p] h" for h
      using True lt p by (intro offset_at_glue) simp_all
    then have "offset_at (Rb @ [q\<lparr>p_to := p_to p\<rparr>]) h = offset_at (R @ [p]) h" for h
      using Rq by (simp add: offset_at_append del: offset_at.simps split: option.split)
    moreover have "offset_at (R @ [p]) h = offset_at (ps @ [p]) h" for h
      using R(2) by (simp add: offset_at_append)
    moreover have "wf_pv (Rb @ [q\<lparr>p_to := p_to p\<rparr>])"
      using R(1) Rq lt p \<open>p_from q \<le> p_to q\<close> by (auto simp: wf_pv_append)
    ultimately show ?thesis
      unfolding eq by simp
  next
    case False
    then have "merge_step R p = R @ [p]"
      using Rq by (simp add: merge_step_def)
    then show ?thesis
      using R p below by (simp add: wf_pv_append offset_at_append)
  qed
qed

lemma merge_progress_correct:
  assumes "wf_pv pv"
  shows "wf_pv (merge_progress pv)" "offset_at (merge_progress pv) h = offset_at pv h"
    "merge_progress pv = [] \<longleftrightarrow> pv = []"
proof -
  have "wf_pv pv \<Longrightarrow> wf_pv (merge_progress pv) \<and> (\<forall>h. offset_at (merge_progress pv) h = offset_at pv h) \<and>
      (pv = [] \<longrightarrow> merge_progress pv = []) \<and>
      (pv \<noteq> [] \<longrightarrow> merge_progress pv \<noteq> [] \<and> p_to (last (merge_progress pv)) = p_to (last pv))"
  proof (induction pv rule: rev_induct)
    case (snoc p ps)
    then have "wf_pv ps" by (simp add: wf_pv_append)
    with snoc.IH have "wf_pv (merge_step (merge_progress ps) p) \<and>
        (\<forall>h. offset_at (merge_step (merge_progress ps) p) h = offset_at (ps @ [p]) h) \<and>
        merge_step (merge_progress ps) p \<noteq> [] \<and>
        p_to (last (merge_step (merge_progress ps) p)) = p_to p"
      by (intro merge_step_inv [OF snoc.prems]) auto
    then show ?case
      by (simp add: merge_progress_def)
  qed (simp add: merge_progress_def)
  with assms show "wf_pv (merge_progress pv)" "offset_at (merge_progress pv) h = offset_at pv h"
    "merge_progress pv = [] \<longleftrightarrow> pv = []"
    by blast+
qed

section \<open>Updating one source\<close>

definition no_regress :: "progress_vector \<Rightarrow> progress_vector \<Rightarrow> bool" where
  "no_regress cur upd \<longleftrightarrow>
     (\<forall>h oc ou. offset_at cur h = Some oc \<longrightarrow> offset_at upd h = Some ou \<longrightarrow> oc \<le> ou)"

lemma update_progress_vec_Some:
  assumes wf: "wf_pv cur" "wf_pv upd" and upd: "update_progress_vec cur upd = Some r"
  shows "wf_pv r" "offset_at r h = overriding (offset_at upd h) (offset_at cur h)"
    "\<not> regress_at cur upd h" "r = [] \<longleftrightarrow> cur = [] \<and> upd = []"
proof -
  let ?fast = "length upd = 1 \<and> length cur = 1 \<and> p_from (upd ! 0) = p_from (cur ! 0) \<and>
    p_to (upd ! 0) = p_to (cur ! 0)"
  have "wf_pv r \<and> (\<forall>h. offset_at r h = overriding (offset_at upd h) (offset_at cur h)) \<and>
      \<not> (\<exists>h. regress_at cur upd h)"
  proof (cases ?fast)
    case True
    then obtain c u where cu: "cur = [c]" "upd = [u]"
      by (auto simp: length_Suc_conv)
    with True wf upd show ?thesis
      by (auto simp: update_progress_vec_def overriding_def regress_at_def covers_def split: if_splits)
  next
    case False
    then obtain r0 where r0: "merge_loop (compare_struct_of cur) (compare_struct_of upd) = Some r0"
      "r = merge_progress r0"
      using upd by (auto simp: update_progress_vec_def)
    then show ?thesis
      using merge_loop_merged [of "compare_struct_of cur" "compare_struct_of upd"] wf
      by (simp add: merged_def merge_progress_correct)
  qed
  then show wf': "wf_pv r" and off: "offset_at r h = overriding (offset_at upd h) (offset_at cur h)"
    and "\<not> regress_at cur upd h" for h
    by blast+
  have empty: "ps = [] \<longleftrightarrow> (\<forall>h. offset_at ps h = None)" if "wf_pv ps" for ps
    using wf_pv_range [OF that] by (cases ps) (auto simp: covers_def split: if_splits)
  show "r = [] \<longleftrightarrow> cur = [] \<and> upd = []"
    using off by (auto simp: empty wf wf' overriding_def split: option.splits)
qed

lemma update_progress_vec_None:
  assumes wf: "wf_pv cur" "wf_pv upd" and upd: "update_progress_vec cur upd = None"
  shows "\<not> no_regress cur upd"
proof (cases "length upd = 1 \<and> length cur = 1 \<and> p_from (upd ! 0) = p_from (cur ! 0) \<and>
    p_to (upd ! 0) = p_to (cur ! 0)")
  case True
  then obtain c u where cu: "cur = [c]" "upd = [u]"
    by (auto simp: length_Suc_conv)
  have "covers c (p_from c)"
    using wf cu by (simp add: covers_def)
  moreover have "covers u (p_from c)" "p_offset u < p_offset c"
    using True cu upd wf by (auto simp: update_progress_vec_def covers_def split: if_splits)
  ultimately show ?thesis
    using cu by (auto simp: no_regress_def)
next
  case False
  then have "merge_loop (compare_struct_of cur) (compare_struct_of upd) = None"
    using upd by (auto simp: update_progress_vec_def)
  then obtain h where "regress_at cur upd h"
    using merge_loop_merged [of "compare_struct_of cur" "compare_struct_of upd"] wf
    by (auto simp: merged_def)
  then show ?thesis
    by (auto simp: regress_at_def no_regress_def not_le)
qed

section \<open>Comparing one source\<close>

lemma faster_scan_iff:
  "wf_pv pv \<Longrightarrow> p_from ot \<le> p_to ot \<Longrightarrow> MIN_OFFSET < p_offset ot \<Longrightarrow>
   faster_scan ot pv \<longleftrightarrow> (\<forall>h. covers ot h \<longrightarrow> (\<exists>ofs. offset_at pv h = Some ofs \<and> p_offset ot \<le> ofs))"
proof (induction pv arbitrary: ot)
  case Nil
  then show ?case by (auto simp: covers_def)
next
  case (Cons c cs)
  have head: "covers ot (p_from ot)"
    using Cons.prems by (simp add: covers_def)
  have wf: "wf_pv cs" "p_from c \<le> p_to c"
    using Cons.prems by (simp_all add: wf_pv_Cons)
  consider (gap) "p_from ot < p_from c" | (before) "p_from c \<le> p_from ot" "p_to c < p_from ot"
    | (inside) "p_from c \<le> p_from ot" "p_from ot \<le> p_to c" "p_to ot \<le> p_to c"
    | (part) "p_from c \<le> p_from ot" "p_from ot \<le> p_to c" "p_to c < p_to ot"
    by fastforce
  then show ?case
  proof cases
    case gap
    then have "offset_at (c # cs) (p_from ot) = None"
      using Cons.prems by (intro offset_at_below) auto
    with gap head Cons.prems show ?thesis by auto
  next
    case before
    then have "\<not> covers c h" if "covers ot h" for h
      using that by (auto simp: covers_def)
    with before wf Cons show ?thesis by auto
  next
    case inside
    then have "covers c h" if "covers ot h" for h
      using that by (auto simp: covers_def)
    with inside head Cons.prems show ?thesis by auto
  next
    case part
    let ?ot = "ot\<lparr>p_from := p_to c + 1\<rparr>"
    have succ: "p_to c + 1 \<le> h \<longleftrightarrow> p_to c < h" for h
      using part(3) by (rule word_succ_le_iff)
    have high: "covers ?ot h \<longleftrightarrow> covers ot h \<and> \<not> covers c h" for h
    proof -
      have "covers ?ot h \<longleftrightarrow> p_to c < h \<and> h \<le> p_to ot"
        by (simp add: covers_def succ)
      also have "\<dots> \<longleftrightarrow> covers ot h \<and> \<not> covers c h"
        unfolding covers_def using part by (meson le_less_trans less_imp_le not_le order.trans)
      finally show ?thesis .
    qed
    have at: "covers c (p_from ot)"
      using part by (simp add: covers_def)
    have "(\<forall>h. covers ot h \<longrightarrow> (\<exists>ofs. offset_at (c # cs) h = Some ofs \<and> p_offset ot \<le> ofs)) \<longleftrightarrow>
        p_offset ot \<le> p_offset c \<and>
        (\<forall>h. covers ?ot h \<longrightarrow> (\<exists>ofs. offset_at cs h = Some ofs \<and> p_offset ot \<le> ofs))"
      (is "?L \<longleftrightarrow> ?R")
    proof
      assume ?L
      with head at have "p_offset ot \<le> p_offset c" by auto
      moreover from \<open>?L\<close> have "\<exists>ofs. offset_at cs h = Some ofs \<and> p_offset ot \<le> ofs"
        if "covers ?ot h" for h
        using that high by fastforce
      ultimately show ?R by blast
    next
      assume ?R
      then show ?L using high by auto
    qed
    moreover have "faster_scan ?ot cs \<longleftrightarrow>
        (\<forall>h. covers ?ot h \<longrightarrow> (\<exists>ofs. offset_at cs h = Some ofs \<and> p_offset ot \<le> ofs))"
      using Cons.IH [OF wf(1), of ?ot] Cons.prems(3) succ part by simp
    moreover have "faster_scan ot (c # cs) \<longleftrightarrow> p_offset ot \<le> p_offset c \<and> faster_scan ?ot cs"
      using part Cons.prems(3) by auto
    ultimately show ?thesis by simp
  qed
qed

definition vec_ahead :: "progress_vector \<Rightarrow> progress_vector \<Rightarrow> bool" where
  "vec_ahead pv opv \<longleftrightarrow>
     (\<forall>h oo. offset_at opv h = Some oo \<longrightarrow> MIN_OFFSET < oo \<longrightarrow>
        (\<exists>ofs. offset_at pv h = Some ofs \<and> oo \<le> ofs))"

lemma vec_is_fully_faster_iff:
  assumes "wf_pv pv" "wf_pv opv" "pv \<noteq> []"
  shows "vec_is_fully_faster pv opv \<longleftrightarrow> vec_ahead pv opv"
proof -
  have scan: "faster_scan ot pv \<longleftrightarrow> (MIN_OFFSET < p_offset ot \<longrightarrow>
      (\<forall>h. covers ot h \<longrightarrow> (\<exists>ofs. offset_at pv h = Some ofs \<and> p_offset ot \<le> ofs)))"
    if "ot \<in> set opv" for ot
  proof (cases "MIN_OFFSET < p_offset ot")
    case True
    then show ?thesis
      using faster_scan_iff [OF assms(1) wf_pv_range [OF assms(2) that] True] by simp
  next
    case False
    with assms(3) show ?thesis by (cases pv) auto
  qed
  show ?thesis
    unfolding vec_is_fully_faster_def vec_ahead_def list_all_iff offset_at_Some_iff [OF assms(2)]
    by (simp add: scan cong: ball_cong) blast
qed

lemma vec_ahead_trans: "vec_ahead a b \<Longrightarrow> vec_ahead b c \<Longrightarrow> vec_ahead a c"
  unfolding vec_ahead_def by (meson less_le_trans order.trans)

lemma vec_ahead_refl: "vec_ahead a a"
  unfolding vec_ahead_def by blast

section \<open>Whole locators\<close>

definition locator_wf :: "locator \<Rightarrow> bool" where
  "locator_wf l \<longleftrightarrow> l_multiProgress l \<noteq> [] \<and>
     list_all (\<lambda>pv. pv \<noteq> [] \<and> wf_pv pv) (l_multiProgress l)"

definition min_sound :: "locator \<Rightarrow> bool" where
  "min_sound l \<longleftrightarrow> list_all (\<lambda>p. l_minOffset l \<le> p_offset p) (concat (l_multiProgress l))"

definition loc_offset :: "locator \<Rightarrow> nat \<Rightarrow> u32 \<Rightarrow> offset option" where
  "loc_offset l i h = offset_at (l_multiProgress l ! i) h"

definition loc_ahead :: "locator \<Rightarrow> locator \<Rightarrow> bool" where
  "loc_ahead l other \<longleftrightarrow> length (l_multiProgress l) = length (l_multiProgress other) \<and>
     (\<forall>i < length (l_multiProgress l). vec_ahead (l_multiProgress l ! i) (l_multiProgress other ! i))"

lemma locator_wf_nth:
  "locator_wf l \<Longrightarrow> i < length (l_multiProgress l) \<Longrightarrow>
   l_multiProgress l ! i \<noteq> [] \<and> wf_pv (l_multiProgress l ! i)"
  by (simp add: locator_wf_def list_all_length)

lemma is_fully_faster_than_iff:
  assumes "locator_wf l" "locator_wf other" "length (l_multiProgress l) = length (l_multiProgress other)"
  shows "is_fully_faster_than l other \<longleftrightarrow> loc_ahead l other"
  using assms
  by (auto simp: is_fully_faster_than_def loc_ahead_def list_all_length locator_wf_nth
      vec_is_fully_faster_iff)

lemma loc_ahead_trans: "loc_ahead a b \<Longrightarrow> loc_ahead b c \<Longrightarrow> loc_ahead a c"
  unfolding loc_ahead_def by (metis vec_ahead_trans)

lemma is_faster_than_fully_iff:
  assumes "locator_wf l" "locator_wf other"
  shows "is_faster_than l other False = LCR_FULLY_FASTER \<longleftrightarrow>
    l_src l = l_src other \<and>
    (locator_is_valid other \<longrightarrow> locator_is_valid l \<and> loc_ahead l other)"
  using is_fully_faster_than_iff [OF assms]
  by (auto simp: is_faster_than_def is_same_src_def loc_ahead_def)

lemma update_vecs_True:
  assumes "update_vecs cs us = (True, rs)" "length cs = length us"
    and "\<And>i. i < length cs \<Longrightarrow> wf_pv (cs ! i) \<and> wf_pv (us ! i) \<and> us ! i \<noteq> []"
  shows "length rs = length cs \<and> (\<forall>i < length cs. wf_pv (rs ! i) \<and> rs ! i \<noteq> [] \<and>
    (\<forall>h. offset_at (rs ! i) h = overriding (offset_at (us ! i) h) (offset_at (cs ! i) h) \<and>
         \<not> regress_at (cs ! i) (us ! i) h))"
  using assms
proof (induction cs us arbitrary: rs rule: update_vecs.induct)
  case (1 cur cs upd us)
  from "1.prems"(1) obtain r rs' where r: "update_progress_vec cur upd = Some r"
    and rs': "update_vecs cs us = (True, rs')" "rs = r # rs'"
    by (auto split: option.splits prod.splits)
  have wf: "wf_pv cur" "wf_pv upd" "upd \<noteq> []"
    using "1.prems"(3) [of 0] by auto
  have "length rs' = length cs \<and> (\<forall>i < length cs. wf_pv (rs' ! i) \<and> rs' ! i \<noteq> [] \<and>
    (\<forall>h. offset_at (rs' ! i) h = overriding (offset_at (us ! i) h) (offset_at (cs ! i) h) \<and>
         \<not> regress_at (cs ! i) (us ! i) h))"
    using "1.IH" [OF r rs'(1)] "1.prems"(2) "1.prems"(3) [of "Suc i" for i] by simp
  then show ?case
    using rs'(2) wf update_progress_vec_Some [OF wf(1,2) r]
    by (auto simp: nth_Cons less_Suc_eq_0_disj split: nat.split)
qed auto

section \<open>Documents\<close>

lemma doc_scan_eq:
  "doc_scan h ofs pv =
     (case offset_at pv h of None \<Rightarrow> LCR_SLOWER
      | Some o' \<Rightarrow> if o' > ofs then LCR_FULLY_FASTER else LCR_SLOWER)"
  by (induction pv) (auto simp: covers_def)

lemma is_faster_than_doc_fully_iff:
  "is_faster_than_doc l d = LCR_FULLY_FASTER \<longleftrightarrow>
     locator_is_valid l \<and> unat (d_sourceIdx d) < length (l_multiProgress l) \<and>
     (\<exists>ofs. loc_offset l (unat (d_sourceIdx d)) (ucast (d_hashId d)) = Some ofs \<and>
            get_progress_offset d < ofs)"
  by (auto simp: is_faster_than_doc_def doc_scan_eq loc_offset_def split: option.splits)

lemma locator_valid_if_offset:
  assumes "i < length (l_multiProgress l)" "loc_offset l i h = Some ofs" "MIN_OFFSET \<le> ofs"
  shows "locator_is_valid l"
proof -
  obtain p where "p \<in> set (l_multiProgress l ! i)" "p_offset p = ofs"
    using offset_at_D assms(2) by (metis loc_offset_def)
  then have "list_ex (list_ex (\<lambda>p. MIN_OFFSET \<le> p_offset p)) (l_multiProgress l)"
    using assms unfolding list_ex_iff by (metis nth_mem)
  then show ?thesis
    by (simp add: locator_is_valid_def)
qed

lemma locator_valid_offset:
  assumes wf: "locator_wf l" and "min_sound l" "locator_is_valid l"
  shows "\<exists>i h ofs. i < length (l_multiProgress l) \<and> loc_offset l i h = Some ofs \<and> MIN_OFFSET \<le> ofs"
proof -
  have "\<exists>i < length (l_multiProgress l). \<exists>p \<in> set (l_multiProgress l ! i). MIN_OFFSET \<le> p_offset p"
  proof (cases "MIN_OFFSET \<le> l_minOffset l")
    case True
    have "0 < length (l_multiProgress l)"
      using wf by (auto simp: locator_wf_def)
    moreover obtain p where "p \<in> set (l_multiProgress l ! 0)"
      using locator_wf_nth [OF wf calculation] by (cases "l_multiProgress l ! 0") auto
    moreover have "l_minOffset l \<le> p_offset p"
      using assms(2) calculation by (force simp: min_sound_def list_all_iff)
    ultimately show ?thesis
      using True order.trans by blast
  next
    case False
    then show ?thesis
      using assms(3) unfolding locator_is_valid_def list_ex_iff by (metis in_set_conv_nth)
  qed
  then obtain i p where i: "i < length (l_multiProgress l)" "p \<in> set (l_multiProgress l ! i)"
    "MIN_OFFSET \<le> p_offset p"
    by blast
  then have "loc_offset l i (p_from p) = Some (p_offset p)"
    using locator_wf_nth [OF wf i(1)] wf_pv_range
    by (auto simp: loc_offset_def offset_at_Some_iff covers_def)
  with i show ?thesis by blast
qed

section \<open>The effect of an update on a whole locator\<close>

lemma locator_update_same_src:
  assumes src: "l_src l = l_src other" and wf: "locator_wf l" "locator_wf other"
    and upd: "locator_update l other = (True, l')"
  shows "locator_wf l'" "length (l_multiProgress l') = length (l_multiProgress other)"
    "l_src l' = l_src other"
    "i < length (l_multiProgress other) \<Longrightarrow>
       loc_offset l' i h = overriding (loc_offset other i h) (loc_offset l i h)"
    "i < length (l_multiProgress other) \<Longrightarrow>
       \<not> regress_at (l_multiProgress l ! i) (l_multiProgress other ! i) h"
    "l_minOffset l' = foldl min_step INVALID_OFFSET (concat (l_multiProgress l'))"
proof -
  obtain mp where len: "length (l_multiProgress l) = length (l_multiProgress other)"
    and mp: "update_vecs (l_multiProgress l) (l_multiProgress other) = (True, mp)"
    and l': "l' = l\<lparr>l_multiProgress := mp, l_minOffset := foldl min_step INVALID_OFFSET (concat mp),
      l_userData := l_userData other\<rparr>"
    using upd src by (auto simp: locator_update_def split: if_splits prod.splits bool.splits)
  have "length mp = length (l_multiProgress l) \<and> (\<forall>i < length (l_multiProgress l).
      wf_pv (mp ! i) \<and> mp ! i \<noteq> [] \<and>
      (\<forall>h. offset_at (mp ! i) h = overriding (offset_at (l_multiProgress other ! i) h) (offset_at (l_multiProgress l ! i) h) \<and>
           \<not> regress_at (l_multiProgress l ! i) (l_multiProgress other ! i) h))"
    using len wf by (intro update_vecs_True [OF mp]) (auto simp: locator_wf_nth)
  then show "locator_wf l'" "length (l_multiProgress l') = length (l_multiProgress other)"
    "l_src l' = l_src other"
    "i < length (l_multiProgress other) \<Longrightarrow>
       loc_offset l' i h = overriding (loc_offset other i h) (loc_offset l i h)"
    "i < length (l_multiProgress other) \<Longrightarrow>
       \<not> regress_at (l_multiProgress l ! i) (l_multiProgress other ! i) h"
    "l_minOffset l' = foldl min_step INVALID_OFFSET (concat (l_multiProgress l'))"
    using len l' src wf(1) by (auto simp: locator_wf_def list_all_length loc_offset_def)
qed

lemma locator_update_ahead:
  assumes "l_src l = l_src other" "locator_wf l" "locator_wf other" "locator_update l other = (True, l')"
  shows "loc_ahead l' other"
  using locator_update_same_src [OF assms]
  by (auto simp: loc_ahead_def vec_ahead_def loc_offset_def overriding_def)

section \<open>Shrinking\<close>

lemma shrink_vec_correct:
  assumes "wf_pv pv" "f \<le> t"
  shows "wf_pv (shrink_vec f t pv)"
    "offset_at (shrink_vec f t pv) h = (if f \<le> h \<and> h \<le> t then offset_at pv h else None)"
  using assms(1)
proof (induction pv)
  case (Cons p ps)
  { case 1
    then show ?case
      using Cons.IH assms(2)
      by (auto simp: shrink_vec_def wf_pv_Cons max_def min_def)
  next
    case 2
    then show ?case
      using Cons.IH assms(2)
      by (auto simp: shrink_vec_def wf_pv_Cons covers_def max_def min_def) }
qed (simp_all add: shrink_vec_def)

end
