(* ===== verification/LocatorGuard.thy ===== *)
theory LocatorGuard
  imports LocatorCorrect
begin

text \<open>
  The locator as a checkpoint: the contract its clients rely on, as the locale \<open>checkpoint\<close>, the
  interpretation on \<open>locator_update\<close>, and the client \<^verbatim>\<open>ThreadSafeLocatorGuard\<close> of \<^verbatim>\<open>Locator.h\<close>,
  whose lock makes every call one step.  The properties of the locator that span several operations
  are stated here.
\<close>

section \<open>The checkpoint contract\<close>

locale checkpoint =
  fixes upd :: "'s \<Rightarrow> 's \<Rightarrow> bool \<times> 's"
    and ahead :: "'s \<Rightarrow> 's \<Rightarrow> bool"
    and inv :: "'s \<Rightarrow> bool"
  assumes ahead_refl: "inv s \<Longrightarrow> ahead s s"
    and ahead_trans: "ahead a b \<Longrightarrow> ahead b c \<Longrightarrow> ahead a c"
    and upd_inv: "inv s \<Longrightarrow> inv u \<Longrightarrow> inv (snd (upd s u))"
    and upd_keeps: "inv s \<Longrightarrow> inv u \<Longrightarrow> ahead (snd (upd s u)) s"
    and upd_reaches: "inv s \<Longrightarrow> inv u \<Longrightarrow> fst (upd s u) \<Longrightarrow> ahead (snd (upd s u)) u"
begin

lemma run_inv: "inv s \<Longrightarrow> \<forall>u \<in> set us. inv u \<Longrightarrow> inv (foldl (\<lambda>s u. snd (upd s u)) s us)"
  by (induction us arbitrary: s) (simp_all add: upd_inv)

lemma run_keeps:
  "inv s \<Longrightarrow> \<forall>u \<in> set us. inv u \<Longrightarrow> ahead (foldl (\<lambda>s u. snd (upd s u)) s us) s"
proof (induction us arbitrary: s)
  case (Cons u us)
  then show ?case
    using upd_inv [of s u] upd_keeps [of s u] ahead_trans by fastforce
qed (simp add: ahead_refl)

lemma run_reaches:
  assumes "inv s" "\<forall>u \<in> set (us @ u # vs). inv u" "fst (upd (foldl (\<lambda>s u. snd (upd s u)) s us) u)"
  shows "ahead (foldl (\<lambda>s u. snd (upd s u)) s (us @ u # vs)) u"
proof -
  let ?t = "foldl (\<lambda>s u. snd (upd s u)) s us"
  have t: "inv ?t"
    using assms by (intro run_inv) auto
  have "ahead (foldl (\<lambda>s u. snd (upd s u)) (snd (upd ?t u)) vs) (snd (upd ?t u))"
    using t assms by (intro run_keeps upd_inv) auto
  moreover have "ahead (snd (upd ?t u)) u"
    using t assms by (intro upd_reaches) auto
  ultimately show ?thesis
    using ahead_trans by auto
qed

end

section \<open>Locators of one source as checkpoints\<close>

text \<open>
  The invariant of the instance: the locators of source \<open>s\<close>, with any number of topics, well-formed, and with
  no range whose offset is still the sentinel \<^verbatim>\<open>INVALID_OFFSET\<close> (such a range may overwrite a real
  offset, see the header of the development).
\<close>

definition loc_inv :: "u64 \<Rightarrow> locator \<Rightarrow> bool" where
  "loc_inv s l \<longleftrightarrow> l_src l = s \<and> locator_wf l \<and>
     (\<forall>i < length (l_multiProgress l). \<forall>h. loc_offset l i h \<noteq> Some INVALID_OFFSET)"

lemma update_vecs_keeps:
  assumes "length cs = length us"
    and "\<And>i. i < length cs \<Longrightarrow> wf_pv (cs ! i) \<and> cs ! i \<noteq> [] \<and> wf_pv (us ! i) \<and> us ! i \<noteq> []"
    and "\<And>i h. i < length cs \<Longrightarrow> offset_at (cs ! i) h \<noteq> Some INVALID_OFFSET \<and>
      offset_at (us ! i) h \<noteq> Some INVALID_OFFSET"
  shows "length (snd (update_vecs cs us)) = length cs \<and> (\<forall>i < length cs.
    wf_pv (snd (update_vecs cs us) ! i) \<and> snd (update_vecs cs us) ! i \<noteq> [] \<and>
    vec_ahead (snd (update_vecs cs us) ! i) (cs ! i) \<and>
    (\<forall>h. offset_at (snd (update_vecs cs us) ! i) h \<noteq> Some INVALID_OFFSET))"
  using assms
proof (induction cs us rule: update_vecs.induct)
  case (1 cur cs upd us)
  have wf: "wf_pv cur" "wf_pv upd" "upd \<noteq> []"
    and real: "offset_at cur h \<noteq> Some INVALID_OFFSET" "offset_at upd h \<noteq> Some INVALID_OFFSET" for h
    using "1.prems"(2) [of 0] "1.prems"(3) [of 0] by auto
  show ?case
  proof (cases "update_progress_vec cur upd")
    case None
    with "1.prems" show ?thesis by (auto simp: vec_ahead_refl)
  next
    case (Some r)
    note r = update_progress_vec_Some [OF wf(1,2) Some]
    have "vec_ahead r cur"
      unfolding vec_ahead_def r(2) overriding_def
    proof (intro allI impI)
      fix h oo assume oo: "offset_at cur h = Some oo" "MIN_OFFSET < oo"
      show "\<exists>ofs. (case offset_at upd h of None \<Rightarrow> offset_at cur h | Some ofs \<Rightarrow> Some ofs) = Some ofs \<and>
          oo \<le> ofs"
        using r(3) [of h] real(2) [of h] oo
        by (cases "offset_at upd h") (auto simp: regress_at_def not_less)
    qed
    moreover have "offset_at r h \<noteq> Some INVALID_OFFSET" for h
      using real [of h] by (auto simp: r(2) overriding_def split: option.split)
    moreover have "r \<noteq> []"
      using r(4) wf(3) by simp
    moreover have ih: "length (snd (update_vecs cs us)) = length cs \<and> (\<forall>i < length cs.
        wf_pv (snd (update_vecs cs us) ! i) \<and> snd (update_vecs cs us) ! i \<noteq> [] \<and>
        vec_ahead (snd (update_vecs cs us) ! i) (cs ! i) \<and>
        (\<forall>h. offset_at (snd (update_vecs cs us) ! i) h \<noteq> Some INVALID_OFFSET))"
      using "1.IH" [OF Some] "1.prems"(1) "1.prems"(2,3) [of "Suc i" for i] by simp
    ultimately show ?thesis
      using Some r(1) by (auto simp: nth_Cons split: nat.split prod.split)
  qed
qed auto

lemma locator_update_keeps:
  assumes "loc_inv s l" "loc_inv s u"
  shows "loc_inv s (snd (locator_update l u)) \<and> loc_ahead (snd (locator_update l u)) l"
proof (cases "length (l_multiProgress l) = length (l_multiProgress u)")
  case False
  then show ?thesis
    using assms by (simp add: loc_inv_def locator_update_def loc_ahead_def vec_ahead_refl)
next
  case True
  let ?r = "snd (update_vecs (l_multiProgress l) (l_multiProgress u))"
  have "length ?r = length (l_multiProgress l) \<and> (\<forall>i < length (l_multiProgress l).
      wf_pv (?r ! i) \<and> ?r ! i \<noteq> [] \<and> vec_ahead (?r ! i) (l_multiProgress l ! i) \<and>
      (\<forall>h. offset_at (?r ! i) h \<noteq> Some INVALID_OFFSET))"
    using assms True by (intro update_vecs_keeps) (auto simp: loc_inv_def locator_wf_nth loc_offset_def)
  moreover have "l_multiProgress (snd (locator_update l u)) = ?r" "l_src (snd (locator_update l u)) = s"
    using assms True by (auto simp: loc_inv_def locator_update_def split: prod.splits bool.splits)
  ultimately show ?thesis
    using assms by (auto simp: loc_inv_def loc_ahead_def locator_wf_def list_all_length loc_offset_def)
qed

interpretation loc: checkpoint locator_update loc_ahead "loc_inv s"
proof unfold_locales
  show "loc_ahead l l" for l
    by (simp add: loc_ahead_def vec_ahead_refl)
  show "loc_ahead a b \<Longrightarrow> loc_ahead b c \<Longrightarrow> loc_ahead a c" for a b c
    by (rule loc_ahead_trans)
  show "loc_inv s (snd (locator_update l u))" "loc_ahead (snd (locator_update l u)) l"
    if "loc_inv s l" "loc_inv s u" for l u
    using locator_update_keeps [OF that] by auto
  show "loc_ahead (snd (locator_update l u)) u"
    if "loc_inv s l" "loc_inv s u" "fst (locator_update l u)" for l u
    using that by (intro locator_update_ahead [of l]) (auto simp: loc_inv_def prod_eq_iff)
qed

section \<open>The guard\<close>

record locator_guard =
  g_locator :: locator

definition guard_update :: "locator_guard \<Rightarrow> locator \<Rightarrow> locator_guard" where
  "guard_update g l = g\<lparr>g_locator := snd (locator_update (g_locator g) l)\<rparr>"

definition guard_set :: "locator_guard \<Rightarrow> locator \<Rightarrow> locator_guard" where
  "guard_set g l = g\<lparr>g_locator := l\<rparr>"

definition guard_get :: "locator_guard \<Rightarrow> locator" where
  "guard_get g = g_locator g"

lemma guard_updates_eq:
  "guard_get (foldl guard_update g us) = foldl (\<lambda>l u. snd (locator_update l u)) (guard_get g) us"
  by (induction us arbitrary: g) (simp_all add: guard_get_def guard_update_def)

section \<open>Properties\<close>

lemma is_faster_than_not_legacy:
  "(ign \<Longrightarrow> \<not> l_isLegacy l \<and> \<not> l_isLegacy other) \<Longrightarrow> is_faster_than l other ign = is_faster_than l other False"
  by (auto simp: is_faster_than_def is_same_src_def)

lemma locator_update_legacy:
  "l_src l = l_src other \<Longrightarrow> locator_update l other = (ok, l') \<Longrightarrow> l_isLegacy l' = l_isLegacy l"
  by (auto simp: locator_update_def split: if_splits prod.splits bool.splits)

definition pgs :: "u32 \<Rightarrow> u32 \<Rightarrow> u64 \<Rightarrow> progress" where
  "pgs f t ts = \<lparr>p_from = f, p_to = t, p_offset = Offset ts 0\<rparr>"

definition loc_ex :: "multi_progress \<Rightarrow> u64 \<Rightarrow> locator" where
  "loc_ex mp mn = \<lparr>l_src = 7, l_minOffset = Offset mn 0, l_multiProgress = mp, l_userData = [],
     l_isLegacy = False\<rparr>"

lemmas ex_simps = pgs_def loc_ex_def covers_def less_offset_def less_eq_offset_def
  INVALID_OFFSET_def MIN_OFFSET_def

text \<open>
  C4. \<^verbatim>\<open>UpdateProgressVec\<close> implements the pointwise update: on well-formed vectors a successful merge
  is again well-formed and reads, at every hash id, as the update where the update covers the id and as
  the old vector elsewhere, and no id moved to a smaller offset unless the update carried the sentinel;
  the merge is refused only if some id covered by both would move backwards.
\<close>

theorem update_progress_vec_refines:
  assumes "wf_pv cur" "wf_pv upd"
  shows "case update_progress_vec cur upd of
      Some r \<Rightarrow> wf_pv r \<and>
        (\<forall>h. offset_at r h = (case offset_at upd h of Some ofs \<Rightarrow> Some ofs | None \<Rightarrow> offset_at cur h)) \<and>
        (\<forall>h oc ou. offset_at cur h = Some oc \<and> offset_at upd h = Some ou \<longrightarrow>
           ou = INVALID_OFFSET \<or> oc \<le> ou)
    | None \<Rightarrow> (\<exists>h oc ou. offset_at cur h = Some oc \<and> offset_at upd h = Some ou \<and> ou < oc)"
proof (cases "update_progress_vec cur upd")
  case None
  with update_progress_vec_None [OF assms] show ?thesis
    by (auto simp: no_regress_def not_le)
next
  case (Some r)
  note r = update_progress_vec_Some [OF assms Some]
  show ?thesis
    using Some r(1,3) by (auto simp: r(2) overriding_def regress_at_def not_less split: option.split)
qed

theorem update_progress_vec_refines_witness:
  "wf_pv [pgs 0 99 5, pgs 100 199 7] \<and> wf_pv [pgs 50 149 9] \<and>
   (case update_progress_vec [pgs 0 99 5, pgs 100 199 7] [pgs 50 149 9] of
      Some r \<Rightarrow> wf_pv r \<and> (\<forall>h. offset_at r h =
        (case offset_at [pgs 50 149 9] h of Some ofs \<Rightarrow> Some ofs
         | None \<Rightarrow> offset_at [pgs 0 99 5, pgs 100 199 7] h))
    | None \<Rightarrow> False) "
proof -
  have wf: "wf_pv [pgs 0 99 5, pgs 100 199 7]" "wf_pv [pgs 50 149 9]"
    by (simp_all add: pgs_def)
  have "update_progress_vec [pgs 0 99 5, pgs 100 199 7] [pgs 50 149 9] =
      Some [pgs 0 49 5, pgs 50 149 9, pgs 150 199 7]"
    by code_simp
  then show ?thesis
    using wf update_progress_vec_refines [OF wf] by (simp only: option.case) simp
qed

text \<open>
  C11. \<^verbatim>\<open>IsFullyFasterThan\<close> decides the pointwise order: for well-formed locators over the same number
  of topics, the scan over ranges answers true exactly if every hash id that the other locator has
  consumed past \<^verbatim>\<open>MIN_OFFSET\<close> is covered here with an offset at least as large.
\<close>

theorem is_fully_faster_than_pointwise:
  assumes "locator_wf l" "locator_wf other" "length (l_multiProgress l) = length (l_multiProgress other)"
  shows "is_fully_faster_than l other \<longleftrightarrow>
    (\<forall>i < length (l_multiProgress l). \<forall>h oo. loc_offset other i h = Some oo \<longrightarrow> MIN_OFFSET < oo \<longrightarrow>
       (\<exists>ofs. loc_offset l i h = Some ofs \<and> oo \<le> ofs))"
  using is_fully_faster_than_iff [OF assms] assms(3)
  by (simp add: loc_ahead_def vec_ahead_def loc_offset_def)

theorem is_fully_faster_than_pointwise_witness:
  "is_fully_faster_than (loc_ex [[pgs 0 99 8, pgs 100 199 9]] 8) (loc_ex [[pgs 50 149 7]] 7) \<and>
   loc_offset (loc_ex [[pgs 50 149 7]] 7) 0 60 = Some (Offset 7 0) \<and>
   (\<exists>ofs. loc_offset (loc_ex [[pgs 0 99 8, pgs 100 199 9]] 8) 0 60 = Some ofs \<and> Offset 7 0 \<le> ofs)"
proof -
  have h: "locator_wf (loc_ex [[pgs 0 99 8, pgs 100 199 9]] 8)" "locator_wf (loc_ex [[pgs 50 149 7]] 7)"
    "length (l_multiProgress (loc_ex [[pgs 0 99 8, pgs 100 199 9]] 8)) =
     length (l_multiProgress (loc_ex [[pgs 50 149 7]] 7))"
    by (simp_all add: locator_wf_def pgs_def loc_ex_def)
  have f: "is_fully_faster_than (loc_ex [[pgs 0 99 8, pgs 100 199 9]] 8) (loc_ex [[pgs 50 149 7]] 7)"
    by code_simp
  have o: "loc_offset (loc_ex [[pgs 50 149 7]] 7) 0 60 = Some (Offset 7 0)" "MIN_OFFSET < Offset 7 0"
    "0 < length (l_multiProgress (loc_ex [[pgs 0 99 8, pgs 100 199 9]] 8))"
    by code_simp+
  show ?thesis
    using f o is_fully_faster_than_pointwise [OF h] by blast
qed

text \<open>
  C20. "Fully faster" is transitive on well-formed locators, those that are not valid included: if \<open>a\<close> is fully faster than
  \<open>b\<close> and \<open>b\<close> than \<open>c\<close>, then \<open>a\<close> is fully faster than \<open>c\<close>.  This is for comparisons without \<^verbatim>\<open>ignoreLegacyDiffSrc\<close>, and for
  comparisons with it where none of the three is a legacy locator.  (With it, a legacy locator in the middle may be
  compared with two sources that cannot be compared with each other.)
\<close>

theorem is_faster_than_trans:
  assumes "locator_wf a" "locator_wf b" "locator_wf c"
    and "ignoreLegacy \<Longrightarrow> \<not> l_isLegacy a \<and> \<not> l_isLegacy b \<and> \<not> l_isLegacy c"
    and "is_faster_than a b ignoreLegacy = LCR_FULLY_FASTER" "is_faster_than b c ignoreLegacy = LCR_FULLY_FASTER"
  shows "is_faster_than a c ignoreLegacy = LCR_FULLY_FASTER"
proof -
  have "is_faster_than x y ignoreLegacy = is_faster_than x y False" if "x \<in> {a, b, c}" "y \<in> {a, b, c}" for x y
    using assms(4) that by (intro is_faster_than_not_legacy) auto
  then show ?thesis
    using assms(1-3,5,6) loc_ahead_trans by (auto simp: is_faster_than_fully_iff)
qed

theorem is_faster_than_trans_witness:
  "is_faster_than (loc_ex [[pgs 0 99 8]] 8) (loc_ex [[pgs 0 99 7]] 7) True = LCR_FULLY_FASTER \<and>
   is_faster_than (loc_ex [[pgs 0 99 7]] 7) (loc_ex [[pgs 5 9 6]] 6) True = LCR_FULLY_FASTER \<and>
   is_faster_than (loc_ex [[pgs 0 99 8]] 8) (loc_ex [[pgs 5 9 6]] 6) True = LCR_FULLY_FASTER"
proof -
  have wf: "locator_wf (loc_ex [[pgs 0 99 8]] 8)" "locator_wf (loc_ex [[pgs 0 99 7]] 7)"
    "locator_wf (loc_ex [[pgs 5 9 6]] 6)"
    by (simp_all add: locator_wf_def pgs_def loc_ex_def)
  have n: "\<not> l_isLegacy (loc_ex [[pgs 0 99 8]] 8) \<and> \<not> l_isLegacy (loc_ex [[pgs 0 99 7]] 7) \<and> \<not> l_isLegacy (loc_ex [[pgs 5 9 6]] 6)"
    by (simp add: loc_ex_def)
  have f: "is_faster_than (loc_ex [[pgs 0 99 8]] 8) (loc_ex [[pgs 0 99 7]] 7) True = LCR_FULLY_FASTER"
    "is_faster_than (loc_ex [[pgs 0 99 7]] 7) (loc_ex [[pgs 5 9 6]] 6) True = LCR_FULLY_FASTER"
    by code_simp+
  show ?thesis
    using f is_faster_than_trans [OF wf n f] by blast
qed

text \<open>
  C18. What an accepted \<^verbatim>\<open>Update\<close> reports against the update: if both locators are well-formed, come from the same source,
  and the cached minimum offset of the update is not above any of its offsets, then the updated locator is well-formed and
  \<^verbatim>\<open>IsFasterThan\<close> gives fully faster than the update.  This is for comparisons without \<^verbatim>\<open>ignoreLegacyDiffSrc\<close>, and for
  comparisons with it where neither of the two is a legacy locator.  (With it and a legacy locator only the minimum
  offsets are compared, and that of the updated locator may be smaller.)
\<close>

theorem locator_update_fully_faster:
  assumes "l_src l = l_src other" "locator_wf l" "locator_wf other"
    and "\<forall>p \<in> set (concat (l_multiProgress other)). l_minOffset other \<le> p_offset p"
    and "locator_update l other = (True, l')" "ignoreLegacy \<Longrightarrow> \<not> l_isLegacy l \<and> \<not> l_isLegacy other"
  shows "locator_wf l' \<and> is_faster_than l' other ignoreLegacy = LCR_FULLY_FASTER"
proof -
  note u = locator_update_same_src [OF assms(1-3,5)]
  have ms: "min_sound other"
    using assms(4) by (simp add: min_sound_def list_all_iff)
  have "locator_is_valid l'" if valid: "locator_is_valid other"
  proof -
    obtain i h ofs where i: "i < length (l_multiProgress other)" "loc_offset other i h = Some ofs"
      "MIN_OFFSET \<le> ofs"
      using locator_valid_offset [OF assms(3) ms valid] by blast
    then have "loc_offset l' i h = Some ofs"
      using u(4) [OF i(1)] by (simp add: overriding_def)
    then show ?thesis
      using i u(2) locator_valid_if_offset [of i l'] by simp
  qed
  moreover have "is_faster_than l' other ignoreLegacy = is_faster_than l' other False"
    using assms(6) locator_update_legacy [OF assms(1,5)] by (intro is_faster_than_not_legacy) auto
  ultimately show ?thesis
    using u(1,3) assms(3) locator_update_ahead [OF assms(1-3,5)]
    by (simp add: is_faster_than_fully_iff)
qed

theorem locator_update_fully_faster_witness:
  "locator_update (loc_ex [[pgs 0 99 5]] 5) (loc_ex [[pgs 50 149 9]] 9) =
     (True, loc_ex [[pgs 0 49 5, pgs 50 149 9]] 5) \<and>
   is_faster_than (loc_ex [[pgs 0 49 5, pgs 50 149 9]] 5) (loc_ex [[pgs 50 149 9]] 9) True = LCR_FULLY_FASTER"
proof -
  have h: "l_src (loc_ex [[pgs 0 99 5]] 5) = l_src (loc_ex [[pgs 50 149 9]] 9)"
    "locator_wf (loc_ex [[pgs 0 99 5]] 5)" "locator_wf (loc_ex [[pgs 50 149 9]] 9)"
    "\<forall>p \<in> set (concat (l_multiProgress (loc_ex [[pgs 50 149 9]] 9))). l_minOffset (loc_ex [[pgs 50 149 9]] 9) \<le> p_offset p"
    by (simp_all add: locator_wf_def pgs_def loc_ex_def)
  have n: "\<not> l_isLegacy (loc_ex [[pgs 0 99 5]] 5) \<and> \<not> l_isLegacy (loc_ex [[pgs 50 149 9]] 9)"
    by (simp add: loc_ex_def)
  have u: "locator_update (loc_ex [[pgs 0 99 5]] 5) (loc_ex [[pgs 50 149 9]] 9) =
     (True, loc_ex [[pgs 0 49 5, pgs 50 149 9]] 5)"
    by code_simp
  show ?thesis
    using u locator_update_fully_faster [OF h u n] by blast
qed

text \<open>
  C19. No document is lost and none is consumed twice across an accepted update from the same source: for two well-formed
  locators of one source, neither with a range whose offset is the sentinel \<^verbatim>\<open>INVALID_OFFSET\<close>, the updated locator counts a
  document as consumed (\<^verbatim>\<open>IsFasterThan(docInfo)\<close> is fully faster) exactly if the old locator or the update did.  The
  document's own offset is not below \<^verbatim>\<open>MIN_OFFSET\<close>.  (An update from another source replaces the locator.)
\<close>

theorem locator_update_consumed_docs:
  assumes "loc_inv s l" "loc_inv s other" "locator_update l other = (True, l')"
    and "MIN_OFFSET \<le> get_progress_offset d"
  shows "is_faster_than_doc l' d = LCR_FULLY_FASTER \<longleftrightarrow>
    is_faster_than_doc l d = LCR_FULLY_FASTER \<or> is_faster_than_doc other d = LCR_FULLY_FASTER"
proof -
  let ?i = "unat (d_sourceIdx d)" and ?h = "ucast (d_hashId d) :: u32"
  have wf: "l_src l = l_src other" "locator_wf l" "locator_wf other"
    using assms by (auto simp: loc_inv_def)
  note u = locator_update_same_src [OF wf assms(3)]
  define n where "n = length (l_multiProgress other)"
  have len: "length (l_multiProgress l') = n" "length (l_multiProgress other) = n" "length (l_multiProgress l) = n"
    using u(2) wf(1) assms(3) by (simp_all add: n_def locator_update_def split: if_splits)
  have iff: "is_faster_than_doc x d = LCR_FULLY_FASTER \<longleftrightarrow>
      ?i < n \<and> (\<exists>ofs. loc_offset x ?i ?h = Some ofs \<and> get_progress_offset d < ofs)"
    if "length (l_multiProgress x) = n" for x
    using that assms(4) locator_valid_if_offset [of ?i x ?h]
    by (auto simp: is_faster_than_doc_fully_iff)
  show ?thesis
  proof (cases "?i < n")
    case True
    have "loc_offset l' ?i ?h = overriding (loc_offset other ?i ?h) (loc_offset l ?i ?h)"
      using u(4) True len(2) by simp
    moreover have "\<not> regress_at (l_multiProgress l ! ?i) (l_multiProgress other ! ?i) ?h"
      using u(5) True len(2) by simp
    moreover have "loc_offset other ?i ?h \<noteq> Some INVALID_OFFSET"
      using assms(2) True len(2) by (simp add: loc_inv_def)
    ultimately show ?thesis
      using len by (auto simp: iff regress_at_def loc_offset_def overriding_def split: option.splits)
  next
    case False
    then show ?thesis using len by (simp add: iff)
  qed
qed

definition doc_ex :: "u16 \<Rightarrow> u64 \<Rightarrow> doc_info" where
  "doc_ex h ts = \<lparr>d_timestamp = ts, d_concurrentIdx = 0, d_hashId = h, d_sourceIdx = 0\<rparr>"

lemma loc_inv_example: "loc_inv 7 (loc_ex [[pgs 0 99 5]] 5)" "loc_inv 7 (loc_ex [[pgs 50 149 9]] 9)"
  by (simp_all add: loc_inv_def locator_wf_def loc_offset_def pgs_def loc_ex_def INVALID_OFFSET_def)

theorem locator_update_consumed_docs_witness:
  "is_faster_than_doc (loc_ex [[pgs 0 49 5, pgs 50 149 9]] 5) (doc_ex 60 6) = LCR_FULLY_FASTER \<longleftrightarrow>
   is_faster_than_doc (loc_ex [[pgs 0 99 5]] 5) (doc_ex 60 6) = LCR_FULLY_FASTER \<or>
   is_faster_than_doc (loc_ex [[pgs 50 149 9]] 9) (doc_ex 60 6) = LCR_FULLY_FASTER"
proof -
  have u: "locator_update (loc_ex [[pgs 0 99 5]] 5) (loc_ex [[pgs 50 149 9]] 9) =
     (True, loc_ex [[pgs 0 49 5, pgs 50 149 9]] 5)"
    by code_simp
  have d: "MIN_OFFSET \<le> get_progress_offset (doc_ex 60 6)"
    by code_simp
  show ?thesis
    using locator_update_consumed_docs [OF loc_inv_example u d] .
qed

text \<open>
  C12. Updates of one source never move a guard back: a guard that holds a locator of source \<open>s\<close> and receives any sequence of
  updates of that source, with whatever numbers of topics, ends up ahead of where it started and of every update that it
  accepted, at every hash id, whatever updates were refused in between.  All the locators are well-formed, and none has a
  range whose offset is the sentinel \<^verbatim>\<open>INVALID_OFFSET\<close>.  (An update from another source replaces the locator, and a range
  with the sentinel may overwrite an offset.)
\<close>

theorem guard_updates_monotone:
  assumes "loc_inv s (guard_get g)" "\<forall>u \<in> set (us @ u # vs). loc_inv s u"
    and "fst (locator_update (guard_get (foldl guard_update g us)) u)"
  shows "loc_ahead (guard_get (foldl guard_update g (us @ u # vs))) u \<and>
    loc_ahead (guard_get (foldl guard_update g (us @ u # vs))) (guard_get g)"
  unfolding guard_updates_eq
  using loc.run_reaches [OF assms(1,2)] loc.run_keeps [OF assms(1,2)] assms(3)
  by (simp add: guard_updates_eq)

theorem guard_updates_monotone_witness:
  "loc_ahead (guard_get (foldl guard_update \<lparr>g_locator = loc_ex [[pgs 0 99 5]] 5\<rparr>
     ([] @ loc_ex [[pgs 50 149 9]] 9 # []))) (loc_ex [[pgs 50 149 9]] 9)"
proof -
  have h1: "loc_inv 7 (guard_get \<lparr>g_locator = loc_ex [[pgs 0 99 5]] 5\<rparr>)"
    using loc_inv_example by (simp add: guard_get_def)
  have h2: "\<forall>u \<in> set ([] @ loc_ex [[pgs 50 149 9]] 9 # []). loc_inv 7 u"
    using loc_inv_example by simp
  have h3: "fst (locator_update (guard_get (foldl guard_update \<lparr>g_locator = loc_ex [[pgs 0 99 5]] 5\<rparr> []))
      (loc_ex [[pgs 50 149 9]] 9))"
    by code_simp
  show ?thesis
    using guard_updates_monotone [OF h1 h2 h3] by blast
qed

text \<open>
  C21. \<^verbatim>\<open>ShrinkToRange\<close> never reads out of range on a well-formed locator; it succeeds exactly if every
  topic spans the range, and then reads as the restriction of the old progress to it; a refusal leaves
  the locator as it was.
\<close>

theorem shrink_to_range_restricts:
  assumes "locator_wf l" "f \<le> t"
  shows "case shrink_to_range l f t of
      None \<Rightarrow> False
    | Some (False, l') \<Rightarrow> l' = l \<and>
        (\<exists>pv \<in> set (l_multiProgress l). f < p_from (hd pv) \<or> p_to (last pv) < t)
    | Some (True, l') \<Rightarrow>
        (\<forall>pv \<in> set (l_multiProgress l). p_from (hd pv) \<le> f \<and> t \<le> p_to (last pv)) \<and>
        length (l_multiProgress l') = length (l_multiProgress l) \<and>
        (\<forall>i < length (l_multiProgress l). wf_pv (l_multiProgress l' ! i) \<and>
           (\<forall>h. loc_offset l' i h = (if f \<le> h \<and> h \<le> t then loc_offset l i h else None)))"
proof -
  have nonempty: "\<forall>pv \<in> set (l_multiProgress l). pv \<noteq> [] \<and> wf_pv pv"
    using assms(1) by (simp add: locator_wf_def list_all_iff)
  have "case shrink_vecs f t mp of
      None \<Rightarrow> False
    | Some None \<Rightarrow> (\<exists>pv \<in> set mp. f < p_from (hd pv) \<or> p_to (last pv) < t)
    | Some (Some mp') \<Rightarrow> (\<forall>pv \<in> set mp. p_from (hd pv) \<le> f \<and> t \<le> p_to (last pv)) \<and>
        mp' = map (shrink_vec f t) mp"
    if "\<forall>pv \<in> set mp. pv \<noteq> [] \<and> wf_pv pv" for mp
    using that
    by (induction mp)
      (auto simp: hd_conv_nth last_conv_nth not_less split: option.splits)
  from this [OF nonempty] show ?thesis
    using assms locator_wf_nth [OF assms(1)]
    by (auto simp: shrink_to_range_def loc_offset_def shrink_vec_correct split: option.splits)
qed

theorem shrink_to_range_restricts_witness:
  "locator_wf (loc_ex [[pgs 0 99 5, pgs 100 199 7]] 5) \<and>
   shrink_to_range (loc_ex [[pgs 0 99 5, pgs 100 199 7]] 5) 50 149 =
     Some (True, loc_ex [[pgs 50 99 5, pgs 100 149 7]] 5) \<and>
   loc_offset (loc_ex [[pgs 50 99 5, pgs 100 149 7]] 5) 0 40 = None"
proof -
  have h: "locator_wf (loc_ex [[pgs 0 99 5, pgs 100 199 7]] 5)" "(50::u32) \<le> 149"
    by (simp_all add: locator_wf_def pgs_def loc_ex_def)
  have e: "shrink_to_range (loc_ex [[pgs 0 99 5, pgs 100 199 7]] 5) 50 149 =
     Some (True, loc_ex [[pgs 50 99 5, pgs 100 149 7]] 5)"
    by code_simp
  from shrink_to_range_restricts [OF h] have "\<forall>i < 1. \<forall>h.
      loc_offset (loc_ex [[pgs 50 99 5, pgs 100 149 7]] 5) i h =
      (if 50 \<le> h \<and> h \<le> 149 then loc_offset (loc_ex [[pgs 0 99 5, pgs 100 199 7]] 5) i h else None)"
    unfolding e by (simp add: loc_ex_def)
  then have "loc_offset (loc_ex [[pgs 50 99 5, pgs 100 149 7]] 5) 0 40 = None"
    by simp
  with h e show ?thesis by blast
qed

lemma foldl_min_step:
  "m \<noteq> INVALID_OFFSET \<Longrightarrow> \<forall>p \<in> set ps. p_offset p \<noteq> INVALID_OFFSET \<Longrightarrow>
   foldl min_step m ps = foldl min m (map p_offset ps)"
proof (induction ps arbitrary: m)
  case (Cons p ps)
  then have "min m (p_offset p) \<noteq> INVALID_OFFSET"
    by (auto simp: min_def)
  with Cons show ?case by (simp add: min_step_def)
qed simp

lemma foldl_min_eq_Min: "foldl min m ms = Min (set (m # ms))" for m :: "'a::linorder"
proof (induction ms arbitrary: m)
  case (Cons x ms)
  show ?case
    unfolding foldl.simps Cons by (cases ms) (simp_all add: min.assoc)
qed simp

text \<open>
  After an accepted update whose result has no sentinel offset left, the cached minimum offset is
  the least offset of all ranges.
\<close>

theorem locator_update_min_offset:
  assumes "l_src l = l_src other" "locator_wf l" "locator_wf other" "locator_update l other = (True, l')"
    and "\<forall>p \<in> set (concat (l_multiProgress l')). p_offset p \<noteq> INVALID_OFFSET"
  shows "l_minOffset l' = Min (p_offset ` set (concat (l_multiProgress l')))"
proof -
  note u = locator_update_same_src [OF assms(1-4)]
  obtain p ps where c: "concat (l_multiProgress l') = p # ps"
    using u(1) by (cases "l_multiProgress l'") (auto simp: locator_wf_def neq_Nil_conv)
  have "l_minOffset l' = foldl min_step (p_offset p) ps"
    using u(6) c by (simp add: min_step_def)
  also have "\<dots> = foldl min (p_offset p) (map p_offset ps)"
    using assms(5) c by (intro foldl_min_step) auto
  also have "\<dots> = Min (p_offset ` set (p # ps))"
    by (simp add: foldl_min_eq_Min)
  finally show ?thesis unfolding c .
qed

theorem locator_update_min_offset_witness:
  "l_minOffset (loc_ex [[pgs 0 49 5, pgs 50 149 9]] 5) =
     Min (p_offset ` set (concat (l_multiProgress (loc_ex [[pgs 0 49 5, pgs 50 149 9]] 5))))"
proof -
  have h: "l_src (loc_ex [[pgs 0 99 5]] 5) = l_src (loc_ex [[pgs 50 149 9]] 9)"
    "locator_wf (loc_ex [[pgs 0 99 5]] 5)" "locator_wf (loc_ex [[pgs 50 149 9]] 9)"
    by (simp_all add: locator_wf_def pgs_def loc_ex_def)
  have u: "locator_update (loc_ex [[pgs 0 99 5]] 5) (loc_ex [[pgs 50 149 9]] 9) =
     (True, loc_ex [[pgs 0 49 5, pgs 50 149 9]] 5)"
    by code_simp
  have v: "\<forall>p \<in> set (concat (l_multiProgress (loc_ex [[pgs 0 49 5, pgs 50 149 9]] 5))).
      p_offset p \<noteq> INVALID_OFFSET"
    by (simp add: loc_ex_def pgs_def INVALID_OFFSET_def)
  show ?thesis
    by (rule locator_update_min_offset [OF h u v])
qed

lemma update_vecs_False:
  assumes "update_vecs cs us = (False, rs)" "length cs = length us"
  shows "\<exists>k < length cs. update_progress_vec (cs ! k) (us ! k) = None \<and>
    (\<forall>i < k. update_progress_vec (cs ! i) (us ! i) = Some (rs ! i)) \<and> (\<forall>i. k \<le> i \<longrightarrow> rs ! i = cs ! i)"
  using assms
proof (induction cs us arbitrary: rs rule: update_vecs.induct)
  case (1 cur cs upd us)
  show ?case
  proof (cases "update_progress_vec cur upd")
    case None
    then show ?thesis
      using "1.prems"(1) by (intro exI [of _ 0]) auto
  next
    case (Some r)
    obtain rs' where rs: "update_vecs cs us = (False, rs')" "rs = r # rs'"
      using "1.prems"(1) Some by (auto split: prod.splits)
    then obtain k where "k < length cs" "update_progress_vec (cs ! k) (us ! k) = None"
      "\<forall>i < k. update_progress_vec (cs ! i) (us ! i) = Some (rs' ! i)" "\<forall>i. k \<le> i \<longrightarrow> rs' ! i = cs ! i"
      using "1.IH" [OF Some rs(1)] "1.prems"(2) by auto
    then show ?thesis
      using Some rs(2) by (intro exI [of _ "Suc k"]) (auto simp: nth_Cons split: nat.split)
  qed
qed auto

text \<open>
  C24. A refused \<^verbatim>\<open>Update\<close> is not undone.  If two well-formed locators of the same source and the same number of topics are given
  and the update is refused, then it was refused at some topic \<open>k\<close>, of which a hash id would move back: the topics before
  \<open>k\<close> have been overwritten as by an accepted update, those from \<open>k\<close> on are as before, and so are the cached minimum offset
  and the user data.
\<close>

theorem refused_update_is_not_atomic:
  assumes "l_src l = l_src other" "locator_wf l" "locator_wf other"
    "length (l_multiProgress l) = length (l_multiProgress other)" "locator_update l other = (False, l')"
  shows "\<exists>k < length (l_multiProgress l).
    (\<exists>h oc ou. loc_offset l k h = Some oc \<and> loc_offset other k h = Some ou \<and> ou < oc) \<and>
    (\<forall>i < k. \<forall>h. loc_offset l' i h = (case loc_offset other i h of Some ofs \<Rightarrow> Some ofs | None \<Rightarrow> loc_offset l i h)) \<and>
    (\<forall>i. k \<le> i \<longrightarrow> l_multiProgress l' ! i = l_multiProgress l ! i) \<and>
    l' = l\<lparr>l_multiProgress := l_multiProgress l'\<rparr>"
proof -
  obtain mp where mp: "update_vecs (l_multiProgress l) (l_multiProgress other) = (False, mp)" "l' = l\<lparr>l_multiProgress := mp\<rparr>"
    using assms(1,4,5) by (auto simp: locator_update_def split: prod.splits bool.splits)
  obtain k where k: "k < length (l_multiProgress l)" "update_progress_vec (l_multiProgress l ! k) (l_multiProgress other ! k) = None"
    "\<forall>i < k. update_progress_vec (l_multiProgress l ! i) (l_multiProgress other ! i) = Some (mp ! i)"
    "\<forall>i. k \<le> i \<longrightarrow> mp ! i = l_multiProgress l ! i"
    using update_vecs_False [OF mp(1) assms(4)] by blast
  have wf: "wf_pv (l_multiProgress l ! i)" "wf_pv (l_multiProgress other ! i)" if "i \<le> k" for i
    using that k(1) assms(4) locator_wf_nth [OF assms(2)] locator_wf_nth [OF assms(3)] by auto
  have "\<exists>h oc ou. loc_offset l k h = Some oc \<and> loc_offset other k h = Some ou \<and> ou < oc"
    using update_progress_vec_None [OF wf(1) [OF order.refl] wf(2) [OF order.refl] k(2)] by (auto simp: no_regress_def not_le loc_offset_def)
  moreover have "loc_offset l' i h = (case loc_offset other i h of Some ofs \<Rightarrow> Some ofs | None \<Rightarrow> loc_offset l i h)" if "i < k" for i h
    using update_progress_vec_Some(2) [OF wf(1) [of i] wf(2) [of i], of "mp ! i" h] that k(3)
    by (simp add: loc_offset_def mp(2) overriding_def split: option.split)
  ultimately show ?thesis
    using k(1,4) mp(2) by auto
qed

theorem refused_update_is_not_atomic_witness:
  "\<exists>l'. locator_update (loc_ex [[pgs 0 99 5], [pgs 0 99 5]] 5) (loc_ex [[pgs 0 99 9], [pgs 0 99 3]] 3) = (False, l') \<and>
     (\<exists>k < 2. \<forall>i. k \<le> i \<longrightarrow> l_multiProgress l' ! i = [[pgs 0 99 5], [pgs 0 99 5]] ! i) \<and> l_minOffset l' = Offset 5 0"
proof -
  let ?l = "loc_ex [[pgs 0 99 5], [pgs 0 99 5]] 5" and ?u = "loc_ex [[pgs 0 99 9], [pgs 0 99 3]] 3"
    and ?l' = "loc_ex [[pgs 0 99 9], [pgs 0 99 5]] 5"
  have h: "l_src ?l = l_src ?u" "locator_wf ?l" "locator_wf ?u" "length (l_multiProgress ?l) = length (l_multiProgress ?u)"
    by (simp_all add: locator_wf_def pgs_def loc_ex_def)
  have u: "locator_update ?l ?u = (False, ?l')"
    by code_simp
  have "l_multiProgress ?l = [[pgs 0 99 5], [pgs 0 99 5]]" "l_minOffset ?l' = Offset 5 0" "length (l_multiProgress ?l) = 2"
    by (simp_all add: loc_ex_def)
  then show ?thesis
    using u refused_update_is_not_atomic [OF h u] by metis
qed

end
