(* ===== verification/LocatorCodec.thy ===== *)
theory LocatorCodec
  imports Locator
begin

text \<open>
  The byte layout of a locator: \<^verbatim>\<open>Serialize\<close>, \<^verbatim>\<open>SerializeV0\<close>, \<^verbatim>\<open>SerializeV1\<close>, \<^verbatim>\<open>Deserialize\<close> and its
  helpers, \<^verbatim>\<open>Size\<close>, \<^verbatim>\<open>ProgressSize\<close> and \<^verbatim>\<open>calculateSerializeVersion\<close> of \<^verbatim>\<open>Locator.cpp\<close>.

  A reader is a function from the bytes left to a value and the bytes after it; \<open>None\<close> is a read past
  the end.  \<open>des_result\<close> separates a return from the exception of \<^verbatim>\<open>std::vector::resize\<close> on a count
  beyond \<^verbatim>\<open>max_size\<close> (allocation failure below that bound is not modelled).  Writing is that of a build without
  assertions: \<^verbatim>\<open>SerializeV0\<close> asserts that there is one topic, and writes an empty progress where there is none.
\<close>

definition MAGIC_NUMBER :: u32 where "MAGIC_NUMBER = -502344248"
definition LOCATOR_DEFAULT_VERSION :: nat where "LOCATOR_DEFAULT_VERSION = 0"
definition LOCATOR_SUBOFFSET_VERSION :: nat where "LOCATOR_SUBOFFSET_VERSION = 1"

definition calculate_serialize_version :: "locator \<Rightarrow> nat" where
  "calculate_serialize_version l =
     (if length (l_multiProgress l) > 1 then LOCATOR_SUBOFFSET_VERSION
      else if offset_second (l_minOffset l) > 0 then LOCATOR_SUBOFFSET_VERSION
      else if list_ex (list_ex (\<lambda>p. offset_second (p_offset p) > 0)) (l_multiProgress l)
        then LOCATOR_SUBOFFSET_VERSION
      else LOCATOR_DEFAULT_VERSION)"

definition user_data_size :: "nat \<Rightarrow> nat" where
  "user_data_size len = (if len = 0 then 0 else 8 + len)"

definition progress_size :: "locator \<Rightarrow> nat \<Rightarrow> nat" where
  "progress_size l count =
     (let v = calculate_serialize_version l
      in (if v \<ge> LOCATOR_DEFAULT_VERSION then (4 + 4 + 8) * count else 0) +
         (if v \<ge> LOCATOR_SUBOFFSET_VERSION then 8 + 4 * count else 0))"

definition locator_size :: "locator \<Rightarrow> nat" where
  "locator_size l =
     8 + 8 + 8 + user_data_size (length (l_userData l)) +
     sum_list (map (\<lambda>pv. progress_size l (length pv)) (l_multiProgress l)) +
     (if calculate_serialize_version l = LOCATOR_SUBOFFSET_VERSION then 4 + 4 + 4 else 0)"

definition write_progress_v0 :: "progress \<Rightarrow> bytes" where
  "write_progress_v0 p =
     write_u64 (offset_first (p_offset p)) @ write_u32 (p_from p) @ write_u32 (p_to p)"

definition write_progress_v1 :: "progress \<Rightarrow> bytes" where
  "write_progress_v1 p =
     write_u64 (offset_first (p_offset p)) @ write_u32 (offset_second (p_offset p)) @
     write_u32 (p_from p) @ write_u32 (p_to p)"

definition write_user_data :: "bytes \<Rightarrow> bytes" where
  "write_user_data ud = (if ud \<noteq> [] then write_u64 (word_of_nat (length ud)) @ ud else [])"

definition serialize_v0 :: "locator \<Rightarrow> bytes" where
  "serialize_v0 l =
     write_u64 (l_src l) @ write_u64 (offset_first (l_minOffset l)) @
     (if l_multiProgress l = [] then write_u64 0
      else write_u64 (word_of_nat (length (l_multiProgress l ! 0))) @
           concat (map write_progress_v0 (l_multiProgress l ! 0))) @
     write_user_data (l_userData l)"

definition serialize_v1 :: "locator \<Rightarrow> bytes" where
  "serialize_v1 l =
     write_u64 (l_src l) @ write_u32 MAGIC_NUMBER @
     write_u32 (word_of_nat LOCATOR_SUBOFFSET_VERSION) @
     write_u64 (offset_first (l_minOffset l)) @ write_u32 (offset_second (l_minOffset l)) @
     write_u64 (word_of_nat (length (l_multiProgress l))) @
     concat (map (\<lambda>pv. write_u64 (word_of_nat (length pv)) @ concat (map write_progress_v1 pv))
       (l_multiProgress l)) @
     write_user_data (l_userData l)"

definition serialize :: "locator \<Rightarrow> bytes" where
  "serialize l =
     (let v = calculate_serialize_version l
      in if v = 0 then serialize_v0 l else if v = 1 then serialize_v1 l else [])"

section \<open>Reading\<close>

datatype des_result = DesThrow | DesReturn bool locator

text \<open>The loop of \<^verbatim>\<open>DeserializeProgressV0\<close> over the announced number of progresses.\<close>

fun read_progress_v0 :: "offset \<Rightarrow> nat \<Rightarrow> bytes \<Rightarrow> (progress_vector \<times> bytes) option" where
  "read_progress_v0 mn 0 bs = Some ([], bs)"
| "read_progress_v0 mn (Suc k) bs =
     (case read_u64 bs of None \<Rightarrow> None | Some (ts, bs1) \<Rightarrow>
      (case read_u32 bs1 of None \<Rightarrow> None | Some (fr, bs2) \<Rightarrow>
       (case read_u32 bs2 of None \<Rightarrow> None | Some (t, bs3) \<Rightarrow>
        (let p = default_progress\<lparr>p_from := fr, p_to := t,
                   p_offset := Offset ts (offset_second (p_offset default_progress))\<rparr>
         in if p_offset p < mn \<or> p_from p > 65535 \<or> p_to p > 65535 then None
            else map_option (\<lambda>(ps, r). (p # ps, r)) (read_progress_v0 mn k bs3)))))"

definition deserialize_progress_v0 :: "offset \<Rightarrow> bytes \<Rightarrow> (progress_vector \<times> bytes) option" where
  "deserialize_progress_v0 mn bs =
     (case read_u64 bs of
        None \<Rightarrow> None
      | Some (cnt, bs1) \<Rightarrow> if cnt > 65535 then None else read_progress_v0 mn (unat cnt) bs1)"

definition read_user_data :: "locator \<Rightarrow> bytes \<Rightarrow> locator option" where
  "read_user_data l bs =
     (if bs = [] then Some l
      else case read_u64 bs of
        None \<Rightarrow> None
      | Some (len, bs1) \<Rightarrow>
          if length bs1 \<noteq> unat len then None
          else Some (if len > 0 then l\<lparr>l_userData := l_userData l @ bs1\<rparr> else l))"

definition deserialize_v0 :: "locator \<Rightarrow> bytes \<Rightarrow> locator option" where
  "deserialize_v0 l bs =
     (case read_u64 bs of
        None \<Rightarrow> None
      | Some (ts, bs1) \<Rightarrow>
          (let mn = Offset ts (offset_second (l_minOffset l)); l1 = l\<lparr>l_minOffset := mn\<rparr>;
               single = \<lparr>p_from = 0, p_to = 65535, p_offset = mn\<rparr>
           in if bs1 = [] then Some (l1\<lparr>l_isLegacy := True, l_multiProgress := [[single]]\<rparr>)
              else case deserialize_progress_v0 mn bs1 of
                None \<Rightarrow> Some (l1\<lparr>l_multiProgress := [[single]], l_userData := l_userData l1 @ bs1,
                                l_isLegacy := True\<rparr>)
              | Some (pv, bs2) \<Rightarrow> read_user_data (l1\<lparr>l_multiProgress := [pv]\<rparr>) bs2))"

fun read_progress_v1 :: "offset \<Rightarrow> nat \<Rightarrow> bytes \<Rightarrow> (progress_vector \<times> bytes) option" where
  "read_progress_v1 mn 0 bs = Some ([], bs)"
| "read_progress_v1 mn (Suc k) bs =
     (case read_u64 bs of None \<Rightarrow> None | Some (ts, bs1) \<Rightarrow>
      (case read_u32 bs1 of None \<Rightarrow> None | Some (sub, bs2) \<Rightarrow>
       (case read_u32 bs2 of None \<Rightarrow> None | Some (fr, bs3) \<Rightarrow>
        (case read_u32 bs3 of None \<Rightarrow> None | Some (t, bs4) \<Rightarrow>
         (let p = \<lparr>p_from = fr, p_to = t, p_offset = Offset ts sub\<rparr>
          in if p_offset p < mn \<or> sint ts < -1 \<or> p_from p > 65535 \<or> p_to p > 65535 then None
             else map_option (\<lambda>(ps, r). (p # ps, r)) (read_progress_v1 mn k bs4))))))"

fun read_vecs_v1 :: "offset \<Rightarrow> nat \<Rightarrow> bytes \<Rightarrow> (multi_progress \<times> bytes) option" where
  "read_vecs_v1 mn 0 bs = Some ([], bs)"
| "read_vecs_v1 mn (Suc k) bs =
     (case read_u64 bs of None \<Rightarrow> None | Some (cnt, bs1) \<Rightarrow>
      (case read_progress_v1 mn (unat cnt) bs1 of None \<Rightarrow> None | Some (pv, bs2) \<Rightarrow>
       map_option (\<lambda>(pvs, r). (pv # pvs, r)) (read_vecs_v1 mn k bs2)))"

text \<open>\<^verbatim>\<open>max_size\<close> of a \<^verbatim>\<open>std::vector<ProgressVector>\<close>: \<^verbatim>\<open>PTRDIFF_MAX / sizeof(ProgressVector)\<close>.\<close>

definition vector_max_size :: nat where
  "vector_max_size = (2 ^ 63 - 1) div 24"

datatype 'a or_throw = Throws | Returns 'a

definition deserialize_v1 :: "locator \<Rightarrow> bytes \<Rightarrow> locator option or_throw" where
  "deserialize_v1 l bs =
     (case read_u64 bs of None \<Rightarrow> Returns None | Some (ts, bs1) \<Rightarrow>
      (case read_u32 bs1 of None \<Rightarrow> Returns None | Some (sub, bs2) \<Rightarrow>
       (case read_u64 bs2 of None \<Rightarrow> Returns None | Some (cnt, bs3) \<Rightarrow>
        (let mn = Offset ts sub; l1 = l\<lparr>l_minOffset := mn\<rparr>
         in if sint ts < -1 then Returns None
            else if unat cnt > vector_max_size then Throws
            else Returns
              (case read_vecs_v1 mn (unat cnt) bs3 of
                 None \<Rightarrow> None
               | Some (mp, bs4) \<Rightarrow> read_user_data (l1\<lparr>l_multiProgress := mp\<rparr>) bs4)))))"

definition des_return :: "locator \<Rightarrow> locator option \<Rightarrow> des_result" where
  "des_return l r = (case r of None \<Rightarrow> DesReturn False (locator_reset l) | Some l' \<Rightarrow> DesReturn True l')"

definition deserialize :: "locator \<Rightarrow> bytes \<Rightarrow> des_result" where
  "deserialize l bs =
     (let l0 = locator_reset l
      in case read_u64 bs of
           None \<Rightarrow> DesReturn False l0
         | Some (src, bs1) \<Rightarrow>
             (let l1 = l0\<lparr>l_src := src\<rparr>
              in case read_u32 bs1 of
                   None \<Rightarrow> DesReturn False l0
                 | Some (magic, bs2) \<Rightarrow>
                     if magic \<noteq> MAGIC_NUMBER then des_return l1 (deserialize_v0 l1 bs1)
                     else
                       (case (case read_u32 bs2 of None \<Rightarrow> (0, bs2) | Some r \<Rightarrow> r) of
                          (locatorType, bs3) \<Rightarrow>
                            if locatorType = word_of_nat LOCATOR_SUBOFFSET_VERSION then
                              (case deserialize_v1 l1 bs3 of
                                 Throws \<Rightarrow> DesThrow
                               | Returns r \<Rightarrow> des_return l1 r)
                            else DesReturn False l1)))"

section \<open>Round trips\<close>

text \<open>What a progress must satisfy for the reader of the two layouts to accept it.\<close>

definition progress_ok :: "offset \<Rightarrow> progress \<Rightarrow> bool" where
  "progress_ok mn p \<longleftrightarrow> mn \<le> p_offset p \<and> p_from p \<le> 65535 \<and> p_to p \<le> 65535"

definition codec_ok :: "locator \<Rightarrow> bool" where
  "codec_ok l \<longleftrightarrow>
     list_all (\<lambda>pv. length pv \<le> 65535 \<and> list_all (progress_ok (l_minOffset l)) pv) (l_multiProgress l) \<and>
     length (l_userData l) < 2 ^ 64 \<and>
     (if calculate_serialize_version l = LOCATOR_DEFAULT_VERSION then length (l_multiProgress l) = 1
      else length (l_multiProgress l) \<le> vector_max_size \<and> -1 \<le> sint (offset_first (l_minOffset l)))"

text \<open>
  The old layout has the minimal offset where the new one has the magic number, so that the reader takes the one for the
  other if the low half of the offset is the magic number; the high half is then the version.
\<close>

definition magic_clash :: "locator \<Rightarrow> bool" where
  "magic_clash l \<longleftrightarrow> calculate_serialize_version l = LOCATOR_DEFAULT_VERSION \<and>
     (ucast (offset_first (l_minOffset l)) :: u32) = MAGIC_NUMBER"

lemma unat_of_nat_small: "n < 2 ^ 64 \<Longrightarrow> unat (word_of_nat n :: u64) = n"
  by (simp add: unat_of_nat)

lemma offset_le_first: "a \<le> b \<Longrightarrow> sint (offset_first a) \<le> sint (offset_first b)"
  by (auto simp: less_eq_offset_def)

lemma read_write_progress_v0:
  assumes "list_all (progress_ok mn) pv" "\<forall>p \<in> set pv. offset_second (p_offset p) = 0"
  shows "read_progress_v0 mn (length pv) (concat (map write_progress_v0 pv) @ bs) = Some (pv, bs)"
  using assms
proof (induction pv)
  case Nil
  show ?case by simp
next
  case (Cons p pv)
  have "Offset (offset_first (p_offset p)) 0 = p_offset p"
    using Cons.prems(2) by (cases "p_offset p") simp
  with Cons show ?case
    by (simp add: write_progress_v0_def default_progress_def progress_of_offset_def
        INVALID_OFFSET_def progress_ok_def Let_def not_less)
qed

lemma read_write_progress_v1:
  assumes "list_all (progress_ok mn) pv" "-1 \<le> sint (offset_first mn)"
  shows "read_progress_v1 mn (length pv) (concat (map write_progress_v1 pv) @ bs) = Some (pv, bs)"
  using assms
proof (induction pv)
  case Nil
  show ?case by simp
next
  case (Cons p pv)
  have "\<not> sint (offset_first (p_offset p)) < -1"
    using Cons.prems offset_le_first [of mn "p_offset p"] by (simp add: progress_ok_def)
  with Cons show ?case
    by (simp add: write_progress_v1_def progress_ok_def Let_def not_less)
qed

lemma read_write_vecs_v1:
  assumes "list_all (\<lambda>pv. length pv \<le> 65535 \<and> list_all (progress_ok mn) pv) mp"
    "-1 \<le> sint (offset_first mn)"
  shows "read_vecs_v1 mn (length mp)
     (concat (map (\<lambda>pv. write_u64 (word_of_nat (length pv)) @ concat (map write_progress_v1 pv)) mp) @ bs)
     = Some (mp, bs)"
  using assms
  by (induction mp) (simp_all add: unat_of_nat_small read_write_progress_v1)

lemma read_write_user_data:
  assumes "length ud < 2 ^ 64" "l_userData l = []"
  shows "read_user_data l (write_user_data ud) = Some (l\<lparr>l_userData := ud\<rparr>)"
proof (cases "ud = []")
  case True
  with assms show ?thesis by (simp add: read_user_data_def write_user_data_def)
next
  case False
  have n: "unat (word_of_nat (length ud) :: u64) = length ud"
    using assms(1) by (rule unat_of_nat_small)
  then have "(word_of_nat (length ud) :: u64) > 0"
    using False by (simp add: word_less_nat_alt)
  moreover have "write_u64 w @ ud \<noteq> []" for w
    using False by simp
  ultimately show ?thesis
    using False assms(2) n by (simp add: read_user_data_def write_user_data_def)
qed

lemma version_0_sub_offsets:
  assumes "calculate_serialize_version l = LOCATOR_DEFAULT_VERSION"
  shows "offset_second (l_minOffset l) = 0"
    and "pv \<in> set (l_multiProgress l) \<Longrightarrow> p \<in> set pv \<Longrightarrow> offset_second (p_offset p) = 0"
    and "length (l_multiProgress l) \<le> 1"
  using assms
  by (auto simp: calculate_serialize_version_def LOCATOR_DEFAULT_VERSION_def
      LOCATOR_SUBOFFSET_VERSION_def list_ex_iff word_gt_0 split: if_splits)

lemma version_cases:
  "calculate_serialize_version l = LOCATOR_DEFAULT_VERSION \<or>
   calculate_serialize_version l = LOCATOR_SUBOFFSET_VERSION"
  by (simp add: calculate_serialize_version_def)

lemma serialize_v0_round_trip:
  assumes ok: "codec_ok l" "\<not> magic_clash l" and v: "calculate_serialize_version l = LOCATOR_DEFAULT_VERSION"
  shows "deserialize l0 (serialize_v0 l) = DesReturn True (l\<lparr>l_isLegacy := l_isLegacy l0\<rparr>)"
proof -
  obtain pv where mp: "l_multiProgress l = [pv]"
    using ok v by (auto simp: codec_ok_def length_Suc_conv)
  have mn: "Offset (offset_first (l_minOffset l)) 0 = l_minOffset l"
    using version_0_sub_offsets(1) [OF v] by (cases "l_minOffset l") simp
  have pv: "length pv \<le> 65535" "list_all (progress_ok (l_minOffset l)) pv"
    "\<forall>p \<in> set pv. offset_second (p_offset p) = 0"
    using ok mp version_0_sub_offsets(2) [OF v, of pv] by (auto simp: codec_ok_def)
  have cnt: "unat (word_of_nat (length pv) :: u64) = length pv"
    "\<not> (word_of_nat (length pv) :: u64) > 65535"
    using pv(1) by (simp_all add: unat_of_nat_small word_less_nat_alt)
  have rd: "deserialize_progress_v0 (l_minOffset l)
      (write_u64 (word_of_nat (length pv)) @ concat (map write_progress_v0 pv) @ bs) = Some (pv, bs)" for bs
    using cnt read_write_progress_v0 [OF pv(2,3)] by (simp add: deserialize_progress_v0_def)
  have ne: "write_u64 w \<noteq> []" for w
    using length_write(1) [of w] by (cases "write_u64 w") auto
  show ?thesis
    using ok v mp mn rd ne
    by (simp add: serialize_v0_def deserialize_def deserialize_v0_def Let_def locator_reset_def
        codec_ok_def magic_clash_def des_return_def INVALID_OFFSET_def read_write_user_data)
qed

lemma deserialize_unknown_version:
  assumes "v \<noteq> word_of_nat LOCATOR_SUBOFFSET_VERSION"
  shows "deserialize l (write_u64 src @ write_u32 MAGIC_NUMBER @ write_u32 v @ bs) =
    DesReturn False ((locator_reset l)\<lparr>l_src := src\<rparr>)"
  using assms by (simp add: deserialize_def Let_def)

lemma serialize_v0_magic:
  assumes "magic_clash l" "(ucast (drop_bit 32 (offset_first (l_minOffset l))) :: u32) \<noteq> 1"
  shows "deserialize l0 (serialize_v0 l) = DesReturn False ((locator_reset l0)\<lparr>l_src := l_src l\<rparr>)"
proof -
  let ?w = "offset_first (l_minOffset l)"
  have "write_u64 ?w = write_u32 MAGIC_NUMBER @ write_u32 (ucast (drop_bit 32 ?w))"
    using assms(1) by (simp add: write_u64_halves magic_clash_def)
  then show ?thesis
    using assms(2) deserialize_unknown_version [of "ucast (drop_bit 32 ?w)" l0 "l_src l"]
    by (simp add: serialize_v0_def LOCATOR_SUBOFFSET_VERSION_def)
qed

lemma serialize_v1_round_trip:
  assumes ok: "codec_ok l" and v: "calculate_serialize_version l = LOCATOR_SUBOFFSET_VERSION"
  shows "deserialize l0 (serialize_v1 l) = DesReturn True (l\<lparr>l_isLegacy := l_isLegacy l0\<rparr>)"
proof -
  have h: "list_all (\<lambda>pv. length pv \<le> 65535 \<and> list_all (progress_ok (l_minOffset l)) pv) (l_multiProgress l)"
    "length (l_multiProgress l) \<le> vector_max_size" "-1 \<le> sint (offset_first (l_minOffset l))"
    "length (l_userData l) < 2 ^ 64"
    using ok v by (auto simp: codec_ok_def LOCATOR_DEFAULT_VERSION_def LOCATOR_SUBOFFSET_VERSION_def)
  have cnt: "unat (word_of_nat (length (l_multiProgress l)) :: u64) = length (l_multiProgress l)"
    using h(2) by (intro unat_of_nat_small) (simp add: vector_max_size_def)
  show ?thesis
    using h cnt
    by (simp add: serialize_v1_def deserialize_def deserialize_v1_def Let_def locator_reset_def
        des_return_def read_write_user_data read_write_vecs_v1 not_less)
qed

section \<open>Sizes and the range of the reader\<close>

lemma length_write_progress [simp]:
  "length (write_progress_v0 p) = 16" "length (write_progress_v1 p) = 20"
  by (simp_all add: write_progress_v0_def write_progress_v1_def)

lemma length_concat_progress:
  "length (concat (map write_progress_v0 pv)) = 16 * length pv"
  "length (concat (map write_progress_v1 pv)) = 20 * length pv"
  by (induction pv) simp_all

lemma length_write_user_data: "length (write_user_data ud) = user_data_size (length ud)"
  by (simp add: write_user_data_def user_data_size_def)

text \<open>What the readers accept: no progress behind the minimal offset, ranges within 16 bits.\<close>

lemma read_progress_v0_ok:
  "read_progress_v0 mn k bs = Some (pv, r) \<Longrightarrow> list_all (progress_ok mn) pv \<and> length pv = k"
  by (induction mn k bs arbitrary: pv r rule: read_progress_v0.induct)
    (auto simp: Let_def progress_ok_def not_less split: option.splits if_splits)

lemma read_progress_v1_ok:
  "read_progress_v1 mn k bs = Some (pv, r) \<Longrightarrow> list_all (progress_ok mn) pv \<and> length pv = k"
  by (induction mn k bs arbitrary: pv r rule: read_progress_v1.induct)
    (auto simp: Let_def progress_ok_def not_less split: option.splits if_splits)

lemma read_vecs_v1_ok:
  "read_vecs_v1 mn k bs = Some (mp, r) \<Longrightarrow> list_all (list_all (progress_ok mn)) mp \<and> length mp = k"
proof (induction k arbitrary: bs mp r)
  case (Suc k)
  then obtain cnt :: u64 and bs1 pv bs2 mp' where
    "read_progress_v1 mn (unat cnt) bs1 = Some (pv, bs2)"
    "read_vecs_v1 mn k bs2 = Some (mp', r)" "mp = pv # mp'"
    by (auto split: option.splits)
  with Suc.IH [of bs2 mp' r] read_progress_v1_ok [of mn "unat cnt" bs1 pv bs2] show ?case
    by simp
qed simp

lemma read_user_data_keeps:
  "read_user_data l bs = Some l' \<Longrightarrow>
     l_minOffset l' = l_minOffset l \<and> l_multiProgress l' = l_multiProgress l"
  by (auto simp: read_user_data_def split: if_splits option.splits)

definition progresses_ok :: "locator \<Rightarrow> bool" where
  "progresses_ok l \<longleftrightarrow> list_all (list_all (progress_ok (l_minOffset l))) (l_multiProgress l)"

lemma deserialize_v0_ok:
  assumes "deserialize_v0 l bs = Some l'"
  shows "progresses_ok l'"
proof -
  have "progress_ok mn \<lparr>p_from = 0, p_to = 65535, p_offset = mn\<rparr>" for mn
    by (simp add: progress_ok_def)
  with assms show ?thesis
    by (auto simp: deserialize_v0_def deserialize_progress_v0_def Let_def progresses_ok_def
        split: option.splits if_splits dest!: read_user_data_keeps read_progress_v0_ok)
qed

lemma deserialize_v1_ok:
  "deserialize_v1 l bs = Returns (Some l') \<Longrightarrow> progresses_ok l'"
  by (auto simp: deserialize_v1_def Let_def progresses_ok_def
      split: option.splits if_splits dest!: read_user_data_keeps read_vecs_v1_ok)

section \<open>Properties\<close>

text \<open>
  C13. Round trip of \<^verbatim>\<open>Serialize\<close> and \<^verbatim>\<open>Deserialize\<close>.  The locator has no offset below its minimal offset, its ranges are within
  0..65535, no topic has more than 65535 ranges, and the numbers of topics and of bytes of user data are those
  of vectors in memory; a locator in the old layout has one topic, and one in the new layout has
  a minimal offset of at least -1.  Whatever object such a locator is read into, it is read back with its source, minimal
  offset, progress and user data; only the legacy flag is the reading object's own.  The exception are locators in the old
  layout of which the low half of the minimal offset is the magic number: unless the high half is 1, reading what was
  written is refused, and leaves an empty locator with the source of the written one.
\<close>

theorem locator_round_trip:
  assumes "codec_ok l"
  shows "(\<not> magic_clash l \<longrightarrow> deserialize l0 (serialize l) = DesReturn True (l\<lparr>l_isLegacy := l_isLegacy l0\<rparr>)) \<and>
    (magic_clash l \<and> (ucast (drop_bit 32 (offset_first (l_minOffset l))) :: u32) \<noteq> 1 \<longrightarrow>
       deserialize l0 (serialize l) = DesReturn False ((locator_reset l0)\<lparr>l_src := l_src l\<rparr>))"
  using version_cases [of l] serialize_v0_round_trip [OF assms] serialize_v1_round_trip [OF assms] serialize_v0_magic [of l l0]
  by (auto simp: serialize_def LOCATOR_DEFAULT_VERSION_def LOCATOR_SUBOFFSET_VERSION_def magic_clash_def)

definition codec_example :: locator where
  "codec_example = \<lparr>l_src = 7, l_minOffset = Offset 5 1,
     l_multiProgress = [[\<lparr>p_from = 0, p_to = 99, p_offset = Offset 5 1\<rparr>],
                        [\<lparr>p_from = 0, p_to = 65535, p_offset = Offset 9 0\<rparr>]],
     l_userData = [1, 2, 3], l_isLegacy = False\<rparr>"

lemma codec_example_ok:
  "codec_ok codec_example" "calculate_serialize_version codec_example = LOCATOR_SUBOFFSET_VERSION" "\<not> magic_clash codec_example"
  by (simp_all add: codec_ok_def magic_clash_def codec_example_def calculate_serialize_version_def progress_ok_def
      LOCATOR_DEFAULT_VERSION_def LOCATOR_SUBOFFSET_VERSION_def vector_max_size_def less_eq_offset_def)

text \<open>A locator at a timestamp of December 2023, in microseconds, whose low half is the magic number.\<close>

definition clash_example :: locator where
  "clash_example = (let ofs = Offset 0x60DBAE20ED5C8 0 in
     \<lparr>l_src = 7, l_minOffset = ofs, l_multiProgress = [[\<lparr>p_from = 0, p_to = 65535, p_offset = ofs\<rparr>]],
      l_userData = [], l_isLegacy = False\<rparr>)"

theorem locator_round_trip_witness:
  "deserialize default_locator (serialize codec_example) = DesReturn True codec_example \<and>
   deserialize default_locator (serialize clash_example) = DesReturn False (default_locator\<lparr>l_src := 7\<rparr>)"
proof -
  have c: "codec_ok clash_example" "magic_clash clash_example"
    "(ucast (drop_bit 32 (offset_first (l_minOffset clash_example))) :: u32) \<noteq> 1"
    by (simp_all add: codec_ok_def magic_clash_def clash_example_def calculate_serialize_version_def progress_ok_def
        LOCATOR_DEFAULT_VERSION_def LOCATOR_SUBOFFSET_VERSION_def MAGIC_NUMBER_def Let_def)
  show ?thesis
    using locator_round_trip [OF codec_example_ok(1), of default_locator] locator_round_trip [OF c(1), of default_locator]
      codec_example_ok(3) c(2,3)
    by (simp add: codec_example_def clash_example_def default_locator_def locator_reset_def Let_def)
qed

text \<open>
  C23. \<^verbatim>\<open>Size\<close> is exact in both layouts: the buffer that \<^verbatim>\<open>SerializeV0\<close> and \<^verbatim>\<open>SerializeV1\<close> allocate with
  it is filled to its last byte and not overrun.
\<close>

theorem serialize_length: "length (serialize l) = locator_size l"
proof -
  have v1: "length (concat (map (\<lambda>pv. write_u64 (word_of_nat (length pv)) @
      concat (map write_progress_v1 pv)) mp)) = sum_list (map (\<lambda>pv. 8 + 20 * length pv) mp)" for mp
    by (induction mp) (simp_all add: length_concat_progress)
  show ?thesis
  proof (cases "calculate_serialize_version l = LOCATOR_DEFAULT_VERSION")
    case True
    then consider "l_multiProgress l = []" | pv where "l_multiProgress l = [pv]"
      using version_0_sub_offsets(3) [OF True] by (cases "l_multiProgress l") auto
    then show ?thesis
      using True
      by cases (simp_all add: serialize_def serialize_v0_def locator_size_def progress_size_def
          length_concat_progress length_write_user_data LOCATOR_DEFAULT_VERSION_def
          LOCATOR_SUBOFFSET_VERSION_def)
  next
    case False
    then have "calculate_serialize_version l = LOCATOR_SUBOFFSET_VERSION"
      using version_cases by blast
    moreover have "progress_size l n = 8 + 20 * n" for n
      using calculation by (simp add: progress_size_def LOCATOR_DEFAULT_VERSION_def LOCATOR_SUBOFFSET_VERSION_def)
    ultimately show ?thesis
      by (simp add: serialize_def serialize_v1_def locator_size_def v1 length_write_user_data
          LOCATOR_SUBOFFSET_VERSION_def)
  qed
qed

text \<open>
  C22. Reading arbitrary bytes: if \<^verbatim>\<open>Deserialize\<close> returns true, no progress lies behind the minimal offset
  and every range is within 0..65535.
\<close>

theorem deserialize_true_in_range:
  assumes "deserialize l bs = DesReturn True l'"
  shows "\<forall>pv \<in> set (l_multiProgress l'). \<forall>p \<in> set pv.
    l_minOffset l' \<le> p_offset p \<and> p_from p \<le> 65535 \<and> p_to p \<le> 65535"
proof -
  have "progresses_ok l'"
    using assms
    by (auto simp: deserialize_def Let_def des_return_def split: option.splits if_splits prod.splits
        or_throw.splits intro: deserialize_v0_ok deserialize_v1_ok)
  then show ?thesis
    by (auto simp: progresses_ok_def progress_ok_def list_all_iff)
qed

theorem deserialize_true_in_range_witness:
  "deserialize default_locator (serialize codec_example) = DesReturn True codec_example \<and>
   l_minOffset codec_example \<le> p_offset (l_multiProgress codec_example ! 1 ! 0)"
proof -
  have d: "deserialize default_locator (serialize codec_example) = DesReturn True codec_example"
    using serialize_v1_round_trip [OF codec_example_ok(1,2), of default_locator] codec_example_ok(2)
    by (simp add: serialize_def LOCATOR_SUBOFFSET_VERSION_def codec_example_def default_locator_def)
  show ?thesis
    using d deserialize_true_in_range [OF d] by (simp add: codec_example_def)
qed

text \<open>
  C25. What a refusal leaves behind.  Bytes with the magic number whose version is not the known one are always refused, and
  the object is then empty but has the source of the refused bytes; after every other refusal it is empty altogether.
  (Where the version is cut off it counts as zero.)
\<close>

theorem deserialize_unknown_version_keeps_src:
  assumes "unknown \<longleftrightarrow> 12 \<le> length bs \<and> (word_of (take 4 (drop 8 bs)) :: u32) = MAGIC_NUMBER \<and>
      (length bs < 16 \<or> (word_of (take 4 (drop 12 bs)) :: u32) \<noteq> 1)"
  shows "(unknown \<longrightarrow> deserialize l bs = DesReturn False ((locator_reset l)\<lparr>l_src := word_of (take 8 bs)\<rparr>)) \<and>
    (\<not> unknown \<and> deserialize l bs = DesReturn False l' \<longrightarrow> l' = locator_reset l)"
proof -
  have "locator_reset ((locator_reset l)\<lparr>l_src := src\<rparr>) = locator_reset l" for src
    by (simp add: locator_reset_def)
  then show ?thesis
    unfolding assms
    by (auto simp: deserialize_def Let_def read_u64_def read_u32_def des_return_def LOCATOR_SUBOFFSET_VERSION_def
        split: if_splits option.splits or_throw.splits)
qed

theorem deserialize_unknown_version_keeps_src_witness:
  "deserialize default_locator (write_u64 7 @ write_u32 MAGIC_NUMBER @ write_u32 2) =
     DesReturn False (default_locator\<lparr>l_src := 7\<rparr>)"
proof -
  let ?bs = "write_u64 7 @ write_u32 MAGIC_NUMBER @ write_u32 2"
  have w: "(word_of (take 8 ?bs) :: u64) = 7" "(word_of (take 4 (drop 8 ?bs)) :: u32) = MAGIC_NUMBER"
    "(word_of (take 4 (drop 12 ?bs)) :: u32) \<noteq> 1"
    using read_write_u64 [of 7 "write_u32 MAGIC_NUMBER @ write_u32 2"] read_write_u32 [of MAGIC_NUMBER "write_u32 2"]
      read_write_u32 [of 2 "[]"]
    by (simp_all add: read_u64_def read_u32_def)
  show ?thesis
    using deserialize_unknown_version_keeps_src [OF refl, of ?bs default_locator] w
    by (simp add: default_locator_def locator_reset_def)
qed

end
