(* ===== verification/QueryExecutorHeap.thy ===== *)
theory QueryExecutorHeap
  imports Prelude "HOL-Library.Multiset"
begin

text \<open>
  Model of \<^verbatim>\<open>ha3/search/query_executor/QueryExecutorHeap.h\<close>: the entries of the OR and WEAKAND executors
  and the repair of a binary heap of them.  The heap is an array that starts at position 1.
\<close>

text \<open>\<^verbatim>\<open>docid_t\<close> is a signed 32-bit integer; the executors never leave its range.\<close>

type_synonym docid = int

definition INVALID_DOCID :: docid where "INVALID_DOCID = -1"

definition END_DOCID :: docid where "END_DOCID = 0x7FFFFFFF"

record entry =
  e_docId :: docid
  e_entryId :: nat

definition swap :: "nat \<Rightarrow> nat \<Rightarrow> 'a list \<Rightarrow> 'a list" where
  "swap i j xs = xs[i := xs ! j, j := xs ! i]"

text \<open>The smaller of a node and its children, the left child first.\<close>

definition min_child :: "nat \<Rightarrow> nat \<Rightarrow> entry list \<Rightarrow> nat" where
  "min_child idx endd heap =
     (let left = 2 * idx; right = left + 1;
          m = (if left \<le> endd \<and> e_docId (heap ! left) < e_docId (heap ! idx) then left else idx)
      in if right \<le> endd \<and> e_docId (heap ! right) < e_docId (heap ! m) then right else m)"

lemma min_child_cases: "min_child idx endd heap \<in> {idx, 2 * idx, 2 * idx + 1}"
  by (simp add: min_child_def Let_def)

lemma min_child_moves:
  assumes "min_child idx endd heap \<noteq> idx"
  shows "idx < min_child idx endd heap" "min_child idx endd heap \<le> endd"
  using assms by (auto simp: min_child_def Let_def split: if_splits)

function adjust_down :: "nat \<Rightarrow> nat \<Rightarrow> entry list \<Rightarrow> entry list" where
  "adjust_down idx endd heap =
     (let m = min_child idx endd heap
      in if m \<noteq> idx then adjust_down m endd (swap idx m heap) else heap)"
  by pat_completeness auto
termination
  by (relation "measure (\<lambda>(idx, endd, _). Suc endd - idx)") (use min_child_moves in fastforce)+

declare adjust_down.simps [simp del]

text \<open>The entries with the smallest document, in the order \<^verbatim>\<open>collectMinEntries\<close> visits them.\<close>

function collect_min :: "nat \<Rightarrow> nat \<Rightarrow> docid \<Rightarrow> entry list \<Rightarrow> nat list" where
  "collect_min idx endd mn heap =
     e_entryId (heap ! idx) #
     (if 0 < idx \<and> 2 * idx \<le> endd \<and> e_docId (heap ! (2 * idx)) = mn
      then collect_min (2 * idx) endd mn heap else []) @
     (if 2 * idx + 1 \<le> endd \<and> e_docId (heap ! (2 * idx + 1)) = mn
      then collect_min (2 * idx + 1) endd mn heap else [])"
  by pat_completeness auto
termination
  by (relation "measure (\<lambda>(idx, endd, _). Suc endd - idx)") auto

declare collect_min.simps [simp del]

definition collect_min_entries :: "nat \<Rightarrow> nat \<Rightarrow> entry list \<Rightarrow> nat list" where
  "collect_min_entries idx endd heap = collect_min idx endd (e_docId (heap ! idx)) heap"

section \<open>The heap order\<close>

definition is_heap :: "nat \<Rightarrow> entry list \<Rightarrow> bool" where
  "is_heap endd heap \<longleftrightarrow> (\<forall>i. 2 \<le> i \<longrightarrow> i \<le> endd \<longrightarrow> e_docId (heap ! (i div 2)) \<le> e_docId (heap ! i))"

text \<open>The order holds but between \<open>k\<close> and its children, which are not smaller than the parent of \<open>k\<close>.\<close>

definition heap_but :: "nat \<Rightarrow> nat \<Rightarrow> entry list \<Rightarrow> bool" where
  "heap_but k endd heap \<longleftrightarrow>
     (\<forall>i. 2 \<le> i \<longrightarrow> i \<le> endd \<longrightarrow> i div 2 \<noteq> k \<longrightarrow> e_docId (heap ! (i div 2)) \<le> e_docId (heap ! i)) \<and>
     (\<forall>i. 2 \<le> k \<longrightarrow> i \<le> endd \<longrightarrow> i div 2 = k \<longrightarrow> e_docId (heap ! (k div 2)) \<le> e_docId (heap ! i))"

lemma swap_length [simp]: "length (swap i j xs) = length xs"
  by (simp add: swap_def)

lemma swap_nth: "i < length xs \<Longrightarrow> j < length xs \<Longrightarrow>
    swap i j xs ! k = (if k = i then xs ! j else if k = j then xs ! i else xs ! k)"
  by (simp add: swap_def nth_list_update)

lemma swap_mset: "i < length xs \<Longrightarrow> j < length xs \<Longrightarrow> mset (swap i j xs) = mset xs"
  by (simp add: swap_def mset_swap)

lemma adjust_down_length [simp]: "length (adjust_down idx endd heap) = length heap"
  by (induction idx endd heap rule: adjust_down.induct) (subst adjust_down.simps, simp add: Let_def)

lemma adjust_down_mset:
  "idx < length heap \<Longrightarrow> endd < length heap \<Longrightarrow> mset (adjust_down idx endd heap) = mset heap"
proof (induction idx endd heap rule: adjust_down.induct)
  case (1 idx endd heap)
  let ?m = "min_child idx endd heap"
  have "?m < length heap" if "?m \<noteq> idx"
    using min_child_moves(2) [OF that] 1 by simp
  then show ?case
    using 1 by (subst adjust_down.simps) (simp add: Let_def swap_mset)
qed

lemma adjust_down_before:
  "i < idx \<Longrightarrow> idx < length heap \<Longrightarrow> endd < length heap \<Longrightarrow> adjust_down idx endd heap ! i = heap ! i"
proof (induction idx endd heap rule: adjust_down.induct)
  case (1 idx endd heap)
  let ?m = "min_child idx endd heap"
  show ?case
  proof (cases "?m = idx")
    case True
    then show ?thesis by (subst adjust_down.simps) (simp add: Let_def)
  next
    case False
    then have "i \<noteq> ?m" "i < ?m" "?m < length heap"
      using min_child_moves [OF False] 1 by simp_all
    then show ?thesis
      using False 1 by (subst adjust_down.simps) (simp add: Let_def swap_nth)
  qed
qed

lemma min_child_le:
  assumes "0 < idx" "i \<le> endd" "i div 2 = idx"
  shows "e_docId (heap ! min_child idx endd heap) \<le> e_docId (heap ! i)"
proof -
  have "i = 2 * idx \<or> i = 2 * idx + 1"
    using assms(3) by presburger
  then show ?thesis
    using assms by (auto simp: min_child_def Let_def)
qed

lemma min_child_self: "e_docId (heap ! min_child idx endd heap) \<le> e_docId (heap ! idx)"
  by (auto simp: min_child_def Let_def)

lemma heap_but_step:
  assumes h: "heap_but idx endd heap" and idx: "0 < idx" and len: "idx < length heap" "endd < length heap"
    and m: "m = min_child idx endd heap" "m \<noteq> idx"
  shows "heap_but m endd (swap idx m heap)"
proof -
  have m': "idx < m" "m \<le> endd" "m div 2 = idx"
    using min_child_moves [of idx endd heap] min_child_cases [of idx endd heap] m by auto
  have sw: "swap idx m heap ! k = (if k = idx then heap ! m else if k = m then heap ! idx else heap ! k)" for k
    using m'(2) len by (intro swap_nth) simp_all
  have le: "e_docId (heap ! m) \<le> e_docId (heap ! i)" if "i \<le> endd" "i div 2 = idx" for i
    using min_child_le [OF idx that, of heap] m by simp
  have self: "e_docId (heap ! m) \<le> e_docId (heap ! idx)"
    using min_child_self [of heap idx endd] m by simp
  have up: "e_docId (heap ! (i div 2)) \<le> e_docId (heap ! i)" if "2 \<le> i" "i \<le> endd" "i div 2 \<noteq> idx" for i
    using h that by (simp add: heap_but_def)
  have top: "e_docId (heap ! (idx div 2)) \<le> e_docId (heap ! m)" if "2 \<le> idx"
    using h that m' by (simp add: heap_but_def)
  show ?thesis
    unfolding heap_but_def
  proof (intro conjI allI impI)
    fix i
    assume i: "2 \<le> i" "i \<le> endd" "i div 2 \<noteq> m"
    show "e_docId (swap idx m heap ! (i div 2)) \<le> e_docId (swap idx m heap ! i)"
    proof (cases "i div 2 = idx")
      case True
      then have "i \<noteq> idx" using idx by auto
      then show ?thesis
        using True i m' le [of i] self by (simp add: sw)
    next
      case False
      then have "i \<noteq> m" using m'(3) by auto
      then show ?thesis
        using False i up [of i] top by (auto simp: sw)
    qed
  next
    fix i
    assume i: "i \<le> endd" "i div 2 = m"
    then have "2 \<le> i" "i div 2 \<noteq> idx" "i \<noteq> m" "i \<noteq> idx" using m' idx by auto
    then show "e_docId (swap idx m heap ! (m div 2)) \<le> e_docId (swap idx m heap ! i)"
      using up [of i] i m' by (simp add: sw)
  qed
qed

lemma heap_but_done:
  assumes "heap_but idx endd heap" "min_child idx endd heap = idx" "0 < idx"
  shows "is_heap endd heap"
  unfolding is_heap_def
proof (intro allI impI)
  fix i
  assume i: "2 \<le> i" "i \<le> endd"
  show "e_docId (heap ! (i div 2)) \<le> e_docId (heap ! i)"
  proof (cases "i div 2 = idx")
    case True
    then show ?thesis
      using min_child_le [OF assms(3) i(2), of heap] assms(2) by simp
  next
    case False
    then show ?thesis
      using assms(1) i by (simp add: heap_but_def)
  qed
qed

lemma adjust_down_heap:
  "heap_but idx endd heap \<Longrightarrow> 0 < idx \<Longrightarrow> idx < length heap \<Longrightarrow> endd < length heap \<Longrightarrow>
    is_heap endd (adjust_down idx endd heap)"
proof (induction idx endd heap rule: adjust_down.induct)
  case (1 idx endd heap)
  let ?m = "min_child idx endd heap"
  show ?case
  proof (cases "?m = idx")
    case True
    then show ?thesis
      using 1 heap_but_done by (subst adjust_down.simps) (simp add: Let_def)
  next
    case False
    have "idx < ?m" "?m < length heap"
      using min_child_moves [OF False] 1 by simp_all
    then have "is_heap endd (adjust_down ?m endd (swap idx ?m heap))"
      using False 1 heap_but_step by (intro 1) simp_all
    then show ?thesis
      using False by (subst adjust_down.simps) (simp add: Let_def)
  qed
qed

text \<open>The first entry of a heap is a smallest one.\<close>

lemma heap_min: "is_heap endd heap \<Longrightarrow> 1 \<le> i \<Longrightarrow> i \<le> endd \<Longrightarrow> e_docId (heap ! 1) \<le> e_docId (heap ! i)"
proof (induction i rule: less_induct)
  case (less i)
  show ?case
  proof (cases "i = 1")
    case True
    then show ?thesis by simp
  next
    case False
    then have "e_docId (heap ! 1) \<le> e_docId (heap ! (i div 2))"
      using less by (intro less.IH) auto
    also have "\<dots> \<le> e_docId (heap ! i)"
      using False less.prems by (simp add: is_heap_def)
    finally show ?thesis .
  qed
qed

text \<open>A new first entry leaves the order intact below it.\<close>

lemma heap_replace_top: "is_heap endd heap \<Longrightarrow> 0 < length heap \<Longrightarrow> heap_but 1 endd (heap[1 := e])"
  by (auto simp: is_heap_def heap_but_def nth_list_update)

end
