(* ===== verification/QueryExecutor.thy ===== *)
theory QueryExecutor
  imports QueryExecutorHeap "HOL-Library.Monad_Syntax"
begin

text \<open>
  Model of the query executors of \<^verbatim>\<open>ha3/search/query_executor\<close>: objects that walk over the documents a
  query matches, in increasing order.  A call returns an error code or a document, together with the new
  state of the object; \<open>None\<close> stands for undefined behaviour and for a loop that does not end.

  The executors over an index call a posting iterator of indexlib; its operations are the argument \<open>P\<close>
  of the definitions.  A pointer to a child is the child's position in the list of children, so that the
  sorted array of an AND executor and the heap of an OR executor name the objects of that list.
\<close>

datatype error_code =
  EC_BufferOverflow | EC_FileIO | EC_AssertEqual | EC_UnImplement | EC_Schema | EC_InitializeFailed
  | EC_OutOfRange | EC_IndexCollapsed | EC_InconsistentState | EC_Runtime | EC_NonExist | EC_Duplicate
  | EC_InvalidVersion | EC_SegmentFile | EC_BadParameter | EC_DumpingThread | EC_UnSupported
  | EC_OutOfMemory | EC_AssertCompatible | EC_ReachMaxIndexSize | EC_ReachMaxResource | EC_Exist
  | EC_MemFileIO | EC_DocumentDeserialize | EC_Timeout

type_synonym 'q outcome = "((error_code + docid) \<times> 'q) option"

record 'it posting_ops =
  it_seek :: "'it \<Rightarrow> docid \<Rightarrow> 'it outcome"
  it_test :: "'it \<Rightarrow> docid \<Rightarrow> (bool \<times> 'it) option"
  it_clone :: "'it \<Rightarrow> 'it"
  it_doc_freq :: "'it \<Rightarrow> int"
  it_truncate_doc_freq :: "'it \<Rightarrow> int"

text \<open>The members of \<^verbatim>\<open>QueryExecutor\<close>.\<close>

record qbase =
  q_current :: docid
  q_currentSub :: docid
  q_seekDocCount :: u32
  q_hasSub :: bool
  q_isEmpty :: bool

definition qbase_init :: qbase where
  "qbase_init = \<lparr>q_current = INVALID_DOCID, q_currentSub = INVALID_DOCID, q_seekDocCount = 0,
     q_hasSub = True, q_isEmpty = False\<rparr>"

type_synonym doc_filter = "docid \<Rightarrow> bool"

text \<open>
  One constructor per class.  \<open>And\<close>: children, sorted children, filters, test count.  \<open>Or\<close>: children,
  heap, count.  \<open>AndNot\<close>: left, right, right filter, test count, whether the right child has sub documents.
  \<open>WeakAnd\<close>: children, heap, heap of sub documents, count, minimum.  \<open>RangeTerm\<close>: iterator, the filter of the
  composite iterator, the filter that can still be stolen.
\<close>

datatype 'it executor =
    Term qbase "'it option"
  | BitmapTerm qbase 'it
  | RangeTerm qbase 'it "doc_filter option" "doc_filter option"
  | DocIdTerm qbase docid
  | SubDocIdTerm qbase docid docid
  | DocIds qbase "docid list" nat
  | Range qbase "(docid \<times> docid) list" nat
  | PK qbase "'it executor option" docid int
  | And qbase "'it executor list" "nat list" "doc_filter list" nat
  | Or qbase "'it executor list" "entry list" nat
  | AndNot qbase "'it executor" "'it executor option" "doc_filter option" nat bool
  | WeakAnd qbase "'it executor list" "entry list" "entry list" nat nat
  | BitmapAnd qbase "'it executor" "'it executor list"

section \<open>The base class\<close>

primrec qb :: "'it executor \<Rightarrow> qbase" where
  "qb (Term b _) = b"
| "qb (BitmapTerm b _) = b"
| "qb (RangeTerm b _ _ _) = b"
| "qb (DocIdTerm b _) = b"
| "qb (SubDocIdTerm b _ _) = b"
| "qb (DocIds b _ _) = b"
| "qb (Range b _ _) = b"
| "qb (PK b _ _ _) = b"
| "qb (And b _ _ _ _) = b"
| "qb (Or b _ _ _) = b"
| "qb (AndNot b _ _ _ _ _) = b"
| "qb (WeakAnd b _ _ _ _ _) = b"
| "qb (BitmapAnd b _ _) = b"

primrec upd_qb :: "(qbase \<Rightarrow> qbase) \<Rightarrow> 'it executor \<Rightarrow> 'it executor" where
  "upd_qb f (Term b it) = Term (f b) it"
| "upd_qb f (BitmapTerm b it) = BitmapTerm (f b) it"
| "upd_qb f (RangeTerm b it cf fl) = RangeTerm (f b) it cf fl"
| "upd_qb f (DocIdTerm b d) = DocIdTerm (f b) d"
| "upd_qb f (SubDocIdTerm b d s) = SubDocIdTerm (f b) d s"
| "upd_qb f (DocIds b ids pos) = DocIds (f b) ids pos"
| "upd_qb f (Range b rs i) = Range (f b) rs i"
| "upd_qb f (PK b c d n) = PK (f b) c d n"
| "upd_qb f (And b cs order fs n) = And (f b) cs order fs n"
| "upd_qb f (Or b cs h n) = Or (f b) cs h n"
| "upd_qb f (AndNot b l r fl n s) = AndNot (f b) l r fl n s"
| "upd_qb f (WeakAnd b cs h hs n m) = WeakAnd (f b) cs h hs n m"
| "upd_qb f (BitmapAnd b s cs) = BitmapAnd (f b) s cs"

definition get_doc_id :: "'it executor \<Rightarrow> docid" where
  "get_doc_id e = q_current (qb e)"

definition has_sub :: "'it executor \<Rightarrow> bool" where
  "has_sub e = q_hasSub (qb e)"

definition set_doc_id :: "docid \<Rightarrow> 'it executor \<Rightarrow> 'it executor" where
  "set_doc_id d = upd_qb (\<lambda>b. b\<lparr>q_current := d\<rparr>)"

definition set_sub_doc_id :: "docid \<Rightarrow> 'it executor \<Rightarrow> 'it executor" where
  "set_sub_doc_id d = upd_qb (\<lambda>b. b\<lparr>q_currentSub := d\<rparr>)"

text \<open>\<^verbatim>\<open>isEmpty\<close>.\<close>

definition is_empty :: "'it executor \<Rightarrow> bool" where
  "is_empty e \<longleftrightarrow> q_isEmpty (qb e) \<or> get_doc_id e = END_DOCID"

text \<open>\<^verbatim>\<open>moveToEnd\<close>, overridden by the executors with children and by the list of documents.\<close>

fun move_to_end :: "'it executor \<Rightarrow> 'it executor" where
  "move_to_end (DocIds b ids pos) = DocIds (b\<lparr>q_current := END_DOCID\<rparr>) ids (length ids)"
| "move_to_end (And b cs order fs n) = And (b\<lparr>q_current := END_DOCID\<rparr>) (map move_to_end cs) order fs n"
| "move_to_end (Or b cs h n) = Or (b\<lparr>q_current := END_DOCID\<rparr>) (map move_to_end cs) h n"
| "move_to_end (AndNot b l r fl n s) =
     AndNot (b\<lparr>q_current := END_DOCID\<rparr>) (move_to_end l) (map_option move_to_end r) fl n s"
| "move_to_end (WeakAnd b cs h hs n m) =
     WeakAnd (b\<lparr>q_current := END_DOCID\<rparr>) (map move_to_end cs) h hs n m"
| "move_to_end (BitmapAnd b s cs) =
     BitmapAnd (b\<lparr>q_current := END_DOCID\<rparr>) (move_to_end s) (map move_to_end cs)"
| "move_to_end e = set_doc_id END_DOCID e"

definition mark_empty :: "'it executor \<Rightarrow> 'it executor" where
  "mark_empty e = move_to_end (upd_qb (\<lambda>b. b\<lparr>q_isEmpty := True\<rparr>) e)"

text \<open>\<^verbatim>\<open>setCurrSub\<close>: to every child, but only to the left one of an AND NOT.\<close>

fun set_curr_sub :: "docid \<Rightarrow> 'it executor \<Rightarrow> 'it executor" where
  "set_curr_sub d (And b cs order fs n) =
     And (b\<lparr>q_currentSub := d\<rparr>) (map (set_curr_sub d) cs) order fs n"
| "set_curr_sub d (Or b cs h n) = Or (b\<lparr>q_currentSub := d\<rparr>) (map (set_curr_sub d) cs) h n"
| "set_curr_sub d (AndNot b l r fl n s) = AndNot (b\<lparr>q_currentSub := d\<rparr>) (set_curr_sub d l) r fl n s"
| "set_curr_sub d (WeakAnd b cs h hs n m) =
     WeakAnd (b\<lparr>q_currentSub := d\<rparr>) (map (set_curr_sub d) cs) h hs n m"
| "set_curr_sub d (BitmapAnd b s cs) =
     BitmapAnd (b\<lparr>q_currentSub := d\<rparr>) (set_curr_sub d s) (map (set_curr_sub d) cs)"
| "set_curr_sub d e = set_sub_doc_id d e"

text \<open>
  \<^verbatim>\<open>setEmpty\<close>.  An object with children also moves each of them to its end first, which making the child
  empty does again.
\<close>

fun set_empty :: "'it executor \<Rightarrow> 'it executor" where
  "set_empty (And b cs order fs n) =
     And (b\<lparr>q_isEmpty := True, q_current := END_DOCID\<rparr>) (map set_empty cs) order fs n"
| "set_empty (Or b cs h n) = Or (b\<lparr>q_isEmpty := True, q_current := END_DOCID\<rparr>) (map set_empty cs) h n"
| "set_empty (AndNot b l r fl n s) =
     AndNot (b\<lparr>q_isEmpty := True, q_current := END_DOCID\<rparr>) (set_empty l) (map_option set_empty r) fl n s"
| "set_empty (WeakAnd b cs h hs n m) =
     WeakAnd (b\<lparr>q_isEmpty := True, q_current := END_DOCID\<rparr>) (map set_empty cs) h hs n m"
| "set_empty (BitmapAnd b s cs) =
     BitmapAnd (b\<lparr>q_isEmpty := True, q_current := END_DOCID\<rparr>) (set_empty s) (map set_empty cs)"
| "set_empty e = mark_empty e"

section \<open>Seeking in the leaves\<close>

text \<open>The result of a posting iterator: \<^verbatim>\<open>INVALID_DOCID\<close> says that there is no further document.\<close>

definition posting_result :: "docid \<Rightarrow> docid" where
  "posting_result d = (if d = INVALID_DOCID then END_DOCID else d)"

definition term_do_seek :: "('it, 'z) posting_ops_scheme \<Rightarrow> qbase \<Rightarrow> 'it option \<Rightarrow> docid \<Rightarrow> 'it executor outcome" where
  "term_do_seek P b iter idd =
     do { it \<leftarrow> iter;
          (r, it') \<leftarrow> it_seek P it idd;
          Some (case r of
                  Inl ec \<Rightarrow> (Inl ec, Term b (Some it'))
                | Inr d \<Rightarrow> (Inr (posting_result d), Term (b\<lparr>q_seekDocCount := q_seekDocCount b + 1\<rparr>) (Some it'))) }"

definition bitmap_term_do_seek :: "('it, 'z) posting_ops_scheme \<Rightarrow> qbase \<Rightarrow> 'it \<Rightarrow> docid \<Rightarrow> 'it executor outcome" where
  "bitmap_term_do_seek P b it idd =
     do { (r, it') \<leftarrow> it_seek P it idd;
          Some (case r of
                  Inl ec \<Rightarrow> (Inl ec, BitmapTerm b it')
                | Inr d \<Rightarrow> (Inr (posting_result d), BitmapTerm (b\<lparr>q_seekDocCount := q_seekDocCount b + 1\<rparr>) it')) }"

text \<open>\<^verbatim>\<open>BitmapTermQueryExecutor::test\<close>; only a bitmap executor has it.\<close>

definition bitmap_test :: "('it, 'z) posting_ops_scheme \<Rightarrow> 'it executor \<Rightarrow> docid \<Rightarrow> (bool \<times> 'it executor) option" where
  "bitmap_test P e d =
     (case e of
        BitmapTerm b it \<Rightarrow>
          do { (r, it') \<leftarrow> it_test P it d;
               Some (r, if r then set_doc_id d (BitmapTerm b it') else BitmapTerm b it') }
      | _ \<Rightarrow> None)"

definition range_term_do_seek ::
  "('it, 'z) posting_ops_scheme \<Rightarrow> qbase \<Rightarrow> 'it \<Rightarrow> doc_filter option \<Rightarrow> doc_filter option \<Rightarrow> docid \<Rightarrow> 'it executor outcome" where
  "range_term_do_seek P b it cf fl idd =
     do { (r, it') \<leftarrow> it_seek P it idd;
          Some (map_sum (\<lambda>e. e) posting_result r, RangeTerm b it' cf fl) }"

definition doc_id_result :: "docid \<Rightarrow> docid \<Rightarrow> docid" where
  "doc_id_result d idd = (if d \<ge> idd then d else END_DOCID)"

function doc_ids_scan :: "docid list \<Rightarrow> nat \<Rightarrow> docid \<Rightarrow> docid \<times> nat" where
  "doc_ids_scan ids pos idd =
     (if pos < length ids then
        if ids ! pos \<ge> idd then (ids ! pos, pos) else doc_ids_scan ids (pos + 1) idd
      else (END_DOCID, pos))"
  by pat_completeness auto
termination
  by (relation "measure (\<lambda>(ids, pos, _). length ids - pos)") auto

declare doc_ids_scan.simps [simp del]

definition doc_ids_init :: "docid list \<Rightarrow> 'it executor" where
  "doc_ids_init ids = DocIds (qbase_init\<lparr>q_hasSub := False\<rparr>) (sort ids) 0"

function range_scan :: "(docid \<times> docid) list \<Rightarrow> nat \<Rightarrow> docid \<Rightarrow> docid \<times> nat" where
  "range_scan rs i idd =
     (if i < length rs then
        if idd \<le> snd (rs ! i) then (if idd \<ge> fst (rs ! i) then idd else fst (rs ! i), i)
        else range_scan rs (i + 1) idd
      else (END_DOCID, i))"
  by pat_completeness auto
termination
  by (relation "measure (\<lambda>(rs, i, _). length rs - i)") auto

declare range_scan.simps [simp del]

definition range_init :: "(docid \<times> docid) list \<Rightarrow> 'it executor" where
  "range_init rs = Range (qbase_init\<lparr>q_hasSub := False\<rparr>) rs 0"

definition range_do_seek :: "qbase \<Rightarrow> (docid \<times> docid) list \<Rightarrow> nat \<Rightarrow> docid \<Rightarrow> 'it executor outcome" where
  "range_do_seek b rs i idd =
     (if idd = END_DOCID then Some (Inr END_DOCID, Range b rs i)
      else case range_scan rs i idd of
        (d, i') \<Rightarrow> Some (Inr d, Range (b\<lparr>q_seekDocCount := q_seekDocCount b + 1\<rparr>) rs i'))"

section \<open>Seeking in the executors with children\<close>

text \<open>\<open>sk\<close> is the virtual \<^verbatim>\<open>seek\<close> of a child.\<close>

definition pk_init :: "'it executor option \<Rightarrow> docid \<Rightarrow> 'it executor" where
  "pk_init c d =
     PK (case c of None \<Rightarrow> qbase_init | Some e \<Rightarrow> qbase_init\<lparr>q_hasSub := has_sub e\<rparr>) c d 0"

definition pk_do_seek ::
  "('it executor \<Rightarrow> docid \<Rightarrow> 'it executor outcome) \<Rightarrow> qbase \<Rightarrow> 'it executor option \<Rightarrow> docid \<Rightarrow> int \<Rightarrow> docid \<Rightarrow>
   'it executor outcome" where
  "pk_do_seek sk b c docId num idd =
     (case c of
        None \<Rightarrow> Some (Inr END_DOCID, PK b c docId num)
      | Some e \<Rightarrow>
          if idd > docId then Some (Inr END_DOCID, PK b c docId num)
          else if num > 0 then Some (Inr END_DOCID, PK b c docId num)
          else if docId = END_DOCID then Some (Inr docId, PK b c docId num)
          else
            (let b' = b\<lparr>q_seekDocCount := q_seekDocCount b + 1\<rparr>
             in do { (r, e') \<leftarrow> sk e docId;
                     Some (case r of
                             Inl ec \<Rightarrow> (Inl ec, PK b' (Some e') docId num)
                           | Inr d \<Rightarrow> if docId \<noteq> d then (Inr END_DOCID, PK b' (Some e') docId num)
                                      else (Inr docId, PK b' (Some e') docId (num + 1))) }))"

text \<open>\<^verbatim>\<open>AndQueryExecutor::testCurrentDoc\<close>: the verdict and the number of tests so far.\<close>

fun test_current_doc :: "doc_filter list \<Rightarrow> docid \<Rightarrow> nat \<Rightarrow> bool \<times> nat" where
  "test_current_doc [] d n = (True, n)"
| "test_current_doc (f # fs) d n = (if f d then test_current_doc fs d (n + 1) else (False, n + 1))"

text \<open>The loop of \<^verbatim>\<open>AndQueryExecutor::doSeek\<close>: \<open>k\<close> is \<^verbatim>\<open>currentExecutor - firstExecutor\<close>.\<close>

partial_function (option) and_loop ::
  "('q \<Rightarrow> docid \<Rightarrow> 'q outcome) \<Rightarrow> nat list \<Rightarrow> doc_filter list \<Rightarrow> nat \<Rightarrow> docid \<Rightarrow> 'q list \<Rightarrow> nat \<Rightarrow>
   ((error_code + docid) \<times> 'q list \<times> nat) option" where
  "and_loop sk order fs k current cs tests =
     (if length order \<le> k \<or> length cs \<le> order ! k then None
      else
        do { (r, c) \<leftarrow> sk (cs ! (order ! k)) current;
             let cs' = cs[order ! k := c];
             case r of
               Inl ec \<Rightarrow> Some (Inl ec, cs', tests)
             | Inr tmpid \<Rightarrow>
                 if tmpid = END_DOCID then Some (Inr END_DOCID, cs', tests)
                 else if tmpid \<noteq> current then and_loop sk order fs 0 tmpid cs' tests
                 else if k + 1 \<ge> length order then
                   (case test_current_doc fs current tests of
                      (hit, tests') \<Rightarrow> if hit then Some (Inr current, cs', tests')
                                      else and_loop sk order fs 0 (current + 1) cs' tests')
                 else and_loop sk order fs (k + 1) current cs' tests })"

definition and_do_seek ::
  "('it executor \<Rightarrow> docid \<Rightarrow> 'it executor outcome) \<Rightarrow> qbase \<Rightarrow> 'it executor list \<Rightarrow> nat list \<Rightarrow> doc_filter list \<Rightarrow>
   nat \<Rightarrow> docid \<Rightarrow> 'it executor outcome" where
  "and_do_seek sk b cs order fs tests idd =
     do { (r, cs', tests') \<leftarrow> and_loop sk order fs 0 idd cs tests;
          Some (r, if r = Inr END_DOCID then move_to_end (And b cs' order fs tests')
                   else And b cs' order fs tests') }"

text \<open>The loop of \<^verbatim>\<open>OrQueryExecutor::doSeek\<close>.\<close>

partial_function (option) or_loop ::
  "('q \<Rightarrow> docid \<Rightarrow> 'q outcome) \<Rightarrow> docid \<Rightarrow> nat \<Rightarrow> 'q list \<Rightarrow> entry list \<Rightarrow>
   ((error_code + docid) \<times> 'q list \<times> entry list) option" where
  "or_loop sk idd num cs heap =
     (if length heap \<le> 1 \<or> length cs \<le> e_entryId (heap ! 1) then None
      else
        do { (r, c) \<leftarrow> sk (cs ! e_entryId (heap ! 1)) idd;
             let cs' = cs[e_entryId (heap ! 1) := c];
             case r of
               Inl ec \<Rightarrow> Some (Inl ec, cs', heap)
             | Inr d \<Rightarrow>
                 let heap' = adjust_down 1 num (heap[1 := (heap ! 1)\<lparr>e_docId := d\<rparr>])
                 in if idd > e_docId (heap' ! 1) then or_loop sk idd num cs' heap'
                    else Some (Inr (e_docId (heap' ! 1)), cs', heap') })"

definition or_do_seek ::
  "('it executor \<Rightarrow> docid \<Rightarrow> 'it executor outcome) \<Rightarrow> qbase \<Rightarrow> 'it executor list \<Rightarrow> entry list \<Rightarrow> nat \<Rightarrow> docid \<Rightarrow>
   'it executor outcome" where
  "or_do_seek sk b cs heap num idd =
     do { (r, cs', heap') \<leftarrow> or_loop sk idd num cs heap; Some (r, Or b cs' heap' num) }"

text \<open>The loop of \<^verbatim>\<open>AndNotQueryExecutor::doSeek\<close>, from the test of its condition on.\<close>

partial_function (option) and_not_loop ::
  "('q \<Rightarrow> docid \<Rightarrow> 'q outcome) \<Rightarrow> doc_filter option \<Rightarrow> bool \<Rightarrow> docid \<Rightarrow> 'q \<Rightarrow> 'q option \<Rightarrow> nat \<Rightarrow>
   ((error_code + docid) \<times> 'q \<times> 'q option \<times> nat) option" where
  "and_not_loop sk filt rightHasSub docId l right tests =
     (case right of
        None \<Rightarrow> Some (Inr docId, l, right, tests)
      | Some rq \<Rightarrow>
          if docId = END_DOCID then Some (Inr docId, l, right, tests)
          else
            do { (t, rq', tests') \<leftarrow>
                   (case filt of
                      Some f \<Rightarrow> Some (Inr (if f docId then docId else END_DOCID), rq, tests + 1)
                    | None \<Rightarrow> do { (t, rq') \<leftarrow> sk rq docId; Some (t, rq', tests) });
                 case t of
                   Inl ec \<Rightarrow> Some (Inl ec, l, Some rq', tests')
                 | Inr tmpId \<Rightarrow>
                     if rightHasSub then Some (Inr docId, l, Some rq', tests')
                     else if docId = tmpId then
                       do { (r, l') \<leftarrow> sk l (docId + 1);
                            case r of
                              Inl ec \<Rightarrow> Some (Inl ec, l', Some rq', tests')
                            | Inr d \<Rightarrow> and_not_loop sk filt rightHasSub d l' (Some rq') tests' }
                     else Some (Inr docId, l, Some rq', tests') })"

definition and_not_do_seek ::
  "('it executor \<Rightarrow> docid \<Rightarrow> 'it executor outcome) \<Rightarrow> qbase \<Rightarrow> 'it executor \<Rightarrow> 'it executor option \<Rightarrow>
   doc_filter option \<Rightarrow> nat \<Rightarrow> bool \<Rightarrow> docid \<Rightarrow> 'it executor outcome" where
  "and_not_do_seek sk b l right filt tests rightHasSub idd =
     do { (r, l1) \<leftarrow> sk l idd;
          case r of
            Inl ec \<Rightarrow> Some (Inl ec, AndNot b l1 right filt tests rightHasSub)
          | Inr docId \<Rightarrow>
              do { (r', l2, right', tests') \<leftarrow> and_not_loop sk filt rightHasSub docId l1 right tests;
                   Some (r', AndNot b l2 right' filt tests' rightHasSub) } }"

text \<open>\<^verbatim>\<open>WeakAndQueryExecutor::doNthElement\<close>: the first entry moves up among the sorted ones, then into the heap.\<close>

function bubble :: "nat \<Rightarrow> nat \<Rightarrow> entry list \<Rightarrow> nat \<times> entry list" where
  "bubble m i heap =
     (if i < m then
        if e_docId (heap ! i) > e_docId (heap ! (i + 1)) then bubble m (i + 1) (swap i (i + 1) heap)
        else (i, heap)
      else (i, heap))"
  by pat_completeness auto
termination
  by (relation "measure (\<lambda>(m, i, _). m - i)") auto

declare bubble.simps [simp del]

definition do_nth_element :: "nat \<Rightarrow> nat \<Rightarrow> entry list \<Rightarrow> entry list" where
  "do_nth_element num m heap =
     (case bubble m 1 heap of
        (i, heap') \<Rightarrow>
          if i < m then heap'
          else take (m - 1) heap' @ adjust_down 1 (num - m + 1) (drop (m - 1) heap'))"

text \<open>
  The loop of \<^verbatim>\<open>WeakAndQueryExecutor::doSeek\<close>; its \<^verbatim>\<open>continue\<close> goes to the loop condition, which compares the
  document with the argument \<open>stop\<close>.
\<close>

partial_function (option) weak_loop ::
  "('q \<Rightarrow> docid \<Rightarrow> 'q outcome) \<Rightarrow> docid \<Rightarrow> nat \<Rightarrow> nat \<Rightarrow> docid \<Rightarrow> 'q list \<Rightarrow> entry list \<Rightarrow>
   ((error_code + docid) \<times> 'q list \<times> entry list) option" where
  "weak_loop sk stop num m idd cs heap =
     (if length heap \<le> 1 \<or> length cs \<le> e_entryId (heap ! 1) then None
      else
        do { (r, c) \<leftarrow> sk (cs ! e_entryId (heap ! 1)) idd;
             let cs' = cs[e_entryId (heap ! 1) := c];
             case r of
               Inl ec \<Rightarrow> Some (Inl ec, cs', heap)
             | Inr d \<Rightarrow>
                 let heap' = do_nth_element num m (heap[1 := (heap ! 1)\<lparr>e_docId := d\<rparr>])
                 in if idd > e_docId (heap' ! 1) then
                      (if idd < stop then weak_loop sk stop num m idd cs' heap'
                       else Some (Inr idd, cs', heap'))
                    else if e_docId (heap' ! 1) = e_docId (heap' ! m) then
                      Some (Inr (e_docId (heap' ! m)), cs', heap')
                    else if e_docId (heap' ! m) < stop then
                      weak_loop sk stop num m (e_docId (heap' ! m)) cs' heap'
                    else Some (Inr (e_docId (heap' ! m)), cs', heap') })"

definition weak_and_do_seek ::
  "('it executor \<Rightarrow> docid \<Rightarrow> 'it executor outcome) \<Rightarrow> qbase \<Rightarrow> 'it executor list \<Rightarrow> entry list \<Rightarrow> entry list \<Rightarrow> nat \<Rightarrow>
   nat \<Rightarrow> docid \<Rightarrow> 'it executor outcome" where
  "weak_and_do_seek sk b cs heap heapSub num m idd =
     do { (r, cs', heap') \<leftarrow> weak_loop sk END_DOCID num m idd cs heap;
          Some (r, if r = Inr END_DOCID then move_to_end (WeakAnd b cs' heap' heapSub num m)
                   else WeakAnd b cs' heap' heapSub num m) }"

text \<open>
  The inner loop of \<^verbatim>\<open>BitmapAndQueryExecutor::doSeek\<close>, over the bitmap executors that are left: whether all of
  them have the document.
\<close>

fun test_all :: "('it, 'z) posting_ops_scheme \<Rightarrow> docid \<Rightarrow> 'it executor list \<Rightarrow> (bool \<times> 'it executor list) option" where
  "test_all P d [] = Some (True, [])"
| "test_all P d (e # es) =
     do { (r, e') \<leftarrow> bitmap_test P e d;
          if r then do { (rs, es') \<leftarrow> test_all P d es; Some (rs, e' # es') }
          else Some (False, e' # es) }"

partial_function (option) bitmap_and_loop ::
  "('it executor \<Rightarrow> docid \<Rightarrow> 'it executor outcome) \<Rightarrow> (docid \<Rightarrow> 'it executor list \<Rightarrow> (bool \<times> 'it executor list) option) \<Rightarrow>
   docid \<Rightarrow> 'it executor \<Rightarrow> 'it executor list \<Rightarrow>
   ((error_code + docid) \<times> 'it executor \<times> 'it executor list) option" where
  "bitmap_and_loop sk test docId s bs =
     do { (r, s') \<leftarrow> sk s docId;
          case r of
            Inl ec \<Rightarrow> Some (Inl ec, s', bs)
          | Inr d \<Rightarrow>
              if d = END_DOCID then Some (Inr d, s', bs)
              else do { (hit, bs') \<leftarrow> test d bs;
                        if hit then Some (Inr d, s', bs') else bitmap_and_loop sk test (d + 1) s' bs' } }"

definition bitmap_and_do_seek ::
  "('it, 'z) posting_ops_scheme \<Rightarrow> ('it executor \<Rightarrow> docid \<Rightarrow> 'it executor outcome) \<Rightarrow> qbase \<Rightarrow> 'it executor \<Rightarrow>
   'it executor list \<Rightarrow> docid \<Rightarrow> 'it executor outcome" where
  "bitmap_and_do_seek P sk b s bs idd =
     (if bs = [] then None
      else
        do { (r, s', bs') \<leftarrow> bitmap_and_loop sk (test_all P) idd s bs;
             Some (r, if r = Inr END_DOCID then move_to_end (BitmapAnd b s' bs') else BitmapAnd b s' bs') })"

text \<open>The virtual \<^verbatim>\<open>doSeek\<close>.\<close>

definition do_seek ::
  "('it, 'z) posting_ops_scheme \<Rightarrow> ('it executor \<Rightarrow> docid \<Rightarrow> 'it executor outcome) \<Rightarrow> 'it executor \<Rightarrow> docid \<Rightarrow>
   'it executor outcome" where
  "do_seek P sk e idd =
     (case e of
        Term b it \<Rightarrow> term_do_seek P b it idd
      | BitmapTerm b it \<Rightarrow> bitmap_term_do_seek P b it idd
      | RangeTerm b it cf fl \<Rightarrow> range_term_do_seek P b it cf fl idd
      | DocIdTerm b d \<Rightarrow> Some (Inr (doc_id_result d idd), e)
      | SubDocIdTerm b d s \<Rightarrow> Some (Inr (doc_id_result d idd), e)
      | DocIds b ids pos \<Rightarrow> (case doc_ids_scan ids pos idd of (d, pos') \<Rightarrow> Some (Inr d, DocIds b ids pos'))
      | Range b rs i \<Rightarrow> range_do_seek b rs i idd
      | PK b c d n \<Rightarrow> pk_do_seek sk b c d n idd
      | And b cs order fs n \<Rightarrow> and_do_seek sk b cs order fs n idd
      | Or b cs h n \<Rightarrow> or_do_seek sk b cs h n idd
      | AndNot b l r fl n s \<Rightarrow> and_not_do_seek sk b l r fl n s idd
      | WeakAnd b cs h hs n m \<Rightarrow> weak_and_do_seek sk b cs h hs n m idd
      | BitmapAnd b s bs \<Rightarrow> bitmap_and_do_seek P sk b s bs idd)"

text \<open>
  \<^verbatim>\<open>QueryExecutor::seek\<close>.  The number bounds the nesting of executors: a call on an object of that depth
  reaches the leaves.
\<close>

fun seek :: "('it, 'z) posting_ops_scheme \<Rightarrow> nat \<Rightarrow> 'it executor \<Rightarrow> docid \<Rightarrow> 'it executor outcome" where
  "seek P 0 e idd = None"
| "seek P (Suc n) e idd =
     (if idd > get_doc_id e then
        do { (r, e') \<leftarrow> do_seek P (seek P n) e idd;
             Some (case r of Inl ec \<Rightarrow> (Inl ec, e') | Inr d \<Rightarrow> (Inr d, set_doc_id d e')) }
      else Some (Inr (get_doc_id e), e))"

end
