(* ===== verification/QuerySeek.thy ===== *)
theory QuerySeek
  imports QueryExecutor
begin

text \<open>
  The contract of \<^verbatim>\<open>QueryExecutor::seek\<close> and what the loops of the executors with children do under it.  An
  object stands for a set of documents; a seek gives the first one from its argument on, or
  \<^verbatim>\<open>END_DOCID\<close>.  The loops are proved once, for any children that keep the contract.
\<close>

section \<open>The next document of a set\<close>

definition docset :: "docid set \<Rightarrow> bool" where
  "docset S \<longleftrightarrow> S \<subseteq> {0..<END_DOCID}"

definition nxt :: "docid set \<Rightarrow> docid \<Rightarrow> docid" where
  "nxt S a = (if \<exists>d \<in> S. a \<le> d then Min {d \<in> S. a \<le> d} else END_DOCID)"

lemma docset_finite: "docset S \<Longrightarrow> finite S"
  using finite_subset by (auto simp: docset_def)

lemma docset_less: "docset S \<Longrightarrow> d \<in> S \<Longrightarrow> 0 \<le> d \<and> d < END_DOCID"
  by (auto simp: docset_def)

lemma docset_subset: "docset S \<Longrightarrow> T \<subseteq> S \<Longrightarrow> docset T"
  by (auto simp: docset_def)

lemma nxt_le: "docset S \<Longrightarrow> d \<in> S \<Longrightarrow> a \<le> d \<Longrightarrow> nxt S a \<le> d"
  using docset_finite [of S] by (auto simp: nxt_def intro!: Min_le)

lemma nxt_cases:
  assumes "docset S"
  obtains (hit) "nxt S a \<in> S" "a \<le> nxt S a" "nxt S a < END_DOCID"
  | (none) "nxt S a = END_DOCID" "\<And>d. d \<in> S \<Longrightarrow> d < a"
proof (cases "\<exists>d \<in> S. a \<le> d")
  case True
  then have "nxt S a = Min {d \<in> S. a \<le> d}" "{d \<in> S. a \<le> d} \<noteq> {}" "finite {d \<in> S. a \<le> d}"
    using docset_finite [OF assms] by (auto simp: nxt_def)
  then have "nxt S a \<in> {d \<in> S. a \<le> d}"
    using Min_in by metis
  then show ?thesis
    using hit assms docset_less by blast
next
  case False
  then have "nxt S a = END_DOCID" "\<And>d. d \<in> S \<Longrightarrow> d < a"
    by (auto simp: nxt_def not_le)
  then show ?thesis
    by (rule none)
qed

lemma nxt_eqI: "docset S \<Longrightarrow> d \<in> S \<Longrightarrow> a \<le> d \<Longrightarrow> (\<And>x. x \<in> S \<Longrightarrow> a \<le> x \<Longrightarrow> d \<le> x) \<Longrightarrow> nxt S a = d"
  by (rule nxt_cases [of S a]) (auto intro: antisym nxt_le dest: leD)

lemma nxt_none: "(\<And>x. x \<in> S \<Longrightarrow> x < a) \<Longrightarrow> nxt S a = END_DOCID"
  by (force simp: nxt_def)

lemma nxt_ge: "docset S \<Longrightarrow> a \<le> END_DOCID \<Longrightarrow> a \<le> nxt S a"
  by (rule nxt_cases [of S a]) auto

lemma nxt_le_END: "docset S \<Longrightarrow> nxt S a \<le> END_DOCID"
  by (rule nxt_cases [of S a]) auto

lemma nxt_END: "docset S \<Longrightarrow> nxt S END_DOCID = END_DOCID"
  by (rule nxt_none) (auto dest: docset_less)

lemma nxt_hit: "docset S \<Longrightarrow> nxt S a \<noteq> END_DOCID \<Longrightarrow> nxt S a \<in> S \<and> a \<le> nxt S a \<and> nxt S a < END_DOCID"
  by (rule nxt_cases [of S a]) auto

lemma nxt_skip: "(\<And>x. x \<in> S \<Longrightarrow> a \<le> x \<longleftrightarrow> b \<le> x) \<Longrightarrow> nxt S a = nxt S b"
proof -
  assume eq: "\<And>x. x \<in> S \<Longrightarrow> a \<le> x \<longleftrightarrow> b \<le> x"
  then have "{d \<in> S. a \<le> d} = {d \<in> S. b \<le> d}" by blast
  then show ?thesis
    using eq unfolding nxt_def by (intro if_cong) auto
qed

lemma nxt_mono: "docset S \<Longrightarrow> a \<le> b \<Longrightarrow> nxt S a \<le> nxt S b"
  by (rule nxt_cases [of S b]) (auto intro: nxt_le nxt_le_END)

text \<open>Documents that lie in a larger set are not skipped by seeking in it.\<close>

lemma nxt_subset: "docset S \<Longrightarrow> T \<subseteq> S \<Longrightarrow> a \<le> END_DOCID \<Longrightarrow> nxt T a = nxt T (nxt S a)"
proof (rule nxt_skip)
  fix x
  assume S: "docset S" "T \<subseteq> S" "a \<le> END_DOCID" and x: "x \<in> T"
  show "a \<le> x \<longleftrightarrow> nxt S a \<le> x"
    using nxt_le [OF S(1), of x a] nxt_ge [OF S(1,3)] S(2) x by (auto dest: order_trans)
qed

lemma nxt_at: "docset S \<Longrightarrow> a \<in> S \<Longrightarrow> nxt S a = a"
  by (rule nxt_eqI) auto

lemma nxt_miss: "a \<notin> S \<Longrightarrow> nxt S a = nxt S (a + 1)"
proof (rule nxt_skip)
  fix x
  assume "a \<notin> S" "x \<in> S"
  then have "x \<noteq> a" by blast
  then show "a \<le> x \<longleftrightarrow> a + 1 \<le> x" by linarith
qed

section \<open>The contract\<close>

locale seekable =
  fixes sk :: "'q \<Rightarrow> docid \<Rightarrow> 'q outcome" and inv :: "'q \<Rightarrow> bool" and docs :: "'q \<Rightarrow> docid set"
    and cur :: "'q \<Rightarrow> docid" and ok :: bool
  assumes docs_valid: "inv q \<Longrightarrow> docset (docs q)"
    and sk_law: "inv q \<Longrightarrow> 0 \<le> a \<Longrightarrow> a \<le> END_DOCID \<Longrightarrow> cur q \<le> nxt (docs q) a \<Longrightarrow>
      \<exists>r q'. sk q a = Some (r, q') \<and>
        (case r of
           Inl _ \<Rightarrow> \<not> ok
         | Inr d \<Rightarrow> d = nxt (docs q) a \<and> inv q' \<and> docs q' = docs q \<and> cur q' = d)"
begin

text \<open>An object that has not gone past its first document from \<open>a\<close> on.\<close>

definition ready :: "docid \<Rightarrow> 'q \<Rightarrow> bool" where
  "ready a q \<longleftrightarrow> inv q \<and> cur q \<le> nxt (docs q) a"

lemma ready_inv: "ready a q \<Longrightarrow> inv q"
  by (simp add: ready_def)

lemma ready_mono: "ready a q \<Longrightarrow> a \<le> b \<Longrightarrow> ready b q"
  using nxt_mono [OF docs_valid, of q a b] by (auto simp: ready_def)

lemma ready_docs: "ready a q \<Longrightarrow> docset (docs q)"
  using docs_valid by (simp add: ready_def)

lemma sk_cases:
  assumes "ready a q" "0 \<le> a" "a \<le> END_DOCID"
  obtains (err) ec q' where "sk q a = Some (Inl ec, q')" "\<not> ok"
  | (doc) q' where "sk q a = Some (Inr (nxt (docs q) a), q')" "inv q'" "docs q' = docs q"
      "cur q' = nxt (docs q) a" "ready a q'"
proof -
  obtain r q' where r: "sk q a = Some (r, q')"
    "case r of Inl _ \<Rightarrow> \<not> ok | Inr d \<Rightarrow> d = nxt (docs q) a \<and> inv q' \<and> docs q' = docs q \<and> cur q' = d"
    using sk_law [of q a] assms by (auto simp: ready_def)
  show ?thesis
  proof (cases r)
    case (Inl ec)
    then show ?thesis
      using err [of ec q'] r by simp
  next
    case (Inr d)
    then show ?thesis
      using doc [of q'] r by (simp add: ready_def)
  qed
qed

text \<open>A list of children with one of them moved on.\<close>

definition same_docs :: "'q list \<Rightarrow> 'q list \<Rightarrow> bool" where
  "same_docs cs cs' \<longleftrightarrow> map docs cs' = map docs cs"

lemma same_docs_refl [simp]: "same_docs cs cs"
  by (simp add: same_docs_def)

lemma same_docs_trans: "same_docs cs cs1 \<Longrightarrow> same_docs cs1 cs2 \<Longrightarrow> same_docs cs cs2"
  by (simp add: same_docs_def)

lemma same_docs_length: "same_docs cs cs' \<Longrightarrow> length cs' = length cs"
  unfolding same_docs_def by (rule map_eq_imp_length_eq)

lemma same_docs_nth: "same_docs cs cs' \<Longrightarrow> i < length cs \<Longrightarrow> docs (cs' ! i) = docs (cs ! i)"
  using same_docs_length [of cs cs'] nth_map [of i cs docs] nth_map [of i cs' docs] by (simp add: same_docs_def)

lemma same_docs_update: "docs c = docs (cs ! i) \<Longrightarrow> same_docs cs (cs[i := c])"
  by (cases "i < length cs") (simp_all add: same_docs_def map_update list_update_same_conv list_update_beyond)

lemma inv_update: "\<forall>c \<in> set cs. inv c \<Longrightarrow> inv c' \<Longrightarrow> \<forall>c \<in> set (cs[i := c']). inv c"
  using set_update_subset_insert [of cs i c'] by blast

section \<open>The loop of an AND\<close>

lemma lex_measure: "a' < a \<Longrightarrow> b' \<le> n \<Longrightarrow> a' * (n + 1) + b' < a * (n + 1) + (b :: nat)"
proof -
  assume a: "a' < a" and b: "b' \<le> n"
  have "(a' + 1) * (n + 1) \<le> a * (n + 1)"
    using a by (intro mult_le_mono1) simp
  then show ?thesis using b by simp
qed

definition all_hits :: "'q list \<Rightarrow> nat list \<Rightarrow> doc_filter list \<Rightarrow> docid set" where
  "all_hits cs order fs = {d. (\<forall>i \<in> set order. d \<in> docs (cs ! i)) \<and> (\<forall>f \<in> set fs. f d)}"

lemma all_hits_same: "same_docs cs cs' \<Longrightarrow> \<forall>i \<in> set order. i < length cs \<Longrightarrow> all_hits cs' order fs = all_hits cs order fs"
  by (auto simp: all_hits_def same_docs_nth)

lemma test_current_doc_all: "fst (test_current_doc fs d n) \<longleftrightarrow> (\<forall>f \<in> set fs. f d)"
  by (induction fs d n rule: test_current_doc.induct) auto

text \<open>What a loop over the children leaves behind, when it answers \<open>d\<close>.\<close>

definition and_done :: "nat list \<Rightarrow> 'q list \<Rightarrow> docid \<Rightarrow> 'q list \<Rightarrow> bool" where
  "and_done order cs d cs' \<longleftrightarrow> same_docs cs cs' \<and> (\<forall>i \<in> set order. ready d (cs' ! i)) \<and>
     ((\<forall>c \<in> set cs. inv c) \<longrightarrow> (\<forall>c \<in> set cs'. inv c))"

lemma and_done_step:
  assumes "and_done order (cs[i := c]) d cs'" "docs c = docs (cs ! i)" "inv c"
  shows "and_done order cs d cs'"
  unfolding and_done_def
proof (intro conjI impI)
  show "same_docs cs cs'"
    using same_docs_trans [OF same_docs_update [OF assms(2)]] assms(1) by (simp add: and_done_def)
  show "\<forall>i \<in> set order. ready d (cs' ! i)"
    using assms(1) by (simp add: and_done_def)
  assume "\<forall>c \<in> set cs. inv c"
  then have "\<forall>c \<in> set (cs[i := c]). inv c"
    using assms(3) by (rule inv_update)
  then show "\<forall>c \<in> set cs'. inv c"
    using assms(1) by (simp add: and_done_def)
qed

lemma ready_update:
  assumes "\<forall>i \<in> set order. i < length cs \<and> ready a (cs ! i)" "a \<le> b" "ready b c"
  shows "\<forall>i \<in> set order. i < length (cs[j := c]) \<and> ready b (cs[j := c] ! i)"
proof
  fix i
  assume "i \<in> set order"
  then have "i < length cs" "ready b (cs ! i)"
    using assms(1) ready_mono [OF _ assms(2)] by auto
  then show "i < length (cs[j := c]) \<and> ready b (cs[j := c] ! i)"
    using assms(3) by (cases "i = j") simp_all
qed

definition and_post :: "nat list \<Rightarrow> doc_filter list \<Rightarrow> 'q list \<Rightarrow> docid \<Rightarrow> ((error_code + docid) \<times> 'q list \<times> nat) option \<Rightarrow> bool" where
  "and_post order fs cs a res \<longleftrightarrow>
     (\<exists>r cs' t. res = Some (r, cs', t) \<and>
        (case r of Inl _ \<Rightarrow> \<not> ok | Inr d \<Rightarrow> d = nxt (all_hits cs order fs) a \<and> and_done order cs d cs'))"

lemma and_post_step:
  assumes "and_post order fs (cs[i := c]) b res" "docs c = docs (cs ! i)" "inv c"
    and "\<forall>i \<in> set order. i < length cs" "nxt (all_hits cs order fs) a = nxt (all_hits cs order fs) b"
  shows "and_post order fs cs a res"
proof -
  obtain r cs' t where r: "res = Some (r, cs', t)"
    "case r of Inl _ \<Rightarrow> \<not> ok | Inr d \<Rightarrow> d = nxt (all_hits (cs[i := c]) order fs) b \<and> and_done order (cs[i := c]) d cs'"
    using assms(1) by (auto simp: and_post_def)
  have "all_hits (cs[i := c]) order fs = all_hits cs order fs"
    using all_hits_same [OF same_docs_update [OF assms(2)] assms(4)] .
  then have "case r of Inl _ \<Rightarrow> \<not> ok | Inr d \<Rightarrow> d = nxt (all_hits cs order fs) a \<and> and_done order cs d cs'"
    using r(2) assms(5) and_done_step [OF _ assms(2,3)] by (cases r) simp_all
  then show ?thesis
    using r(1) by (simp add: and_post_def)
qed

lemma and_loop_hit:
  assumes "sk (cs ! (order ! k)) a = Some (Inr t, c)" "k < length order" "order ! k < length cs"
  shows "and_loop sk order fs k a cs tests =
    (let cs' = cs[order ! k := c]
     in if t = END_DOCID then Some (Inr END_DOCID, cs', tests)
        else if t \<noteq> a then and_loop sk order fs 0 t cs' tests
        else if k + 1 \<ge> length order then
          (case test_current_doc fs a tests of
             (hit, tests') \<Rightarrow> if hit then Some (Inr a, cs', tests') else and_loop sk order fs 0 (a + 1) cs' tests')
        else and_loop sk order fs (k + 1) a cs' tests)"
  using assms by (subst and_loop.simps) (simp add: Let_def)

text \<open>The documents the children before \<open>k\<close> have agreed on.\<close>

definition agreed :: "nat list \<Rightarrow> nat \<Rightarrow> docid \<Rightarrow> 'q list \<Rightarrow> bool" where
  "agreed order k a cs \<longleftrightarrow> (\<forall>i \<in> set (take k order). a \<in> docs (cs ! i))"

lemma agreed_step:
  assumes "agreed order k a cs" "k < length order" "\<forall>i \<in> set order. i < length cs"
    and "a \<in> docs (cs ! (order ! k))" "docs c = docs (cs ! (order ! k))"
  shows "agreed order (k + 1) a (cs[order ! k := c])"
  unfolding agreed_def
proof
  fix i
  assume "i \<in> set (take (k + 1) order)"
  then have "i \<in> set order" "a \<in> docs (cs ! i)"
    using assms(1,2,4) by (auto simp: take_Suc_conv_app_nth agreed_def dest: in_set_takeD)
  then show "a \<in> docs (cs[order ! k := c] ! i)"
    using same_docs_nth [OF same_docs_update [OF assms(5)]] assms(3) by simp
qed

lemma agreed_all:
  assumes "agreed order (length order) a cs"
  shows "a \<in> all_hits cs order fs \<longleftrightarrow> fst (test_current_doc fs a tests)"
  using assms by (auto simp: agreed_def all_hits_def test_current_doc_all)

lemma and_loop_post:
  assumes "k < length order" "\<forall>i \<in> set order. i < length cs \<and> ready a (cs ! i)" "0 \<le> a" "a \<le> END_DOCID"
    and "agreed order k a cs"
  shows "and_post order fs cs a (and_loop sk order fs k a cs tests)"
  using assms
proof (induction "nat (END_DOCID - a) * (length order + 1) + (length order - k)" arbitrary: k a cs tests rule: less_induct)
  case less
  let ?i = "order ! k" and ?H = "all_hits cs order fs"
  have ne: "0 < length order"
    using less.prems(1) by (rule le_less_trans [OF le0])
  have i: "?i \<in> set order" "?i < length cs" and rd: "ready a (cs ! ?i)" and len: "\<forall>i \<in> set order. i < length cs"
    using less.prems by auto
  have sub: "?H \<subseteq> docs (cs ! ?i)"
    using i by (auto simp: all_hits_def)
  have dv: "docset (docs (cs ! ?i))"
    using rd by (rule ready_docs)
  then have dH: "docset ?H"
    using sub by (rule docset_subset)
  from rd less.prems(3,4) show ?case
  proof (cases rule: sk_cases)
    case (err ec q')
    then show ?thesis
      using i less.prems(1) unfolding and_post_def by (subst and_loop.simps) simp
  next
    case (doc c)
    let ?t = "nxt (docs (cs ! ?i)) a" and ?cs = "cs[?i := c]"
    note loop = and_loop_hit [OF doc(1) less.prems(1) i(2), unfolded Let_def, of fs tests]
    have t: "a \<le> ?t" "?t \<le> END_DOCID"
      using nxt_ge [OF dv less.prems(4)] nxt_le_END [OF dv] .
    have rdt: "\<forall>i \<in> set order. i < length ?cs \<and> ready b (?cs ! i)" if "a \<le> b" for b
      using less.prems(2) that ready_mono [OF doc(5) that] by (rule ready_update)
    have step: "and_post order fs cs a (and_loop sk order fs k' b ?cs tests')"
      if st: "nat (END_DOCID - b) * (length order + 1) + (length order - k') <
        nat (END_DOCID - a) * (length order + 1) + (length order - k)"
      "k' < length order" "a \<le> b" "b \<le> END_DOCID" "agreed order k' b ?cs" "nxt ?H a = nxt ?H b"
      for k' b tests'
      using less.hyps [OF st(1,2) rdt [OF st(3)] order_trans [OF less.prems(3) st(3)] st(4,5), of tests']
      by (rule and_post_step [OF _ doc(3,2) len st(6)])
    have fin: "and_post order fs cs a (Some (Inr b, ?cs, tests'))" if "a \<le> b" "nxt ?H a = b" for b tests'
      using rdt [OF that(1)] that(2) same_docs_update [OF doc(3)] inv_update [of cs c ?i] doc(2)
      by (auto simp: and_post_def and_done_def)
    consider (last) "?t = END_DOCID" | (ahead) "?t \<noteq> END_DOCID" "?t \<noteq> a" | (at) "?t \<noteq> END_DOCID" "?t = a"
      by blast
    then show ?thesis
    proof cases
      case last
      then show ?thesis
        using loop fin [of END_DOCID tests] less.prems(4) nxt_subset [OF dv sub less.prems(4)] nxt_END [OF dH] by simp
    next
      case ahead
      then have lt: "nat (END_DOCID - ?t) < nat (END_DOCID - a)"
        using t by simp
      show ?thesis
        using step [OF lex_measure [OF lt] ne t, of tests] nxt_subset [OF dv sub less.prems(4)] loop ahead
        by (simp add: agreed_def)
    next
      case at
      then have lt: "a < END_DOCID" and a: "a \<in> docs (cs ! ?i)"
        using nxt_hit [OF dv] by metis+
      note agr = agreed_step [OF less.prems(5,1) len a doc(3)]
      show ?thesis
      proof (cases "k + 1 \<ge> length order")
        case False
        then show ?thesis
          using step [OF _ _ order_refl less.prems(4) agr, of tests] loop at by simp
      next
        case True
        then have k: "length order = k + 1"
          using less.prems(1) by simp
        then have H: "a \<in> ?H \<longleftrightarrow> fst (test_current_doc fs a tests)"
          using agreed_all [of order a ?cs fs tests] agr all_hits_same [OF same_docs_update [OF doc(3)] len] by simp
        have lt': "nat (END_DOCID - (a + 1)) < nat (END_DOCID - a)"
          using lt by simp
        show ?thesis
        proof (cases "fst (test_current_doc fs a tests)")
          case True
          then show ?thesis
            using loop at k H fin [of a] nxt_at [OF dH] by (simp add: case_prod_beta)
        next
          case False
          then have "nxt ?H a = nxt ?H (a + 1)"
            using H by (intro nxt_miss) simp
          then show ?thesis
            using step [OF lex_measure [OF lt'] ne, of "snd (test_current_doc fs a tests)"] loop at k False lt
            by (simp add: case_prod_beta agreed_def)
        qed
      qed
    qed
  qed
qed

end

end
