(* ===== verification/QueryOr.thy ===== *)
theory QueryOr
  imports QuerySeek
begin

text \<open>The loops of the OR and AND NOT executors under the contract of their children.\<close>

lemma tl_mset:
  assumes "mset xs = mset ys" "hd xs = hd ys" "xs \<noteq> []"
  shows "mset (tl xs) = mset (tl ys)"
proof -
  have "ys \<noteq> []"
    using assms(1,3) by auto
  then show ?thesis
    using assms by (metis add_mset_add_mset_same_iff list.exhaust_sel mset.simps(2))
qed

lemma adjust_down_tl:
  assumes "1 < length heap" "num < length heap"
  shows "mset (tl (adjust_down 1 num heap)) = mset (tl heap)"
proof (rule tl_mset)
  show "mset (adjust_down 1 num heap) = mset heap"
    using assms by (intro adjust_down_mset)
  have "adjust_down 1 num heap ! 0 = heap ! 0"
    using assms by (intro adjust_down_before) simp_all
  moreover have "adjust_down 1 num heap \<noteq> []" "heap \<noteq> []"
    using assms by (auto simp flip: length_greater_0_conv)
  ultimately show "hd (adjust_down 1 num heap) = hd heap"
    by (simp add: hd_conv_nth)
  show "adjust_down 1 num heap \<noteq> []"
    by fact
qed

lemma set_tl_nth: "set (tl heap) = {heap ! i | i. 1 \<le> i \<and> i < length heap}"
proof (cases heap)
  case Nil
  then show ?thesis by simp
next
  case (Cons x xs)
  have "set xs = {xs ! j | j. j < length xs}"
    by (auto simp: set_conv_nth)
  also have "\<dots> = {heap ! i | i. 1 \<le> i \<and> i < length heap}"
    using Cons by (auto intro: exI [of _ "Suc _"])
  finally show ?thesis
    using Cons by simp
qed

context seekable
begin

text \<open>An entry of the heap: its document is one of the child's, and not past the first one from \<open>a\<close> on.\<close>

definition entry_ok :: "docid \<Rightarrow> 'q list \<Rightarrow> entry \<Rightarrow> bool" where
  "entry_ok a cs e \<longleftrightarrow> e_entryId e < length cs \<and> ready a (cs ! e_entryId e) \<and>
     e_docId e \<le> nxt (docs (cs ! e_entryId e)) a \<and>
     (e_docId e \<in> docs (cs ! e_entryId e) \<or> e_docId e = INVALID_DOCID \<or> e_docId e = END_DOCID)"

lemma entry_ok_mono: "entry_ok a cs e \<Longrightarrow> a \<le> b \<Longrightarrow> entry_ok b cs e"
  using nxt_mono [OF ready_docs, of a "cs ! e_entryId e" a b] ready_mono [of a "cs ! e_entryId e" b]
  by (auto simp: entry_ok_def)

lemma entry_ok_reached:
  assumes "entry_ok a cs e" "0 \<le> a" "a \<le> e_docId e"
  shows "e_docId e = nxt (docs (cs ! e_entryId e)) a"
proof -
  have d: "docset (docs (cs ! e_entryId e))"
    using assms(1) ready_docs by (auto simp: entry_ok_def)
  have "e_docId e \<noteq> INVALID_DOCID"
    using assms(2,3) by (simp add: INVALID_DOCID_def)
  then have "nxt (docs (cs ! e_entryId e)) a \<le> e_docId e"
    using assms nxt_le [OF d] nxt_le_END [OF d] by (auto simp: entry_ok_def)
  then show ?thesis
    using assms(1) by (simp add: entry_ok_def)
qed

text \<open>Seeking one child keeps every entry right.\<close>

lemma entry_ok_update:
  assumes "entry_ok a cs e" "docs c = docs (cs ! i)" "ready a c"
  shows "entry_ok a (cs[i := c]) e"
proof -
  have "docs (cs[i := c] ! e_entryId e) = docs (cs ! e_entryId e)"
    using same_docs_nth [OF same_docs_update [OF assms(2)]] assms(1) by (simp add: entry_ok_def)
  moreover have "ready a (cs[i := c] ! e_entryId e)"
    using assms(1,3) by (cases "i = e_entryId e") (simp_all add: entry_ok_def)
  ultimately show ?thesis
    using assms(1) by (simp add: entry_ok_def)
qed

lemma entry_ok_new:
  assumes "entry_ok a cs e" "docs c = docs (cs ! e_entryId e)" "ready a c"
  shows "entry_ok a (cs[e_entryId e := c]) (e\<lparr>e_docId := nxt (docs (cs ! e_entryId e)) a\<rparr>)"
  using assms nxt_hit [OF ready_docs [OF assms(3)], of a] by (auto simp: entry_ok_def)

definition entries_ok :: "docid \<Rightarrow> 'q list \<Rightarrow> entry list \<Rightarrow> bool" where
  "entries_ok a cs heap \<longleftrightarrow> (\<forall>e \<in> set (tl heap). entry_ok a cs e) \<and>
     e_entryId ` set (tl heap) = {..<length cs}"

lemma entries_ok_mono: "entries_ok a cs heap \<Longrightarrow> a \<le> b \<Longrightarrow> entries_ok b cs heap"
  unfolding entries_ok_def using entry_ok_mono by blast

lemma entries_ok_top: "entries_ok a cs heap \<Longrightarrow> 1 < length heap \<Longrightarrow> entry_ok a cs (heap ! 1)"
  unfolding entries_ok_def set_tl_nth by blast

lemma entries_ok_new:
  assumes ok: "entries_ok a cs heap" and len: "1 < length heap"
    and c: "docs c = docs (cs ! e_entryId (heap ! 1))" "ready a c"
    and heap': "mset (tl heap') = mset (tl (heap[1 := (heap ! 1)\<lparr>e_docId := nxt (docs (cs ! e_entryId (heap ! 1))) a\<rparr>]))"
  shows "entries_ok a (cs[e_entryId (heap ! 1) := c]) heap'"
proof -
  obtain z e es where h: "heap = z # e # es"
    using len by (cases heap; cases "tl heap") auto
  let ?e = "e\<lparr>e_docId := nxt (docs (cs ! e_entryId e)) a\<rparr>"
  have "mset (tl heap') = mset (?e # es)"
    using heap' h by simp
  then have "set (tl heap') = set (?e # es)"
    by (rule mset_eq_setD)
  then have set: "set (tl heap') = insert ?e (set es)"
    by simp
  have "entry_ok a cs e" "\<forall>x \<in> set es. entry_ok a cs x" "insert (e_entryId e) (e_entryId ` set es) = {..<length cs}"
    using ok h by (simp_all add: entries_ok_def)
  moreover from this have "entry_ok a (cs[e_entryId e := c]) ?e" "\<forall>x \<in> set es. entry_ok a (cs[e_entryId e := c]) x"
    using c h entry_ok_update [of a cs _ c "e_entryId e"] entry_ok_new [of a cs e c] by simp_all
  ultimately show ?thesis
    unfolding entries_ok_def set using h by simp
qed

text \<open>When the smallest entry has reached \<open>a\<close>, it is the first document of any child from \<open>a\<close> on.\<close>

lemma heap_top_next:
  assumes ok: "entries_ok a cs heap" and heap: "is_heap num heap" "length heap = num + 1" "0 < num"
    and a: "0 \<le> a" "a \<le> e_docId (heap ! 1)"
  shows "e_docId (heap ! 1) = nxt (\<Union>c \<in> set cs. docs c) a"
proof -
  let ?top = "e_docId (heap ! 1)" and ?U = "\<Union>c \<in> set cs. docs c"
  have reached: "e_docId e = nxt (docs (cs ! e_entryId e)) a \<and> ?top \<le> e_docId e" if e: "e \<in> set (tl heap)" for e
  proof -
    obtain i where "e = heap ! i" "1 \<le> i" "i \<le> num"
      using e heap(2) by (auto simp: set_tl_nth)
    then have "?top \<le> e_docId e"
      using heap_min [OF heap(1)] by simp
    then show ?thesis
      using entry_ok_reached [of a cs e] ok e a by (auto simp: entries_ok_def)
  qed
  have every: "\<exists>e \<in> set (tl heap). c = cs ! e_entryId e" if c: "c \<in> set cs" for c
  proof -
    obtain i where i: "i < length cs" "c = cs ! i"
      using c by (auto simp: in_set_conv_nth)
    then have "i \<in> e_entryId ` set (tl heap)"
      using ok by (simp add: entries_ok_def)
    then show ?thesis
      using i by auto
  qed
  have valid: "docset (docs c)" if "c \<in> set cs" for c
    using every [OF that] ok ready_docs by (auto simp: entries_ok_def entry_ok_def)
  then have U: "docset ?U"
    by (auto simp: docset_def)
  have least: "?top \<le> x" if x: "x \<in> ?U" "a \<le> x" for x
  proof -
    obtain c e where "c \<in> set cs" "x \<in> docs c" "e \<in> set (tl heap)" "c = cs ! e_entryId e"
      using x(1) every by blast
    then show ?thesis
      using reached [of e] nxt_le [OF valid, of c x a] x(2) by simp
  qed
  have top: "heap ! 1 \<in> set (tl heap)"
    using heap by (auto simp: set_tl_nth)
  then have c: "cs ! e_entryId (heap ! 1) \<in> set cs"
    using ok by (auto simp: entries_ok_def entry_ok_def)
  show ?thesis
  proof (rule nxt_cases [OF U, of a])
    assume "nxt ?U a \<in> ?U" "a \<le> nxt ?U a" "nxt ?U a < END_DOCID"
    moreover from this have "?top \<le> nxt ?U a"
      using least by blast
    ultimately have "?top \<in> ?U"
      using nxt_hit [OF valid [OF c], of a] reached [OF top] c by auto
    then show ?thesis
      using nxt_eqI [OF U _ a(2)] least by simp
  next
    assume none: "nxt ?U a = END_DOCID" "\<And>d. d \<in> ?U \<Longrightarrow> d < a"
    then have "nxt (docs (cs ! e_entryId (heap ! 1))) a = END_DOCID"
      using c by (intro nxt_none) blast
    then show ?thesis
      using reached [OF top] none(1) by simp
  qed
qed

section \<open>The loop of an OR\<close>

definition behind :: "docid \<Rightarrow> entry list \<Rightarrow> nat" where
  "behind a heap = length (filter (\<lambda>e. e_docId e < a) (tl heap))"

lemma behind_mset: "mset (tl heap') = mset (tl heap) \<Longrightarrow> behind a heap' = behind a heap"
  unfolding behind_def by (metis mset_filter size_mset)

text \<open>Moving the first entry from before \<open>a\<close> to \<open>a\<close> or later leaves one entry less behind.\<close>

lemma behind_new:
  assumes "1 < length heap" "e_docId (heap ! 1) < a" "a \<le> d"
    and "mset (tl heap') = mset (tl (heap[1 := (heap ! 1)\<lparr>e_docId := d\<rparr>]))"
  shows "behind a heap' < behind a heap"
proof -
  obtain z e es where h: "heap = z # e # es"
    using assms(1) by (cases heap; cases "tl heap") auto
  show ?thesis
    unfolding behind_mset [OF assms(4)] using assms(2,3) h by (simp add: behind_def)
qed

definition or_post :: "nat \<Rightarrow> 'q list \<Rightarrow> docid \<Rightarrow> ((error_code + docid) \<times> 'q list \<times> entry list) option \<Rightarrow> bool" where
  "or_post num cs a res \<longleftrightarrow>
     (\<exists>r cs' heap'. res = Some (r, cs', heap') \<and>
        (case r of
           Inl _ \<Rightarrow> \<not> ok
         | Inr d \<Rightarrow> d = nxt (\<Union>c \<in> set cs. docs c) a \<and> same_docs cs cs' \<and> entries_ok a cs' heap' \<and>
             is_heap num heap' \<and> length heap' = num + 1))"

lemma union_docs_same: "same_docs cs cs' \<Longrightarrow> (\<Union>c \<in> set cs'. docs c) = (\<Union>c \<in> set cs. docs c)"
  by (metis same_docs_def set_map)

lemma or_post_step:
  assumes "or_post num cs' a res" "same_docs cs cs'"
  shows "or_post num cs a res"
proof -
  obtain r cs2 heap' where r: "res = Some (r, cs2, heap')"
    "case r of Inl _ \<Rightarrow> \<not> ok
     | Inr d \<Rightarrow> d = nxt (\<Union>c \<in> set cs'. docs c) a \<and> same_docs cs' cs2 \<and> entries_ok a cs2 heap' \<and>
         is_heap num heap' \<and> length heap' = num + 1"
    using assms(1) by (auto simp: or_post_def)
  then show ?thesis
    using same_docs_trans [OF assms(2)] unfolding or_post_def union_docs_same [OF assms(2)]
    by (cases r) simp_all
qed

lemma or_loop_post:
  assumes "entries_ok a cs heap" "is_heap num heap" "length heap = num + 1" "0 < num" "0 \<le> a" "a \<le> END_DOCID"
  shows "or_post num cs a (or_loop sk a num cs heap)"
  using assms(1-3)
proof (induction "behind a heap" arbitrary: cs heap rule: less_induct)
  case less
  let ?e = "heap ! 1" and ?i = "e_entryId (heap ! 1)"
  have len: "1 < length heap"
    using less.prems(3) assms(4) by simp
  have e: "entry_ok a cs ?e"
    using entries_ok_top [OF less.prems(1) len] .
  then have i: "?i < length cs" and rd: "ready a (cs ! ?i)"
    by (simp_all add: entry_ok_def)
  from rd assms(5,6) show ?case
  proof (cases rule: sk_cases)
    case (err ec q')
    then show ?thesis
      using i len unfolding or_post_def by (subst or_loop.simps) simp
  next
    case (doc c)
    let ?d = "nxt (docs (cs ! ?i)) a" and ?cs = "cs[?i := c]"
    let ?h = "heap[1 := ?e\<lparr>e_docId := ?d\<rparr>]"
    let ?heap = "adjust_down 1 num ?h"
    have d: "a \<le> ?d"
      using nxt_ge [OF ready_docs [OF rd] assms(6)] .
    have heap: "is_heap num ?heap" "length ?heap = num + 1" "mset (tl ?heap) = mset (tl ?h)"
      using adjust_down_heap [OF heap_replace_top [OF less.prems(2)]] adjust_down_tl [of ?h num] less.prems(3) len
      by simp_all
    have ok: "entries_ok a ?cs ?heap"
      using entries_ok_new [OF less.prems(1) len doc(3,5) heap(3)] .
    have same: "same_docs cs ?cs"
      using doc(3) by (rule same_docs_update)
    have eq: "or_loop sk a num cs heap =
      (if a > e_docId (?heap ! 1) then or_loop sk a num ?cs ?heap else Some (Inr (e_docId (?heap ! 1)), ?cs, ?heap))"
      using doc(1) i len by (subst or_loop.simps) (simp add: Let_def)
    show ?thesis
    proof (cases "a > e_docId (?heap ! 1)")
      case True
      have "?heap ! 1 \<in> set (tl ?heap)"
        unfolding set_tl_nth using heap(2) assms(4) by (intro CollectI exI [of _ 1]) simp
      then have "?heap ! 1 \<in> set (tl ?h)"
        using mset_eq_setD [OF heap(3)] by simp
      then obtain j where j: "?heap ! 1 = ?h ! j" "1 \<le> j" "j < length heap"
        unfolding set_tl_nth by auto
      then have "j \<noteq> 1"
        using True d len by auto
      then have "e_docId (heap ! j) < a"
        using True j by simp
      moreover have "e_docId ?e \<le> e_docId (heap ! j)"
        using heap_min [OF less.prems(2) j(2)] j(3) less.prems(3) by simp
      ultimately have "behind a ?heap < behind a heap"
        using d by (intro behind_new [OF len _ _ heap(3)]) simp_all
      then have "or_post num ?cs a (or_loop sk a num ?cs ?heap)"
        using ok heap(1,2) by (rule less.hyps)
      then show ?thesis
        using or_post_step [OF _ same] eq True by simp
    next
      case False
      then have "e_docId (?heap ! 1) = nxt (\<Union>c \<in> set ?cs. docs c) a"
        using heap_top_next [OF ok heap(1,2) assms(4,5)] by simp
      then show ?thesis
        unfolding or_post_def eq using False union_docs_same [OF same] same ok heap by simp
    qed
  qed
qed

section \<open>The loop of an AND NOT\<close>

text \<open>What the right side takes away: nothing if it has sub documents.\<close>

definition right_docs :: "doc_filter option \<Rightarrow> bool \<Rightarrow> 'q option \<Rightarrow> docid set" where
  "right_docs filt rightHasSub right =
     (case right of
        None \<Rightarrow> {}
      | Some r \<Rightarrow> if rightHasSub then {} else (case filt of Some f \<Rightarrow> {d. f d} | None \<Rightarrow> docs r))"

definition right_ready :: "docid \<Rightarrow> doc_filter option \<Rightarrow> 'q option \<Rightarrow> bool" where
  "right_ready a filt right \<longleftrightarrow> (\<forall>r. right = Some r \<longrightarrow> (if filt = None then ready a r else inv r))"

definition not_post :: "doc_filter option \<Rightarrow> bool \<Rightarrow> docid set \<Rightarrow> 'q option \<Rightarrow> docid \<Rightarrow>
    ((error_code + docid) \<times> 'q \<times> 'q option \<times> nat) option \<Rightarrow> bool" where
  "not_post filt hs L right a res \<longleftrightarrow>
     (\<exists>x l right' t. res = Some (x, l, right', t) \<and>
        (case x of
           Inl _ \<Rightarrow> \<not> ok
         | Inr d \<Rightarrow> d = nxt (L - right_docs filt hs right) a \<and> inv l \<and> docs l = L \<and> cur l = d \<and>
             right_ready d filt right' \<and> map_option docs right' = map_option docs right))"

lemma right_docs_same: "map_option docs right' = map_option docs right \<Longrightarrow> right_docs filt hs right' = right_docs filt hs right"
  by (cases right; cases right') (auto simp: right_docs_def split: option.splits)

lemma not_post_step:
  assumes "not_post filt hs L right' b res" and eq: "map_option docs right' = map_option docs right"
    and n: "nxt (L - right_docs filt hs right) a = nxt (L - right_docs filt hs right) b"
  shows "not_post filt hs L right a res"
  using assms(1) unfolding not_post_def right_docs_same [OF eq] eq n .

lemma right_ready_mono: "right_ready a filt right \<Longrightarrow> a \<le> b \<Longrightarrow> right_ready b filt right"
  using ready_mono by (auto simp: right_ready_def)

text \<open>The test of one document against the right side.\<close>

definition right_test :: "doc_filter option \<Rightarrow> docid \<Rightarrow> 'q \<Rightarrow> nat \<Rightarrow> ((error_code + docid) \<times> 'q \<times> nat) option" where
  "right_test filt a rq tests =
     (case filt of
        Some f \<Rightarrow> Some (Inr (if f a then a else END_DOCID), rq, tests + 1)
      | None \<Rightarrow> do { (t, rq') \<leftarrow> sk rq a; Some (t, rq', tests) })"

lemma right_test_cases:
  assumes "right_ready a filt (Some rq)" "0 \<le> a" "a < END_DOCID"
  obtains (err) ec rq' t where "right_test filt a rq tests = Some (Inl ec, rq', t)" "\<not> ok"
  | (doc) d rq' t where "right_test filt a rq tests = Some (Inr d, rq', t)" "right_ready a filt (Some rq')"
      "docs rq' = docs rq" "a = d \<longleftrightarrow> a \<in> right_docs filt False (Some rq)"
proof (cases filt)
  case (Some f)
  then show ?thesis
    using doc [of "if f a then a else END_DOCID" rq "tests + 1"] assms by (simp add: right_test_def right_docs_def)
next
  case None
  then have rd: "ready a rq"
    using assms(1) by (simp add: right_ready_def)
  from rd assms(2) less_imp_le [OF assms(3)] show ?thesis
  proof (cases rule: sk_cases)
    case (err ec q')
    then show ?thesis
      using that(1) [of ec q' tests] None by (simp add: right_test_def)
  next
    case (doc q')
    have "a = nxt (docs rq) a \<longleftrightarrow> a \<in> docs rq"
      using nxt_at [OF ready_docs [OF rd], of a] nxt_hit [OF ready_docs [OF rd], of a] assms(3) by auto
    then show ?thesis
      using that(2) [of "nxt (docs rq) a" q' tests] doc None by (simp add: right_test_def right_docs_def right_ready_def)
  qed
qed

lemma and_not_loop_step:
  "and_not_loop sk filt hs a l (Some rq) tests =
     (if a = END_DOCID then Some (Inr a, l, Some rq, tests)
      else
        do { (t, rq', tests') \<leftarrow> right_test filt a rq tests;
             case t of
               Inl ec \<Rightarrow> Some (Inl ec, l, Some rq', tests')
             | Inr tmpId \<Rightarrow>
                 if hs then Some (Inr a, l, Some rq', tests')
                 else if a = tmpId then
                   do { (r, l') \<leftarrow> sk l (a + 1);
                        case r of
                          Inl ec \<Rightarrow> Some (Inl ec, l', Some rq', tests')
                        | Inr d \<Rightarrow> and_not_loop sk filt hs d l' (Some rq') tests' }
                 else Some (Inr a, l, Some rq', tests') })"
  by (subst and_not_loop.simps) (simp add: right_test_def)

lemma not_post_answer:
  assumes "inv l" "docs l = L" "cur l = a" "a \<in> L \<or> a = END_DOCID" "a \<notin> right_docs filt hs right \<or> a = END_DOCID"
    and "right_ready a filt right'" "map_option docs right' = map_option docs right"
  shows "not_post filt hs L right a (Some (Inr a, l, right', t))"
proof -
  have "docset (L - right_docs filt hs right)"
    using docs_valid [OF assms(1)] assms(2) by (auto intro: docset_subset)
  then have "a = nxt (L - right_docs filt hs right) a"
    using assms(4,5) nxt_at nxt_END by fastforce
  then show ?thesis
    using assms by (simp add: not_post_def)
qed

lemma and_not_loop_post:
  assumes "inv l" "docs l = L" "cur l = a" "a \<in> L \<or> a = END_DOCID" "0 \<le> a" "a \<le> END_DOCID" "right_ready a filt right"
  shows "not_post filt hs L right a (and_not_loop sk filt hs a l right tests)"
  using assms
proof (induction "nat (END_DOCID - a)" arbitrary: a l right tests rule: less_induct)
  case less
  let ?R = "right_docs filt hs right"
  have L: "docset L"
    using docs_valid less.prems(1,2) by blast
  show ?case
  proof (cases "right = None \<or> a = END_DOCID")
    case True
    then have "and_not_loop sk filt hs a l right tests = Some (Inr a, l, right, tests)"
      by (cases right) (simp add: and_not_loop.simps, simp add: and_not_loop_step)
    then show ?thesis
      using not_post_answer [OF less.prems(1-4) _ less.prems(7), of hs right tests] True
      by (auto simp: right_docs_def)
  next
    case False
    then obtain rq where right: "right = Some rq" and lt: "a < END_DOCID"
      using less.prems(6) by auto
    from less.prems(7) have rr: "right_ready a filt (Some rq)"
      using right by simp
    note loop = and_not_loop_step [of filt hs a l rq tests]
    from rr less.prems(5) lt show ?thesis
    proof (cases rule: right_test_cases [where tests = tests])
      case (err ec rq' t)
      then show ?thesis
        unfolding right not_post_def using lt by (simp add: loop)
    next
      case (doc d rq' t)
      have eq: "map_option docs (Some rq') = map_option docs right"
        using doc(3) right by simp
      have keep: "not_post filt hs L right a (Some (Inr a, l, Some rq', t))" if "hs \<or> a \<noteq> d"
        using not_post_answer [OF less.prems(1-4) _ doc(2) eq, of hs t] that doc(4) right
        by (auto simp: right_docs_def)
      show ?thesis
      proof (cases "hs \<or> a \<noteq> d")
        case True
        then show ?thesis
          using keep lt doc(1) unfolding right by (auto simp: loop)
      next
        case False
        then have hit: "\<not> hs" "right_test filt a rq tests = Some (Inr a, rq', t)"
          using doc(1) by auto
        have e: "and_not_loop sk filt hs a l (Some rq) tests =
          do { (r, l') \<leftarrow> sk l (a + 1);
               case r of
                 Inl ec \<Rightarrow> Some (Inl ec, l', Some rq', t)
               | Inr d \<Rightarrow> and_not_loop sk filt hs d l' (Some rq') t }"
          using lt hit by (subst and_not_loop_step) simp
        have "ready (a + 1) l" "0 \<le> a + 1" "a + 1 \<le> END_DOCID"
          using less.prems(1-3,5) nxt_ge [OF L, of "a + 1"] lt by (simp_all add: ready_def)
        then show ?thesis
        proof (cases rule: sk_cases)
          case (err ec q')
          then show ?thesis
            unfolding right not_post_def using e by simp
        next
          case l': (doc l')
          let ?d = "nxt L (a + 1)"
          have d: "a < ?d" "?d \<le> END_DOCID" "?d \<in> L \<or> ?d = END_DOCID"
            using nxt_ge [OF L, of "a + 1"] nxt_le_END [OF L, of "a + 1"] nxt_hit [OF L, of "a + 1"] lt by auto
          have "not_post filt hs L (Some rq') ?d (and_not_loop sk filt hs ?d l' (Some rq') t)"
            using d l' less.prems(2,5) lt right_ready_mono [OF doc(2), of ?d] by (intro less.hyps) auto
          moreover have "nxt (L - ?R) a = nxt (L - ?R) (a + 1)"
            using False doc(4) right by (intro nxt_miss) (auto simp: right_docs_def)
          moreover have "nxt (L - ?R) (a + 1) = nxt (L - ?R) ?d"
            using lt by (intro nxt_subset [OF L]) auto
          ultimately have "not_post filt hs L right a (and_not_loop sk filt hs ?d l' (Some rq') t)"
            using not_post_step [OF _ eq] by simp
          then show ?thesis
            using e l'(1) less.prems(2) unfolding right by simp
        qed
      qed
    qed
  qed
qed

end

end
