(* ===== verification/QueryWeakAnd.thy ===== *)
theory QueryWeakAnd
  imports QueryOr
begin

text \<open>
  The WEAKAND executor: its array keeps the \<open>m\<close> smallest entries sorted and the rest as a heap whose root is
  the \<open>m\<close>-th one.
\<close>

section \<open>Sorted prefix and heap\<close>

definition nth_heap :: "nat \<Rightarrow> nat \<Rightarrow> entry list \<Rightarrow> bool" where
  "nth_heap m num heap \<longleftrightarrow> 1 \<le> m \<and> m \<le> num \<and> length heap = num + 1 \<and>
     (\<forall>i. 1 \<le> i \<longrightarrow> i < m \<longrightarrow> e_docId (heap ! i) \<le> e_docId (heap ! (i + 1))) \<and>
     is_heap (num - m + 1) (drop (m - 1) heap)"

lemma is_heap_cong:
  assumes "\<And>i. 1 \<le> i \<Longrightarrow> i \<le> n \<Longrightarrow> heap ! i = H ! i" "is_heap n H"
  shows "is_heap n heap"
  unfolding is_heap_def
proof (intro allI impI)
  fix i
  assume "2 \<le> i" "i \<le> n"
  then have "heap ! i = H ! i" "heap ! (i div 2) = H ! (i div 2)"
    by (auto intro!: assms(1))
  then show "e_docId (heap ! (i div 2)) \<le> e_docId (heap ! i)"
    using assms(2) \<open>2 \<le> i\<close> \<open>i \<le> n\<close> by (simp add: is_heap_def)
qed

text \<open>The array \<open>H\<close> after its entries \<open>2\<close> to \<open>k\<close> moved down by one and \<open>e\<close> was put at \<open>k\<close>.\<close>

definition moved :: "nat \<Rightarrow> entry \<Rightarrow> entry list \<Rightarrow> entry list \<Rightarrow> bool" where
  "moved k e H heap \<longleftrightarrow> length heap = length H \<and>
     (\<forall>j < length H. heap ! j = (if 1 \<le> j \<and> j < k then H ! (j + 1) else if j = k then e else H ! j)) \<and>
     (\<forall>j. 1 \<le> j \<longrightarrow> j < k \<longrightarrow> e_docId (H ! (j + 1)) < e_docId e)"

lemma moved_swap:
  assumes "moved i e H heap" "1 \<le> i" "i + 1 < length H" "e_docId (heap ! i) > e_docId (heap ! (i + 1))"
  shows "moved (i + 1) e H (swap i (i + 1) heap)"
proof -
  have len: "length heap = length H"
    using assms(1) by (simp add: moved_def)
  have nth: "heap ! j = (if 1 \<le> j \<and> j < i then H ! (j + 1) else if j = i then e else H ! j)" if "j < length H" for j
    using assms(1) that by (simp add: moved_def)
  have sw: "swap i (i + 1) heap ! j = (if j = i then heap ! (i + 1) else if j = i + 1 then heap ! i else heap ! j)" for j
    using assms(3) len by (intro swap_nth) simp_all
  have "swap i (i + 1) heap ! j = (if 1 \<le> j \<and> j < i + 1 then H ! (j + 1) else if j = i + 1 then e else H ! j)"
    if "j < length H" for j
    unfolding sw using nth [OF that] nth [of i] nth [of "i + 1"] assms(2,3) by auto
  moreover have "e_docId (H ! (j + 1)) < e_docId e" if "1 \<le> j" "j < i + 1" for j
    using assms(1,4) nth [of i] nth [of "i + 1"] assms(3) that by (cases "j = i") (auto simp: moved_def)
  ultimately show ?thesis
    using len by (simp add: moved_def)
qed

lemma bubble_moved:
  "moved i e H heap \<Longrightarrow> 1 \<le> i \<Longrightarrow> i \<le> m \<Longrightarrow> m < length H \<Longrightarrow>
    \<exists>k heap'. bubble m i heap = (k, heap') \<and> i \<le> k \<and> k \<le> m \<and> moved k e H heap' \<and>
      (k < m \<longrightarrow> e_docId e \<le> e_docId (H ! (k + 1))) \<and> mset (tl heap') = mset (tl heap)"
proof (induction m i heap rule: bubble.induct)
  case (1 m i heap)
  have len: "length heap = length H"
    using "1.prems"(1) by (simp add: moved_def)
  show ?case
  proof (cases "i < m \<and> e_docId (heap ! i) > e_docId (heap ! (i + 1))")
    case True
    have mv: "moved (i + 1) e H (swap i (i + 1) heap)"
      using "1.prems" True by (intro moved_swap) simp_all
    have "mset (tl (swap i (i + 1) heap)) = mset (tl heap)"
    proof (rule tl_mset)
      show "mset (swap i (i + 1) heap) = mset heap"
        using "1.prems"(4) True len by (intro swap_mset) simp_all
      show "hd (swap i (i + 1) heap) = hd heap" "swap i (i + 1) heap \<noteq> []"
        using "1.prems"(2) True "1.prems"(4) len by (cases heap; cases i; simp add: swap_def)+
    qed
    then show ?thesis
      using "1.IH" [OF _ _ mv] True "1.prems" by (subst bubble.simps) fastforce
  next
    case False
    then have "bubble m i heap = (i, heap)"
      by (subst bubble.simps) auto
    moreover have "e_docId e \<le> e_docId (H ! (i + 1))" if "i < m"
      using False that "1.prems" by (auto simp: moved_def)
    ultimately show ?thesis
      using "1.prems" by simp
  qed
qed

lemma nth_heap_sorted: "nth_heap m num heap \<Longrightarrow> 1 \<le> i \<Longrightarrow> i \<le> j \<Longrightarrow> j \<le> m \<Longrightarrow> e_docId (heap ! i) \<le> e_docId (heap ! j)"
proof (induction "j - i" arbitrary: j)
  case 0
  then show ?case by simp
next
  case (Suc d)
  then have "e_docId (heap ! i) \<le> e_docId (heap ! (j - 1))"
    by (intro Suc.hyps) simp_all
  also have "\<dots> \<le> e_docId (heap ! (j - 1 + 1))"
    using Suc by (simp only: nth_heap_def)
  finally show ?case
    using Suc by simp
qed

lemma nth_heap_rest:
  assumes "nth_heap m num heap" "m \<le> j" "j \<le> num"
  shows "e_docId (heap ! m) \<le> e_docId (heap ! j)"
proof -
  have h: "is_heap (num - m + 1) (drop (m - 1) heap)" "1 \<le> m" "length heap = num + 1"
    using assms(1) by (simp_all add: nth_heap_def)
  have "e_docId (drop (m - 1) heap ! 1) \<le> e_docId (drop (m - 1) heap ! (j - m + 1))"
    using assms(2,3) by (intro heap_min [OF h(1)]) simp_all
  then show ?thesis
    using h(2,3) assms(2,3) by simp
qed

lemma nth_heap_first: "nth_heap m num heap \<Longrightarrow> 1 \<le> j \<Longrightarrow> j \<le> num \<Longrightarrow> e_docId (heap ! 1) \<le> e_docId (heap ! j)"
  using nth_heap_sorted [of m num heap 1 j] nth_heap_sorted [of m num heap 1 m] nth_heap_rest [of m num heap j]
  by (cases "j \<le> m") (auto simp: nth_heap_def)

text \<open>The entry stopped before the root of the heap.\<close>

lemma moved_before:
  assumes H: "nth_heap m num H" and mv: "moved k e H heap" and k: "1 \<le> k" "k < m" "e_docId e \<le> e_docId (H ! (k + 1))"
  shows "nth_heap m num heap"
proof -
  have len: "length heap = num + 1" "length H = num + 1" and m: "m \<le> num"
    using H mv by (simp_all add: nth_heap_def moved_def)
  have nth: "heap ! j = (if 1 \<le> j \<and> j < k then H ! (j + 1) else if j = k then e else H ! j)" if "j \<le> num" for j
    using mv len that by (simp add: moved_def)
  have less: "e_docId (H ! (j + 1)) < e_docId e" if "1 \<le> j" "j < k" for j
    using mv that by (simp add: moved_def)
  have sorted: "e_docId (H ! i) \<le> e_docId (H ! (i + 1))" if "1 \<le> i" "i < m" for i
    using H that by (simp add: nth_heap_def)
  have "e_docId (heap ! i) \<le> e_docId (heap ! (i + 1))" if i: "1 \<le> i" "i < m" for i
  proof -
    consider "i + 1 < k" | "i + 1 = k" | "i = k" | "k < i" by linarith
    then show ?thesis
    proof cases
      case 1
      then show ?thesis using nth [of i] nth [of "i + 1"] i m k sorted [of "i + 1"] by simp
    next
      case 2
      then show ?thesis using nth [of i] nth [of "i + 1"] i m less [of i] by simp
    next
      case 3
      then show ?thesis using nth [of i] nth [of "i + 1"] i m k by simp
    next
      case 4
      then show ?thesis using nth [of i] nth [of "i + 1"] i m sorted [of i] by simp
    qed
  qed
  moreover have "is_heap (num - m + 1) (drop (m - 1) heap)"
  proof -
    have "heap ! p = H ! p" if "m \<le> p" "p \<le> num" for p
      using nth [OF that(2)] that k by simp
    then have eq: "drop (m - 1) heap ! i = drop (m - 1) H ! i" if "1 \<le> i" "i \<le> num - m + 1" for i
      using that k m len by simp
    have "is_heap (num - m + 1) (drop (m - 1) H)"
      using H by (simp only: nth_heap_def)
    with eq show ?thesis
      by (rule is_heap_cong)
  qed
  ultimately show ?thesis
    using H len by (simp add: nth_heap_def)
qed

text \<open>The entry reached the root of the heap.\<close>

lemma moved_root_heap:
  assumes H: "nth_heap m num H" and mv: "moved m e H heap"
  shows "is_heap (num - m + 1) (adjust_down 1 (num - m + 1) (drop (m - 1) heap))"
proof (rule adjust_down_heap)
  have len: "length heap = num + 1" "length H = num + 1" and m: "1 \<le> m" "m \<le> num"
    using H mv by (simp_all add: nth_heap_def moved_def)
  have hH: "is_heap (num - m + 1) (drop (m - 1) H)"
    using H by (simp only: nth_heap_def)
  have same: "drop (m - 1) heap ! i = drop (m - 1) H ! i" if "2 \<le> i" "i \<le> num - m + 1" for i
  proof -
    have "m - 1 + i < length H" "\<not> m - 1 + i < m" "m - 1 + i \<noteq> m"
      using that m len by simp_all
    then have "heap ! (m - 1 + i) = H ! (m - 1 + i)"
      using mv unfolding moved_def by presburger
    then show ?thesis
      using len m by simp
  qed
  have "e_docId (drop (m - 1) heap ! (i div 2)) \<le> e_docId (drop (m - 1) heap ! i)"
    if i: "2 \<le> i" "i \<le> num - m + 1" "i div 2 \<noteq> 1" for i
  proof -
    have "2 \<le> i div 2" "i div 2 \<le> num - m + 1"
      using i by linarith+
    then show ?thesis
      using hH i unfolding is_heap_def by (simp only: same)
  qed
  then show "heap_but 1 (num - m + 1) (drop (m - 1) heap)"
    by (simp add: heap_but_def)
  show "1 < length (drop (m - 1) heap)" "num - m + 1 < length (drop (m - 1) heap)"
    using len m by simp_all
qed simp

lemma moved_root:
  assumes H: "nth_heap m num H" and mv: "moved m e H heap"
  shows "nth_heap m num (take (m - 1) heap @ adjust_down 1 (num - m + 1) (drop (m - 1) heap))"
proof -
  let ?D = "drop (m - 1) heap"
  let ?D' = "adjust_down 1 (num - m + 1) ?D"
  let ?R = "take (m - 1) heap @ ?D'"
  have len: "length heap = num + 1" "length H = num + 1" and m: "1 \<le> m" "m \<le> num"
    using H mv by (simp_all add: nth_heap_def moved_def)
  have nth: "heap ! j = (if 1 \<le> j \<and> j < m then H ! (j + 1) else if j = m then e else H ! j)" if "j \<le> num" for j
    using mv len that by (simp add: moved_def)
  have D0: "?D' ! 0 = ?D ! 0"
    using len m by (intro adjust_down_before) simp_all
  have before: "?R ! j = heap ! j" if "j < m" for j
    using that len m D0 by (cases "j = m - 1") (simp_all add: nth_append)
  have R: "drop (m - 1) ?R = ?D'" "?R ! m = ?D' ! 1" "length ?R = num + 1"
    using len m by (simp_all add: nth_append)
  have top: "e_docId (H ! m) \<le> e_docId (?D' ! 1)" if "2 \<le> m"
  proof -
    have "?D' ! 1 \<in> set (tl ?D')"
      unfolding set_tl_nth using len m by (intro CollectI exI [of _ 1]) simp
    then have "?D' ! 1 \<in> set (tl ?D)"
      using mset_eq_setD [OF adjust_down_tl [of ?D "num - m + 1"]] len m by simp
    then obtain j where j: "?D' ! 1 = heap ! (m - 1 + j)" "1 \<le> j" "m - 1 + j \<le> num"
      unfolding set_tl_nth using len by auto
    show ?thesis
    proof (cases "j = 1")
      case True
      then have "?D' ! 1 = e"
        using j nth [of m] m by simp
      moreover have "1 \<le> m - 1" "m - 1 < m"
        using \<open>2 \<le> m\<close> by simp_all
      then have "e_docId (H ! (m - 1 + 1)) < e_docId e"
        using mv unfolding moved_def by blast
      ultimately show ?thesis
        using m by simp
    next
      case False
      then have "\<not> m - 1 + j < m" "m - 1 + j \<noteq> m" "m \<le> m - 1 + j"
        using j(2) m by simp_all
      then show ?thesis
        using j nth [OF j(3)] nth_heap_rest [OF H _ j(3)] by simp
    qed
  qed
  have "e_docId (?R ! i) \<le> e_docId (?R ! (i + 1))" if i: "1 \<le> i" "i < m" for i
  proof (cases "i + 1 = m")
    case True
    then show ?thesis
      using before [of i] R(2) top nth [of i] i m by simp
  next
    case False
    then have "?R ! i = H ! (i + 1)" "?R ! (i + 1) = H ! (i + 1 + 1)"
      using before [of i] before [of "i + 1"] nth [of i] nth [of "i + 1"] i m by simp_all
    then show ?thesis
      using nth_heap_sorted [OF H, of "i + 1" "i + 1 + 1"] i False by simp
  qed
  then show ?thesis
    using moved_root_heap [OF assms] R m unfolding nth_heap_def by simp
qed

lemma moved_root_mset:
  assumes "1 \<le> m" "m \<le> num" "length heap = num + 1"
  shows "mset (tl (take (m - 1) heap @ adjust_down 1 (num - m + 1) (drop (m - 1) heap))) = mset (tl heap)"
proof (rule tl_mset)
  let ?D' = "adjust_down 1 (num - m + 1) (drop (m - 1) heap)"
  have "mset ?D' = mset (drop (m - 1) heap)"
    using assms by (intro adjust_down_mset) simp_all
  then show "mset (take (m - 1) heap @ ?D') = mset heap"
    by (metis append_take_drop_id mset_append)
  have D0: "?D' ! 0 = drop (m - 1) heap ! 0"
    using assms by (intro adjust_down_before) simp_all
  have ne: "take (m - 1) heap @ ?D' \<noteq> []" "heap \<noteq> []"
    using assms by (auto simp flip: length_greater_0_conv)
  then show "take (m - 1) heap @ ?D' \<noteq> []"
    by blast
  have "(take (m - 1) heap @ ?D') ! 0 = heap ! 0"
    using D0 assms by (cases "m = 1") (simp_all add: nth_append)
  then show "hd (take (m - 1) heap @ ?D') = hd heap"
    using ne by (simp add: hd_conv_nth)
qed

text \<open>\<^verbatim>\<open>doNthElement\<close> repairs the array after its first entry was replaced.\<close>

lemma do_nth_element_heap:
  assumes H: "nth_heap m num H"
  shows "nth_heap m num (do_nth_element num m (H[1 := e]))"
    "mset (tl (do_nth_element num m (H[1 := e]))) = mset (tl (H[1 := e]))"
proof -
  have m: "1 \<le> m" "m \<le> num" and len: "length H = num + 1"
    using H by (simp_all add: nth_heap_def)
  have "moved 1 e H (H[1 := e])"
    using len m by (auto simp: moved_def nth_list_update)
  then obtain k heap where k: "bubble m 1 (H[1 := e]) = (k, heap)" "1 \<le> k" "k \<le> m" "moved k e H heap"
    "k < m \<longrightarrow> e_docId e \<le> e_docId (H ! (k + 1))" "mset (tl heap) = mset (tl (H[1 := e]))"
    using bubble_moved [of 1 e H "H[1 := e]" m] m len by auto
  have lenh: "length heap = num + 1"
    using k(4) len by (simp add: moved_def)
  show "nth_heap m num (do_nth_element num m (H[1 := e]))"
    using k moved_before [OF H k(4,2)] moved_root [OF H] by (auto simp: do_nth_element_def)
  show "mset (tl (do_nth_element num m (H[1 := e]))) = mset (tl (H[1 := e]))"
    using k moved_root_mset [OF m lenh] by (simp add: do_nth_element_def)
qed

context seekable
begin

section \<open>The loop of a WEAKAND\<close>

definition weak_docs :: "nat \<Rightarrow> 'q list \<Rightarrow> docid set" where
  "weak_docs m cs = {d. m \<le> length (filter (\<lambda>S. d \<in> S) (map docs cs))}"

lemma weak_docs_same: "same_docs cs cs' \<Longrightarrow> weak_docs m cs' = weak_docs m cs"
  by (simp add: weak_docs_def same_docs_def)

lemma weak_docs_card: "d \<in> weak_docs m cs \<longleftrightarrow> m \<le> card {i. i < length cs \<and> d \<in> docs (cs ! i)}"
proof -
  have "{i. i < length (map docs cs) \<and> d \<in> map docs cs ! i} = {i. i < length cs \<and> d \<in> docs (cs ! i)}"
    by auto
  then show ?thesis
    by (simp only: weak_docs_def mem_Collect_eq length_filter_conv_card)
qed

lemma weak_docs_valid:
  assumes "1 \<le> m" "\<And>c. c \<in> set cs \<Longrightarrow> docset (docs c)"
  shows "docset (weak_docs m cs)"
proof -
  have "d \<in> (\<Union>c \<in> set cs. docs c)" if "d \<in> weak_docs m cs" for d
  proof -
    have "0 < length (filter (\<lambda>S. d \<in> S) (map docs cs))"
      using that assms(1) unfolding weak_docs_def mem_Collect_eq by linarith
    then have "filter (\<lambda>S. d \<in> S) (map docs cs) \<noteq> []"
      by blast
    then show ?thesis
      unfolding filter_empty_conv by auto
  qed
  then show ?thesis
    using assms(2) by (fastforce simp: docset_def)
qed

text \<open>The array of a WEAKAND at \<open>a\<close>.\<close>

definition weak_ok :: "docid \<Rightarrow> nat \<Rightarrow> nat \<Rightarrow> 'q list \<Rightarrow> entry list \<Rightarrow> bool" where
  "weak_ok a num m cs heap \<longleftrightarrow> nth_heap m num heap \<and> entries_ok a cs heap \<and>
     distinct (map e_entryId (tl heap)) \<and> length cs = num"

lemma entries_inv: "entries_ok a cs heap \<Longrightarrow> c \<in> set cs \<Longrightarrow> inv c"
proof -
  assume ok: "entries_ok a cs heap" and "c \<in> set cs"
  then obtain i where i: "i < length cs" "c = cs ! i"
    by (auto simp: in_set_conv_nth)
  then have "i \<in> e_entryId ` set (tl heap)"
    using ok by (simp add: entries_ok_def)
  then obtain e where "e \<in> set (tl heap)" "i = e_entryId e"
    by blast
  then show ?thesis
    using ok i ready_inv by (auto simp: entries_ok_def entry_ok_def)
qed

lemma weak_reached:
  assumes "weak_ok a num m cs heap" "0 \<le> a" "a \<le> e_docId (heap ! 1)" "1 \<le> j" "j \<le> num"
  shows "e_docId (heap ! j) = nxt (docs (cs ! e_entryId (heap ! j))) a" "e_entryId (heap ! j) < length cs"
    "docset (docs (cs ! e_entryId (heap ! j)))"
proof -
  have h: "nth_heap m num heap" "entries_ok a cs heap"
    using assms(1) by (simp_all add: weak_ok_def)
  have "heap ! j \<in> set (tl heap)"
    unfolding set_tl_nth using assms(4,5) h(1) by (auto simp: nth_heap_def)
  then have e: "entry_ok a cs (heap ! j)"
    using h(2) by (simp add: entries_ok_def)
  have "a \<le> e_docId (heap ! j)"
    using nth_heap_first [OF h(1) assms(4,5)] assms(3) by simp
  then show "e_docId (heap ! j) = nxt (docs (cs ! e_entryId (heap ! j))) a"
    using entry_ok_reached [OF e assms(2)] by simp
  show "e_entryId (heap ! j) < length cs" "docset (docs (cs ! e_entryId (heap ! j)))"
    using e ready_docs by (auto simp: entry_ok_def)
qed

text \<open>A document that \<open>m\<close> children have is not before the \<open>m\<close>-th entry.\<close>

lemma weak_lower:
  assumes ok: "weak_ok a num m cs heap" and a: "0 \<le> a" "a \<le> e_docId (heap ! 1)"
    and d: "d \<in> weak_docs m cs" "a \<le> d"
  shows "e_docId (heap ! m) \<le> d"
proof (rule ccontr)
  assume less: "\<not> e_docId (heap ! m) \<le> d"
  have h: "nth_heap m num heap" "entries_ok a cs heap"
    using ok by (simp_all add: weak_ok_def)
  have "{i. i < length cs \<and> d \<in> docs (cs ! i)} \<subseteq> (\<lambda>j. e_entryId (heap ! j)) ` {1..<m}"
  proof
    fix i
    assume i: "i \<in> {i. i < length cs \<and> d \<in> docs (cs ! i)}"
    then have "i \<in> e_entryId ` set (tl heap)"
      using h(2) by (simp add: entries_ok_def)
    then obtain j where j: "i = e_entryId (heap ! j)" "1 \<le> j" "j \<le> num"
      unfolding set_tl_nth using h(1) by (auto simp: nth_heap_def)
    then have "e_docId (heap ! j) \<le> d"
      using weak_reached [OF ok a j(2,3)] nxt_le i d(2) by auto
    then have "j < m"
      using nth_heap_rest [OF h(1) _ j(3)] less by (cases "m \<le> j") auto
    then show "i \<in> (\<lambda>j. e_entryId (heap ! j)) ` {1..<m}"
      using j by auto
  qed
  then have "card {i. i < length cs \<and> d \<in> docs (cs ! i)} \<le> card ((\<lambda>j. e_entryId (heap ! j)) ` {1..<m})"
    by (intro card_mono) simp_all
  also have "\<dots> \<le> card {1..<m}"
    by (intro card_image_le) simp
  finally have "card {i. i < length cs \<and> d \<in> docs (cs ! i)} \<le> m - 1"
    by simp
  moreover have "1 \<le> m"
    using h(1) by (simp add: nth_heap_def)
  ultimately show False
    using d(1) by (simp add: weak_docs_card)
qed

text \<open>When the first \<open>m\<close> entries agree, their document is one that \<open>m\<close> children have.\<close>

lemma weak_hit:
  assumes ok: "weak_ok a num m cs heap" and a: "0 \<le> a" "a \<le> e_docId (heap ! 1)"
    and d: "e_docId (heap ! 1) = d" "e_docId (heap ! m) = d" "d \<noteq> END_DOCID"
  shows "d \<in> weak_docs m cs"
proof -
  have h: "nth_heap m num heap" "distinct (map e_entryId (tl heap))" and m: "m \<le> num" "length heap = num + 1"
    using ok by (simp_all add: weak_ok_def nth_heap_def)
  have at: "e_entryId (heap ! j) < length cs \<and> d \<in> docs (cs ! e_entryId (heap ! j))" if "j \<in> {1..m}" for j
  proof -
    have "e_docId (heap ! j) = d"
      using nth_heap_sorted [OF h(1), of 1 j] nth_heap_sorted [OF h(1), of j m] that d by simp
    then show ?thesis
      using weak_reached [OF ok a, of j] nxt_hit [OF weak_reached(3) [OF ok a], of j a] that m d(3) by simp
  qed
  have "inj_on (\<lambda>j. e_entryId (heap ! j)) {1..m}"
  proof (rule inj_onI)
    fix i j
    assume ij: "i \<in> {1..m}" "j \<in> {1..m}" "e_entryId (heap ! i) = e_entryId (heap ! j)"
    have "map e_entryId (tl heap) ! (k - 1) = e_entryId (heap ! k)" if "k \<in> {1..m}" for k
    proof -
      have "k - 1 < length (tl heap)" "Suc (k - 1) = k"
        using that m by auto
      then show ?thesis
        using nth_tl [of "k - 1" heap] by simp
    qed
    then have "map e_entryId (tl heap) ! (i - 1) = map e_entryId (tl heap) ! (j - 1)"
      using ij by metis
    moreover have "i - 1 < length (map e_entryId (tl heap))" "j - 1 < length (map e_entryId (tl heap))"
      using ij m by auto
    ultimately have "i - 1 = j - 1"
      using nth_eq_iff_index_eq [OF h(2)] by blast
    then show "i = j"
      using ij by auto
  qed
  then have "m = card ((\<lambda>j. e_entryId (heap ! j)) ` {1..m})"
    by (simp add: card_image)
  also have "\<dots> \<le> card {i. i < length cs \<and> d \<in> docs (cs ! i)}"
    using at by (intro card_mono) auto
  finally show ?thesis
    by (simp add: weak_docs_card)
qed

definition weak_post :: "nat \<Rightarrow> nat \<Rightarrow> 'q list \<Rightarrow> docid \<Rightarrow> ((error_code + docid) \<times> 'q list \<times> entry list) option \<Rightarrow> bool" where
  "weak_post num m cs a res \<longleftrightarrow>
     (\<exists>r cs' heap'. res = Some (r, cs', heap') \<and>
        (case r of
           Inl _ \<Rightarrow> \<not> ok
         | Inr d \<Rightarrow> d = nxt (weak_docs m cs) a \<and> same_docs cs cs' \<and> weak_ok d num m cs' heap'))"

lemma weak_post_step:
  assumes "weak_post num m cs' b res" "same_docs cs cs'" "nxt (weak_docs m cs) a = nxt (weak_docs m cs) b"
  shows "weak_post num m cs a res"
proof -
  obtain r cs2 heap' where r: "res = Some (r, cs2, heap')"
    "case r of Inl _ \<Rightarrow> \<not> ok | Inr d \<Rightarrow> d = nxt (weak_docs m cs') b \<and> same_docs cs' cs2 \<and> weak_ok d num m cs2 heap'"
    using assms(1) by (auto simp: weak_post_def)
  then show ?thesis
    using same_docs_trans [OF assms(2)] weak_docs_same [OF assms(2)] unfolding weak_post_def assms(3)
    by (cases r) simp_all
qed

lemma weak_ok_mono: "weak_ok a num m cs heap \<Longrightarrow> a \<le> b \<Longrightarrow> weak_ok b num m cs heap"
  using entries_ok_mono by (auto simp: weak_ok_def)

lemma weak_ok_new:
  assumes ok: "weak_ok a num m cs heap" and c: "docs c = docs (cs ! e_entryId (heap ! 1))" "ready a c"
    and heap': "heap' = do_nth_element num m (heap[1 := (heap ! 1)\<lparr>e_docId := nxt (docs (cs ! e_entryId (heap ! 1))) a\<rparr>])"
  shows "weak_ok a num m (cs[e_entryId (heap ! 1) := c]) heap'"
    "mset (tl heap') = mset (tl (heap[1 := (heap ! 1)\<lparr>e_docId := nxt (docs (cs ! e_entryId (heap ! 1))) a\<rparr>]))"
proof -
  let ?h = "heap[1 := (heap ! 1)\<lparr>e_docId := nxt (docs (cs ! e_entryId (heap ! 1))) a\<rparr>]"
  have h: "nth_heap m num heap" "entries_ok a cs heap" "distinct (map e_entryId (tl heap))" "length cs = num"
    using ok by (simp_all add: weak_ok_def)
  then have len: "1 < length heap"
    by (simp add: nth_heap_def)
  show ms: "mset (tl heap') = mset (tl ?h)"
    unfolding heap' by (rule do_nth_element_heap [OF h(1)])
  obtain z e es where "heap = z # e # es"
    using len by (cases heap; cases "tl heap") auto
  then have "map e_entryId (tl ?h) = map e_entryId (tl heap)"
    by simp
  moreover have "mset (map e_entryId (tl heap')) = mset (map e_entryId (tl ?h))"
    using ms by simp
  ultimately have "distinct (map e_entryId (tl heap'))"
    using h(3) mset_eq_imp_distinct_iff by metis
  moreover have "nth_heap m num heap'"
    unfolding heap' by (rule do_nth_element_heap [OF h(1)])
  ultimately show "weak_ok a num m (cs[e_entryId (heap ! 1) := c]) heap'"
    using entries_ok_new [OF h(2) len c ms] h(4) by (simp add: weak_ok_def)
qed

text \<open>The answer of the loop when the smallest entry has reached \<open>a\<close>.\<close>

lemma weak_next:
  assumes ok: "weak_ok a num m cs heap" and a: "0 \<le> a" "a \<le> e_docId (heap ! 1)"
  shows "nxt (weak_docs m cs) a = nxt (weak_docs m cs) (e_docId (heap ! m))" "a \<le> e_docId (heap ! m)"
    "e_docId (heap ! m) \<le> END_DOCID" "docset (weak_docs m cs)"
    "e_docId (heap ! 1) = e_docId (heap ! m) \<Longrightarrow> nxt (weak_docs m cs) a = e_docId (heap ! m)"
proof -
  have h: "nth_heap m num heap" "entries_ok a cs heap" and m: "1 \<le> m" "m \<le> num"
    using ok by (simp_all add: weak_ok_def nth_heap_def)
  show v: "docset (weak_docs m cs)"
    using m entries_inv [OF h(2)] docs_valid by (intro weak_docs_valid) auto
  show am: "a \<le> e_docId (heap ! m)"
    using nth_heap_first [OF h(1) m] a(2) by simp
  show "nxt (weak_docs m cs) a = nxt (weak_docs m cs) (e_docId (heap ! m))"
    using weak_lower [OF ok a] am by (intro nxt_skip) auto
  then show "nxt (weak_docs m cs) a = e_docId (heap ! m)" if "e_docId (heap ! 1) = e_docId (heap ! m)"
    using weak_hit [OF ok a that refl] nxt_at [OF v] nxt_END [OF v] by metis
  show "e_docId (heap ! m) \<le> END_DOCID"
    using weak_reached [OF ok a m] nxt_le_END by simp
qed

lemma weak_behind:
  assumes ok: "weak_ok a num m cs heap" and d: "a \<le> d"
    and ms: "mset (tl heap') = mset (tl (heap[1 := (heap ! 1)\<lparr>e_docId := d\<rparr>]))"
    and top: "nth_heap m num heap'" "e_docId (heap' ! 1) < a"
  shows "behind a heap' < behind a heap"
proof -
  let ?h = "heap[1 := (heap ! 1)\<lparr>e_docId := d\<rparr>]"
  have h: "nth_heap m num heap"
    using ok by (simp add: weak_ok_def)
  then have len: "1 < length heap" "length heap = num + 1"
    by (simp_all add: nth_heap_def)
  have "heap' ! 1 \<in> set (tl heap')"
    unfolding set_tl_nth using top(1) by (intro CollectI exI [of _ 1]) (simp add: nth_heap_def)
  then have "heap' ! 1 \<in> set (tl ?h)"
    using mset_eq_setD [OF ms] by simp
  then obtain j where j: "heap' ! 1 = ?h ! j" "1 \<le> j" "j < length heap"
    unfolding set_tl_nth by auto
  then have "j \<noteq> 1"
    using top(2) d len by auto
  then have "e_docId (heap ! j) < a"
    using top(2) j by simp
  moreover have "e_docId (heap ! 1) \<le> e_docId (heap ! j)"
    using nth_heap_first [OF h j(2)] j(3) len by simp
  ultimately show ?thesis
    using d by (intro behind_new [OF len(1) _ _ ms]) simp_all
qed

lemma weak_loop_step:
  assumes "sk (cs ! e_entryId (heap ! 1)) a = Some (Inr d, c)" "1 < length heap" "e_entryId (heap ! 1) < length cs"
    and "heap' = do_nth_element num m (heap[1 := (heap ! 1)\<lparr>e_docId := d\<rparr>])" "cs' = cs[e_entryId (heap ! 1) := c]"
  shows "weak_loop sk stop num m a cs heap =
    (if a > e_docId (heap' ! 1) then
       (if a < stop then weak_loop sk stop num m a cs' heap' else Some (Inr a, cs', heap'))
     else if e_docId (heap' ! 1) = e_docId (heap' ! m) then Some (Inr (e_docId (heap' ! m)), cs', heap')
     else if e_docId (heap' ! m) < stop then weak_loop sk stop num m (e_docId (heap' ! m)) cs' heap'
     else Some (Inr (e_docId (heap' ! m)), cs', heap'))"
  using assms by (subst weak_loop.simps) (simp add: Let_def)

lemma behind_le: "weak_ok a num m cs heap \<Longrightarrow> behind b heap \<le> num"
  using length_filter_le [of _ "tl heap"] by (auto simp: behind_def weak_ok_def nth_heap_def)

lemma weak_loop_post:
  assumes "weak_ok a num m cs heap" "0 \<le> a" "a \<le> END_DOCID"
  shows "weak_post num m cs a (weak_loop sk END_DOCID num m a cs heap)"
  using assms
proof (induction "nat (END_DOCID - a) * (num + 1) + behind a heap" arbitrary: a cs heap rule: less_induct)
  case less
  let ?i = "e_entryId (heap ! 1)"
  have h: "nth_heap m num heap" "entries_ok a cs heap"
    using less.prems(1) by (simp_all add: weak_ok_def)
  then have len: "1 < length heap"
    by (simp add: nth_heap_def)
  have i: "?i < length cs" and rd: "ready a (cs ! ?i)"
    using entries_ok_top [OF h(2) len] by (simp_all add: entry_ok_def)
  from rd less.prems(2,3) show ?case
  proof (cases rule: sk_cases)
    case (err ec q')
    then show ?thesis
      using i len unfolding weak_post_def by (subst weak_loop.simps) simp
  next
    case (doc c)
    let ?d = "nxt (docs (cs ! ?i)) a" and ?cs = "cs[?i := c]"
    define heap' where "heap' = do_nth_element num m (heap[1 := (heap ! 1)\<lparr>e_docId := ?d\<rparr>])"
    note new = weak_ok_new [OF less.prems(1) doc(3,5) heap'_def]
    note loop = weak_loop_step [OF doc(1) len i heap'_def refl, of END_DOCID]
    have same: "same_docs cs ?cs"
      using doc(3) by (rule same_docs_update)
    have wd: "weak_docs m ?cs = weak_docs m cs"
      using weak_docs_same [OF same] .
    have step: "weak_post num m cs a (weak_loop sk END_DOCID num m b ?cs heap')"
      if "nat (END_DOCID - b) * (num + 1) + behind b heap' < nat (END_DOCID - a) * (num + 1) + behind a heap"
        "weak_ok b num m ?cs heap'" "0 \<le> b" "b \<le> END_DOCID" "nxt (weak_docs m cs) a = nxt (weak_docs m cs) b" for b
      using weak_post_step [OF less.hyps [OF that(1-4)] same that(5)] .
    have fin: "weak_post num m cs a (Some (Inr b, ?cs, heap'))" if "b = nxt (weak_docs m cs) a" "weak_ok b num m ?cs heap'" for b
      using that same by (simp add: weak_post_def)
    show ?thesis
    proof (cases "a > e_docId (heap' ! 1)")
      case True
      have d: "a \<le> ?d"
        using nxt_ge [OF ready_docs [OF rd] less.prems(3)] .
      have "behind a heap' < behind a heap"
        using weak_behind [OF less.prems(1) d new(2) _ True] new(1) by (simp add: weak_ok_def)
      moreover have "nxt (weak_docs m cs) END_DOCID = END_DOCID"
        using h entries_inv [OF h(2)] docs_valid by (intro nxt_END weak_docs_valid) (auto simp: nth_heap_def)
      ultimately show ?thesis
        using True loop step [OF _ new(1) less.prems(2,3)] fin [OF _ new(1)] less.prems(3)
        by (cases "a < END_DOCID") simp_all
    next
      case False
      then have top: "a \<le> e_docId (heap' ! 1)" by simp
      note n = weak_next [OF new(1) less.prems(2) top, unfolded wd]
      let ?b = "e_docId (heap' ! m)"
      have okb: "weak_ok ?b num m ?cs heap'"
        using weak_ok_mono [OF new(1) n(2)] .
      show ?thesis
      proof (cases "e_docId (heap' ! 1) = ?b")
        case True
        then show ?thesis
          using False loop fin [OF _ okb] n(5) by simp
      next
        case ne: False
        have "a < ?b"
          using ne top nth_heap_first [of m num heap' m] new(1) by (auto simp: weak_ok_def nth_heap_def)
        then have "nat (END_DOCID - ?b) < nat (END_DOCID - a)"
          using n(3) by simp
        then show ?thesis
          using False ne loop step [OF lex_measure okb _ n(3,1)] fin [OF _ okb] n(1,3) nxt_END [OF n(4)]
            behind_le [OF new(1)] less.prems(2) n(2) by (cases "?b < END_DOCID") simp_all
      qed
    qed
  qed
qed

end

end
