(* ===== verification/QueryTree.thy ===== *)
theory QueryTree
  imports QueryWeakAnd
begin

text \<open>
  Trees of executors.  \<open>exec_docs\<close> is the set of documents a tree stands for and \<open>exec_inv\<close> the states its
  objects can be in; over posting iterators that keep their contract every tree keeps the contract of
  \<^verbatim>\<open>seek\<close>.
\<close>

section \<open>Documents and states\<close>

record 'it posting_spec =
  ps_inv :: "'it \<Rightarrow> bool"
  ps_docs :: "'it \<Rightarrow> docid set"
  ps_low :: "'it \<Rightarrow> docid"

fun exec_docs :: "('it, 'z) posting_spec_scheme \<Rightarrow> 'it executor \<Rightarrow> docid set" where
  "exec_docs G (Term b it) = (case it of None \<Rightarrow> {} | Some i \<Rightarrow> ps_docs G i)"
| "exec_docs G (BitmapTerm b it) = ps_docs G it"
| "exec_docs G (RangeTerm b it cf fl) = ps_docs G it"
| "exec_docs G (DocIdTerm b d) = {d}"
| "exec_docs G (SubDocIdTerm b d s) = {d}"
| "exec_docs G (DocIds b ids pos) = set ids"
| "exec_docs G (Range b rs i) = (\<Union>(x, y) \<in> set rs. {x..y})"
| "exec_docs G (PK b c d n) = (case c of None \<Rightarrow> {} | Some e \<Rightarrow> {d} \<inter> exec_docs G e)"
| "exec_docs G (And b cs order fs n) =
     {d. (\<forall>i \<in> set order. d \<in> map (exec_docs G) cs ! i) \<and> (\<forall>f \<in> set fs. f d)}"
| "exec_docs G (Or b cs h n) = \<Union> (set (map (exec_docs G) cs))"
| "exec_docs G (AndNot b l r fl n s) =
     exec_docs G l -
       (case r of
          None \<Rightarrow> {}
        | Some e \<Rightarrow> if s then {} else (case fl of Some f \<Rightarrow> {d. f d} | None \<Rightarrow> exec_docs G e))"
| "exec_docs G (WeakAnd b cs h hs n m) = {d. m \<le> length (filter (\<lambda>S. d \<in> S) (map (exec_docs G) cs))}"
| "exec_docs G (BitmapAnd b s bs) = exec_docs G s \<inter> \<Inter> (set (map (exec_docs G) bs))"

text \<open>The contract of \<open>entry_ok\<close> without the state of the children.\<close>

definition entry_at :: "('it, 'z) posting_spec_scheme \<Rightarrow> docid \<Rightarrow> 'it executor list \<Rightarrow> entry \<Rightarrow> bool" where
  "entry_at G a cs e \<longleftrightarrow> e_entryId e < length cs \<and>
     (let c = cs ! e_entryId e
      in get_doc_id c \<le> nxt (exec_docs G c) a \<and> e_docId e \<le> nxt (exec_docs G c) a \<and>
         (e_docId e \<in> exec_docs G c \<or> e_docId e = INVALID_DOCID \<or> e_docId e = END_DOCID))"

definition bitmap_at :: "('it, 'z) posting_spec_scheme \<Rightarrow> docid \<Rightarrow> 'it executor \<Rightarrow> bool" where
  "bitmap_at G a e \<longleftrightarrow>
     (case e of BitmapTerm b it \<Rightarrow> ps_inv G it \<and> ps_low G it \<le> nxt (ps_docs G it) a | _ \<Rightarrow> False)"

text \<open>What holds of an object that can be sought at \<open>a\<close> or later; \<open>I\<close> is the invariant of its children.\<close>

definition exec_detail :: "('it, 'z) posting_spec_scheme \<Rightarrow> ('it executor \<Rightarrow> bool) \<Rightarrow> 'it executor \<Rightarrow> docid \<Rightarrow> bool" where
  "exec_detail G I e a =
     (case e of
        Term b it \<Rightarrow> (case it of None \<Rightarrow> False | Some i \<Rightarrow> ps_inv G i \<and> ps_low G i \<le> nxt (ps_docs G i) a)
      | BitmapTerm b it \<Rightarrow> ps_inv G it \<and> ps_low G it \<le> nxt (ps_docs G it) a
      | RangeTerm b it cf fl \<Rightarrow> ps_inv G it \<and> ps_low G it \<le> nxt (ps_docs G it) a
      | DocIdTerm b d \<Rightarrow> True
      | SubDocIdTerm b d s \<Rightarrow> True
      | DocIds b ids pos \<Rightarrow> sorted ids \<and> (\<forall>x \<in> set (take pos ids). x < a)
      | Range b rs i \<Rightarrow> sorted_wrt (\<lambda>x y. snd x < fst y) rs \<and> (\<forall>(x, y) \<in> set rs. x \<le> y) \<and>
          (\<forall>(x, y) \<in> set (take i rs). y < a)
      | PK b c d n \<Rightarrow>
          d \<le> END_DOCID \<and>
          (case c of
             None \<Rightarrow> True
           | Some q \<Rightarrow> I q \<and> (if 0 < n then d < a else get_doc_id q \<le> nxt (exec_docs G q) d))
      | And b cs order fs n \<Rightarrow>
          order \<noteq> [] \<and> (\<forall>c \<in> set cs. I c) \<and>
          (\<forall>i \<in> set order. i < length cs \<and> get_doc_id (cs ! i) \<le> nxt (exec_docs G (cs ! i)) a)
      | Or b cs h n \<Rightarrow>
          0 < n \<and> (\<forall>c \<in> set cs. I c) \<and> is_heap n h \<and> length h = n + 1 \<and>
          (\<forall>x \<in> set (tl h). entry_at G a cs x) \<and> e_entryId ` set (tl h) = {..<length cs}
      | AndNot b l r fl n s \<Rightarrow>
          I l \<and> get_doc_id l \<le> nxt (exec_docs G l) a \<and>
          (case r of
             None \<Rightarrow> True
           | Some q \<Rightarrow> I q \<and> (fl = None \<longrightarrow> get_doc_id q \<le> nxt (exec_docs G q) a))
      | WeakAnd b cs h hs n m \<Rightarrow>
          nth_heap m n h \<and> (\<forall>c \<in> set cs. I c) \<and> length cs = n \<and>
          (\<forall>x \<in> set (tl h). entry_at G a cs x) \<and> e_entryId ` set (tl h) = {..<length cs} \<and>
          distinct (map e_entryId (tl h))
      | BitmapAnd b s bs \<Rightarrow>
          bs \<noteq> [] \<and> I s \<and> get_doc_id s \<le> nxt (exec_docs G s) a \<and> (\<forall>q \<in> set bs. bitmap_at G a q))"

text \<open>The number bounds the depth of the tree, as in \<open>seek\<close>.\<close>

fun exec_inv :: "('it, 'z) posting_spec_scheme \<Rightarrow> nat \<Rightarrow> 'it executor \<Rightarrow> bool" where
  "exec_inv G 0 e = False"
| "exec_inv G (Suc n) e \<longleftrightarrow>
     docset (exec_docs G e) \<and>
     (get_doc_id e \<in> exec_docs G e \<or> get_doc_id e = INVALID_DOCID \<or> get_doc_id e = END_DOCID) \<and>
     (get_doc_id e = END_DOCID \<or> exec_detail G (exec_inv G n) e (get_doc_id e + 1))"

lemma set_doc_id_simps [simp]:
  "get_doc_id (set_doc_id d e) = d" "exec_docs G (set_doc_id d e) = exec_docs G e"
  "exec_detail G I (set_doc_id d e) a = exec_detail G I e a"
  by (cases e; simp add: get_doc_id_def set_doc_id_def exec_detail_def)+

lemma exec_docs_move_to_end [simp]: "exec_docs G (move_to_end e) = exec_docs G e"
proof (induction e rule: move_to_end.induct)
  case (2 b cs order fs n)
  then have "map (exec_docs G) (map move_to_end cs) = map (exec_docs G) cs"
    by simp
  then show ?case
    by (simp only: move_to_end.simps exec_docs.simps)
next
  case (4 b l r fl n s)
  then show ?case
    by (cases r) (auto split: option.splits)
next
  case (5 b cs h hs n m)
  then have "map (exec_docs G) (map move_to_end cs) = map (exec_docs G) cs"
    by simp
  then show ?case
    by (simp only: move_to_end.simps exec_docs.simps)
qed (auto simp: set_doc_id_def)

lemma exec_inv_set:
  assumes "docset (exec_docs G e)" "d = nxt (exec_docs G e) a" "d \<noteq> END_DOCID \<Longrightarrow> exec_detail G (exec_inv G n) e (d + 1)"
  shows "exec_inv G (Suc n) (set_doc_id d e)"
  using nxt_hit [OF assms(1), of a] assms by auto

lemma exec_inv_docset: "exec_inv G n e \<Longrightarrow> docset (exec_docs G e)"
  by (cases n) auto

section \<open>Scans of the leaves\<close>

lemma doc_id_next: "d < END_DOCID \<Longrightarrow> 0 \<le> d \<Longrightarrow> doc_id_result d a = nxt {d} a"
proof -
  assume d: "d < END_DOCID" "0 \<le> d"
  then have "docset {d}"
    by (simp add: docset_def)
  then show ?thesis
    using nxt_eqI [of "{d}" d a] nxt_none [of "{d}" a] by (auto simp: doc_id_result_def)
qed

lemma not_in_take: "\<forall>x \<in> set (take pos xs). P x \<Longrightarrow> j < length xs \<Longrightarrow> \<not> P (xs ! j) \<Longrightarrow> pos \<le> j"
proof (rule ccontr)
  assume a: "\<forall>x \<in> set (take pos xs). P x" "j < length xs" "\<not> P (xs ! j)" "\<not> pos \<le> j"
  then have "take pos xs ! j = xs ! j" "j < length (take pos xs)"
    by simp_all
  then have "xs ! j \<in> set (take pos xs)"
    by (metis nth_mem)
  then show False
    using a by blast
qed

lemma all_in_take_Suc: "\<forall>x \<in> set (take pos xs). P x \<Longrightarrow> pos < length xs \<Longrightarrow> P (xs ! pos) \<Longrightarrow> \<forall>x \<in> set (take (pos + 1) xs). P x"
  by (simp add: take_Suc_conv_app_nth)

lemma doc_ids_scan_next:
  assumes "\<forall>x \<in> set (take pos ids). x < a" "sorted ids" "docset (set ids)"
  shows "\<exists>pos'. doc_ids_scan ids pos a = (nxt (set ids) a, pos') \<and> (\<forall>x \<in> set (take pos' ids). x < a)"
  using assms
proof (induction ids pos a rule: doc_ids_scan.induct)
  case (1 ids pos a)
  show ?case
  proof (cases "pos < length ids")
    case False
    then have "nxt (set ids) a = END_DOCID"
      using "1.prems"(1) by (intro nxt_none) simp
    then show ?thesis
      using False "1.prems"(1) by (subst doc_ids_scan.simps) simp
  next
    case pos: True
    show ?thesis
    proof (cases "ids ! pos \<ge> a")
      case True
      have "ids ! pos \<le> x" if x: "x \<in> set ids" "a \<le> x" for x
      proof -
        obtain j where j: "j < length ids" "x = ids ! j"
          using x(1) by (auto simp: in_set_conv_nth)
        then have "pos \<le> j"
          using not_in_take [OF "1.prems"(1) j(1)] x(2) by simp
        then show ?thesis
          using j sorted_nth_mono [OF "1.prems"(2)] by simp
      qed
      then have "nxt (set ids) a = ids ! pos"
        using True pos by (intro nxt_eqI [OF "1.prems"(3)]) simp_all
      then show ?thesis
        using True pos "1.prems"(1) by (subst doc_ids_scan.simps) simp
    next
      case False
      then show ?thesis
        using "1.IH" [OF pos False all_in_take_Suc [OF "1.prems"(1) pos] "1.prems"(2,3)] pos
        by (subst doc_ids_scan.simps) simp
    qed
  qed
qed

text \<open>The documents of ordered ranges.\<close>

lemma range_scan_next:
  assumes "\<forall>(x, y) \<in> set (take i rs). y < a" "sorted_wrt (\<lambda>x y. snd x < fst y) rs" "\<forall>(x, y) \<in> set rs. x \<le> y"
    and "docset (\<Union>(x, y) \<in> set rs. {x..y})"
  shows "\<exists>i'. range_scan rs i a = (nxt (\<Union>(x, y) \<in> set rs. {x..y}) a, i') \<and> (\<forall>(x, y) \<in> set (take i' rs). y < a)"
  using assms
proof (induction rs i a rule: range_scan.induct)
  case (1 rs i a)
  let ?S = "\<Union>(x, y) \<in> set rs. {x..y}"
  show ?case
  proof (cases "i < length rs")
    case False
    then have "nxt ?S a = END_DOCID"
      using "1.prems"(1) by (intro nxt_none) fastforce
    then show ?thesis
      using False "1.prems"(1) by (subst range_scan.simps) simp
  next
    case i: True
    show ?thesis
    proof (cases "a \<le> snd (rs ! i)")
      case True
      let ?d = "if a \<ge> fst (rs ! i) then a else fst (rs ! i)"
      have in_S: "x \<in> ?S \<longleftrightarrow> (\<exists>j < length rs. fst (rs ! j) \<le> x \<and> x \<le> snd (rs ! j))" for x
        by (auto simp: set_conv_nth) (metis fst_conv snd_conv, metis prod.collapse)
      have ord: "fst (rs ! i) \<le> snd (rs ! i)"
        using "1.prems"(3) i by (auto simp: case_prod_beta)
      have "?d \<le> x" if x: "x \<in> ?S" "a \<le> x" for x
      proof -
        obtain j where j: "j < length rs" "fst (rs ! j) \<le> x" "x \<le> snd (rs ! j)"
          using x(1) in_S by blast
        then have "i \<le> j"
          using not_in_take [OF "1.prems"(1) j(1)] x(2) by (auto simp: case_prod_beta)
        then have "fst (rs ! i) \<le> x"
          using sorted_wrt_nth_less [OF "1.prems"(2), of i j] j ord by (cases "i = j") auto
        then show ?thesis
          using x(2) by simp
      qed
      moreover have "?d \<in> ?S"
        unfolding in_S using i True ord by (intro exI [of _ i]) auto
      ultimately have "nxt ?S a = ?d"
        by (intro nxt_eqI [OF "1.prems"(4)]) auto
      then show ?thesis
        using True i "1.prems"(1) by (subst range_scan.simps) simp
    next
      case False
      then show ?thesis
        using "1.IH" [OF i False all_in_take_Suc [OF "1.prems"(1) i] "1.prems"(2-4)] i
        by (subst range_scan.simps) (simp add: case_prod_beta)
    qed
  qed
qed

section \<open>Posting iterators\<close>

text \<open>
  The contract of a posting iterator: a seek at a document that no earlier result has passed gives the first
  document from there on, or \<^verbatim>\<open>INVALID_DOCID\<close>; a test tells whether the document is there.  \<open>ok\<close> says that
  the iterators report no errors.
\<close>

locale postings =
  fixes P :: "('it, 'z) posting_ops_scheme" and G :: "('it, 'y) posting_spec_scheme" and ok :: bool
  assumes ps_docset: "ps_inv G it \<Longrightarrow> docset (ps_docs G it)"
    and ps_seek: "ps_inv G it \<Longrightarrow> 0 \<le> a \<Longrightarrow> a \<le> END_DOCID \<Longrightarrow> ps_low G it \<le> nxt (ps_docs G it) a \<Longrightarrow>
      \<exists>r it'. it_seek P it a = Some (r, it') \<and>
        (case r of
           Inl _ \<Rightarrow> \<not> ok
         | Inr d \<Rightarrow> posting_result d = nxt (ps_docs G it) a \<and> ps_docs G it' = ps_docs G it \<and>
             (posting_result d \<noteq> END_DOCID \<longrightarrow> ps_inv G it' \<and> ps_low G it' \<le> d + 1 \<and> d \<noteq> INVALID_DOCID))"
    and ps_test: "ps_inv G it \<Longrightarrow> 0 \<le> a \<Longrightarrow> a < END_DOCID \<Longrightarrow> ps_low G it \<le> nxt (ps_docs G it) a \<Longrightarrow>
      \<exists>it'. it_test P it a = Some (a \<in> ps_docs G it, it') \<and> ps_inv G it' \<and> ps_docs G it' = ps_docs G it \<and>
        ps_low G it' \<le> nxt (ps_docs G it) (a + 1)"
begin

definition seek_ok :: "nat \<Rightarrow> 'it executor \<Rightarrow> docid \<Rightarrow> 'it executor outcome \<Rightarrow> bool" where
  "seek_ok n e a res \<longleftrightarrow>
     (\<exists>r e'. res = Some (r, e') \<and>
        (case r of
           Inl _ \<Rightarrow> \<not> ok
         | Inr d \<Rightarrow> d = nxt (exec_docs G e) a \<and> exec_docs G e' = exec_docs G e \<and>
             (d \<noteq> END_DOCID \<longrightarrow> exec_detail G (exec_inv G n) e' (d + 1))))"

lemma seek_okI:
  assumes "d = nxt (exec_docs G e) a" "exec_docs G e' = exec_docs G e"
    "d \<noteq> END_DOCID \<Longrightarrow> exec_detail G (exec_inv G n) e' (d + 1)"
  shows "seek_ok n e a (Some (Inr d, e'))"
  using assms by (simp add: seek_ok_def)

lemma seek_okI_end:
  assumes "d = nxt (exec_docs G e) a" "exec_docs G e' = exec_docs G e" "exec_detail G (exec_inv G n) e' (d + 1)"
  shows "seek_ok n e a (Some (Inr d, if Inr d = (Inr END_DOCID :: error_code + docid) then move_to_end e' else e'))"
  using assms by (auto simp: seek_ok_def)

lemma seek_ok_err: "\<not> ok \<Longrightarrow> seek_ok n e a (Some (Inl ec, e'))"
  unfolding seek_ok_def by simp

subsection \<open>Leaves\<close>

lemma posting_cases:
  assumes "ps_inv G it" "0 \<le> a" "a \<le> END_DOCID" "ps_low G it \<le> nxt (ps_docs G it) a"
  obtains (err) ec it' where "it_seek P it a = Some (Inl ec, it')" "\<not> ok"
  | (doc) d it' where "it_seek P it a = Some (Inr d, it')" "posting_result d = nxt (ps_docs G it) a"
      "ps_docs G it' = ps_docs G it"
      "posting_result d \<noteq> END_DOCID \<Longrightarrow> ps_inv G it' \<and> ps_low G it' \<le> nxt (ps_docs G it') (posting_result d + 1)"
proof -
  note dv = ps_docset [OF assms(1)]
  obtain r it' where r: "it_seek P it a = Some (r, it')"
    "case r of
       Inl _ \<Rightarrow> \<not> ok
     | Inr d \<Rightarrow> posting_result d = nxt (ps_docs G it) a \<and> ps_docs G it' = ps_docs G it \<and>
         (posting_result d \<noteq> END_DOCID \<longrightarrow> ps_inv G it' \<and> ps_low G it' \<le> d + 1 \<and> d \<noteq> INVALID_DOCID)"
    using ps_seek [OF assms] by blast
  show ?thesis
  proof (cases r)
    case (Inl ec)
    then show ?thesis
      using err r by simp
  next
    case (Inr d)
    have "ps_inv G it' \<and> ps_low G it' \<le> nxt (ps_docs G it') (posting_result d + 1)" if ne: "posting_result d \<noteq> END_DOCID"
    proof -
      have i: "ps_inv G it'" "ps_low G it' \<le> posting_result d + 1" "posting_result d = nxt (ps_docs G it) a"
        using r(2) ne Inr by (auto simp: posting_result_def)
      then have "posting_result d + 1 \<le> END_DOCID"
        using nxt_hit [OF dv, of a] ne by simp
      then show ?thesis
        using i nxt_ge [OF ps_docset [OF i(1)], of "posting_result d + 1"] by simp
    qed
    then show ?thesis
      using doc [of d it'] r Inr by auto
  qed
qed

lemma term_seek_ok:
  assumes "exec_detail G (exec_inv G n) (Term b it) a" "0 \<le> a" "a \<le> END_DOCID"
  shows "seek_ok n (Term b it) a (term_do_seek P b it a)"
proof -
  obtain i where i: "it = Some i" "ps_inv G i" "ps_low G i \<le> nxt (ps_docs G i) a"
    using assms(1) by (auto simp: exec_detail_def split: option.splits)
  from i(2) assms(2,3) i(3) show ?thesis
  proof (cases rule: posting_cases)
    case (err ec it')
    show ?thesis
      using i(1) err(1) seek_ok_err [OF err(2)] by (simp add: term_do_seek_def)
  next
    case (doc d it')
    then show ?thesis
      using i(1) by (auto simp: term_do_seek_def exec_detail_def intro!: seek_okI)
  qed
qed

lemma bitmap_term_seek_ok:
  assumes "exec_detail G (exec_inv G n) (BitmapTerm b it) a" "0 \<le> a" "a \<le> END_DOCID"
  shows "seek_ok n (BitmapTerm b it) a (bitmap_term_do_seek P b it a)"
proof -
  have i: "ps_inv G it" "ps_low G it \<le> nxt (ps_docs G it) a"
    using assms(1) by (auto simp: exec_detail_def)
  from i(1) assms(2,3) i(2) show ?thesis
  proof (cases rule: posting_cases)
    case (err ec it')
    show ?thesis
      using err(1) seek_ok_err [OF err(2)] by (simp add: bitmap_term_do_seek_def)
  next
    case (doc d it')
    then show ?thesis
      by (auto simp: bitmap_term_do_seek_def exec_detail_def intro!: seek_okI)
  qed
qed

lemma range_term_seek_ok:
  assumes "exec_detail G (exec_inv G n) (RangeTerm b it cf fl) a" "0 \<le> a" "a \<le> END_DOCID"
  shows "seek_ok n (RangeTerm b it cf fl) a (range_term_do_seek P b it cf fl a)"
proof -
  have i: "ps_inv G it" "ps_low G it \<le> nxt (ps_docs G it) a"
    using assms(1) by (auto simp: exec_detail_def)
  from i(1) assms(2,3) i(2) show ?thesis
  proof (cases rule: posting_cases)
    case (err ec it')
    show ?thesis
      using err(1) seek_ok_err [OF err(2)] by (simp add: range_term_do_seek_def)
  next
    case (doc d it')
    then show ?thesis
      by (auto simp: range_term_do_seek_def exec_detail_def intro!: seek_okI)
  qed
qed

lemma doc_ids_seek_ok:
  assumes "exec_detail G (exec_inv G n) (DocIds b ids pos) a" "docset (set ids)"
  shows "seek_ok n (DocIds b ids pos) a (case doc_ids_scan ids pos a of (d, pos') \<Rightarrow> Some (Inr d, DocIds b ids pos'))"
proof -
  have "sorted ids" "\<forall>x \<in> set (take pos ids). x < a"
    using assms(1) by (simp_all add: exec_detail_def)
  then obtain pos' where pos': "doc_ids_scan ids pos a = (nxt (set ids) a, pos')" "\<forall>x \<in> set (take pos' ids). x < a"
    using doc_ids_scan_next assms(2) by blast
  have "a \<le> nxt (set ids) a" if "nxt (set ids) a \<noteq> END_DOCID"
    using nxt_hit [OF assms(2) that] by simp
  then show ?thesis
    using pos' \<open>sorted ids\<close> by (force simp: exec_detail_def intro!: seek_okI)
qed

lemma range_seek_ok:
  assumes "exec_detail G (exec_inv G n) (Range b rs i) a" "docset (exec_docs G (Range b rs i))"
  shows "seek_ok n (Range b rs i) a (range_do_seek b rs i a)"
proof (cases "a = END_DOCID")
  case True
  then show ?thesis
    using nxt_END [OF assms(2)] by (auto simp: range_do_seek_def intro!: seek_okI)
next
  case False
  let ?S = "exec_docs G (Range b rs i)"
  have rs: "\<forall>(x, y) \<in> set (take i rs). y < a" "sorted_wrt (\<lambda>x y. snd x < fst y) rs" "\<forall>(x, y) \<in> set rs. x \<le> y"
    using assms(1) by (simp_all add: exec_detail_def)
  then obtain i' where i': "range_scan rs i a = (nxt ?S a, i')" "\<forall>(x, y) \<in> set (take i' rs). y < a"
    using range_scan_next [OF rs] assms(2) by auto
  have "\<forall>(x, y) \<in> set (take i' rs). y < nxt ?S a + 1" if "nxt ?S a \<noteq> END_DOCID"
    using nxt_hit [OF assms(2) that] i'(2) by fastforce
  then show ?thesis
    using i'(1) rs(2,3) False by (auto simp: range_do_seek_def exec_detail_def intro!: seek_okI)
qed

end

section \<open>Executors with children\<close>

context postings
begin

lemma and_seek_ok:
  assumes S: "seekable (seek P n) (exec_inv G n) (exec_docs G) get_doc_id ok"
    and d: "exec_detail G (exec_inv G n) (And b cs order fs t) a" and a: "0 \<le> a" "a \<le> END_DOCID"
  shows "seek_ok n (And b cs order fs t) a (and_do_seek (seek P n) b cs order fs t a)"
proof -
  note ready = seekable.ready_def [OF S] and same = seekable.same_docs_def [OF S]
  have cs: "order \<noteq> []" "\<forall>c \<in> set cs. exec_inv G n c"
    "\<forall>i \<in> set order. i < length cs \<and> get_doc_id (cs ! i) \<le> nxt (exec_docs G (cs ! i)) a"
    using d by (simp_all add: exec_detail_def)
  then have "\<forall>i \<in> set order. i < length cs \<and> seekable.ready (exec_inv G n) (exec_docs G) get_doc_id a (cs ! i)"
    by (auto simp: ready)
  moreover have "seekable.agreed (exec_docs G) order 0 a cs"
    by (simp add: seekable.agreed_def [OF S])
  ultimately obtain r cs' t' where r: "and_loop (seek P n) order fs 0 a cs t = Some (r, cs', t')"
    "case r of Inl _ \<Rightarrow> \<not> ok
     | Inr d \<Rightarrow> d = nxt (seekable.all_hits (exec_docs G) cs order fs) a \<and>
         seekable.and_done (exec_inv G n) (exec_docs G) get_doc_id order cs d cs'"
    using seekable.and_loop_post [OF S, of 0 order cs a fs t] cs(1) a
    unfolding seekable.and_post_def [OF S] by auto
  show ?thesis
  proof (cases r)
    case (Inl ec)
    then show ?thesis
      using r seek_ok_err by (simp add: and_do_seek_def)
  next
    case (Inr d)
    then have dn: "d = nxt (seekable.all_hits (exec_docs G) cs order fs) a"
      and "seekable.and_done (exec_inv G n) (exec_docs G) get_doc_id order cs d cs'"
      using r(2) unfolding Inr sum.case by blast+
    then have fin: "map (exec_docs G) cs' = map (exec_docs G) cs"
        "\<forall>i \<in> set order. exec_inv G n (cs' ! i) \<and> get_doc_id (cs' ! i) \<le> nxt (exec_docs G (cs' ! i)) d"
        "\<forall>c \<in> set cs'. exec_inv G n c"
      unfolding seekable.and_done_def [OF S] same ready using cs(2) by blast+
    have "seekable.all_hits (exec_docs G) cs order fs = exec_docs G (And b cs order fs t)"
      using cs(3) by (auto simp: seekable.all_hits_def [OF S])
    moreover have docs: "exec_docs G (And b cs' order fs t') = exec_docs G (And b cs order fs t)"
      unfolding exec_docs.simps fin(1) by simp
    moreover have "exec_detail G (exec_inv G n) (And b cs' order fs t') (d + 1)"
    proof -
      have "length cs' = length cs"
        using fin(1) by (rule map_eq_imp_length_eq)
      moreover have "get_doc_id (cs' ! i) \<le> nxt (exec_docs G (cs' ! i)) (d + 1)" if "i \<in> set order" for i
        using fin(2) that nxt_mono [OF exec_inv_docset, of G n "cs' ! i" d "d + 1"] by auto
      ultimately show ?thesis
        using cs fin(3) by (auto simp: exec_detail_def)
    qed
    ultimately show ?thesis
      using seek_okI_end [of d "And b cs order fs t" a "And b cs' order fs t'" n] dn
      unfolding and_do_seek_def r(1) Inr by (simp del: exec_docs.simps move_to_end.simps)
  qed
qed

text \<open>The entries of a heap, with and without the state of the children.\<close>

lemma entries_at:
  assumes S: "seekable (seek P n) (exec_inv G n) (exec_docs G) get_doc_id ok"
  shows "seekable.entries_ok (exec_inv G n) (exec_docs G) get_doc_id a cs h \<longleftrightarrow>
    (\<forall>c \<in> set cs. exec_inv G n c) \<and> (\<forall>x \<in> set (tl h). entry_at G a cs x) \<and> e_entryId ` set (tl h) = {..<length cs}"
    (is "?ok \<longleftrightarrow> ?at")
proof
  note defs = seekable.entries_ok_def [OF S] seekable.entry_ok_def [OF S] seekable.ready_def [OF S] entry_at_def Let_def
  assume ok: ?ok
  then have "\<forall>c \<in> set cs. exec_inv G n c"
    using seekable.entries_inv [OF S] by blast
  then show ?at
    using ok unfolding defs by blast
next
  note defs = seekable.entries_ok_def [OF S] seekable.entry_ok_def [OF S] seekable.ready_def [OF S] entry_at_def Let_def
  assume at: ?at
  then show ?ok
    unfolding defs by (meson nth_mem)
qed

lemma or_seek_ok:
  assumes S: "seekable (seek P n) (exec_inv G n) (exec_docs G) get_doc_id ok"
    and d: "exec_detail G (exec_inv G n) (Or b cs h m) a" and a: "0 \<le> a" "a \<le> END_DOCID"
  shows "seek_ok n (Or b cs h m) a (or_do_seek (seek P n) b cs h m a)"
proof -
  note same = seekable.same_docs_def [OF S]
  have h: "0 < m" "is_heap m h" "length h = m + 1"
    "seekable.entries_ok (exec_inv G n) (exec_docs G) get_doc_id a cs h"
    using d by (simp_all add: exec_detail_def entries_at [OF S])
  then obtain r cs' h' where r: "or_loop (seek P n) a m cs h = Some (r, cs', h')"
    "case r of Inl _ \<Rightarrow> \<not> ok
     | Inr d \<Rightarrow> d = nxt (\<Union>c \<in> set cs. exec_docs G c) a \<and> seekable.same_docs (exec_docs G) cs cs' \<and>
         seekable.entries_ok (exec_inv G n) (exec_docs G) get_doc_id a cs' h' \<and> is_heap m h' \<and> length h' = m + 1"
    using seekable.or_loop_post [OF S, of a cs h m] a unfolding seekable.or_post_def [OF S] by auto
  show ?thesis
  proof (cases r)
    case (Inl ec)
    then show ?thesis
      using r seek_ok_err by (simp add: or_do_seek_def)
  next
    case (Inr d)
    have fin: "d = nxt (\<Union>c \<in> set cs. exec_docs G c) a" "map (exec_docs G) cs' = map (exec_docs G) cs"
      "seekable.entries_ok (exec_inv G n) (exec_docs G) get_doc_id a cs' h'" "is_heap m h'" "length h' = m + 1"
      using r(2) unfolding Inr sum.case same by blast+
    have dn: "d = nxt (exec_docs G (Or b cs h m)) a"
      using fin(1) by simp
    have docs: "exec_docs G (Or b cs' h' m) = exec_docs G (Or b cs h m)"
      unfolding exec_docs.simps fin(2) by simp
    have "docset (exec_docs G (Or b cs h m))"
      using seekable.entries_inv [OF S h(4)] exec_inv_docset by (fastforce simp: docset_def)
    then have "a \<le> d + 1"
      using nxt_ge [OF _ a(2)] dn by fastforce
    then have "seekable.entries_ok (exec_inv G n) (exec_docs G) get_doc_id (d + 1) cs' h'"
      using seekable.entries_ok_mono [OF S fin(3)] by blast
    then have "exec_detail G (exec_inv G n) (Or b cs' h' m) (d + 1)"
      using h(1) fin(4,5) by (simp add: exec_detail_def entries_at [OF S])
    then show ?thesis
      using seek_okI [OF dn docs] unfolding or_do_seek_def r(1) Inr by simp
  qed
qed

lemma weak_and_seek_ok:
  assumes S: "seekable (seek P n) (exec_inv G n) (exec_docs G) get_doc_id ok"
    and d: "exec_detail G (exec_inv G n) (WeakAnd b cs h hs num m) a" and a: "0 \<le> a" "a \<le> END_DOCID"
  shows "seek_ok n (WeakAnd b cs h hs num m) a (weak_and_do_seek (seek P n) b cs h hs num m a)"
proof -
  note same = seekable.same_docs_def [OF S] and ok_def = seekable.weak_ok_def [OF S]
  let ?ok = "seekable.weak_ok (exec_inv G n) (exec_docs G) get_doc_id"
  let ?docs = "seekable.weak_docs (exec_docs G) m cs"
  have h: "?ok a num m cs h"
    using d by (simp add: exec_detail_def ok_def entries_at [OF S])
  then obtain r cs' h' where r: "weak_loop (seek P n) END_DOCID num m a cs h = Some (r, cs', h')"
    "case r of Inl _ \<Rightarrow> \<not> ok
     | Inr d \<Rightarrow> d = nxt ?docs a \<and> seekable.same_docs (exec_docs G) cs cs' \<and> ?ok d num m cs' h'"
    using seekable.weak_loop_post [OF S, of a num m cs h] a unfolding seekable.weak_post_def [OF S] by auto
  show ?thesis
  proof (cases r)
    case (Inl ec)
    then show ?thesis
      using r seek_ok_err by (simp add: weak_and_do_seek_def)
  next
    case (Inr d)
    have fin: "d = nxt ?docs a" "map (exec_docs G) cs' = map (exec_docs G) cs" "?ok d num m cs' h'"
      using r(2) unfolding Inr sum.case same by blast+
    have dn: "d = nxt (exec_docs G (WeakAnd b cs h hs num m)) a"
      using fin(1) by (simp only: seekable.weak_docs_def [OF S] exec_docs.simps)
    have docs: "exec_docs G (WeakAnd b cs' h' hs num m) = exec_docs G (WeakAnd b cs h hs num m)"
      unfolding exec_docs.simps fin(2) by simp
    have "?ok (d + 1) num m cs' h'"
      using seekable.weak_ok_mono [OF S fin(3)] by simp
    then have "exec_detail G (exec_inv G n) (WeakAnd b cs' h' hs num m) (d + 1)"
      by (simp add: exec_detail_def ok_def entries_at [OF S])
    then show ?thesis
      using seek_okI_end [OF dn docs] unfolding weak_and_do_seek_def r(1) Inr
      by (simp del: exec_docs.simps move_to_end.simps)
  qed
qed

lemma and_not_seek_ok:
  assumes S: "seekable (seek P n) (exec_inv G n) (exec_docs G) get_doc_id ok"
    and d: "exec_detail G (exec_inv G n) (AndNot b l r fl t s) a" and a: "0 \<le> a" "a \<le> END_DOCID"
  shows "seek_ok n (AndNot b l r fl t s) a (and_not_do_seek (seek P n) b l r fl t s a)"
proof -
  note ready = seekable.ready_def [OF S] and rr_def = seekable.right_ready_def [OF S]
  let ?ready = "seekable.ready (exec_inv G n) (exec_docs G) get_doc_id"
  let ?rr = "seekable.right_ready (exec_inv G n) (exec_docs G) get_doc_id"
  let ?R = "seekable.right_docs (exec_docs G) fl s r"
  have docs_eq: "exec_docs G (AndNot b' l' r' fl t' s) = exec_docs G l' - seekable.right_docs (exec_docs G) fl s r'" for b' l' r' t'
    by (auto simp: seekable.right_docs_def [OF S] split: option.splits)
  have rl: "?ready a l" and rr: "?rr a fl r"
    using d by (auto simp: exec_detail_def ready rr_def split: option.splits)
  have dl: "docset (exec_docs G l)"
    using seekable.ready_docs [OF S rl] .
  show ?thesis
  proof (rule seekable.sk_cases [OF S rl a])
    fix ec l1
    assume 1: "seek P n l a = Some (Inl ec, l1)" "\<not> ok"
    show ?thesis
      using 1(1) seek_ok_err [OF 1(2)] by (simp add: and_not_do_seek_def)
  next
    fix l1
    assume 2: "seek P n l a = Some (Inr (nxt (exec_docs G l) a), l1)" "exec_inv G n l1"
      "exec_docs G l1 = exec_docs G l" "get_doc_id l1 = nxt (exec_docs G l) a"
    let ?c = "nxt (exec_docs G l) a"
    have c: "a \<le> ?c" "?c \<le> END_DOCID" "?c \<in> exec_docs G l \<or> ?c = END_DOCID"
      using nxt_ge [OF dl a(2)] nxt_le_END [OF dl] nxt_hit [OF dl, of a] by blast+
    obtain x l2 r' t' where x: "and_not_loop (seek P n) fl s ?c l1 r t = Some (x, l2, r', t')"
      "case x of Inl _ \<Rightarrow> \<not> ok
       | Inr d \<Rightarrow> d = nxt (exec_docs G l - ?R) ?c \<and> exec_inv G n l2 \<and> exec_docs G l2 = exec_docs G l \<and>
           get_doc_id l2 = d \<and> ?rr d fl r' \<and> map_option (exec_docs G) r' = map_option (exec_docs G) r"
      using seekable.and_not_loop_post [OF S 2(2,3,4) c(3) order_trans [OF a(1) c(1)] c(2)
          seekable.right_ready_mono [OF S rr c(1)], of s t]
      unfolding seekable.not_post_def [OF S] by blast
    show ?thesis
    proof (cases x)
      case (Inl ec)
      then show ?thesis
        using x 2(1) seek_ok_err by (simp add: and_not_do_seek_def)
    next
      case (Inr d)
      have fin: "d = nxt (exec_docs G l - ?R) ?c" "exec_inv G n l2" "exec_docs G l2 = exec_docs G l"
        "get_doc_id l2 = d" "?rr d fl r'" "map_option (exec_docs G) r' = map_option (exec_docs G) r"
        using x(2) unfolding Inr sum.case by blast+
      have dn: "d = nxt (exec_docs G (AndNot b l r fl t s)) a"
        using fin(1) nxt_subset [OF dl _ a(2), of "exec_docs G l - ?R"] docs_eq by auto
      have docs: "exec_docs G (AndNot b l2 r' fl t' s) = exec_docs G (AndNot b l r fl t s)"
        unfolding docs_eq fin(3) seekable.right_docs_same [OF S fin(6)] ..
      have "exec_detail G (exec_inv G n) (AndNot b l2 r' fl t' s) (d + 1)" if "d \<noteq> END_DOCID"
      proof -
        have "docset (exec_docs G (AndNot b l r fl t s))"
          unfolding docs_eq using dl by (rule docset_subset) blast
        then have "d < END_DOCID"
          using nxt_hit dn that by blast
        then have "d \<le> nxt (exec_docs G l2) (d + 1)"
          using nxt_ge [OF dl, of "d + 1"] fin(3) by simp
        moreover have "?rr (d + 1) fl r'"
          using seekable.right_ready_mono [OF S fin(5)] by simp
        ultimately show ?thesis
          using fin(2,4) by (auto simp: exec_detail_def rr_def ready split: option.splits if_splits)
      qed
      then show ?thesis
        using seek_okI [OF dn docs] x(1) Inr 2(1) by (simp add: and_not_do_seek_def)
    qed
  qed
qed

lemma pk_seek_ok:
  assumes S: "seekable (seek P n) (exec_inv G n) (exec_docs G) get_doc_id ok"
    and d: "exec_detail G (exec_inv G n) (PK b c docId m) a" and a: "0 \<le> a" "a \<le> END_DOCID"
  shows "seek_ok n (PK b c docId m) a (pk_do_seek (seek P n) b c docId m a)"
proof (cases "\<exists>q. c = Some q \<and> a \<le> docId \<and> m \<le> 0 \<and> docId \<noteq> END_DOCID")
  case False
  have none: "nxt (exec_docs G (PK b c docId m)) a = END_DOCID"
  proof (rule nxt_none)
    fix x
    assume "x \<in> exec_docs G (PK b c docId m)"
    then obtain q where q: "c = Some q" "x = docId" "docId \<in> exec_docs G q"
      by (auto split: option.splits)
    have "exec_inv G n q"
      using d q(1) by (simp add: exec_detail_def)
    then have "docId < END_DOCID"
      using docset_less [OF exec_inv_docset q(3)] by blast
    then show "x < a"
      using False q d by (auto simp: exec_detail_def not_le split: if_splits)
  qed
  have "pk_do_seek (seek P n) b c docId m a = Some (Inr END_DOCID, PK b c docId m)"
    using False by (auto simp: pk_do_seek_def split: option.splits)
  then show ?thesis
    using none by (simp add: seek_ok_def)
next
  case True
  then obtain q where q: "c = Some q" "a \<le> docId" "m \<le> 0" "docId \<noteq> END_DOCID"
    by blast
  have "docId \<le> END_DOCID" and rq: "seekable.ready (exec_inv G n) (exec_docs G) get_doc_id docId q"
    using d q by (auto simp: exec_detail_def seekable.ready_def [OF S])
  then have lt: "docId < END_DOCID" "0 \<le> docId"
    using q(2,4) a(1) by auto
  have dq: "docset (exec_docs G q)"
    using seekable.ready_docs [OF S rq] .
  have docs: "exec_docs G (PK b' (Some q') docId m') = {docId} \<inter> exec_docs G q'" for b' q' m'
    by simp
  show ?thesis
  proof (rule seekable.sk_cases [OF S rq lt(2) less_imp_le [OF lt(1)]])
    fix ec q'
    assume 1: "seek P n q docId = Some (Inl ec, q')" "\<not> ok"
    show ?thesis
      using 1(1) seek_ok_err [OF 1(2)] q by (auto simp: pk_do_seek_def Let_def)
  next
    fix q'
    assume 2: "seek P n q docId = Some (Inr (nxt (exec_docs G q) docId), q')" "exec_inv G n q'"
      "exec_docs G q' = exec_docs G q" "get_doc_id q' = nxt (exec_docs G q) docId"
    show ?thesis
    proof (cases "docId = nxt (exec_docs G q) docId")
      case True
      then have "docId \<in> exec_docs G q"
        using nxt_hit [OF dq, of docId] lt by auto
      then have "nxt ({docId} \<inter> exec_docs G q) a = docId"
        using q(2) docset_subset [OF dq] by (intro nxt_eqI) auto
      then show ?thesis
        using 2 q True lt by (auto simp: pk_do_seek_def exec_detail_def intro!: seek_okI)
    next
      case False
      then have "docId \<notin> exec_docs G q"
        using nxt_at [OF dq, of docId] by auto
      then have "nxt ({docId} \<inter> exec_docs G q) a = END_DOCID"
        by (intro nxt_none) auto
      then show ?thesis
        using 2 q False by (auto simp: pk_do_seek_def intro!: seek_okI)
    qed
  qed
qed

lemma bitmap_at_mono: "bitmap_at G a e \<Longrightarrow> a \<le> c \<Longrightarrow> bitmap_at G c e"
  using nxt_mono [OF ps_docset] by (fastforce simp: bitmap_at_def split: executor.splits)

lemma bitmap_test_at:
  assumes "bitmap_at G a e" "0 \<le> a" "a < END_DOCID"
  obtains e' where "bitmap_test P e a = Some (a \<in> exec_docs G e, e')" "exec_docs G e' = exec_docs G e" "bitmap_at G (a + 1) e'"
proof -
  obtain b it where e: "e = BitmapTerm b it" "ps_inv G it" "ps_low G it \<le> nxt (ps_docs G it) a"
    using assms(1) by (auto simp: bitmap_at_def split: executor.splits)
  obtain it' where it': "it_test P it a = Some (a \<in> ps_docs G it, it')" "ps_inv G it'" "ps_docs G it' = ps_docs G it"
    "ps_low G it' \<le> nxt (ps_docs G it) (a + 1)"
    using ps_test [OF e(2) assms(2,3) e(3)] by blast
  show ?thesis
    by (rule that [of "if a \<in> ps_docs G it then set_doc_id a (BitmapTerm b it') else BitmapTerm b it'"])
      (use e it' in \<open>simp_all add: bitmap_test_def bitmap_at_def set_doc_id_def\<close>)
qed

lemma test_all_at:
  assumes "\<forall>e \<in> set bs. bitmap_at G a e" "0 \<le> a" "a < END_DOCID"
  shows "\<exists>bs'. test_all P a bs = Some (\<forall>e \<in> set bs. a \<in> exec_docs G e, bs') \<and>
    map (exec_docs G) bs' = map (exec_docs G) bs \<and> (\<forall>e \<in> set bs'. bitmap_at G (a + 1) e)"
  using assms(1)
proof (induction bs)
  case Nil
  then show ?case by simp
next
  case (Cons e bs)
  obtain e' where e': "bitmap_test P e a = Some (a \<in> exec_docs G e, e')" "exec_docs G e' = exec_docs G e" "bitmap_at G (a + 1) e'"
    using bitmap_test_at [of a e] Cons.prems assms(2,3) by auto
  have "\<forall>e \<in> set bs. bitmap_at G (a + 1) e"
    using Cons.prems bitmap_at_mono by auto
  then show ?case
    using e' Cons by (cases "a \<in> exec_docs G e") auto
qed

lemma bitmap_and_loop_ok:
  assumes S: "seekable (seek P n) (exec_inv G n) (exec_docs G) get_doc_id ok"
    and "seekable.ready (exec_inv G n) (exec_docs G) get_doc_id a s" "\<forall>q \<in> set bs. bitmap_at G a q"
    and "0 \<le> a" "a \<le> END_DOCID"
  shows "\<exists>r s' bs'. bitmap_and_loop (seek P n) (test_all P) a s bs = Some (r, s', bs') \<and>
    (case r of
       Inl _ \<Rightarrow> \<not> ok
     | Inr d \<Rightarrow> d = nxt (exec_docs G (BitmapAnd b s bs)) a \<and> exec_docs G s' = exec_docs G s \<and>
         map (exec_docs G) bs' = map (exec_docs G) bs \<and> exec_inv G n s' \<and> get_doc_id s' = d \<and>
         (\<forall>q \<in> set bs'. bitmap_at G (d + 1) q))"
  using assms(2-)
proof (induction "nat (END_DOCID - a)" arbitrary: a s bs rule: less_induct)
  case less
  let ?H = "exec_docs G (BitmapAnd b s bs)"
  have ds: "docset (exec_docs G s)"
    using seekable.ready_docs [OF S less.prems(1)] .
  then have dH: "docset ?H"
    by (rule docset_subset) auto
  show ?case
  proof (rule seekable.sk_cases [OF S less.prems(1,3,4)])
    fix ec s'
    assume "seek P n s a = Some (Inl ec, s')" "\<not> ok"
    then show ?thesis
      by (subst bitmap_and_loop.simps) simp
  next
    fix s'
    let ?d = "nxt (exec_docs G s) a"
    assume s': "seek P n s a = Some (Inr ?d, s')" "exec_inv G n s'" "exec_docs G s' = exec_docs G s" "get_doc_id s' = ?d"
    have Hd: "nxt ?H a = nxt ?H ?d"
      using ds by (rule nxt_subset) (use less.prems(4) in auto)
    have ad: "a \<le> ?d"
      using nxt_ge [OF ds less.prems(4)] .
    then have at: "\<forall>q \<in> set bs. bitmap_at G c q" if "?d \<le> c" for c
      using less.prems(2) bitmap_at_mono that by auto
    show ?thesis
    proof (cases "?d = END_DOCID")
      case True
      then show ?thesis
        using s' Hd nxt_END [OF dH] at [of "?d + 1"] by (subst bitmap_and_loop.simps) auto
    next
      case False
      then have d: "?d \<in> exec_docs G s" "?d < END_DOCID" "0 \<le> ?d"
        using nxt_hit [OF ds, of a] less.prems(3) by auto
      obtain bs' where bs': "test_all P ?d bs = Some (\<forall>e \<in> set bs. ?d \<in> exec_docs G e, bs')"
        "map (exec_docs G) bs' = map (exec_docs G) bs" "\<forall>e \<in> set bs'. bitmap_at G (?d + 1) e"
        using test_all_at [of bs ?d] at [of ?d] d by auto
      have hit: "(\<forall>e \<in> set bs. ?d \<in> exec_docs G e) \<longleftrightarrow> ?d \<in> ?H"
        using d(1) by auto
      have eq: "bitmap_and_loop (seek P n) (test_all P) a s bs =
        (if ?d \<in> ?H then Some (Inr ?d, s', bs') else bitmap_and_loop (seek P n) (test_all P) (?d + 1) s' bs')"
        using s'(1) False bs'(1) [unfolded hit] by (subst bitmap_and_loop.simps) (simp del: exec_docs.simps)
      show ?thesis
      proof (cases "?d \<in> ?H")
        case True
        then show ?thesis
          using eq Hd nxt_at [OF dH True] s' bs' by (simp del: exec_docs.simps)
      next
        case miss: False
        have H': "exec_docs G (BitmapAnd b s' bs') = ?H"
          unfolding exec_docs.simps s'(3) bs'(2) ..
        have "seekable.ready (exec_inv G n) (exec_docs G) get_doc_id (?d + 1) s'"
          unfolding seekable.ready_def [OF S] using s' nxt_ge [OF ds, of "?d + 1"] d by simp
        moreover have "nat (END_DOCID - (?d + 1)) < nat (END_DOCID - a)" "0 \<le> ?d + 1" "?d + 1 \<le> END_DOCID"
          using d ad by simp_all
        ultimately show ?thesis
          using less.hyps [of "?d + 1" s' bs'] bs'(3) miss
          unfolding H' eq Hd nxt_miss [OF miss] bs'(2) s'(3) by (simp del: exec_docs.simps)
      qed
    qed
  qed
qed

lemma bitmap_and_seek_ok:
  assumes S: "seekable (seek P n) (exec_inv G n) (exec_docs G) get_doc_id ok"
    and d: "exec_detail G (exec_inv G n) (BitmapAnd b s bs) a" and a: "0 \<le> a" "a \<le> END_DOCID"
  shows "seek_ok n (BitmapAnd b s bs) a (bitmap_and_do_seek P (seek P n) b s bs a)"
proof -
  have s: "bs \<noteq> []" "seekable.ready (exec_inv G n) (exec_docs G) get_doc_id a s" "\<forall>q \<in> set bs. bitmap_at G a q"
    using d by (simp_all add: exec_detail_def seekable.ready_def [OF S])
  obtain r s' bs' where r: "bitmap_and_loop (seek P n) (test_all P) a s bs = Some (r, s', bs')"
    "case r of
       Inl _ \<Rightarrow> \<not> ok
     | Inr d \<Rightarrow> d = nxt (exec_docs G (BitmapAnd b s bs)) a \<and> exec_docs G s' = exec_docs G s \<and>
         map (exec_docs G) bs' = map (exec_docs G) bs \<and> exec_inv G n s' \<and> get_doc_id s' = d \<and>
         (\<forall>q \<in> set bs'. bitmap_at G (d + 1) q)"
    using bitmap_and_loop_ok [OF S s(2,3) a, of b] by blast
  show ?thesis
  proof (cases r)
    case (Inl ec)
    then show ?thesis
      using r s(1) seek_ok_err by (simp add: bitmap_and_do_seek_def)
  next
    case (Inr d)
    have fin: "d = nxt (exec_docs G (BitmapAnd b s bs)) a" "exec_docs G s' = exec_docs G s"
      "map (exec_docs G) bs' = map (exec_docs G) bs" "exec_inv G n s'" "get_doc_id s' = d"
      "\<forall>q \<in> set bs'. bitmap_at G (d + 1) q"
      using r(2) unfolding Inr sum.case by blast+
    have docs: "exec_docs G (BitmapAnd b s' bs') = exec_docs G (BitmapAnd b s bs)"
      unfolding exec_docs.simps fin(2,3) ..
    have "docset (exec_docs G s)"
      using seekable.ready_docs [OF S s(2)] .
    moreover from this have "docset (exec_docs G (BitmapAnd b s bs))"
      by (rule docset_subset) auto
    ultimately have "d \<le> nxt (exec_docs G s') (d + 1)" if "d \<noteq> END_DOCID"
      using nxt_hit [of _ a] fin(1,2) that nxt_ge [of "exec_docs G s" "d + 1"] by fastforce
    moreover have "bs' \<noteq> []"
      using fin(3) s(1) by auto
    ultimately have "d \<noteq> END_DOCID \<Longrightarrow> exec_detail G (exec_inv G n) (BitmapAnd b s' bs') (d + 1)"
      using fin by (simp add: exec_detail_def)
    then show ?thesis
      using seek_okI [OF fin(1) docs] fin(1) docs r(1) s(1) Inr
      by (cases "d = END_DOCID") (simp_all add: bitmap_and_do_seek_def seek_ok_def del: exec_docs.simps move_to_end.simps)
  qed
qed

lemma do_seek_ok:
  assumes S: "seekable (seek P n) (exec_inv G n) (exec_docs G) get_doc_id ok"
    and dv: "docset (exec_docs G e)"
    and d: "exec_detail G (exec_inv G n) e a" and a: "0 \<le> a" "a \<le> END_DOCID"
  shows "seek_ok n e a (do_seek P (seek P n) e a)"
proof (cases e)
  case (DocIdTerm b x)
  then show ?thesis
    using dv doc_id_next [of x a] by (simp add: do_seek_def exec_detail_def seek_ok_def docset_def)
next
  case (SubDocIdTerm b x y)
  then show ?thesis
    using dv doc_id_next [of x a] by (simp add: do_seek_def exec_detail_def seek_ok_def docset_def)
qed (use assms term_seek_ok bitmap_term_seek_ok range_term_seek_ok doc_ids_seek_ok range_seek_ok pk_seek_ok [OF S]
    and_seek_ok [OF S] or_seek_ok [OF S] and_not_seek_ok [OF S] weak_and_seek_ok [OF S] bitmap_and_seek_ok [OF S]
    in \<open>simp_all add: do_seek_def\<close>)

text \<open>A later position asks less.\<close>

lemma entry_at_mono:
  assumes "entry_at G a cs x" "a \<le> c" "\<forall>q \<in> set cs. docset (exec_docs G q)"
  shows "entry_at G c cs x"
proof -
  have "docset (exec_docs G (cs ! e_entryId x))"
    using assms(1,3) by (simp add: entry_at_def)
  then have "nxt (exec_docs G (cs ! e_entryId x)) a \<le> nxt (exec_docs G (cs ! e_entryId x)) c"
    using assms(2) by (rule nxt_mono)
  then show ?thesis
    using assms(1) by (auto simp: entry_at_def Let_def)
qed

lemma exec_detail_mono:
  assumes d: "exec_detail G (exec_inv G n) e a" and "a \<le> c"
  shows "exec_detail G (exec_inv G n) e c"
proof -
  have le: "get_doc_id q \<le> nxt (exec_docs G q) c" if "get_doc_id q \<le> nxt (exec_docs G q) a" "exec_inv G n q" for q
    using nxt_mono [OF exec_inv_docset [OF that(2)] assms(2)] that(1) by simp
  have low: "ps_low G i \<le> nxt (ps_docs G i) c" if "ps_low G i \<le> nxt (ps_docs G i) a" "ps_inv G i" for i
    using nxt_mono [OF ps_docset [OF that(2)] assms(2)] that(1) by simp
  have heap: "\<forall>x \<in> set (tl h). entry_at G c cs x"
    if "\<forall>x \<in> set (tl h). entry_at G a cs x" "\<forall>q \<in> set cs. exec_inv G n q" for h cs
    using that entry_at_mono [OF _ assms(2)] exec_inv_docset by blast
  show ?thesis
  proof (cases e)
    case (And b cs order fs t)
    then show ?thesis
      using d le by (auto simp: exec_detail_def)
  next
    case (Term b it)
    then show ?thesis
      using d low by (auto simp: exec_detail_def split: option.splits)
  next
    case (BitmapTerm b it)
    then show ?thesis
      using d low by (auto simp: exec_detail_def)
  next
    case (RangeTerm b it cf fl)
    then show ?thesis
      using d low by (auto simp: exec_detail_def)
  next
    case (AndNot b l r fl t s)
    then show ?thesis
      using d le by (auto simp: exec_detail_def split: option.splits)
  next
    case (BitmapAnd b s bs)
    then show ?thesis
      using d le bitmap_at_mono [OF _ assms(2)] by (auto simp: exec_detail_def)
  qed (use d assms(2) heap in \<open>fastforce simp: exec_detail_def split: option.splits if_splits\<close>)+
qed

lemma seek_contract: "seekable (seek P n) (exec_inv G n) (exec_docs G) get_doc_id ok"
proof (induction n)
  case 0
  show ?case
    by unfold_locales simp_all
next
  case (Suc n)
  show ?case
  proof
    fix q :: "'it executor"
    assume "exec_inv G (Suc n) q"
    then show "docset (exec_docs G q)"
      by (rule exec_inv_docset)
  next
    fix q :: "'it executor" and a
    assume q: "exec_inv G (Suc n) q" and a: "0 \<le> a" "a \<le> END_DOCID" and le: "get_doc_id q \<le> nxt (exec_docs G q) a"
    have dv: "docset (exec_docs G q)"
      using q by (rule exec_inv_docset)
    let ?post = "\<lambda>r q'. case r of
       Inl _ \<Rightarrow> \<not> ok
     | Inr d \<Rightarrow> d = nxt (exec_docs G q) a \<and> exec_inv G (Suc n) q' \<and> exec_docs G q' = exec_docs G q \<and> get_doc_id q' = d"
    show "\<exists>r q'. seek P (Suc n) q a = Some (r, q') \<and> ?post r q'"
    proof (cases "a > get_doc_id q")
      case False
      then have "get_doc_id q = nxt (exec_docs G q) a"
        using le q a nxt_le [OF dv, of "get_doc_id q" a] nxt_le_END [OF dv, of a] by (auto simp: INVALID_DOCID_def)
      then show ?thesis
        using False q by simp
    next
      case True
      then have "exec_detail G (exec_inv G n) q (get_doc_id q + 1)"
        using q a by auto
      then have "exec_detail G (exec_inv G n) q a"
        by (rule exec_detail_mono) (use True in simp)
      then obtain r e' where r: "do_seek P (seek P n) q a = Some (r, e')"
        "case r of
           Inl _ \<Rightarrow> \<not> ok
         | Inr d \<Rightarrow> d = nxt (exec_docs G q) a \<and> exec_docs G e' = exec_docs G q \<and>
             (d \<noteq> END_DOCID \<longrightarrow> exec_detail G (exec_inv G n) e' (d + 1))"
        using do_seek_ok [OF Suc dv _ a] by (auto simp: seek_ok_def)
      show ?thesis
      proof (cases r)
        case (Inl ec)
        then show ?thesis
          using r True by simp
      next
        case (Inr d)
        have fin: "d = nxt (exec_docs G q) a" "exec_docs G e' = exec_docs G q"
          "d \<noteq> END_DOCID \<longrightarrow> exec_detail G (exec_inv G n) e' (d + 1)"
          using r(2) unfolding Inr sum.case by blast+
        have "exec_inv G (Suc n) (set_doc_id d e')"
          using fin dv by (intro exec_inv_set [of G e' d a]) simp_all
        then show ?thesis
          using r(1) Inr True fin by (simp del: exec_inv.simps)
      qed
    qed
  qed
qed

end

sublocale postings \<subseteq> tree: seekable "seek P n" "exec_inv G n" "exec_docs G" get_doc_id ok for n
  by (rule seek_contract)

end
