(* ===== verification/QueryExecutorOps.thy ===== *)
theory QueryExecutorOps
  imports QueryExecutor
begin

text \<open>
  The other operations of the query executors: building them from their children, document frequencies,
  resetting, and the search for sub documents.  The argument \<open>srt\<close> is \<^verbatim>\<open>std::sort\<close> by a key, which may put
  elements with equal keys in any order.
\<close>

section \<open>Document frequencies\<close>

datatype df_type = GDT_MAIN_CHAIN | GDT_CURRENT_CHAIN

abbreviation MAX_DF :: int where
  "MAX_DF \<equiv> 2 ^ 31 - 1"

text \<open>A sum of \<^verbatim>\<open>df_t\<close>; an overflow of the signed type is undefined.\<close>

definition add_df :: "int option \<Rightarrow> int option \<Rightarrow> int option" where
  "add_df x y =
     do { a \<leftarrow> x; b \<leftarrow> y; if - (2 ^ 31) \<le> a + b \<and> a + b \<le> MAX_DF then Some (a + b) else None }"

definition sum_df :: "int option list \<Rightarrow> int option" where
  "sum_df = foldl add_df (Some 0)"

definition min_df :: "int option list \<Rightarrow> int option" where
  "min_df = foldl (\<lambda>x y. do { a \<leftarrow> x; b \<leftarrow> y; Some (min a b) }) (Some MAX_DF)"

text \<open>\<^verbatim>\<open>getDF\<close>.  A range executor adds up its ranges when it is built.\<close>

definition term_df :: "('it, 'z) posting_ops_scheme \<Rightarrow> df_type \<Rightarrow> 'it \<Rightarrow> int" where
  "term_df P ty it = (case ty of GDT_MAIN_CHAIN \<Rightarrow> it_doc_freq P it | GDT_CURRENT_CHAIN \<Rightarrow> it_truncate_doc_freq P it)"

definition range_df :: "(docid \<times> docid) list \<Rightarrow> int option" where
  "range_df rs = sum_df (map (\<lambda>(x, y). Some (y - x + 1)) rs)"

fun get_df :: "('it, 'z) posting_ops_scheme \<Rightarrow> df_type \<Rightarrow> 'it executor \<Rightarrow> int option" where
  "get_df P ty (Term b it) = Some (case it of None \<Rightarrow> 0 | Some i \<Rightarrow> term_df P ty i)"
| "get_df P ty (BitmapTerm b it) = Some (term_df P ty it)"
| "get_df P ty (RangeTerm b it cf fl) = Some (term_df P ty it)"
| "get_df P ty (DocIdTerm b d) = Some 0"
| "get_df P ty (SubDocIdTerm b d s) = Some 0"
| "get_df P ty (DocIds b ids pos) = Some 1"
| "get_df P ty (Range b rs i) = range_df rs"
| "get_df P ty (PK b c d n) = Some 1"
| "get_df P ty (And b cs order fs n) = min_df (map (get_df P ty) cs)"
| "get_df P ty (Or b cs h n) = sum_df (map (get_df P ty) cs)"
| "get_df P ty (AndNot b l r fl n s) = get_df P ty l"
| "get_df P ty (WeakAnd b cs h hs n m) = sum_df (map (get_df P ty) cs)"
| "get_df P ty (BitmapAnd b s bs) = min_df (get_df P ty s # map (get_df P ty) bs)"

section \<open>Building executors\<close>

definition term_init :: "'it option \<Rightarrow> 'it executor" where
  "term_init it = Term (qbase_init\<lparr>q_hasSub := False\<rparr>) it"

definition bitmap_term_init :: "'it \<Rightarrow> 'it executor" where
  "bitmap_term_init it = BitmapTerm (qbase_init\<lparr>q_hasSub := False\<rparr>) it"

definition range_term_init :: "'it \<Rightarrow> doc_filter option \<Rightarrow> 'it executor" where
  "range_term_init it filt = RangeTerm (qbase_init\<lparr>q_hasSub := False\<rparr>) it filt filt"

definition doc_id_term_init :: "docid \<Rightarrow> 'it executor" where
  "doc_id_term_init d = DocIdTerm (qbase_init\<lparr>q_hasSub := False\<rparr>) d"

definition sub_doc_id_term_init :: "docid \<Rightarrow> docid \<Rightarrow> 'it executor" where
  "sub_doc_id_term_init d s = SubDocIdTerm (qbase_init\<lparr>q_hasSub := True\<rparr>) d s"

text \<open>\<^verbatim>\<open>stealFilter\<close>: only a range executor has a filter, and gives it away once.\<close>

definition steal_filter :: "'it executor \<Rightarrow> doc_filter option \<times> 'it executor" where
  "steal_filter e = (case e of RangeTerm b it cf fl \<Rightarrow> (fl, RangeTerm b it cf None) | _ \<Rightarrow> (None, e))"

text \<open>The loop of \<^verbatim>\<open>AndQueryExecutor::addQueryExecutors\<close> over the sorted children from the second on.\<close>

fun and_steal :: "nat list \<Rightarrow> 'it executor list \<Rightarrow> nat list \<Rightarrow> doc_filter list \<Rightarrow>
    'it executor list \<times> nat list \<times> doc_filter list" where
  "and_steal [] cs order fs = (cs, order, fs)"
| "and_steal (i # is) cs order fs =
     (case steal_filter (cs ! i) of
        (Some f, c) \<Rightarrow> and_steal is (cs[i := c]) order (fs @ [f])
      | (None, c) \<Rightarrow> and_steal is (cs[i := c]) (order @ [i]) fs)"

definition and_add ::
  "((nat \<Rightarrow> int) \<Rightarrow> nat list \<Rightarrow> nat list) \<Rightarrow> ('it, 'z) posting_ops_scheme \<Rightarrow> 'it executor list \<Rightarrow> 'it executor option" where
  "and_add srt P cs =
     (let b = qbase_init\<lparr>q_hasSub := list_ex has_sub cs\<rparr>
      in if cs = [] then Some (And b [] [] [] 0)
         else do { dfs \<leftarrow> those (map (get_df P GDT_CURRENT_CHAIN) cs);
                   let order = srt (\<lambda>i. dfs ! i) [0..<length cs];
                   case and_steal (tl order) cs [hd order] [] of
                     (cs', order', fs) \<Rightarrow> Some (And b cs' order' fs 0) })"

definition new_entries :: "nat \<Rightarrow> entry list" where
  "new_entries n = map (\<lambda>i. \<lparr>e_docId = INVALID_DOCID, e_entryId = i\<rparr>) [0..<n]"

definition dummy_entry :: entry where
  "dummy_entry = \<lparr>e_docId = INVALID_DOCID, e_entryId = 0\<rparr>"

definition or_add :: "qbase \<Rightarrow> 'it executor list \<Rightarrow> 'it executor" where
  "or_add b cs = Or (b\<lparr>q_hasSub := list_ex has_sub cs\<rparr>) cs (dummy_entry # new_entries (length cs)) (length cs)"

text \<open>
  \<^verbatim>\<open>AndNotQueryExecutor::addQueryExecutors\<close>.  The right child is asked for its sub documents before it is
  compared with \<^verbatim>\<open>NULL\<close>.
\<close>

definition and_not_add ::
  "('it, 'z) posting_ops_scheme \<Rightarrow> 'it executor \<Rightarrow> 'it executor option \<Rightarrow> 'it executor option" where
  "and_not_add P l right =
     (case right of
        None \<Rightarrow> None
      | Some r \<Rightarrow>
          do { dr \<leftarrow> get_df P GDT_CURRENT_CHAIN r;
               dl \<leftarrow> get_df P GDT_CURRENT_CHAIN l;
               let (filt, r') = (if dr > dl then steal_filter r else (None, r));
               Some (AndNot (qbase_init\<lparr>q_hasSub := has_sub l \<or> has_sub r'\<rparr>) l (Some r') filt 0 (has_sub r')) })"

text \<open>The heap of sub documents is not cleared first.\<close>

definition weak_and_add :: "qbase \<Rightarrow> entry list \<Rightarrow> nat \<Rightarrow> 'it executor list \<Rightarrow> 'it executor" where
  "weak_and_add b hs m cs =
     (let h = dummy_entry # new_entries (length cs)
      in WeakAnd (b\<lparr>q_hasSub := list_ex has_sub cs\<rparr>) cs h (hs @ h) (length cs) (min m (length cs)))"

definition weak_and_init :: "nat \<Rightarrow> 'it executor list \<Rightarrow> 'it executor" where
  "weak_and_init minShouldMatch cs = weak_and_add qbase_init [] (max 1 minShouldMatch) cs"

definition is_bitmap_term :: "'it executor \<Rightarrow> bool" where
  "is_bitmap_term e = (case e of BitmapTerm _ _ \<Rightarrow> True | _ \<Rightarrow> False)"

definition bitmap_and_add ::
  "((nat \<Rightarrow> int) \<Rightarrow> nat list \<Rightarrow> nat list) \<Rightarrow> ('it, 'z) posting_ops_scheme \<Rightarrow> 'it executor list \<Rightarrow> 'it executor option" where
  "bitmap_and_add srt P es =
     (let bits = filter is_bitmap_term es; seeks = filter (\<lambda>e. \<not> is_bitmap_term e) es
      in do { dfs \<leftarrow> those (map (get_df P GDT_CURRENT_CHAIN) bits);
              let bits' = map (\<lambda>i. bits ! i) (srt (\<lambda>i. dfs ! i) [0..<length bits]);
              (seeks', bs) \<leftarrow>
                (if seeks = [] then (case bits' of [] \<Rightarrow> None | e # rest \<Rightarrow> Some ([e], rest)) else Some (seeks, bits'));
              s \<leftarrow> (if length seeks' = 1 then Some (hd seeks') else and_add srt P seeks');
              Some (BitmapAnd (qbase_init\<lparr>q_hasSub := has_sub s \<or> list_ex has_sub bs\<rparr>) s bs) })"

section \<open>Resetting\<close>

definition reset_base :: "qbase \<Rightarrow> qbase" where
  "reset_base b = b\<lparr>q_current := (if q_isEmpty b then END_DOCID else INVALID_DOCID)\<rparr>"

lemma size_move_to_end [simp]: "size (move_to_end e) = size e"
proof (induction e rule: move_to_end.induct)
  case (2 b cs order fs n)
  then show ?case
    by (simp add: size_list_conv_sum_list comp_def cong: map_cong)
next
  case (3 b cs h n)
  then show ?case
    by (simp add: size_list_conv_sum_list comp_def cong: map_cong)
next
  case (4 b l r fl n s)
  then show ?case
    by (cases r) simp_all
next
  case (5 b cs h hs n m)
  then show ?case
    by (simp add: size_list_conv_sum_list comp_def cong: map_cong)
next
  case (6 b s cs)
  then show ?case
    by (simp add: size_list_conv_sum_list comp_def cong: map_cong)
qed (simp_all add: set_doc_id_def)

lemma size_in_list: "x \<in> set xs \<Longrightarrow> size x \<le> size_list size xs + k"
  by (simp add: size_list_estimation' trans_le_add1)

text \<open>
  \<^verbatim>\<open>reset\<close>.  An executor with children that is empty first moves all of them to their ends.  The OR and the
  weak AND executors are then built again from their children.
\<close>

function (sequential) reset :: "('it, 'z) posting_ops_scheme \<Rightarrow> 'it executor \<Rightarrow> 'it executor" where
  "reset P (Term b it) = Term (reset_base b) (map_option (it_clone P) it)"
| "reset P (BitmapTerm b it) = BitmapTerm (reset_base b) (it_clone P it)"
| "reset P (RangeTerm b it cf fl) = RangeTerm (reset_base b) (it_clone P it) cf cf"
| "reset P (DocIdTerm b d) = DocIdTerm b d"
| "reset P (SubDocIdTerm b d s) = SubDocIdTerm b d s"
| "reset P (DocIds b ids pos) = DocIds (reset_base b) ids 0"
| "reset P (Range b rs i) = Range b rs 0"
| "reset P (PK b c d n) = PK b c d 0"
| "reset P (And b cs order fs n) =
     And (reset_base b) (map (reset P) (if q_isEmpty b then map move_to_end cs else cs)) order fs n"
| "reset P (Or b cs h n) =
     or_add (reset_base b) (map (reset P) (if q_isEmpty b then map move_to_end cs else cs))"
| "reset P (AndNot b l r fl n s) =
     AndNot (reset_base b) (reset P (if q_isEmpty b then move_to_end l else l))
       (map_option (reset P) (if q_isEmpty b then map_option move_to_end r else r)) fl n s"
| "reset P (WeakAnd b cs h hs n m) =
     weak_and_add (reset_base b) hs m (map (reset P) (if q_isEmpty b then map move_to_end cs else cs))"
| "reset P (BitmapAnd b s bs) =
     BitmapAnd (reset_base b) (reset P (if q_isEmpty b then move_to_end s else s))
       (map (reset P) (if q_isEmpty b then map move_to_end bs else bs))"
  by pat_completeness auto
termination
proof (relation "measure (\<lambda>(P, e). size e)", goal_cases)
  case 1
  show ?case by simp
qed (auto split: if_splits simp: less_Suc_eq_le intro: size_list_estimation' size_in_list)

section \<open>Main documents\<close>

text \<open>A loop over the children that stops at the first \<^verbatim>\<open>false\<close>, and one that stops at the first \<^verbatim>\<open>true\<close>.\<close>

fun all_hit :: "bool option list \<Rightarrow> bool option" where
  "all_hit [] = Some True"
| "all_hit (x # xs) = do { b \<leftarrow> x; if b then all_hit xs else Some False }"

fun any_hit :: "bool option list \<Rightarrow> bool option" where
  "any_hit [] = Some False"
| "any_hit (x # xs) = do { b \<leftarrow> x; if b then Some True else any_hit xs }"

fun is_main_doc_hit :: "docid \<Rightarrow> 'it executor \<Rightarrow> bool option" where
  "is_main_doc_hit docId (SubDocIdTerm b d s) = Some False"
| "is_main_doc_hit docId (PK b c d n) = (case c of None \<Rightarrow> None | Some e \<Rightarrow> is_main_doc_hit docId e)"
| "is_main_doc_hit docId (And b cs order fs n) =
     (if \<not> q_hasSub b then Some True else all_hit (map (is_main_doc_hit docId) cs))"
| "is_main_doc_hit docId (Or b cs h n) =
     (if \<not> q_hasSub b then Some True
      else any_hit (map (\<lambda>e. if get_doc_id e = docId then is_main_doc_hit docId e else Some False) cs))"
| "is_main_doc_hit docId (AndNot b l r fl n s) =
     (if \<not> q_hasSub b then Some True else if s then Some False else is_main_doc_hit docId l)"
| "is_main_doc_hit docId (WeakAnd b cs h hs n m) =
     (if \<not> q_hasSub b then Some True else all_hit (map (is_main_doc_hit docId) cs))"
| "is_main_doc_hit docId (BitmapAnd b s bs) =
     all_hit (is_main_doc_hit docId s # map (is_main_doc_hit docId) bs)"
| "is_main_doc_hit docId e = Some True"

section \<open>Sub documents\<close>

text \<open>An executor without sub documents: every sub document of its document is a hit.\<close>

definition main_sub :: "'it executor \<Rightarrow> docid \<Rightarrow> docid \<Rightarrow> docid \<Rightarrow> docid" where
  "main_sub e docId subDocId subDocEnd =
     (if get_doc_id e = docId \<and> subDocId < subDocEnd then subDocId else END_DOCID)"

definition no_sub_seek :: "'it executor \<Rightarrow> docid \<Rightarrow> docid \<Rightarrow> docid \<Rightarrow> bool \<Rightarrow> 'it executor outcome" where
  "no_sub_seek e docId subDocId subDocEnd need =
     (let d = main_sub e docId subDocId subDocEnd in Some (Inr d, if need then set_curr_sub d e else e))"

text \<open>The loops of \<^verbatim>\<open>seekSubDoc\<close>; \<open>sk\<close> is \<^verbatim>\<open>seekSub\<close> of a child as a function of the sub document.\<close>

partial_function (option) and_sub_loop ::
  "('q \<Rightarrow> docid \<Rightarrow> 'q outcome) \<Rightarrow> nat list \<Rightarrow> doc_filter list \<Rightarrow> docid \<Rightarrow> docid \<Rightarrow> nat \<Rightarrow> docid \<Rightarrow> 'q list \<Rightarrow> nat \<Rightarrow>
   ((error_code + docid) \<times> 'q list \<times> nat) option" where
  "and_sub_loop sk order fs docId subDocEnd k current cs tests =
     (if length order \<le> k \<or> length cs \<le> order ! k then None
      else
        do { (r, c) \<leftarrow> sk (cs ! (order ! k)) current;
             let cs' = cs[order ! k := c];
             case r of
               Inl ec \<Rightarrow> Some (Inl ec, cs', tests)
             | Inr tmpid \<Rightarrow>
                 let k' = (if tmpid \<noteq> current then 0 else k + 1)
                 in if tmpid \<ge> subDocEnd then Some (Inr tmpid, cs', tests)
                    else if k' \<ge> length order then
                      (case test_current_doc fs docId tests of
                         (hit, tests') \<Rightarrow> Some (Inr (if hit then tmpid else END_DOCID), cs', tests'))
                    else and_sub_loop sk order fs docId subDocEnd k' tmpid cs' tests })"

fun or_sub_loop :: "('q \<Rightarrow> docid \<Rightarrow> 'q outcome) \<Rightarrow> docid \<Rightarrow> docid \<Rightarrow> 'q list \<Rightarrow> ((error_code + docid) \<times> 'q list) option" where
  "or_sub_loop sk subDocId minSub [] = Some (Inr minSub, [])"
| "or_sub_loop sk subDocId minSub (c # cs) =
     do { (r, c') \<leftarrow> sk c subDocId;
          case r of
            Inl ec \<Rightarrow> Some (Inl ec, c' # cs)
          | Inr d \<Rightarrow>
              do { (r', cs') \<leftarrow> or_sub_loop sk subDocId (if d < minSub then d else minSub) cs;
                   Some (r', c' # cs') } }"

partial_function (option) and_not_sub_loop ::
  "('q \<Rightarrow> docid \<Rightarrow> 'q outcome) \<Rightarrow> docid \<Rightarrow> docid \<Rightarrow> 'q \<Rightarrow> 'q option \<Rightarrow> ((error_code + docid) \<times> 'q \<times> 'q option) option" where
  "and_not_sub_loop sk subDocEnd subDocId l right =
     do { (r, l1) \<leftarrow> sk l subDocId;
          case r of
            Inl ec \<Rightarrow> Some (Inl ec, l1, right)
          | Inr s \<Rightarrow>
              if s \<ge> subDocEnd then Some (Inr END_DOCID, l1, right)
              else
                do { rq \<leftarrow> right;
                     (t, rq') \<leftarrow> sk rq s;
                     case t of
                       Inl ec \<Rightarrow> Some (Inl ec, l1, Some rq')
                     | Inr rightDocId \<Rightarrow>
                         if rightDocId = s then
                           do { (r', l2) \<leftarrow> sk l1 (s + 1);
                                case r' of
                                  Inl ec \<Rightarrow> Some (Inl ec, l2, Some rq')
                                | Inr s' \<Rightarrow>
                                    if s' < subDocEnd then and_not_sub_loop sk subDocEnd s' l2 (Some rq')
                                    else Some (Inr s', l2, Some rq') }
                         else Some (Inr s, l1, Some rq') } }"

partial_function (option) bitmap_and_sub_loop ::
  "('q \<Rightarrow> docid \<Rightarrow> 'q outcome) \<Rightarrow> docid \<Rightarrow> nat \<Rightarrow> docid \<Rightarrow> 'q list \<Rightarrow> ((error_code + docid) \<times> 'q list) option" where
  "bitmap_and_sub_loop sk subDocEnd k current qs =
     (if length qs \<le> k then None
      else
        do { (r, c) \<leftarrow> sk (qs ! k) current;
             let qs' = qs[k := c];
             case r of
               Inl ec \<Rightarrow> Some (Inl ec, qs')
             | Inr tmpid \<Rightarrow>
                 let k' = (if tmpid \<noteq> current then 0 else k + 1)
                 in if tmpid < subDocEnd \<and> k' < length qs then bitmap_and_sub_loop sk subDocEnd k' tmpid qs'
                    else Some (Inr tmpid, qs') })"

text \<open>The virtual \<^verbatim>\<open>seekSubDoc\<close>; \<open>sk\<close> is \<^verbatim>\<open>seekSub\<close>.\<close>

definition seek_sub_doc ::
  "('it executor \<Rightarrow> docid \<Rightarrow> docid \<Rightarrow> docid \<Rightarrow> bool \<Rightarrow> 'it executor outcome) \<Rightarrow> 'it executor \<Rightarrow> docid \<Rightarrow> docid \<Rightarrow> docid \<Rightarrow>
   bool \<Rightarrow> 'it executor outcome" where
  "seek_sub_doc sk e docId subDocId subDocEnd need =
     (case e of
        SubDocIdTerm b d s \<Rightarrow> Some (Inr (if docId = d \<and> subDocId \<le> s then s else END_DOCID), e)
      | And b cs order fs n \<Rightarrow>
          if \<not> q_hasSub b then no_sub_seek e docId subDocId subDocEnd need
          else do { (r, cs', n') \<leftarrow>
                      and_sub_loop (\<lambda>c d. sk c docId d subDocEnd need) order fs docId subDocEnd 0 subDocId cs n;
                    Some (r, And b cs' order fs n') }
      | Or b cs h n \<Rightarrow>
          if \<not> q_hasSub b then no_sub_seek e docId subDocId subDocEnd need
          else do { (r, cs') \<leftarrow> or_sub_loop (\<lambda>c d. sk c docId d subDocEnd need) subDocId END_DOCID cs;
                    Some (r, Or b cs' h n) }
      | AndNot b l r fl n s \<Rightarrow>
          do { (res, l', r') \<leftarrow> and_not_sub_loop (\<lambda>c d. sk c docId d subDocEnd need) subDocEnd subDocId l r;
               Some (res, AndNot b l' r' fl n s) }
      | WeakAnd b cs h hs n m \<Rightarrow>
          if \<not> q_hasSub b then no_sub_seek e docId subDocId subDocEnd need
          else do { (r, cs', hs') \<leftarrow> weak_loop (\<lambda>c d. sk c docId d END_DOCID need) subDocEnd n m subDocId cs hs;
                    Some (map_sum (\<lambda>ec. ec) (\<lambda>d. if d \<ge> subDocEnd then END_DOCID else d) r, WeakAnd b cs' h hs' n m) }
      | BitmapAnd b s bs \<Rightarrow>
          do { (r, qs) \<leftarrow> bitmap_and_sub_loop (\<lambda>c d. sk c docId d subDocEnd need) subDocEnd 0 subDocId (s # bs);
               Some (r, BitmapAnd b (hd qs) (tl qs)) }
      | _ \<Rightarrow> Some (Inr (main_sub e docId subDocId subDocEnd), e))"

text \<open>\<^verbatim>\<open>QueryExecutor::seekSub\<close>; the number bounds the nesting, as in \<open>seek\<close>.\<close>

fun seek_sub :: "nat \<Rightarrow> 'it executor \<Rightarrow> docid \<Rightarrow> docid \<Rightarrow> docid \<Rightarrow> bool \<Rightarrow> 'it executor outcome" where
  "seek_sub 0 e docId subDocId subDocEnd need = None"
| "seek_sub (Suc n) e docId subDocId subDocEnd need =
     do { (r, e') \<leftarrow> seek_sub_doc (seek_sub n) e docId subDocId subDocEnd need;
          Some (r, case r of Inl ec \<Rightarrow> e' | Inr d \<Rightarrow> set_sub_doc_id d e') }"

end
