(* ===== verification/QueryBuild.thy ===== *)
theory QueryBuild
  imports QueryTree QueryExecutorOps
begin

text \<open>
  What the constructors and the \<^verbatim>\<open>addQueryExecutors\<close> of the executors build: from fresh children a fresh
  executor, over the documents the query stands for.
\<close>

section \<open>Fresh executors\<close>

definition fresh :: "('it, 'z) posting_spec_scheme \<Rightarrow> nat \<Rightarrow> 'it executor \<Rightarrow> bool" where
  "fresh G n e \<longleftrightarrow> exec_inv G n e \<and> get_doc_id e = INVALID_DOCID"

lemma fresh_depth: "fresh G n e \<Longrightarrow> \<exists>k. n = Suc k"
  by (cases n) (auto simp: fresh_def)

lemma freshI:
  assumes "docset (exec_docs G e)" "get_doc_id e = INVALID_DOCID" "exec_detail G (exec_inv G n) e 0"
  shows "fresh G (Suc n) e"
  using assms by (simp add: fresh_def INVALID_DOCID_def)

lemma fresh_docset: "fresh G n e \<Longrightarrow> docset (exec_docs G e)"
  by (auto simp: fresh_def dest: exec_inv_docset)

lemma fresh_le: "fresh G n e \<Longrightarrow> get_doc_id e \<le> nxt (exec_docs G e) a"
  using fresh_docset [of G n e]
  by (rule_tac nxt_cases [OF fresh_docset, of G n e a]) (auto simp: fresh_def INVALID_DOCID_def END_DOCID_def docset_def)

lemma new_base [simp]: "q_current qbase_init = INVALID_DOCID" "\<not> q_isEmpty qbase_init"
  by (simp_all add: qbase_init_def)

text \<open>A bound on the depth can be larger.\<close>

lemma exec_detail_weaken:
  assumes "\<And>q. I q \<Longrightarrow> J q" "exec_detail G I e a"
  shows "exec_detail G J e a"
  using assms by (cases e) (auto simp: exec_detail_def split: option.splits if_splits)

lemma exec_inv_Suc: "exec_inv G n e \<Longrightarrow> exec_inv G (Suc n) e"
proof (induction n arbitrary: e)
  case 0
  then show ?case by simp
next
  case (Suc n)
  then show ?case
    unfolding exec_inv.simps(2) [of G "Suc n"]
    using exec_detail_weaken [of "exec_inv G n" "exec_inv G (Suc n)" G e "get_doc_id e + 1"] by auto
qed

lemma exec_inv_mono: "exec_inv G n e \<Longrightarrow> n \<le> m \<Longrightarrow> exec_inv G m e"
  by (induction m) (auto simp: le_Suc_eq simp del: exec_inv.simps intro: exec_inv_Suc)

lemma fresh_mono: "fresh G n e \<Longrightarrow> n \<le> m \<Longrightarrow> fresh G m e"
  by (auto simp: fresh_def intro: exec_inv_mono)

section \<open>Leaves\<close>

definition fresh_iter :: "('it, 'z) posting_spec_scheme \<Rightarrow> 'it \<Rightarrow> bool" where
  "fresh_iter G it \<longleftrightarrow> ps_inv G it \<and> docset (ps_docs G it) \<and> ps_low G it \<le> nxt (ps_docs G it) 0"

lemma term_init_fresh: "fresh_iter G it \<Longrightarrow> fresh G (Suc n) (term_init (Some it))"
  by (rule freshI) (simp_all add: term_init_def get_doc_id_def exec_detail_def fresh_iter_def)

lemma bitmap_term_init_fresh: "fresh_iter G it \<Longrightarrow> fresh G (Suc n) (bitmap_term_init it)"
  by (rule freshI) (simp_all add: bitmap_term_init_def get_doc_id_def exec_detail_def fresh_iter_def)

lemma range_term_init_fresh: "fresh_iter G it \<Longrightarrow> fresh G (Suc n) (range_term_init it f)"
  by (rule freshI) (simp_all add: range_term_init_def get_doc_id_def exec_detail_def fresh_iter_def)

lemma doc_ids_init_fresh: "docset (set ids) \<Longrightarrow> fresh G (Suc n) (doc_ids_init ids)"
  by (rule freshI) (simp_all add: doc_ids_init_def get_doc_id_def exec_detail_def)

lemma range_init_fresh:
  assumes "sorted_wrt (\<lambda>x y. snd x < fst y) rs" "\<forall>(x, y) \<in> set rs. 0 \<le> x \<and> x \<le> y \<and> y < END_DOCID"
  shows "fresh G (Suc n) (range_init rs)"
  using assms by (intro freshI) (force simp: range_init_def get_doc_id_def exec_detail_def docset_def)+

lemma doc_id_term_init_fresh: "0 \<le> d \<Longrightarrow> d < END_DOCID \<Longrightarrow> fresh G (Suc n) (doc_id_term_init d)"
  by (rule freshI) (simp_all add: doc_id_term_init_def get_doc_id_def exec_detail_def docset_def)

lemma pk_init_fresh:
  assumes "fresh G n e" "0 \<le> d" "d < END_DOCID"
  shows "fresh G (Suc n) (pk_init (Some e) d)" "exec_docs G (pk_init (Some e) d) = {d} \<inter> exec_docs G e"
proof -
  show D: "exec_docs G (pk_init (Some e) d) = {d} \<inter> exec_docs G e"
    by (simp add: pk_init_def)
  show "fresh G (Suc n) (pk_init (Some e) d)"
  proof (rule freshI)
    show "docset (exec_docs G (pk_init (Some e) d))"
      using fresh_docset [OF assms(1)] unfolding D by (auto simp: docset_def)
  qed (use assms fresh_le [OF assms(1)] in \<open>simp_all add: pk_init_def get_doc_id_def exec_detail_def fresh_def\<close>)
qed

section \<open>Heaps\<close>

lemma new_entries_simps [simp]:
  "length (new_entries n) = n" "e_entryId ` set (new_entries n) = {..<n}" "map e_entryId (new_entries n) = [0..<n]"
  by (auto simp: new_entries_def image_image comp_def)

lemma new_entry: "x \<in> set (new_entries n) \<Longrightarrow> e_docId x = INVALID_DOCID \<and> e_entryId x < n"
  by (auto simp: new_entries_def)

lemma new_heap_nth: "i \<le> n \<Longrightarrow> e_docId ((dummy_entry # new_entries n) ! i) = INVALID_DOCID"
  by (cases i) (auto simp: dummy_entry_def new_entries_def)

lemma new_heap: "is_heap n (dummy_entry # new_entries n)"
  unfolding is_heap_def by (intro allI impI) (subst (1 2) new_heap_nth, auto)

lemma new_nth_heap:
  assumes "1 \<le> m" "m \<le> n"
  shows "nth_heap m n (dummy_entry # new_entries n)"
proof -
  let ?h = "dummy_entry # new_entries n"
  have nth: "e_docId (drop k ?h ! i) = INVALID_DOCID" if "k + i \<le> n" for k i
    using new_heap_nth [OF that] that by (simp del: nth_Cons_Suc)
  have "is_heap (n - m + 1) (drop (m - 1) ?h)"
    unfolding is_heap_def using assms by (intro allI impI) (subst (1 2) nth, auto)
  moreover have "e_docId (?h ! i) \<le> e_docId (?h ! (i + 1))" if "i < m" for i
    using new_heap_nth [of i n] new_heap_nth [of "i + 1" n] that assms by simp
  ultimately show ?thesis
    using assms unfolding nth_heap_def by (simp del: nth_Cons_Suc nth_Cons_pos)
qed

lemma new_entries_at:
  assumes "\<forall>c \<in> set cs. fresh G k c"
  shows "\<forall>x \<in> set (new_entries (length cs)). entry_at G 0 cs x"
proof
  fix x
  assume x: "x \<in> set (new_entries (length cs))"
  have "fresh G k (cs ! e_entryId x)"
    using assms new_entry [OF x] by simp
  then show "entry_at G 0 cs x"
    using new_entry [OF x] fresh_le [of G k "cs ! e_entryId x" 0] by (auto simp: entry_at_def fresh_def Let_def)
qed

section \<open>OR\<close>

lemma or_add_fresh:
  assumes "\<forall>c \<in> set cs. fresh G n c" "cs \<noteq> []" "q_current b = INVALID_DOCID"
  shows "fresh G (Suc n) (or_add b cs)" "exec_docs G (or_add b cs) = (\<Union>c \<in> set cs. exec_docs G c)"
proof -
  show D: "exec_docs G (or_add b cs) = (\<Union>c \<in> set cs. exec_docs G c)"
    by (simp add: or_add_def)
  show "fresh G (Suc n) (or_add b cs)"
  proof (rule freshI)
    show "docset (exec_docs G (or_add b cs))"
      using assms(1) fresh_docset unfolding D by (fastforce simp: docset_def)
    show "get_doc_id (or_add b cs) = INVALID_DOCID"
      using assms(3) by (simp add: or_add_def get_doc_id_def)
    show "exec_detail G (exec_inv G n) (or_add b cs) 0"
      using assms(1,2) new_heap new_entries_at [OF assms(1)] by (simp add: or_add_def exec_detail_def fresh_def)
  qed
qed

section \<open>Weak AND\<close>

lemma weak_and_add_fresh:
  assumes "\<forall>c \<in> set cs. fresh G n c" "cs \<noteq> []" "q_current b = INVALID_DOCID" "1 \<le> m"
  shows "fresh G (Suc n) (weak_and_add b hs m cs)"
    "exec_docs G (weak_and_add b hs m cs) =
       {d. min m (length cs) \<le> length (filter (\<lambda>c. d \<in> exec_docs G c) cs)}"
proof -
  have cnt: "length (filter (\<lambda>S. d \<in> S) (map (exec_docs G) cs)) = length (filter (\<lambda>c. d \<in> exec_docs G c) cs)" for d
    by (simp add: filter_map comp_def)
  show D: "exec_docs G (weak_and_add b hs m cs) =
       {d. min m (length cs) \<le> length (filter (\<lambda>c. d \<in> exec_docs G c) cs)}"
    unfolding weak_and_add_def Let_def exec_docs.simps cnt ..
  have m: "1 \<le> min m (length cs)" "min m (length cs) \<le> length cs"
    using assms(2,4) by (auto simp: Suc_le_eq)
  show "fresh G (Suc n) (weak_and_add b hs m cs)"
  proof (rule freshI)
    show "docset (exec_docs G (weak_and_add b hs m cs))"
      unfolding docset_def D
    proof
      fix d
      assume "d \<in> {d. min m (length cs) \<le> length (filter (\<lambda>c. d \<in> exec_docs G c) cs)}"
      then have "filter (\<lambda>c. d \<in> exec_docs G c) cs \<noteq> []"
        using m(1) by auto
      then obtain c where "c \<in> set cs" "d \<in> exec_docs G c"
        by (auto simp: filter_empty_conv)
      then show "d \<in> {0..<END_DOCID}"
        using assms(1) fresh_docset by (fastforce simp: docset_def)
    qed
    show "get_doc_id (weak_and_add b hs m cs) = INVALID_DOCID"
      using assms(3) by (simp add: weak_and_add_def get_doc_id_def Let_def)
    show "exec_detail G (exec_inv G n) (weak_and_add b hs m cs) 0"
      using assms(1) new_entries_at [OF assms(1)] new_nth_heap [OF m]
      by (simp add: weak_and_add_def Let_def exec_detail_def fresh_def)
  qed
qed

section \<open>AND\<close>

text \<open>\<^verbatim>\<open>std::sort\<close>: the elements in an order that keeps their keys increasing.\<close>

definition sorts :: "((nat \<Rightarrow> int) \<Rightarrow> nat list \<Rightarrow> nat list) \<Rightarrow> bool" where
  "sorts srt \<longleftrightarrow> (\<forall>key xs. mset (srt key xs) = mset xs \<and> sorted (map key (srt key xs)))"

lemma sorts_set: "sorts srt \<Longrightarrow> set (srt key xs) = set xs"
  unfolding sorts_def by (metis set_mset_mset)

lemma sorts_length: "sorts srt \<Longrightarrow> length (srt key xs) = length xs"
  unfolding sorts_def by (metis size_mset)

lemma sorts_distinct: "sorts srt \<Longrightarrow> distinct xs \<Longrightarrow> distinct (srt key xs)"
  unfolding sorts_def by (metis mset_eq_imp_distinct_iff)

text \<open>
  The documents that a child stands for where its filter may be used in its place: those the filter accepts, if it has one.
  The recall of an index need not be precise, so that they may be others than the documents that seeking the child finds.
\<close>

definition kept_docs :: "('it, 'z) posting_spec_scheme \<Rightarrow> 'it executor \<Rightarrow> docid set" where
  "kept_docs G e = (case fst (steal_filter e) of None \<Rightarrow> exec_docs G e | Some f \<Rightarrow> {d. f d})"

lemma steal_filter_simps [simp]:
  "exec_docs G (snd (steal_filter e)) = exec_docs G e" "get_doc_id (snd (steal_filter e)) = get_doc_id e"
  "exec_inv G n (snd (steal_filter e)) = exec_inv G n e" "has_sub (snd (steal_filter e)) = has_sub e"
  by (cases e; cases n; simp add: steal_filter_def get_doc_id_def has_sub_def exec_detail_def)+

lemma fresh_steal: "fresh G n e \<Longrightarrow> fresh G n (snd (steal_filter e))"
  by (simp add: fresh_def)

text \<open>Every child of the sorted list ends up in the order or gives its filter.\<close>

lemma and_steal_docs:
  assumes "\<forall>i \<in> set is. i < length cs" "\<forall>c \<in> set cs. fresh G n c" "distinct is"
    "and_steal is cs order fs = (cs', order', fs')"
  shows "(\<forall>c \<in> set cs'. fresh G n c) \<and> map (exec_docs G) cs' = map (exec_docs G) cs \<and> set order' \<subseteq> set order \<union> set is \<and>
    set order \<subseteq> set order' \<and>
    ((\<forall>i \<in> set order'. d \<in> map (exec_docs G) cs ! i) \<and> (\<forall>f \<in> set fs'. f d) \<longleftrightarrow>
     (\<forall>i \<in> set order. d \<in> map (exec_docs G) cs ! i) \<and> (\<forall>i \<in> set is. d \<in> kept_docs G (cs ! i)) \<and> (\<forall>f \<in> set fs. f d))"
  using assms
proof (induction "is" cs order fs rule: and_steal.induct)
  case (1 cs order fs)
  then show ?case by auto
next
  case (2 i "is" cs order fs)
  obtain fo c where st: "steal_filter (cs ! i) = (fo, c)"
    by force
  have i: "i < length cs" "cs ! i \<in> set cs" "i \<notin> set is"
    using "2.prems"(1,3) by simp_all
  have c: "fresh G n c" "exec_docs G c = exec_docs G (cs ! i)"
    using fresh_steal [of G n "cs ! i"] steal_filter_simps(1) [of G "cs ! i"] st "2.prems"(2) i(2) by auto
  have ok: "\<forall>q \<in> set (cs[i := c]). fresh G n q"
    using "2.prems"(2) c(1) set_update_subset_insert [of cs i c] by auto
  have docs: "map (exec_docs G) (cs[i := c]) = map (exec_docs G) cs"
    using i(1) c(2) by (simp add: map_update list_update_same_conv)
  have kept: "(\<forall>j \<in> set is. d \<in> kept_docs G (cs[i := c] ! j)) \<longleftrightarrow> (\<forall>j \<in> set is. d \<in> kept_docs G (cs ! j))"
    using i(3) by (metis nth_list_update_neq)
  have rest: "\<forall>j \<in> set is. j < length (cs[i := c])" "distinct is"
    using "2.prems"(1,3) by simp_all
  show ?case
  proof (cases fo)
    case None
    have "and_steal is (cs[i := c]) (order @ [i]) fs = (cs', order', fs')"
      using "2.prems"(4) st None by simp
    moreover have "kept_docs G (cs ! i) = map (exec_docs G) cs ! i"
      using st None i(1) by (simp add: kept_docs_def)
    ultimately show ?thesis
      using "2.IH"(1) [OF st [symmetric] None rest(1) ok rest(2)] unfolding docs kept set_append by (simp add: ball_Un) blast
  next
    case (Some f)
    have "and_steal is (cs[i := c]) order (fs @ [f]) = (cs', order', fs')"
      using "2.prems"(4) st Some by simp
    moreover have "kept_docs G (cs ! i) = {d. f d}"
      using st Some by (simp add: kept_docs_def)
    ultimately show ?thesis
      using "2.IH"(2) [OF st [symmetric] Some rest(1) ok rest(2)] unfolding docs kept set_append by (simp add: ball_Un) blast
  qed
qed

lemma and_steal_length: "and_steal is cs order fs = (cs', order', fs') \<Longrightarrow> length cs' = length cs"
  by (induction "is" cs order fs rule: and_steal.induct) (auto split: prod.splits option.splits)

text \<open>The first of the sorted children has the least frequency.\<close>

lemma sorts_first:
  assumes "sorts srt" "0 < n"
  obtains h t where "srt key [0..<n] = h # t" "h < n" "\<forall>i < n. key h \<le> key i" "distinct t" "set t = {i. i < n \<and> i \<noteq> h}"
proof -
  have "srt key [0..<n] \<noteq> []"
    using sorts_length [OF assms(1), of key "[0..<n]"] assms(2) by (metis length_0_conv length_upt diff_zero less_not_refl)
  then obtain h t where o: "srt key [0..<n] = h # t"
    by (cases "srt key [0..<n]") auto
  have s: "insert h (set t) = {..<n}"
    using sorts_set [OF assms(1), of key "[0..<n]"] unfolding o by (simp add: atLeast0LessThan)
  have d: "distinct (h # t)"
    using sorts_distinct [OF assms(1), of "[0..<n]" key] unfolding o by simp
  have "sorted (map key (h # t))"
    using assms(1) unfolding sorts_def by (metis o)
  then have "\<forall>i < n. key h \<le> key i"
    using s by (metis insertE lessThan_iff list.simps(9) order.refl sorted_simps(2) imageI set_map)
  then show ?thesis
    using that [OF o] s d by auto
qed

lemma and_add_kept:
  assumes cs: "\<forall>c \<in> set cs. fresh G n c" "cs \<noteq> []" and srt: "sorts srt"
    and dfs: "those (map (get_df P GDT_CURRENT_CHAIN) cs) = Some dfs"
  obtains e h where "and_add srt P cs = Some e" "h < length cs" "\<forall>i < length cs. dfs ! h \<le> dfs ! i" "fresh G (Suc n) e"
    "exec_docs G e = {d \<in> exec_docs G (cs ! h). \<forall>i < length cs. i \<noteq> h \<longrightarrow> d \<in> kept_docs G (cs ! i)}"
proof -
  obtain h t where o: "srt (\<lambda>i. dfs ! i) [0..<length cs] = h # t" and h: "h < length cs" "\<forall>i < length cs. dfs ! h \<le> dfs ! i"
    and t: "distinct t" "set t = {i. i < length cs \<and> i \<noteq> h}"
    using sorts_first [OF srt, of "length cs" "\<lambda>i. dfs ! i"] cs(2) by auto
  obtain cs' order' fs where st: "and_steal t cs [h] [] = (cs', order', fs)"
    using prod_cases3 by blast
  define e where "e = And (qbase_init\<lparr>q_hasSub := list_ex has_sub cs\<rparr>) cs' order' fs 0"
  have add: "and_add srt P cs = Some e"
    using cs(2) dfs o st by (simp add: and_add_def Let_def e_def)
  have main: "(\<forall>c \<in> set cs'. fresh G n c) \<and> map (exec_docs G) cs' = map (exec_docs G) cs \<and> set order' \<subseteq> {..<length cs} \<and>
      h \<in> set order' \<and>
      ((\<forall>i \<in> set order'. d \<in> map (exec_docs G) cs ! i) \<and> (\<forall>f \<in> set fs. f d) \<longleftrightarrow>
       d \<in> exec_docs G (cs ! h) \<and> (\<forall>i < length cs. i \<noteq> h \<longrightarrow> d \<in> kept_docs G (cs ! i)))" for d
    using and_steal_docs [OF _ cs(1) t(1) st, of d] t(2) h(1) by auto
  have z: "\<forall>c \<in> set cs'. fresh G n c" "map (exec_docs G) cs' = map (exec_docs G) cs" "set order' \<subseteq> {..<length cs}" "order' \<noteq> []"
    using main by auto
  have D: "exec_docs G e = {d \<in> exec_docs G (cs ! h). \<forall>i < length cs. i \<noteq> h \<longrightarrow> d \<in> kept_docs G (cs ! i)}"
    unfolding e_def exec_docs.simps z(2) using main by blast
  have "fresh G (Suc n) e"
  proof (rule freshI)
    have "docset (exec_docs G (cs ! h))"
      using cs(1) h(1) fresh_docset [of G n "cs ! h"] by simp
    then show "docset (exec_docs G e)"
      unfolding D by (auto simp: docset_def)
    show "get_doc_id e = INVALID_DOCID"
      by (simp add: e_def get_doc_id_def)
    have "get_doc_id (cs' ! i) \<le> nxt (exec_docs G (cs' ! i)) 0" if "i < length cs'" for i
      using z(1) that fresh_le [of G n "cs' ! i"] by simp
    moreover have "\<forall>c \<in> set cs'. exec_inv G n c"
      using z(1) by (simp add: fresh_def)
    ultimately show "exec_detail G (exec_inv G n) e 0"
      using z(3,4) and_steal_length [OF st] by (auto simp: e_def exec_detail_def)
  qed
  then show ?thesis
    using that add h D by blast
qed

text \<open>Where no child has a filter, or filters accept the documents of their children, this is the intersection.\<close>

definition filter_fits :: "('it, 'z) posting_spec_scheme \<Rightarrow> 'it executor \<Rightarrow> bool" where
  "filter_fits G e \<longleftrightarrow> kept_docs G e \<inter> {0..<END_DOCID} = exec_docs G e \<inter> {0..<END_DOCID}"

lemma INT_nth: "(\<Inter>c \<in> set cs. A c) = {d. \<forall>i < length cs. d \<in> A (cs ! i)}"
  by (simp add: set_eq_iff all_set_conv_all_nth)

lemma and_add_fresh:
  assumes cs: "\<forall>c \<in> set cs. fresh G n c \<and> filter_fits G c" "cs \<noteq> []" and srt: "sorts srt"
    and add: "and_add srt P cs = Some e"
  shows "fresh G (Suc n) e" "exec_docs G e = (\<Inter>c \<in> set cs. exec_docs G c)"
proof -
  have f: "\<forall>c \<in> set cs. fresh G n c"
    using cs(1) by blast
  obtain dfs where dfs: "those (map (get_df P GDT_CURRENT_CHAIN) cs) = Some dfs"
    using add cs(2) by (auto simp: and_add_def Let_def split: bind_splits)
  obtain h where h: "h < length cs" "fresh G (Suc n) e"
    "exec_docs G e = {d \<in> exec_docs G (cs ! h). \<forall>i < length cs. i \<noteq> h \<longrightarrow> d \<in> kept_docs G (cs ! i)}"
    by (rule and_add_kept [OF f cs(2) srt dfs]) (simp add: add)
  then show "fresh G (Suc n) e"
    by simp
  have "d \<in> kept_docs G (cs ! i) \<longleftrightarrow> d \<in> exec_docs G (cs ! i)" if "i < length cs" "d \<in> exec_docs G (cs ! h)" for i d
  proof -
    have "d \<in> {0..<END_DOCID}"
      using cs(1) h(1) that(2) fresh_docset [of G n "cs ! h"] by (auto simp: docset_def)
    moreover have "filter_fits G (cs ! i)"
      using cs(1) that(1) by simp
    ultimately show ?thesis
      unfolding filter_fits_def by blast
  qed
  then show "exec_docs G e = (\<Inter>c \<in> set cs. exec_docs G c)"
    unfolding h(3) INT_nth [of _ cs] using h(1) by auto
qed

section \<open>AND NOT\<close>

lemma and_not_add_kept:
  assumes l: "fresh G n l" and r: "fresh G n r" "\<not> has_sub r"
    and df: "get_df P GDT_CURRENT_CHAIN l = Some dl" "get_df P GDT_CURRENT_CHAIN r = Some dr"
  obtains e where "and_not_add P l (Some r) = Some e" "fresh G (Suc n) e"
    "exec_docs G e = exec_docs G l - (if dl < dr then kept_docs G r else exec_docs G r)"
proof -
  define st where "st = (if dl < dr then steal_filter r else (None, r))"
  define e where "e = AndNot (qbase_init\<lparr>q_hasSub := has_sub l \<or> has_sub (snd st)\<rparr>) l (Some (snd st)) (fst st) 0 (has_sub (snd st))"
  have add: "and_not_add P l (Some r) = Some e"
    using df by (simp add: and_not_add_def st_def e_def Let_def case_prod_beta)
  have s: "exec_docs G (snd st) = exec_docs G r" "fresh G n (snd st)" "\<not> has_sub (snd st)"
    using r fresh_steal [OF r(1)] by (simp_all add: st_def)
  have D: "exec_docs G e = exec_docs G l - (if dl < dr then kept_docs G r else exec_docs G r)"
    using s by (auto simp: e_def st_def kept_docs_def split: option.splits)
  have "fresh G (Suc n) e"
  proof (rule freshI)
    show "docset (exec_docs G e)"
      using fresh_docset [OF l] unfolding D by (auto simp: docset_def)
    show "exec_detail G (exec_inv G n) e 0"
      using l s(2) fresh_le [OF l] fresh_le [OF s(2)] by (simp add: e_def exec_detail_def fresh_def)
  qed (simp add: e_def get_doc_id_def)
  then show ?thesis
    using that add D by blast
qed

section \<open>Bitmap AND\<close>

lemma fresh_bitmap_at: "fresh G n e \<Longrightarrow> is_bitmap_term e \<Longrightarrow> bitmap_at G 0 e"
  by (cases n; cases e)
    (auto simp: fresh_def is_bitmap_term_def bitmap_at_def exec_detail_def INVALID_DOCID_def END_DOCID_def)

lemma bitmap_and_fresh:
  assumes s: "fresh G n s" and bs: "\<forall>q \<in> set bs. fresh G n q \<and> is_bitmap_term q" "bs \<noteq> []"
    and e: "e = BitmapAnd b s bs" "q_current b = INVALID_DOCID"
  shows "fresh G (Suc n) e" "exec_docs G e = exec_docs G s \<inter> (\<Inter>q \<in> set bs. exec_docs G q)"
proof -
  show D: "exec_docs G e = exec_docs G s \<inter> (\<Inter>q \<in> set bs. exec_docs G q)"
    by (simp add: e)
  show "fresh G (Suc n) e"
  proof (rule freshI)
    show "docset (exec_docs G e)"
      using fresh_docset [OF s] unfolding D by (auto simp: docset_def)
    show "get_doc_id e = INVALID_DOCID"
      using e by (simp add: get_doc_id_def)
    have "\<forall>q \<in> set bs. bitmap_at G 0 q"
      using bs(1) fresh_bitmap_at by blast
    then show "exec_detail G (exec_inv G n) e 0"
      using s bs(2) fresh_le [OF s] by (simp add: e exec_detail_def fresh_def)
  qed
qed

lemma bitmap_and_add_fresh:
  assumes es: "\<forall>c \<in> set es. fresh G n c \<and> filter_fits G c" "2 \<le> length es" "\<exists>c \<in> set es. is_bitmap_term c" and srt: "sorts srt"
    and add: "bitmap_and_add srt P es = Some e"
  shows "fresh G (Suc (Suc n)) e" "exec_docs G e = (\<Inter>c \<in> set es. exec_docs G c)"
proof -
  let ?bits = "filter is_bitmap_term es" and ?seeks = "filter (\<lambda>e. \<not> is_bitmap_term e) es"
  obtain dfs where dfs: "those (map (get_df P GDT_CURRENT_CHAIN) ?bits) = Some dfs"
    using add by (auto simp: bitmap_and_add_def Let_def split: bind_splits)
  define bits where "bits = map (\<lambda>i. ?bits ! i) (srt (\<lambda>i. dfs ! i) [0..<length ?bits])"
  have bset: "set bits = set ?bits"
    unfolding bits_def set_map sorts_set [OF srt] by (metis map_nth set_map)
  have blen: "length bits = length ?bits"
    by (simp add: bits_def sorts_length [OF srt])
  obtain seeks bs sq where ch: "(seeks, bs) = (if ?seeks = [] then ([hd bits], tl bits) else (?seeks, bits))"
    and sq: "(if length seeks = 1 then Some (hd seeks) else and_add srt P seeks) = Some sq"
    and e: "e = BitmapAnd (qbase_init\<lparr>q_hasSub := has_sub sq \<or> list_ex has_sub bs\<rparr>) sq bs"
  proof -
    have "do { (seeks, bs) \<leftarrow> (if ?seeks = [] then (case bits of [] \<Rightarrow> None | e # rest \<Rightarrow> Some ([e], rest)) else Some (?seeks, bits));
        s \<leftarrow> (if length seeks = 1 then Some (hd seeks) else and_add srt P seeks);
        Some (BitmapAnd (qbase_init\<lparr>q_hasSub := has_sub s \<or> list_ex has_sub bs\<rparr>) s bs) } = Some e"
      using add by (simp only: bitmap_and_add_def Let_def dfs bits_def Option.bind.simps)
    then show ?thesis
      using that by (auto split: bind_splits if_splits list.splits)
  qed
  have b0: "bits \<noteq> []"
    using es(3) bset by fastforce
  have b1: "2 \<le> length bits" if "?seeks = []"
    using that blen es(2) by (simp add: filter_empty_conv)
  have "bs \<noteq> [] \<and> seeks \<noteq> [] \<and> set seeks \<union> set bs = set es \<and> set bs \<subseteq> set ?bits \<and> set seeks \<subseteq> set es"
  proof (cases "?seeks = []")
    case True
    obtain x xs where x: "bits = x # xs" "xs \<noteq> []"
      using b1 [OF True] by (cases bits; cases "tl bits") auto
    then have "seeks = [x]" "bs = xs" "set ?bits = set es"
      using ch True by (auto simp: filter_empty_conv)
    then show ?thesis
      using x bset by auto
  next
    case False
    then have "seeks = ?seeks" "bs = bits"
      using ch by auto
    then show ?thesis
      using False b0 bset by auto
  qed
  then have bs: "bs \<noteq> []" "seeks \<noteq> []" "set seeks \<union> set bs = set es" "set bs \<subseteq> set ?bits" "set seeks \<subseteq> set es"
    by simp_all
  have s: "fresh G (Suc n) sq" "exec_docs G sq = (\<Inter>c \<in> set seeks. exec_docs G c)"
  proof -
    have "\<forall>c \<in> set seeks. fresh G n c \<and> filter_fits G c"
      using bs(5) es(1) by blast
    moreover obtain q where "seeks = [q]" if "length seeks = 1"
      by (auto simp: length_Suc_conv)
    ultimately show "fresh G (Suc n) sq" "exec_docs G sq = (\<Inter>c \<in> set seeks. exec_docs G c)"
      using sq and_add_fresh [of seeks G n srt P sq] bs(2) srt fresh_mono [of G n sq "Suc n"] by (auto split: if_splits)
  qed
  have b: "\<forall>q \<in> set bs. fresh G (Suc n) q \<and> is_bitmap_term q"
    using bs(4) es(1) fresh_mono [of G n _ "Suc n"] by auto
  note fin = bitmap_and_fresh [OF s(1) b bs(1) e]
  then show "fresh G (Suc (Suc n)) e"
    by simp
  have "exec_docs G e = (\<Inter>c \<in> set seeks \<union> set bs. exec_docs G c)"
    using fin(2) s(2) by auto
  then show "exec_docs G e = (\<Inter>c \<in> set es. exec_docs G c)"
    using bs(3) by simp
qed

end
