(* ===== verification/Bitmap.thy ===== *)
theory Bitmap
  imports Prelude "HOL-Library.Monad_Syntax"
begin

text \<open>
  Model of \<^verbatim>\<open>indexlib/util/Bitmap.h\<close> and \<^verbatim>\<open>Bitmap.cpp\<close>: a bitmap over an array of 32-bit slots, bit
  0 of the bitmap being the most significant bit of slot 0.

  \<open>b_data\<close> is the slot array (\<open>None\<close> is the null pointer).  The array is held by value: a mounted
  array belongs to the bitmap as long as it is mounted, and the memory pool is left out.  Every access goes
  through \<open>load\<close> and \<open>store\<close>; an access outside the array or through the null pointer is undefined in
  C++ and makes the whole operation \<open>None\<close>, so that a result \<open>Some\<close> includes memory safety.  Assertions
  are compiled out in release builds: they are no branches of the model but hypotheses of the lemmas.
  Loop counters that are bounded by a 32-bit count run over lists of natural numbers.
\<close>

record bitmap =
  b_itemCount :: u32
  b_slotCount :: u32
  b_data :: "u32 list option"
  b_setCount :: u32
  b_mount :: bool
  b_initSet :: bool

definition SLOT_SIZE :: u32 where "SLOT_SIZE = 32"
definition SLOT_SIZE_BIT_MASK :: u32 where "SLOT_SIZE_BIT_MASK = 0x1F"
definition INVALID_INDEX :: u32 where "INVALID_INDEX = 0xFFFFFFFF"

definition BITMAPOPMASK :: "u32 list" where
  "BITMAPOPMASK = [
    0x80000000, 0x40000000, 0x20000000, 0x10000000, 0x08000000, 0x04000000, 0x02000000, 0x01000000,
    0x00800000, 0x00400000, 0x00200000, 0x00100000, 0x00080000, 0x00040000, 0x00020000, 0x00010000,
    0x00008000, 0x00004000, 0x00002000, 0x00001000, 0x00000800, 0x00000400, 0x00000200, 0x00000100,
    0x00000080, 0x00000040, 0x00000020, 0x00000010, 0x00000008, 0x00000004, 0x00000002, 0x00000001]"

definition BITMAP_NEXT_MASK :: "u32 list" where
  "BITMAP_NEXT_MASK = [
    0xffffffff, 0x7fffffff, 0x3fffffff, 0x1fffffff, 0x0fffffff, 0x07ffffff, 0x03ffffff, 0x01ffffff,
    0x00ffffff, 0x007fffff, 0x003fffff, 0x001fffff, 0x000fffff, 0x0007ffff, 0x0003ffff, 0x0001ffff,
    0x0000ffff, 0x00007fff, 0x00003fff, 0x00001fff, 0x00000fff, 0x000007ff, 0x000003ff, 0x000001ff,
    0x000000ff, 0x0000007f, 0x0000003f, 0x0000001f, 0x0000000f, 0x00000007, 0x00000003, 0x00000001]"

text \<open>\<^verbatim>\<open>nIndex >> SLOT_SIZE_BIT_NUM\<close> and \<^verbatim>\<open>nIndex & SLOT_SIZE_BIT_MASK\<close>.\<close>

definition quot :: "u32 \<Rightarrow> nat" where "quot n = unat (drop_bit 5 n)"
definition rem :: "u32 \<Rightarrow> nat" where "rem n = unat (n AND SLOT_SIZE_BIT_MASK)"

definition slots_for :: "u32 \<Rightarrow> u32" where
  "slots_for nItemCount = drop_bit 5 (nItemCount + SLOT_SIZE - 1)"

section \<open>Memory\<close>

definition load :: "'a bitmap_scheme \<Rightarrow> nat \<Rightarrow> u32 option" where
  "load b i = (case b_data b of None \<Rightarrow> None | Some ds \<Rightarrow> if i < length ds then Some (ds ! i) else None)"

definition store :: "'a bitmap_scheme \<Rightarrow> nat \<Rightarrow> u32 \<Rightarrow> 'a bitmap_scheme option" where
  "store b i v = (case b_data b of None \<Rightarrow> None
     | Some ds \<Rightarrow> if i < length ds then Some (b\<lparr>b_data := Some (ds[i := v])\<rparr>) else None)"

text \<open>A loop that replaces the slots at the given indices one after the other.\<close>

fun modify_slots ::
  "(nat \<Rightarrow> u32 \<Rightarrow> u32 option) \<Rightarrow> nat list \<Rightarrow> 'a bitmap_scheme \<Rightarrow> 'a bitmap_scheme option" where
  "modify_slots f [] b = Some b"
| "modify_slots f (i # is) b =
     do { d \<leftarrow> load b i; v \<leftarrow> f i d; b' \<leftarrow> store b i v; modify_slots f is b' }"

text \<open>The unaligned 64-bit read of the slots \<open>i\<close> and \<open>i + 1\<close>, little endian.\<close>

definition load64 :: "'a bitmap_scheme \<Rightarrow> nat \<Rightarrow> u64 option" where
  "load64 b i =
     do { lo \<leftarrow> load b i; hi \<leftarrow> load b (i + 1); Some (ucast lo OR push_bit 32 (ucast hi)) }"

text \<open>\<^verbatim>\<open>__builtin_clz\<close>, on arguments other than 0.\<close>

definition builtin_clz :: "u32 \<Rightarrow> u32" where
  "builtin_clz w = word_of_nat (length (takeWhile (\<lambda>i. \<not> bit w (31 - i)) [0..<32]))"

section \<open>Construction\<close>

definition bitmap_default :: "bool \<Rightarrow> bitmap" where
  "bitmap_default bSet =
     \<lparr>b_itemCount = (if bSet then INVALID_INDEX else 0), b_slotCount = (if bSet then INVALID_INDEX else 0),
      b_data = None, b_setCount = 0, b_mount = False, b_initSet = bSet\<rparr>"

definition bitmap_new :: "u32 \<Rightarrow> bool \<Rightarrow> bitmap" where
  "bitmap_new nItemCount bSet =
     \<lparr>b_itemCount = nItemCount, b_slotCount = slots_for nItemCount,
      b_data = Some (replicate (unat (slots_for nItemCount)) (if bSet then 0xFFFFFFFF else 0)),
      b_setCount = (if bSet then nItemCount else 0), b_mount = False, b_initSet = bSet\<rparr>"

text \<open>The copy constructor reads \<^verbatim>\<open>_slotCount\<close> slots of the source array.\<close>

definition bitmap_copy :: "bitmap \<Rightarrow> bitmap option" where
  "bitmap_copy rhs =
     (case b_data rhs of
        None \<Rightarrow> Some (rhs\<lparr>b_data := None, b_mount := False\<rparr>)
      | Some ds \<Rightarrow>
          if length ds < unat (b_slotCount rhs) then None
          else Some (rhs\<lparr>b_data := Some (take (unat (b_slotCount rhs)) ds), b_mount := False\<rparr>))"

definition bm_clear :: "'a bitmap_scheme \<Rightarrow> 'a bitmap_scheme" where
  "bm_clear b = b\<lparr>b_data := None, b_itemCount := 0, b_setCount := 0\<rparr>"

definition bm_alloc :: "'a bitmap_scheme \<Rightarrow> u32 \<Rightarrow> bool \<Rightarrow> 'a bitmap_scheme" where
  "bm_alloc b nItemCount bSet =
     (bm_clear b)\<lparr>b_slotCount := slots_for nItemCount,
        b_data := Some (replicate (unat (slots_for nItemCount)) (if bSet then 0xFFFFFFFF else 0)),
        b_itemCount := nItemCount, b_setCount := (if bSet then nItemCount else 0)\<rparr>"

section \<open>Single bits\<close>

definition bm_test :: "'a bitmap_scheme \<Rightarrow> u32 \<Rightarrow> bool option" where
  "bm_test b n = do { d \<leftarrow> load b (quot n); Some (d AND BITMAPOPMASK ! rem n \<noteq> 0) }"

definition bm_set :: "'a bitmap_scheme \<Rightarrow> u32 \<Rightarrow> (bool \<times> 'a bitmap_scheme) option" where
  "bm_set b n =
     do { d \<leftarrow> load b (quot n);
          if d AND BITMAPOPMASK ! rem n = 0 then
            do { b' \<leftarrow> store b (quot n) (d OR BITMAPOPMASK ! rem n);
                 Some (True, b'\<lparr>b_setCount := b_setCount b' + 1\<rparr>) }
          else Some (False, b) }"

definition bm_reset :: "'a bitmap_scheme \<Rightarrow> u32 \<Rightarrow> (bool \<times> 'a bitmap_scheme) option" where
  "bm_reset b n =
     (if n \<ge> b_itemCount b then Some (False, b)
      else
        do { d \<leftarrow> load b (quot n);
             if d AND BITMAPOPMASK ! rem n \<noteq> 0 then
               do { b' \<leftarrow> store b (quot n) (d AND NOT (BITMAPOPMASK ! rem n));
                    Some (True, b'\<lparr>b_setCount := b_setCount b' - 1\<rparr>) }
             else Some (False, b) })"

section \<open>Iteration\<close>

fun begin_scan :: "'a bitmap_scheme \<Rightarrow> nat list \<Rightarrow> u32 option" where
  "begin_scan b [] = Some INVALID_INDEX"
| "begin_scan b (i # is) =
     do { d \<leftarrow> load b i;
          if d \<noteq> 0 then Some (word_of_nat i * SLOT_SIZE + builtin_clz d) else begin_scan b is }"

definition bm_begin :: "'a bitmap_scheme \<Rightarrow> u32 option" where
  "bm_begin b = begin_scan b [0..<unat (b_slotCount b)]"

fun next_scan :: "'a bitmap_scheme \<Rightarrow> nat \<Rightarrow> nat \<Rightarrow> nat list \<Rightarrow> u32 option" where
  "next_scan b q r [] = Some INVALID_INDEX"
| "next_scan b q r (i # is) =
     do { d \<leftarrow> load b i;
          if i = q then
            (let restData = d AND BITMAP_NEXT_MASK ! r
             in if restData \<noteq> 0 then Some (word_of_nat i * SLOT_SIZE + builtin_clz restData)
                else next_scan b q r is)
          else if d = 0 then next_scan b q r is
          else Some (word_of_nat i * SLOT_SIZE + builtin_clz d) }"

definition bm_next :: "'a bitmap_scheme \<Rightarrow> u32 \<Rightarrow> u32 option" where
  "bm_next b n =
     (if n + 1 < b_itemCount b
      then next_scan b (quot (n + 1)) (rem (n + 1)) [quot (n + 1)..<unat (b_slotCount b)]
      else Some INVALID_INDEX)"

section \<open>Counting\<close>

text \<open>\<^verbatim>\<open>CountBits(uint64_t)\<close>: the parallel population count.\<close>

definition count_bits64 :: "u64 \<Rightarrow> u32" where
  "count_bits64 value0 =
     (let value1 = value0 - (drop_bit 1 value0 AND 0x5555555555555555);
          value2 = (value1 AND 0x3333333333333333) + (drop_bit 2 value1 AND 0x3333333333333333)
      in ucast (drop_bit 56 (((value2 + drop_bit 4 value2) AND 0xF0F0F0F0F0F0F0F) * 0x101010101010101)))"

text \<open>\<^verbatim>\<open>CountBits(uint32_t, uint32_t)\<close>: the first argument counts the rounds that are left.\<close>

fun count_bits_loop :: "nat \<Rightarrow> u32 \<Rightarrow> u32" where
  "count_bits_loop 0 value = 0"
| "count_bits_loop (Suc k) value =
     (if value = 0 then 0
      else (if value AND BITMAPOPMASK ! 0 \<noteq> 0 then 1 else 0) + count_bits_loop k (push_bit 1 value))"

definition count_bits :: "u32 \<Rightarrow> u32 \<Rightarrow> u32" where
  "count_bits value validCount = count_bits_loop (unat validCount) value"

fun count_batches :: "'a bitmap_scheme \<Rightarrow> nat list \<Rightarrow> u32 \<Rightarrow> u32 option" where
  "count_batches b [] c = Some c"
| "count_batches b (i # is) c =
     do { nData \<leftarrow> load64 b i;
          if nData = 0 then count_batches b is c
          else count_batches b is (c + count_bits64 nData) }"

definition refresh_pairs :: "'a bitmap_scheme \<Rightarrow> u32 \<Rightarrow> u32 \<Rightarrow> u32 option" where
  "refresh_pairs b lastSlot c =
     count_batches b (map (\<lambda>i. 2 * i) [0..<unat (lastSlot div 2 + 1)]) c"

definition refresh_even :: "'a bitmap_scheme \<Rightarrow> u32 \<Rightarrow> u32 \<Rightarrow> u32 option" where
  "refresh_even b lastSlot c =
     (if lastSlot AND 1 = 0 then
        do { d \<leftarrow> load b (unat lastSlot);
             if lastSlot = 0 then Some (c + count_bits d 32)
             else refresh_pairs b (lastSlot - 1) (c + count_bits d 32) }
      else refresh_pairs b lastSlot c)"

definition scan_set_count :: "'a bitmap_scheme \<Rightarrow> u32 option" where
  "scan_set_count b =
     (case b_data b of
        None \<Rightarrow> Some 0
      | Some _ \<Rightarrow>
          (let lastSlot = b_slotCount b - 1; testBitInLastSlot = b_itemCount b AND SLOT_SIZE_BIT_MASK
           in if testBitInLastSlot \<noteq> 0 then
                do { d \<leftarrow> load b (unat lastSlot);
                     if lastSlot = 0 then Some (count_bits d testBitInLastSlot)
                     else refresh_even b (lastSlot - 1) (count_bits d testBitInLastSlot) }
              else refresh_even b lastSlot 0))"

definition refresh_set_count :: "'a bitmap_scheme \<Rightarrow> 'a bitmap_scheme option" where
  "refresh_set_count b = map_option (\<lambda>c. b\<lparr>b_setCount := c\<rparr>) (scan_set_count b)"

definition get_unset_count :: "'a bitmap_scheme \<Rightarrow> u32" where
  "get_unset_count b = b_itemCount b - b_setCount b"

definition bm_size :: "'a bitmap_scheme \<Rightarrow> u32" where
  "bm_size b = b_slotCount b * 4"

text \<open>
  The loop \<^verbatim>\<open>while (nData != 0)\<close> of \<^verbatim>\<open>GetSetCount(begin, end)\<close>: every shift moves the lowest set bit
  up, until none is left.
\<close>

definition shift_measure :: "u32 \<Rightarrow> nat" where
  "shift_measure v = (if v = 0 then 0 else 32 - (LEAST i. bit v i))"

lemma shift_measure_decreases: "v \<noteq> 0 \<Longrightarrow> shift_measure (push_bit 1 v) < shift_measure v"
proof -
  assume "v \<noteq> 0"
  then obtain i where "bit v i" using bit_eq_iff [of v 0] by auto
  let ?m = "LEAST i. bit v i"
  have m: "bit v ?m" using \<open>bit v i\<close> by (rule LeastI)
  then have lt: "?m < 32" using bit_imp_le_length by fastforce
  show ?thesis
  proof (cases "push_bit 1 v = 0")
    case True
    then show ?thesis using \<open>v \<noteq> 0\<close> lt by (simp add: shift_measure_def)
  next
    case False
    then obtain j where j: "bit (push_bit 1 v) j"  using bit_eq_iff [of "push_bit 1 v" 0] by auto
    let ?k = "LEAST i. bit (push_bit 1 v) i"
    have "bit (push_bit 1 v) ?k" using j by (rule LeastI)
    moreover have "0 < k \<and> bit v (k - 1)" if "bit (push_bit 1 v) k" for k
      using that unfolding bit_push_bit_iff by auto
    ultimately have "0 < ?k" "bit v (?k - 1)" by blast+
    then have "?m \<le> ?k - 1" by (intro Least_le)
    then show ?thesis using False \<open>v \<noteq> 0\<close> \<open>0 < ?k\<close> lt by (simp add: shift_measure_def)
  qed
qed
function shift_count :: "u32 \<Rightarrow> u32" where
  "shift_count nData =
     (if nData \<noteq> 0
      then (if nData AND BITMAPOPMASK ! 0 \<noteq> 0 then 1 else 0) + shift_count (push_bit 1 nData) else 0)"
  by pat_completeness auto
termination
proof (relation "measure shift_measure", goal_cases)
  case 1
  show ?case by simp
next
  case (2 nData)
  then show ?case using shift_measure_decreases [of nData] by simp
qed

declare shift_count.simps [simp del]

definition begin_slot_count :: "'a bitmap_scheme \<Rightarrow> u32 \<Rightarrow> u32 \<Rightarrow> u32 \<Rightarrow> (u32 \<times> u32) option" where
  "begin_slot_count b begn testEndSlot testBitInEndSlot =
     (let testBeginSlot = begn div SLOT_SIZE; testBitInBeginSlot = SLOT_SIZE - (begn AND SLOT_SIZE_BIT_MASK)
      in if testBitInBeginSlot \<noteq> SLOT_SIZE then
           do { nData \<leftarrow> load b (unat testBeginSlot);
                nData' \<leftarrow> (if testBeginSlot = testEndSlot then
                   (if testBitInEndSlot = 0 then None
                    else Some (nData AND push_bit (unat (SLOT_SIZE - testBitInEndSlot)) 0xFFFFFFFF))
                  else Some nData);
                Some (testBeginSlot + 1, shift_count (push_bit (rem begn) nData')) }
         else Some (testBeginSlot, 0))"

definition end_slot_count :: "'a bitmap_scheme \<Rightarrow> u32 \<Rightarrow> u32 \<Rightarrow> u32 \<Rightarrow> u32 option" where
  "end_slot_count b testBeginSlot testEndSlot testBitInEndSlot =
     (if testBeginSlot \<le> testEndSlot \<and> testBitInEndSlot \<noteq> 0 then
        do { nData \<leftarrow> load b (unat testEndSlot); Some (count_bits nData testBitInEndSlot) }
      else Some 0)"

definition odd_slot_count :: "'a bitmap_scheme \<Rightarrow> u32 \<Rightarrow> u32 \<Rightarrow> (u32 \<times> u32) option" where
  "odd_slot_count b testBeginSlot testEndSlot =
     (if testBeginSlot < testEndSlot \<and> (testEndSlot - testBeginSlot) AND 1 \<noteq> 0 then
        do { nData \<leftarrow> load b (unat testBeginSlot);
             Some (testBeginSlot + 1, if nData \<noteq> 0 then count_bits nData 32 else 0) }
      else Some (testBeginSlot, 0))"

text \<open>The indices \<^verbatim>\<open>i = from; i < to; i += 2\<close>.\<close>

definition pair_indices :: "nat \<Rightarrow> nat \<Rightarrow> nat list" where
  "pair_indices f t = map (\<lambda>k. f + 2 * k) [0..<(t - f + 1) div 2]"

definition get_set_count :: "'a bitmap_scheme \<Rightarrow> u32 \<Rightarrow> u32 \<Rightarrow> u32 option" where
  "get_set_count b begn end0 =
     (let endi = (if end0 \<ge> b_itemCount b then b_itemCount b - 1 else end0)
      in if b_data b = None \<or> endi < begn then Some 0
         else
           (let testEndSlot = (endi + 1) div SLOT_SIZE; testBitInEndSlot = (endi + 1) AND SLOT_SIZE_BIT_MASK
            in do { (s1, c1) \<leftarrow> begin_slot_count b begn testEndSlot testBitInEndSlot;
                    c2 \<leftarrow> end_slot_count b s1 testEndSlot testBitInEndSlot;
                    (s2, c3) \<leftarrow> odd_slot_count b s1 testEndSlot;
                    count_batches b (pair_indices (unat s2) (unat testEndSlot)) (c1 + c2 + c3) }))"

section \<open>Ranges\<close>

definition test_start :: "u32 \<Rightarrow> int" where
  "test_start beginIndex = (if rem beginIndex = 0 then int (quot beginIndex) else int (quot beginIndex) + 1)"

definition test_end :: "u32 \<Rightarrow> int" where
  "test_end endIndex = (if rem endIndex = 31 then int (quot endIndex) else int (quot endIndex) - 1)"

text \<open>The mask of the bits from \<open>r\<close> on, and of the bits from \<open>r\<close> to \<open>r'\<close>.\<close>

definition from_mask :: "nat \<Rightarrow> u32" where
  "from_mask r = (BITMAPOPMASK ! r - 1) OR BITMAPOPMASK ! r"

definition between_mask :: "nat \<Rightarrow> nat \<Rightarrow> u32" where
  "between_mask r r' = from_mask r - (BITMAPOPMASK ! r' - 1)"

fun any_slot :: "'a bitmap_scheme \<Rightarrow> int list \<Rightarrow> bool option" where
  "any_slot b [] = Some False"
| "any_slot b (i # is) = do { d \<leftarrow> load b (nat i); if d \<noteq> 0 then Some True else any_slot b is }"

definition has_set_data :: "'a bitmap_scheme \<Rightarrow> u32 \<Rightarrow> u32 \<Rightarrow> bool option" where
  "has_set_data b beginIndex endIndex =
     do { found \<leftarrow> any_slot b [test_start beginIndex..test_end endIndex];
          if found then Some True
          else if quot beginIndex \<noteq> quot endIndex then
            do { inBegin \<leftarrow> (if rem beginIndex \<noteq> 0 then
                   do { d \<leftarrow> load b (quot beginIndex); Some (d AND from_mask (rem beginIndex) \<noteq> 0) }
                 else Some False);
                 if inBegin then Some True
                 else if rem endIndex \<noteq> 31 then
                   do { d \<leftarrow> load b (quot endIndex);
                        Some (d AND NOT (BITMAPOPMASK ! rem endIndex - 1) \<noteq> 0) }
                 else Some False }
          else if rem beginIndex \<noteq> 0 \<or> rem endIndex \<noteq> 31 then
            do { d \<leftarrow> load b (quot beginIndex);
                 Some (d AND between_mask (rem beginIndex) (rem endIndex) \<noteq> 0) }
          else Some False }"

definition reset_between :: "'a bitmap_scheme \<Rightarrow> u32 \<Rightarrow> u32 \<Rightarrow> 'a bitmap_scheme option" where
  "reset_between b beginIndex endIndex =
     do { b1 \<leftarrow> modify_slots (\<lambda>_ _. Some 0) (map nat [test_start beginIndex..test_end endIndex]) b;
          if quot beginIndex \<noteq> quot endIndex then
            do { b2 \<leftarrow> (if rem beginIndex \<noteq> 0 then
                   modify_slots (\<lambda>_ d. Some (d AND NOT (from_mask (rem beginIndex)))) [quot beginIndex] b1
                 else Some b1);
                 if rem endIndex \<noteq> 31 then
                   modify_slots (\<lambda>_ d. Some (d AND (BITMAPOPMASK ! rem endIndex - 1))) [quot endIndex] b2
                 else Some b2 }
          else if rem beginIndex \<noteq> 0 \<or> rem endIndex \<noteq> 31 then
            modify_slots (\<lambda>_ d. Some (d AND NOT (between_mask (rem beginIndex) (rem endIndex))))
              [quot beginIndex] b1
          else Some b1 }"

definition reset_all :: "'a bitmap_scheme \<Rightarrow> 'a bitmap_scheme option" where
  "reset_all b =
     map_option (\<lambda>b'. b'\<lparr>b_setCount := 0\<rparr>)
       (modify_slots (\<lambda>_ _. Some 0) [0..<unat (b_slotCount b)] b)"

definition reset_all_after :: "'a bitmap_scheme \<Rightarrow> u32 \<Rightarrow> 'a bitmap_scheme option" where
  "reset_all_after b n =
     do { b1 \<leftarrow> modify_slots (\<lambda>_ d. Some (foldl (\<lambda>v i. v AND NOT (BITMAPOPMASK ! i)) d [rem n..<32])) [quot n] b;
          b2 \<leftarrow> (if drop_bit 5 n < b_slotCount b - 1 then
                   (let siz = unat (b_slotCount b - drop_bit 5 n - 1)
                    in modify_slots (\<lambda>_ _. Some 0) [quot n + 1..<quot n + 1 + siz] b1)
                 else Some b1);
          refresh_set_count b2 }"

section \<open>Mounting\<close>

definition mount_without_refresh ::
  "'a bitmap_scheme \<Rightarrow> u32 \<Rightarrow> u32 list option \<Rightarrow> bool \<Rightarrow> 'a bitmap_scheme" where
  "mount_without_refresh b nItemCount pData doNotDelete =
     b\<lparr>b_data := pData, b_mount := doNotDelete, b_itemCount := nItemCount,
       b_slotCount := slots_for nItemCount\<rparr>"

definition bm_mount ::
  "'a bitmap_scheme \<Rightarrow> u32 \<Rightarrow> u32 list option \<Rightarrow> bool \<Rightarrow> 'a bitmap_scheme option" where
  "bm_mount b nItemCount pData doNotDelete =
     refresh_set_count (mount_without_refresh b nItemCount pData doNotDelete)"

section \<open>Operators\<close>

definition bm_and :: "'a bitmap_scheme \<Rightarrow> 'b bitmap_scheme \<Rightarrow> 'a bitmap_scheme option" where
  "bm_and b c =
     do { b' \<leftarrow> modify_slots (\<lambda>i d. map_option (\<lambda>e. d AND e) (load c i)) [0..<unat (b_slotCount b)] b;
          refresh_set_count b' }"

text \<open>\<^verbatim>\<open>operator|\<close> runs over batches of 32 slots, written out one by one, and then over the rest.\<close>

definition batch_indices :: "nat \<Rightarrow> nat list" where
  "batch_indices n =
     concat (map (\<lambda>k. map (\<lambda>j. 32 * k + j) [0..<32]) [0..<n div 32]) @
     map (\<lambda>j. 32 * (n div 32) + j) [0..<n mod 32]"

definition bm_or :: "'a bitmap_scheme \<Rightarrow> 'b bitmap_scheme \<Rightarrow> 'a bitmap_scheme option" where
  "bm_or b c =
     do { b' \<leftarrow> modify_slots (\<lambda>i d. map_option (\<lambda>e. d OR e) (load c i))
                 (batch_indices (unat (b_slotCount b))) b;
          refresh_set_count b' }"

definition bm_minus :: "'a bitmap_scheme \<Rightarrow> 'b bitmap_scheme \<Rightarrow> 'a bitmap_scheme option" where
  "bm_minus b c =
     do { b' \<leftarrow> modify_slots (\<lambda>i d. map_option (\<lambda>e. d AND NOT e) (load c i)) [0..<unat (b_slotCount b)] b;
          refresh_set_count b' }"

definition flip_slot :: "nat \<Rightarrow> u32 \<Rightarrow> u32" where
  "flip_slot nCount nData =
     foldl (\<lambda>v i. if nData AND BITMAPOPMASK ! i \<noteq> 0 then v AND NOT (BITMAPOPMASK ! i)
                  else v OR BITMAPOPMASK ! i) nData [0..<nCount]"

definition bm_complement :: "'a bitmap_scheme \<Rightarrow> 'a bitmap_scheme option" where
  "bm_complement b =
     (let b0 = b\<lparr>b_setCount := get_unset_count b\<rparr>; nLastSlot = b_slotCount b - 1;
          nCount = b_itemCount b - nLastSlot * SLOT_SIZE
      in do { b1 \<leftarrow> modify_slots (\<lambda>_ d. Some (NOT d)) [0..<unat nLastSlot] b0;
              if nCount > 32 then None
              else modify_slots (\<lambda>_ d. Some (flip_slot (unat nCount) d)) [unat nLastSlot] b1 })"

definition bm_eq :: "bitmap \<Rightarrow> bitmap \<Rightarrow> bool option" where
  "bm_eq b c =
     (if b_itemCount b \<noteq> b_itemCount c then Some False
      else if b_slotCount b \<noteq> b_slotCount c then Some False
      else if b_setCount b \<noteq> b_setCount c then Some False
      else
        (let n = unat (b_slotCount b)
         in case (b_data b, b_data c) of
              (None, None) \<Rightarrow> Some True
            | (Some ds, Some es) \<Rightarrow>
                if n \<le> length ds \<and> n \<le> length es then Some (take n ds = take n es) else None
            | _ \<Rightarrow> if n = 0 then Some True else None))"

section \<open>Copying a range\<close>

definition or_slot :: "nat \<Rightarrow> u32 \<Rightarrow> 'a bitmap_scheme \<Rightarrow> 'a bitmap_scheme option" where
  "or_slot i v b = modify_slots (\<lambda>_ d. Some (d OR v)) [i] b"

definition src_at :: "u32 list \<Rightarrow> nat \<Rightarrow> u32 option" where
  "src_at xs i = (if i < length xs then Some (xs ! i) else None)"

definition src_at64 :: "u32 list \<Rightarrow> nat \<Rightarrow> u64 option" where
  "src_at64 xs i =
     do { lo \<leftarrow> src_at xs i; hi \<leftarrow> src_at xs (i + 1); Some (ucast lo OR push_bit 32 (ucast hi)) }"

definition add_set_count :: "u32 \<Rightarrow> 'a bitmap_scheme \<Rightarrow> 'a bitmap_scheme" where
  "add_set_count c b = b\<lparr>b_setCount := b_setCount b + c\<rparr>"

text \<open>
  The loop of \<^verbatim>\<open>Copy\<close> over the full source slots \<open>is\<close>; \<open>full\<close> is \<^verbatim>\<open>numSlotsInSrc - 1\<close> and \<open>dst + i\<close>
  the destination slot in round \<open>i\<close>.
\<close>

fun copy_loop ::
  "u32 list \<Rightarrow> nat \<Rightarrow> nat \<Rightarrow> nat \<Rightarrow> nat list \<Rightarrow> 'a bitmap_scheme \<Rightarrow> 'a bitmap_scheme option" where
  "copy_loop data dst offset full [] b = Some b"
| "copy_loop data dst offset full (i # is) b =
     do { value \<leftarrow> src_at data i;
          b1 \<leftarrow> or_slot (dst + i) (drop_bit offset value) b;
          b2 \<leftarrow> (if offset \<noteq> 0 then or_slot (dst + i + 1) (push_bit (32 - offset) value) b1 else Some b1);
          b3 \<leftarrow> (if even i \<and> i + 1 < full then
                   do { countValue \<leftarrow> src_at64 data i; Some (add_set_count (count_bits64 countValue) b2) }
                 else Some b2);
          copy_loop data dst offset full is b3 }"

definition copy_last ::
  "u32 list \<Rightarrow> nat \<Rightarrow> nat \<Rightarrow> nat \<Rightarrow> u32 \<Rightarrow> 'a bitmap_scheme \<Rightarrow> 'a bitmap_scheme option" where
  "copy_last data dst offset full remainBitsInSrcSlot b =
     do { value \<leftarrow> src_at data full;
          (let b1 = add_set_count (count_bits value remainBitsInSrcSlot) b;
               rs = unat remainBitsInSrcSlot; rd = 32 - offset
           in if rs = 0 then Some b1
              else if rs \<le> rd then or_slot (dst + full) (push_bit (rd - rs) (drop_bit (32 - rs) value)) b1
              else do { b2 \<leftarrow> or_slot (dst + full) (drop_bit offset value) b1;
                        or_slot (dst + full + 1) (push_bit (32 - rs + rd) (drop_bit (32 - rs) value)) b2 }) }"

definition bm_copy_slots ::
  "'a bitmap_scheme \<Rightarrow> nat \<Rightarrow> nat \<Rightarrow> u32 list \<Rightarrow> u32 \<Rightarrow> 'a bitmap_scheme option" where
  "bm_copy_slots b dst offset data itemCount =
     (let numSlotsInSrc = drop_bit 5 (itemCount + 31); full = unat (numSlotsInSrc - 1)
      in do { b1 \<leftarrow> copy_loop data dst offset full [0..<full] b;
              b2 \<leftarrow> (if numSlotsInSrc AND 1 = 0 \<and> numSlotsInSrc \<ge> 2 then
                       do { value \<leftarrow> src_at data (unat (numSlotsInSrc - 2));
                            Some (add_set_count (count_bits value 32) b1) }
                     else Some b1);
              copy_last data dst offset full (itemCount - 32 * (numSlotsInSrc - 1)) b2 })"

definition bm_copy :: "'a bitmap_scheme \<Rightarrow> u32 \<Rightarrow> u32 list option \<Rightarrow> u32 \<Rightarrow> 'a bitmap_scheme option" where
  "bm_copy b startIndex data itemCount =
     (case data of
        None \<Rightarrow> Some b
      | Some xs \<Rightarrow> if itemCount = 0 then Some b
                  else bm_copy_slots b (quot startIndex) (rem startIndex) xs itemCount)"

end
