(* ===== verification/Popcount.thy ===== *)
theory Popcount
  imports Bitmap
begin

text \<open>
  The three ways \<^verbatim>\<open>Bitmap\<close> counts bits, related to one specification: \<open>pop w\<close>, the number of set bits of
  a word.  The parallel count \<^verbatim>\<open>CountBits(uint64_t)\<close> is proved byte by byte: each step acts on the bytes
  of the word without a carry between them (\<open>val_shift_and\<close>, \<open>val_fold\<close>), the effect on one byte is
  checked for all 256 values, and the final multiplication adds the eight bytes.
\<close>

definition pop :: "'a::len word \<Rightarrow> nat" where
  "pop w = card {i. bit w i}"

fun npop :: "nat \<Rightarrow> nat" where
  "npop n = (if n = 0 then 0 else n mod 2 + npop (n div 2))"

declare npop.simps [simp del]

lemma npop_0 [simp]: "npop 0 = 0"
  by (simp add: npop.simps)

lemma npop_rec: "npop n = n mod 2 + npop (n div 2)"
  by (cases "n = 0") (simp_all add: npop.simps [of n])

lemma npop_numeral [simp]:
  "npop (Suc 0) = 1" "npop (numeral (num.Bit0 n)) = npop (numeral n)"
  "npop (numeral (num.Bit1 n)) = Suc (npop (numeral n))"
  using npop_rec [of "Suc 0"] npop_rec [of "numeral (num.Bit0 n)"] npop_rec [of "numeral (num.Bit1 n)"]
  by simp_all

lemma npop_add: "x < 2 ^ k \<Longrightarrow> npop (x + 2 ^ k * w) = npop x + npop w"
proof (induction k arbitrary: x)
  case (Suc k)
  have "(x + 2 ^ Suc k * w) div 2 = x div 2 + 2 ^ k * w"
    by simp
  moreover have "(x + 2 ^ Suc k * w) mod 2 = x mod 2"
    by (simp add: mod_add_eq mult.assoc)
  ultimately have "npop (x + 2 ^ Suc k * w) = x mod 2 + npop (x div 2 + 2 ^ k * w)"
    using npop_rec [of "x + 2 ^ Suc k * w"] by simp
  moreover have "npop (x div 2 + 2 ^ k * w) = npop (x div 2) + npop w"
    using Suc.prems by (intro Suc.IH) simp
  ultimately show ?case
    using npop_rec [of x] by simp
qed simp

lemma npop_eq_card: "n < 2 ^ k \<Longrightarrow> npop n = card {i. i < k \<and> bit n i}"
proof (induction k arbitrary: n)
  case (Suc k)
  have "{i. i < Suc k \<and> bit n i} = (if odd n then {0} else {}) \<union> Suc ` {i. i < k \<and> bit (n div 2) i}"
    by (auto simp: bit_0 bit_Suc image_iff less_Suc_eq_0_disj)
  moreover have "card \<dots> = (if odd n then 1 else 0) + card {i. i < k \<and> bit (n div 2) i}"
    by (subst card_Un_disjoint) (auto simp: card_image)
  moreover have "npop (n div 2) = card {i. i < k \<and> bit (n div 2) i}"
    using Suc.prems by (intro Suc.IH) simp
  ultimately show ?case
    using npop_rec [of n] by (simp add: mod2_eq_if)
qed simp

lemma npop_unat: "npop (unat w) = pop w" for w :: "'a::len word"
proof -
  have "{i. i < LENGTH('a) \<and> bit (unat w) i} = {i. bit w i}"
    using bit_imp_le_length by (auto simp: bit_unsigned_iff)
  then show ?thesis
    using npop_eq_card [of "unat w" "LENGTH('a)"] by (simp add: pop_def)
qed

section \<open>Bytes\<close>

fun val :: "nat list \<Rightarrow> nat" where
  "val [] = 0"
| "val (x # xs) = x + 256 * val xs"

lemma bit_byte_add:
  assumes "x < (256::nat)"
  shows "bit (x + 256 * w) i \<longleftrightarrow> (if i < 8 then bit x i else bit w (i - 8))"
proof (cases "i < 8")
  case True
  then have "(256::nat) = 2 ^ i * 2 ^ (8 - i)"
    by (simp flip: power_add)
  then have "x + 256 * w = x + 2 ^ i * (2 ^ (8 - i) * w)"
    by (simp add: mult.assoc)
  then have "(x + 256 * w) div 2 ^ i = x div 2 ^ i + 2 ^ (8 - i) * w"
    by (simp only: div_mult_self2 power_not_zero) simp
  moreover have "even ((2::nat) ^ (8 - i) * w)"
    using True by simp
  ultimately show ?thesis
    using True by (simp add: bit_iff_odd)
next
  case False
  then have "(2::nat) ^ i = 256 * 2 ^ (i - 8)"
    using power_add [of "2::nat" 8 "i - 8"] by simp
  then show ?thesis
    using False assms by (simp add: bit_iff_odd div_mult2_eq)
qed

lemma and_byte_add:
  "x < 256 \<Longrightarrow> m < 256 \<Longrightarrow> (x + 256 * w) AND (m + 256 * M) = (x AND m) + 256 * (w AND M)"
  for x m w M :: nat
proof -
  assume a: "x < 256" "m < 256"
  then have "take_bit 8 (x AND m) = x AND m"
    by (simp add: take_bit_and take_bit_nat_eq_self)
  then have "x AND m < 256"
    using take_bit_nat_less_exp [of 8 "x AND m"] by simp
  with a show ?thesis
    by (intro bit_eqI) (simp add: bit_and_iff bit_byte_add)
qed


lemma val_shift_and:
  assumes "m < 2 ^ (8 - k)" "k \<le> 8" "\<forall>x \<in> set xs. x < 256"
  shows "val xs div 2 ^ k AND val (replicate (length xs) m) = val (map (\<lambda>x. x div 2 ^ k AND m) xs)"
  using assms(3)
proof (induction xs)
  case (Cons x xs)
  let ?w = "val xs" and ?lo = "x div 2 ^ k + 2 ^ (8 - k) * (val xs mod 2 ^ k)"
  have p: "(256::nat) = 2 ^ k * 2 ^ (8 - k)"
    using assms(2) by (simp flip: power_add)
  have xlt: "x div 2 ^ k < 2 ^ (8 - k)"
    using Cons.prems p by (simp add: less_mult_imp_div_less mult.commute)
  have "(x + 256 * ?w) div 2 ^ k = x div 2 ^ k + 2 ^ (8 - k) * ?w"
    unfolding p mult.assoc by simp
  also have "2 ^ (8 - k) * ?w = 2 ^ (8 - k) * (?w mod 2 ^ k) + 256 * (?w div 2 ^ k)"
  proof -
    have "2 ^ (8 - k) * ?w = 2 ^ (8 - k) * (?w mod 2 ^ k + 2 ^ k * (?w div 2 ^ k))"
      by simp
    also have "\<dots> = 2 ^ (8 - k) * (?w mod 2 ^ k) + (2 ^ k * 2 ^ (8 - k)) * (?w div 2 ^ k)"
      by (simp only: distrib_left ac_simps)
    finally show ?thesis
      unfolding p .
  qed
  finally have split: "(x + 256 * ?w) div 2 ^ k = ?lo + 256 * (?w div 2 ^ k)"
    by simp
  have "?w mod 2 ^ k \<le> 2 ^ k - 1"
    using mod_less_divisor [of "2 ^ k" ?w] by (simp add: Suc_le_eq less_eq_Suc_le [symmetric] le_diff_conv2)
  then have "?lo < 2 ^ (8 - k) + 2 ^ (8 - k) * (2 ^ k - 1)"
    using xlt by (intro add_less_le_mono) simp_all
  also have "\<dots> = 256"
  proof -
    have "(a::nat) + a * (c - 1) = c * a" if "0 < c" for a c
      using that by (cases c) simp_all
    then show ?thesis
      unfolding p by simp
  qed
  finally have lo: "?lo < 256" .
  have "?lo AND m = take_bit (8 - k) ?lo AND m"
  proof (rule bit_eqI)
    fix i
    have "bit m i \<Longrightarrow> i < 8 - k"
      using assms(1) bit_take_bit_iff [of "8 - k" m i] by (simp add: take_bit_nat_eq_self)
    then show "bit (?lo AND m) i = bit (take_bit (8 - k) ?lo AND m) i"
      by (auto simp only: bit_and_iff bit_take_bit_iff)
  qed
  also have "take_bit (8 - k) ?lo = x div 2 ^ k"
    using xlt by (simp add: take_bit_eq_mod)
  finally have low: "?lo AND m = x div 2 ^ k AND m" .
  have "m < 256"
    using assms(1) by (rule less_le_trans) (simp add: p)
  then show ?case
    using Cons lo low split by (simp add: and_byte_add)
qed simp

lemma val_diff:
  "\<forall>x \<in> set xs. f x \<le> x \<Longrightarrow> val xs - val (map f xs) = val (map (\<lambda>x. x - f x) xs)"
proof -
  have "\<forall>x \<in> set xs. f x \<le> x \<Longrightarrow>
    val (map f xs) \<le> val xs \<and> val xs - val (map f xs) = val (map (\<lambda>x. x - f x) xs)"
    by (induction xs) auto
  then show "\<forall>x \<in> set xs. f x \<le> x \<Longrightarrow> ?thesis" by blast
qed

lemma val_add: "val (map f xs) + val (map g xs) = val (map (\<lambda>x. f x + g x) xs)"
  by (induction xs) auto

lemma val_fold:
  assumes "\<forall>x \<in> set xs. x div 16 \<le> 4 \<and> x mod 16 \<le> 4"
  shows "(val xs + val xs div 16) AND val (replicate (length xs) 15) = val (map (\<lambda>x. x div 16 + x mod 16) xs)"
  using assms
proof (induction xs)
  case (Cons x xs)
  let ?w = "val xs"
  have w0: "?w mod 16 \<le> 4"
    using Cons.prems by (cases xs) (auto simp: mod_add_eq [symmetric])
  have lo: "x + x div 16 + 16 * (?w mod 16) < 256"
  proof -
    have "x = 16 * (x div 16) + x mod 16"
      by simp
    moreover have "x div 16 \<le> 4" "x mod 16 \<le> 4"
      using Cons.prems by simp_all
    ultimately show ?thesis
      using w0 by linarith
  qed
  have "(x + 256 * ?w) div 16 = x div 16 + 16 * ?w"
    by simp
  also have "16 * ?w = 16 * (?w mod 16) + 256 * (?w div 16)"
    using mult_div_mod_eq [of 16 ?w] by linarith
  finally have sum: "x + 256 * ?w + (x + 256 * ?w) div 16 =
      (x + x div 16 + 16 * (?w mod 16)) + 256 * (?w + ?w div 16)"
    by simp
  have "(x + 256 * ?w + (x + 256 * ?w) div 16) AND (15 + 256 * val (replicate (length xs) 15)) =
      ((x + x div 16 + 16 * (?w mod 16)) AND 15) + 256 * ((?w + ?w div 16) AND val (replicate (length xs) 15))"
    unfolding sum by (intro and_byte_add [OF lo]) simp
  moreover have "(x + x div 16 + 16 * (?w mod 16)) AND 15 = x div 16 + x mod 16"
  proof -
    have "(n::nat) AND 15 = n mod 16" for n
      using take_bit_eq_mask [of 4 n] by (simp add: take_bit_eq_mod mask_eq_exp_minus_1)
    moreover have "(x + x div 16 + 16 * (?w mod 16)) mod 16 = (x mod 16 + x div 16) mod 16"
      by (metis mod_add_left_eq mod_mult_self2)
    ultimately show ?thesis
      using Cons.prems by simp
  qed
  ultimately show ?case
    using Cons by simp
qed simp


section \<open>The parallel count\<close>

definition byte_pairs :: "nat \<Rightarrow> nat" where "byte_pairs x = x - (x div 2 AND 0x55)"
definition byte_nibbles :: "nat \<Rightarrow> nat" where
  "byte_nibbles x = (byte_pairs x AND 0x33) + (byte_pairs x div 4 AND 0x33)"

lemma byte_check:
  "list_all (\<lambda>x. x div 2 AND 0x55 \<le> x \<and> byte_pairs x < 256 \<and>
     byte_nibbles x div 16 \<le> 4 \<and> byte_nibbles x mod 16 \<le> 4 \<and>
     byte_nibbles x div 16 + byte_nibbles x mod 16 = npop x) [0..<256]"
proof -
  have "[0..<256] = 0 # 1 # [2..<256]"
    by (simp add: upt_rec [of 0] upt_rec [of "Suc 0"] numeral_2_eq_2 del: upt_Suc)
  then show ?thesis
    by (simp add: upt_rec_numeral byte_pairs_def byte_nibbles_def)
qed

lemma list_all_below: "list_all P [0..<n] \<Longrightarrow> x < n \<Longrightarrow> P x"
  by (simp add: list_all_iff)

lemma byte_facts:
  assumes "x < 256"
  shows "x div 2 AND 0x55 \<le> x" "byte_pairs x < 256" "byte_nibbles x div 16 \<le> 4"
    "byte_nibbles x mod 16 \<le> 4" "byte_nibbles x div 16 + byte_nibbles x mod 16 = npop x"
  using list_all_below [OF byte_check assms] by simp_all

definition bytes8 :: "nat \<Rightarrow> nat list" where
  "bytes8 v = map (\<lambda>k. v div 256 ^ k mod 256) [0..<8]"

lemma bytes8_facts: "length (bytes8 v) = 8" "\<forall>x \<in> set (bytes8 v). x < 256"
  by (auto simp: bytes8_def)

lemma val_bytes8: "v < 2 ^ 64 \<Longrightarrow> val (bytes8 v) = v"
proof -
  assume "v < 2 ^ 64"
  have "val (map (\<lambda>k. v div 256 ^ k mod 256) [a..<a + n]) = v div 256 ^ a mod 256 ^ n" for a n
  proof (induction n arbitrary: a)
    case (Suc n)
    have "v div 256 ^ a div 256 = v div 256 ^ Suc a"
      by (simp only: power_Suc2 div_mult2_eq)
    moreover have "[a..<a + Suc n] = a # [Suc a..<Suc a + n]"
      by (simp add: upt_conv_Cons del: upt_Suc)
    ultimately show ?case
      using Suc [of "Suc a"] by (simp add: mod_mult2_eq del: upt_Suc)
  qed simp
  from this [of 0 8] \<open>v < 2 ^ 64\<close> show ?thesis
    by (simp add: bytes8_def)
qed

lemma npop_val: "\<forall>x \<in> set xs. x < 256 \<Longrightarrow> npop (val xs) = sum_list (map npop xs)"
proof (induction xs)
  case (Cons x xs)
  then show ?case
    using npop_add [of x 8 "val xs"] by simp
qed simp

lemma val_masks:
  "val (replicate 8 0x55) = 0x5555555555555555" "val (replicate 8 0x33) = 0x3333333333333333"
  "val (replicate 8 15) = 0xF0F0F0F0F0F0F0F"
proof -
  have "replicate 8 x = [x, x, x, x, x, x, x, x]" for x :: nat
    by (simp add: numeral_eq_Suc)
  then show "val (replicate 8 0x55) = 0x5555555555555555" "val (replicate 8 0x33) = 0x3333333333333333"
    "val (replicate 8 15) = 0xF0F0F0F0F0F0F0F"
    by simp_all
qed

text \<open>The bytes after the first three steps are the bit counts of the bytes.\<close>

lemma swar_steps:
  fixes v :: nat
  assumes "v < 2 ^ 64"
  defines "v1 \<equiv> v - (v div 2 AND 0x5555555555555555)"
  defines "v2 \<equiv> (v1 AND 0x3333333333333333) + (v1 div 4 AND 0x3333333333333333)"
  shows "v1 = val (map byte_pairs (bytes8 v))" "v2 = val (map byte_nibbles (bytes8 v))"
    "(v2 + v2 div 16) AND 0xF0F0F0F0F0F0F0F = val (map npop (bytes8 v))"
proof -
  let ?xs = "bytes8 v"
  note xs = bytes8_facts [of v] and v = val_bytes8 [OF assms(1)]
  have "v div 2 AND 0x5555555555555555 = val (map (\<lambda>x. x div 2 AND 0x55) ?xs)"
    using val_shift_and [of "0x55" 1 ?xs] xs v by (simp add: val_masks)
  then have "v1 = val ?xs - val (map (\<lambda>x. x div 2 AND 0x55) ?xs)"
    unfolding v1_def v by simp
  also have "\<dots> = val (map byte_pairs ?xs)"
    using xs byte_facts(1) by (subst val_diff) (auto simp: byte_pairs_def cong: map_cong)
  finally show v1: "v1 = val (map byte_pairs ?xs)" .
  have pairs: "\<forall>x \<in> set (map byte_pairs ?xs). x < 256"
    using xs byte_facts(2) by simp
  have "v1 AND 0x3333333333333333 = val (map (\<lambda>x. byte_pairs x AND 0x33) ?xs)"
    using val_shift_and [of "0x33" 0 "map byte_pairs ?xs"] pairs xs v1 by (simp add: val_masks comp_def)
  moreover have "v1 div 4 AND 0x3333333333333333 = val (map (\<lambda>x. byte_pairs x div 4 AND 0x33) ?xs)"
    using val_shift_and [of "0x33" 2 "map byte_pairs ?xs"] pairs xs v1 by (simp add: val_masks comp_def)
  ultimately show v2: "v2 = val (map byte_nibbles ?xs)"
    unfolding v2_def by (simp add: val_add byte_nibbles_def [abs_def])
  have "\<forall>x \<in> set (map byte_nibbles ?xs). x div 16 \<le> 4 \<and> x mod 16 \<le> 4"
    using xs byte_facts(3,4) by simp
  from val_fold [OF this] xs v2
  have "(v2 + v2 div 16) AND 0xF0F0F0F0F0F0F0F = val (map (\<lambda>x. byte_nibbles x div 16 + byte_nibbles x mod 16) ?xs)"
    by (simp add: val_masks comp_def)
  also have "\<dots> = val (map npop ?xs)"
    using xs byte_facts(5) by (auto intro!: arg_cong [where f = val])
  finally show "(v2 + v2 div 16) AND 0xF0F0F0F0F0F0F0F = val (map npop ?xs)" .
qed

lemma val_le: "\<forall>x \<in> set xs. x \<le> c \<Longrightarrow> 255 * val xs + c \<le> c * 256 ^ length xs"
proof (induction xs)
  case (Cons x xs)
  then have "255 * val xs + c \<le> c * 256 ^ length xs" "x \<le> c"
    by simp_all
  then show ?case by simp
qed simp

text \<open>The multiplication by \<open>0x0101010101010101\<close> collects the sum of the bytes in the top byte.\<close>

lemma sum_of_bytes:
  fixes a0 a1 a2 a3 a4 a5 a6 a7 :: nat
  assumes "a0 \<le> 8" "a1 \<le> 8" "a2 \<le> 8" "a3 \<le> 8" "a4 \<le> 8" "a5 \<le> 8" "a6 \<le> 8" "a7 \<le> 8"
  shows "val [a0, a1, a2, a3, a4, a5, a6, a7] * 0x101010101010101 mod 2 ^ 64 div 2 ^ 56 =
    sum_list [a0, a1, a2, a3, a4, a5, a6, a7]"
proof -
  define lo where "lo = 1 * (a0) + 256 * (a0 + a1) + 65536 * (a0 + a1 + a2) + 16777216 * (a0 + a1 + a2 + a3) + 4294967296 * (a0 + a1 + a2 + a3 + a4) + 1099511627776 * (a0 + a1 + a2 + a3 + a4 + a5) + 281474976710656 * (a0 + a1 + a2 + a3 + a4 + a5 + a6)"
  define hi where "hi = 1 * (a1 + a2 + a3 + a4 + a5 + a6 + a7) + 256 * (a2 + a3 + a4 + a5 + a6 + a7) + 65536 * (a3 + a4 + a5 + a6 + a7) + 16777216 * (a4 + a5 + a6 + a7) + 4294967296 * (a5 + a6 + a7) + 1099511627776 * (a6 + a7) + 281474976710656 * (a7)"
  define sm where "sm = a0 + a1 + a2 + a3 + a4 + a5 + a6 + a7"
  have "val [a0, a1, a2, a3, a4, a5, a6, a7] * 0x101010101010101 = (lo + 2 ^ 56 * sm) + 2 ^ 64 * hi"
    unfolding lo_def hi_def sm_def by simp
  moreover have "lo < 2 ^ 56" "sm < 256"
    unfolding lo_def sm_def using assms by simp_all
  moreover have "lo + 2 ^ 56 * sm < 2 ^ 64"
    using calculation(2,3) by simp
  ultimately have "val [a0, a1, a2, a3, a4, a5, a6, a7] * 0x101010101010101 mod 2 ^ 64 div 2 ^ 56 = sm"
    by simp
  then show ?thesis
    by (simp add: sm_def)
qed

lemma sum_of_bytes8:
  assumes "length xs = 8" "\<forall>x \<in> set xs. x \<le> 8"
  shows "val xs * 0x101010101010101 mod 2 ^ 64 div 2 ^ 56 = sum_list xs"
proof -
  obtain a0 a1 a2 a3 a4 a5 a6 a7 where "xs = [a0, a1, a2, a3, a4, a5, a6, a7]"
    using assms(1) by (auto simp: numeral_eq_Suc length_Suc_conv)
  with assms(2) sum_of_bytes [of a0 a1 a2 a3 a4 a5 a6 a7] show ?thesis
    by simp
qed

lemma pop_le: "pop v \<le> LENGTH('a)" for v :: "'a::len word"
proof -
  have "{i. bit v i} \<subseteq> {..<LENGTH('a)}"
    using bit_imp_le_length [of v] by auto
  then show ?thesis
    unfolding pop_def using card_mono [of "{..<LENGTH('a)}"] by fastforce
qed

lemma byte_nibbles_le: "x < 256 \<Longrightarrow> byte_nibbles x \<le> 68"
  using byte_facts(3,4) [of x] mult_div_mod_eq [of 16 "byte_nibbles x"] by linarith

lemma byte_npop_le: "x < 256 \<Longrightarrow> npop x \<le> 8"
  using byte_facts(3-5) [of x] by linarith

lemma unat_drop: "unat (drop_bit n v) = unat v div 2 ^ n"
  unfolding unat_drop_bit_eq by (rule drop_bit_eq_div)

text \<open>The same steps on 64-bit words: no step overflows.\<close>

lemma swar_words:
  fixes v :: u64
  defines "v1 \<equiv> v - (drop_bit 1 v AND 0x5555555555555555)"
  defines "v2 \<equiv> (v1 AND 0x3333333333333333) + (drop_bit 2 v1 AND 0x3333333333333333)"
  shows "unat ((v2 + drop_bit 4 v2) AND 0xF0F0F0F0F0F0F0F) = val (map npop (bytes8 (unat v)))"
proof -
  let ?v = "unat v" and ?xs = "bytes8 (unat v)"
  have lt: "?v < 2 ^ 64"
    using unsigned_less [of v, where ?'a = nat] by simp
  note st = swar_steps [OF lt]
  have "drop_bit 1 v AND 0x5555555555555555 \<le> drop_bit 1 v"
    by (rule word_and_le2)
  also have "drop_bit 1 v \<le> v"
    unfolding word_le_nat_alt unat_drop by simp
  finally have "unat v1 = ?v - (unat (drop_bit 1 v) AND 0x5555555555555555)"
    unfolding v1_def by (simp add: unat_sub unsigned_and_eq)
  also have "unat (drop_bit 1 v) = ?v div 2"
    unfolding unat_drop by simp
  finally have u1: "unat v1 = val (map byte_pairs ?xs)"
    using st(1) by simp
  have n: "\<forall>x \<in> set (map byte_nibbles ?xs). x \<le> 68"
    using bytes8_facts [of ?v] byte_nibbles_le by simp
  have b2: "255 * val (map byte_nibbles ?xs) + 68 \<le> 68 * 256 ^ 8"
    using val_le [OF n] bytes8_facts [of ?v] by simp
  have "unat v2 = ((unat v1 AND 0x3333333333333333) + (unat v1 div 4 AND 0x3333333333333333)) mod 2 ^ 64"
    unfolding v2_def by (simp add: unat_word_ariths unsigned_and_eq unat_drop)
  then have u2: "unat v2 = val (map byte_nibbles ?xs)"
    using st(1,2) u1 b2 by simp
  have "(unat v2 + unat v2 div 16) mod 2 ^ 64 = unat v2 + unat v2 div 16"
    using u2 b2 by simp
  then show ?thesis
    using st(2,3) u2
    by (simp add: unat_word_ariths unsigned_and_eq unat_drop)
qed

lemma count_bits64_pop: "unat (count_bits64 v) = pop v"
proof -
  let ?xs = "bytes8 (unat v)"
  define v1 where "v1 = v - (drop_bit 1 v AND 0x5555555555555555)"
  define v2 where "v2 = (v1 AND 0x3333333333333333) + (drop_bit 2 v1 AND 0x3333333333333333)"
  define v3 where "v3 = (v2 + drop_bit 4 v2) AND 0xF0F0F0F0F0F0F0F"
  have u3: "unat v3 = val (map npop ?xs)"
    unfolding v3_def v2_def v1_def by (rule swar_words)
  have "unat v3 * 0x101010101010101 mod 2 ^ 64 div 2 ^ 56 = sum_list (map npop ?xs)"
    using u3 bytes8_facts [of "unat v"] byte_npop_le sum_of_bytes8 [of "map npop ?xs"] by simp
  also have "\<dots> = pop v"
    using npop_val [of ?xs] bytes8_facts [of "unat v"] val_bytes8 [of "unat v"]
      unsigned_less [of v, where ?'a = nat] by (simp add: npop_unat)
  finally have "unat (drop_bit 56 (v3 * 0x101010101010101)) = pop v"
    by (simp add: unat_word_ariths unat_drop)
  then have "unat (ucast (drop_bit 56 (v3 * 0x101010101010101)) :: u32) = pop v mod 2 ^ 32"
    by (simp add: unsigned_ucast_eq take_bit_eq_mod)
  then show ?thesis
    using pop_le [of v] by (simp add: count_bits64_def Let_def v1_def v2_def v3_def)
qed

section \<open>The bit by bit counts\<close>

text \<open>The set bits among the first \<open>k\<close>, counted from the most significant one.\<close>

definition top_count :: "nat \<Rightarrow> u32 \<Rightarrow> nat" where
  "top_count k v = card {j. j < k \<and> j < 32 \<and> bit v (31 - j)}"

lemma top_count_le: "top_count k v \<le> 32"
proof -
  have "{j. j < k \<and> j < 32 \<and> bit v (31 - j)} \<subseteq> {..<32}"
    by auto
  then show ?thesis
    unfolding top_count_def using card_mono [of "{..<32}"] by fastforce
qed

lemma top_count_zero [simp]: "top_count 0 v = 0" "top_count k 0 = 0"
  by (simp_all add: top_count_def)

lemma top_count_32: "top_count 32 v = pop v"
  unfolding top_count_def pop_def
proof (rule bij_betw_same_card [of "\<lambda>j. 31 - j"])
  show "bij_betw (\<lambda>j. 31 - j) {j. j < 32 \<and> j < 32 \<and> bit v (31 - j)} {i. bit v i}"
  proof (rule bij_betw_byWitness [where f' = "\<lambda>j. 31 - j"])
    show "(\<lambda>j. 31 - j) ` {i. bit v i} \<subseteq> {j. j < 32 \<and> j < 32 \<and> bit v (31 - j)}"
      using bit_imp_le_length [of v] by fastforce
    show "\<forall>i\<in>{i. bit v i}. 31 - (31 - i) = i"
      using bit_imp_le_length [of v] by fastforce
  qed auto
qed

lemma bit_double: "bit (v * 2) n \<longleftrightarrow> 0 < n \<and> n < 32 \<and> bit v (n - 1)" for v :: u32
  using bit_push_bit_iff [of 1 v n] by auto

lemma top_count_Suc:
  "top_count (Suc k) v = (if bit v 31 then 1 else 0) + top_count k (push_bit 1 v)"
proof -
  have "{j. j < Suc k \<and> j < 32 \<and> bit v (31 - j)} =
      (if bit v 31 then {0} else {}) \<union> Suc ` {j. j < k \<and> j < 32 \<and> bit (push_bit 1 v) (31 - j)}"
    by (auto simp: bit_double image_iff less_Suc_eq_0_disj)
  moreover have "card \<dots> = (if bit v 31 then 1 else 0) +
      card {j. j < k \<and> j < 32 \<and> bit (push_bit 1 v) (31 - j)}"
    by (subst card_Un_disjoint) (auto simp: card_image)
  ultimately show ?thesis
    by (simp add: top_count_def)
qed

lemma op_mask_nth: "r < 32 \<Longrightarrow> BITMAPOPMASK ! r = push_bit (31 - r) 1"
proof -
  assume "r < 32"
  have "BITMAPOPMASK = map (\<lambda>r. push_bit (31 - r) 1) [0..<32]"
    by code_simp
  also have "\<dots> ! r = push_bit (31 - r) 1"
    using \<open>r < 32\<close> by (subst nth_map) simp_all
  finally show ?thesis .
qed

lemma bit_op_mask: "r < 32 \<Longrightarrow> bit (BITMAPOPMASK ! r) i \<longleftrightarrow> i = 31 - r"
  unfolding op_mask_nth bit_push_bit_iff bit_1_iff by auto

lemma and_op_mask: "r < 32 \<Longrightarrow> (v :: u32) AND BITMAPOPMASK ! r = 0 \<longleftrightarrow> \<not> bit v (31 - r)"
proof -
  assume "r < 32"
  then have "bit (v AND BITMAPOPMASK ! r) i \<longleftrightarrow> i = 31 - r \<and> bit v (31 - r)" for i
    by (auto simp: bit_and_iff bit_op_mask)
  then show ?thesis
    using bit_eq_iff [of "v AND BITMAPOPMASK ! r" 0] by auto
qed

lemma unat_one_plus: "unat x \<le> 32 \<Longrightarrow> unat (1 + x :: u32) = Suc (unat x)"
  by (simp add: unat_word_ariths)

lemma count_bits_loop_top: "unat (count_bits_loop k v) = top_count k v"
proof (induction k arbitrary: v)
  case (Suc k)
  then show ?case
    using top_count_le [of k "push_bit 1 v"]
    by (simp add: and_op_mask top_count_Suc unat_one_plus)
qed simp

lemma count_bits_top: "unat (count_bits v n) = top_count (unat n) v"
  by (simp add: count_bits_def count_bits_loop_top)

lemma shift_count_pop: "unat (shift_count v) = pop v"
proof -
  have "unat (shift_count v) = top_count 32 v"
  proof (induction v rule: shift_count.induct)
    case (1 v)
    have "top_count 32 v = top_count (Suc 32) v"
      unfolding top_count_def by (rule arg_cong [where f = card]) auto
    also have "\<dots> = (if bit v 31 then 1 else 0) + top_count 32 (push_bit 1 v)"
      by (rule top_count_Suc)
    finally show ?case
      using 1 top_count_le [of 32 "push_bit 1 v"]
      by (subst shift_count.simps) (simp add: and_op_mask unat_one_plus)
  qed
  then show ?thesis
    by (simp add: top_count_32)
qed

end
