(* ===== verification/BitmapCorrect.thy ===== *)
theory BitmapCorrect
  imports Popcount
begin

text \<open>
  What a bitmap stands for and the facts about its operations.  \<open>bit_at ds i\<close> is bit \<open>i\<close> of the slot
  array \<open>ds\<close>, \<open>items b\<close> the set of the items of \<open>b\<close>; \<open>bm_shape\<close> is the shape of the object (the array
  has as many slots as the item count needs), \<open>bm_wf\<close> adds that the cached set count is the number of
  items, and \<open>bm_tight\<close> that the bits of the last slot beyond the item count are clear.
\<close>

definition bit_at :: "u32 list \<Rightarrow> nat \<Rightarrow> bool" where
  "bit_at ds i \<longleftrightarrow> i div 32 < length ds \<and> bit (ds ! (i div 32)) (31 - i mod 32)"

definition slots :: "'a bitmap_scheme \<Rightarrow> u32 list" where
  "slots b = (case b_data b of None \<Rightarrow> [] | Some ds \<Rightarrow> ds)"

definition items :: "'a bitmap_scheme \<Rightarrow> nat set" where
  "items b = {i. i < unat (b_itemCount b) \<and> bit_at (slots b) i}"

definition bm_shape :: "'a bitmap_scheme \<Rightarrow> bool" where
  "bm_shape b \<longleftrightarrow> b_data b = Some (slots b) \<and> length (slots b) = unat (b_slotCount b) \<and>
     b_slotCount b = slots_for (b_itemCount b) \<and> b_itemCount b \<le> 0xFFFFFFE0"

definition bm_wf :: "'a bitmap_scheme \<Rightarrow> bool" where
  "bm_wf b \<longleftrightarrow> bm_shape b \<and> unat (b_setCount b) = card (items b)"

definition bm_tight :: "'a bitmap_scheme \<Rightarrow> bool" where
  "bm_tight b \<longleftrightarrow> list_all (\<lambda>i. bit_at (slots b) i \<longrightarrow> i < unat (b_itemCount b)) [0..<32 * length (slots b)]"

section \<open>Indices and slots\<close>

lemma quot_div: "quot n = unat n div 32"
  by (simp add: quot_def unat_drop)

lemma rem_mod: "rem n = unat n mod 32"
proof -
  have "n AND SLOT_SIZE_BIT_MASK = take_bit 5 n"
    by (simp add: SLOT_SIZE_BIT_MASK_def take_bit_eq_mask mask_eq_exp_minus_1)
  then show ?thesis
    unfolding rem_def by (simp only: unsigned_take_bit_eq) (simp add: take_bit_eq_mod)
qed

lemma rem_less [simp]: "rem n < 32"
  by (simp add: rem_mod)

lemma quot_rem: "unat n = 32 * quot n + rem n"
  by (simp add: quot_div rem_mod)

lemma unat_slots_for: "n \<le> 0xFFFFFFE0 \<Longrightarrow> unat (slots_for n) = (unat n + 31) div 32"
proof -
  assume "n \<le> 0xFFFFFFE0"
  then have "unat n \<le> 0xFFFFFFE0"
    by (simp add: word_le_nat_alt)
  moreover have "slots_for n = drop_bit 5 (n + 31)"
    by (simp add: slots_for_def SLOT_SIZE_def add.commute)
  ultimately show ?thesis
    by (simp add: unat_drop unat_word_ariths)
qed

lemma shape_slotCount: "bm_shape b \<Longrightarrow> unat (b_slotCount b) = (unat (b_itemCount b) + 31) div 32"
  by (simp add: bm_shape_def unat_slots_for)

lemma shape_length: "bm_shape b \<Longrightarrow> length (slots b) = (unat (b_itemCount b) + 31) div 32"
  using shape_slotCount [of b] by (simp add: bm_shape_def)

lemma shape_data: "bm_shape b \<Longrightarrow> b_data b = Some (slots b)"
  by (simp add: bm_shape_def)

lemma shape_quot: "bm_shape b \<Longrightarrow> n < b_itemCount b \<Longrightarrow> quot n < length (slots b)"
  by (simp add: shape_length quot_div word_less_nat_alt)

lemma load_slots: "b_data b = Some ds \<Longrightarrow> i < length ds \<Longrightarrow> load b i = Some (ds ! i)"
  by (simp add: load_def)

lemma store_slots: "b_data b = Some ds \<Longrightarrow> i < length ds \<Longrightarrow>
    store b i v = Some (b\<lparr>b_data := Some (ds[i := v])\<rparr>)"
  by (simp add: store_def)

lemma slots_update [simp]:
  "slots (b\<lparr>b_data := Some ds\<rparr>) = ds" "slots (b\<lparr>b_setCount := c\<rparr>) = slots b"
  by (simp_all add: slots_def)

lemma items_update [simp]: "items (b\<lparr>b_setCount := c\<rparr>) = items b"
  by (simp add: items_def)

lemma shape_update [simp]:
  "bm_shape (b\<lparr>b_setCount := c\<rparr>) \<longleftrightarrow> bm_shape b"
  by (simp add: bm_shape_def)

lemma shape_data_update:
  "bm_shape b \<Longrightarrow> length ds = length (slots b) \<Longrightarrow> bm_shape (b\<lparr>b_data := Some ds\<rparr>)"
  by (simp add: bm_shape_def)

lemma items_finite [simp]: "finite (items b)"
  by (simp add: items_def)

lemma bit_at_update:
  "q < length ds \<Longrightarrow> bit_at (ds[q := v]) i =
     (if i div 32 = q then bit v (31 - i mod 32) else bit_at ds i)"
  by (auto simp: bit_at_def nth_list_update)

lemma bit_at_slot: "q < length ds \<Longrightarrow> r < 32 \<Longrightarrow> bit_at ds (32 * q + r) = bit (ds ! q) (31 - r)"
  by (simp add: bit_at_def)

lemma bit_at_index: "quot n < length ds \<Longrightarrow> bit_at ds (unat n) = bit (ds ! quot n) (31 - rem n)"
  by (simp add: bit_at_def quot_div rem_mod)

section \<open>Single bits\<close>

lemma bm_test_items:
  assumes "bm_shape b" "n < b_itemCount b"
  shows "bm_test b n = Some (unat n \<in> items b)"
  using assms shape_quot [OF assms]
  by (simp add: bm_test_def load_slots [OF shape_data] and_op_mask items_def bit_at_index word_less_nat_alt)

lemma index_split: "r < 32 \<Longrightarrow> i = 32 * q + r \<longleftrightarrow> i div 32 = q \<and> i mod 32 = r" for i :: nat
  using mult_div_mod_eq [of 32 i] by auto

lemma index_bit: "r < 32 \<Longrightarrow> i = 32 * q + r \<longleftrightarrow> i div 32 = q \<and> 31 - i mod 32 = 31 - r" for i :: nat
  using index_split [of r i q] mod_less_divisor [of 32 i] by arith

lemma bit_imp_less_32: "bit (w :: u32) n \<Longrightarrow> n < 32"
  using bit_imp_le_length [of w n] by simp

text \<open>Setting or clearing the bit \<open>r\<close> of slot \<open>q\<close>.\<close>

lemma bit_at_set:
  assumes "q < length ds" "r < 32"
  shows "bit_at (ds[q := ds ! q OR BITMAPOPMASK ! r]) i \<longleftrightarrow> bit_at ds i \<or> i = 32 * q + r"
proof -
  show ?thesis
    unfolding index_bit [OF assms(2)] bit_at_update [OF assms(1)] using assms
    by (auto simp: bit_or_iff bit_op_mask bit_at_def)
qed

lemma bit_at_clear:
  assumes "q < length ds" "r < 32"
  shows "bit_at (ds[q := ds ! q AND NOT (BITMAPOPMASK ! r)]) i \<longleftrightarrow> bit_at ds i \<and> i \<noteq> 32 * q + r"
proof -
  show ?thesis
    unfolding index_bit [OF assms(2)] bit_at_update [OF assms(1)] using assms
    by (auto simp: bit_and_iff bit_not_iff bit_op_mask bit_at_def)
qed

lemma card_items_le: "card (items b) \<le> unat (b_itemCount b)"
proof -
  have "items b \<subseteq> {..<unat (b_itemCount b)}"
    by (auto simp: items_def)
  then show ?thesis
    using card_mono [of "{..<unat (b_itemCount b)}"] by fastforce
qed

lemma bm_set_items:
  assumes "bm_wf b" "n < b_itemCount b"
  obtains b' where "bm_set b n = Some (unat n \<notin> items b, b')" "bm_wf b'"
    "items b' = insert (unat n) (items b)" "b_itemCount b' = b_itemCount b"
proof -
  let ?ds = "slots b" and ?q = "quot n" and ?r = "rem n"
  let ?b' = "b\<lparr>b_data := Some (?ds[?q := ?ds ! ?q OR BITMAPOPMASK ! ?r]), b_setCount := b_setCount b + 1\<rparr>"
  have sh: "bm_shape b"
    using assms(1) by (simp add: bm_wf_def)
  have q: "?q < length ?ds"
    using shape_quot [OF sh assms(2)] .
  have mem: "unat n \<in> items b \<longleftrightarrow> bit (?ds ! ?q) (31 - ?r)"
    using q assms(2) by (simp add: items_def bit_at_index word_less_nat_alt)
  have eq: "bm_set b n = Some (unat n \<notin> items b, if unat n \<in> items b then b else ?b')"
    using q by (simp add: bm_set_def load_slots [OF shape_data [OF sh]] store_slots [OF shape_data [OF sh]]
        and_op_mask mem)
  have it: "items ?b' = insert (unat n) (items b)"
    using assms(2) q by (auto simp: items_def bit_at_set quot_rem [symmetric] word_less_nat_alt)
  have "bm_wf ?b'" if "unat n \<notin> items b"
  proof -
    have "card (items ?b') = Suc (card (items b))"
      unfolding it using that by simp
    then have "Suc (card (items b)) \<le> unat (b_itemCount b)"
      using card_items_le [of ?b'] by simp
    then have "unat (b_setCount b + 1) = Suc (card (items b))"
      using assms(1) unsigned_less [of "b_itemCount b", where ?'a = nat]
      by (simp add: bm_wf_def unat_word_ariths del: unsigned_less)
    then show ?thesis
      unfolding bm_wf_def it using that sh shape_data_update [OF sh] by simp
  qed
  then show ?thesis
    using that [OF eq] it assms(1) by (cases "unat n \<in> items b") (auto simp: insert_absorb)
qed

lemma bm_reset_items:
  assumes "bm_wf b"
  obtains b' where "bm_reset b n = Some (unat n \<in> items b, b')" "bm_wf b'"
    "items b' = items b - {unat n}" "b_itemCount b' = b_itemCount b"
proof (cases "n < b_itemCount b")
  case False
  then have "unat n \<notin> items b"
    by (simp add: items_def word_less_nat_alt)
  then show ?thesis
    using that [of b] False assms by (simp add: bm_reset_def not_less)
next
  case True
  let ?ds = "slots b" and ?q = "quot n" and ?r = "rem n"
  let ?b' = "b\<lparr>b_data := Some (?ds[?q := ?ds ! ?q AND NOT (BITMAPOPMASK ! ?r)]), b_setCount := b_setCount b - 1\<rparr>"
  have sh: "bm_shape b"
    using assms(1) by (simp add: bm_wf_def)
  have q: "?q < length ?ds"
    using shape_quot [OF sh True] .
  have mem: "unat n \<in> items b \<longleftrightarrow> bit (?ds ! ?q) (31 - ?r)"
    using q True by (simp add: items_def bit_at_index word_less_nat_alt)
  have nle: "(b_itemCount b \<le> n) = False"
    using True by auto
  have eq: "bm_reset b n = Some (unat n \<in> items b, if unat n \<in> items b then ?b' else b)"
    using q nle by (simp add: bm_reset_def load_slots [OF shape_data [OF sh]]
        store_slots [OF shape_data [OF sh]] and_op_mask mem)
  have it: "items ?b' = items b - {unat n}"
    using q by (auto simp: items_def bit_at_clear quot_rem [symmetric])
  have "bm_wf ?b'" if m: "unat n \<in> items b"
  proof -
    have "0 < card (items b)"
      using m by (auto simp: card_gt_0_iff)
    then have "b_setCount b \<noteq> 0"
      using assms by (metis bm_wf_def less_irrefl unat_0)
    then have "unat (b_setCount b - 1) = card (items b) - 1"
      using assms unat_minus_one [of "b_setCount b"] by (simp add: bm_wf_def)
    then show ?thesis
      unfolding bm_wf_def it using m sh shape_data_update [OF sh] by simp
  qed
  then show ?thesis
    using that [OF eq] it assms by (cases "unat n \<in> items b") auto
qed

section \<open>Counting\<close>

definition cnt :: "u32 list \<Rightarrow> nat \<Rightarrow> nat \<Rightarrow> nat" where
  "cnt ds a b = card {i. a \<le> i \<and> i < b \<and> bit_at ds i}"

lemma cnt_empty [simp]: "b \<le> a \<Longrightarrow> cnt ds a b = 0"
proof -
  assume "b \<le> a"
  then have "{i. a \<le> i \<and> i < b \<and> bit_at ds i} = {}" by auto
  then show ?thesis by (simp add: cnt_def)
qed

lemma cnt_split: "a \<le> m \<Longrightarrow> m \<le> b \<Longrightarrow> cnt ds a b = cnt ds a m + cnt ds m b"
proof -
  assume "a \<le> m" "m \<le> b"
  then have "{i. a \<le> i \<and> i < b \<and> bit_at ds i} =
      {i. a \<le> i \<and> i < m \<and> bit_at ds i} \<union> {i. m \<le> i \<and> i < b \<and> bit_at ds i}"
    by auto
  then show ?thesis
    unfolding cnt_def by (simp add: card_Un_disjoint disjoint_iff)
qed

lemma cnt_slot_part:
  assumes "q < length ds" "r + k \<le> 32" "w = push_bit r (ds ! q)"
  shows "cnt ds (32 * q + r) (32 * q + r + k) = top_count k w"
proof -
  have "{i. 32 * q + r \<le> i \<and> i < 32 * q + r + k \<and> bit_at ds i} =
      (\<lambda>j. 32 * q + r + j) ` {j. j < k \<and> j < 32 \<and> bit w (31 - j)}"
  proof (intro set_eqI iffI)
    fix i
    assume i: "i \<in> {i. 32 * q + r \<le> i \<and> i < 32 * q + r + k \<and> bit_at ds i}"
    then obtain j where j: "i = 32 * q + (r + j)" "j < k"
      by (auto simp: less_iff_Suc_add le_iff_add ac_simps)
    with i assms have "bit (ds ! q) (31 - (r + j))"
      by (simp add: bit_at_slot)
    with j assms show "i \<in> (\<lambda>j. 32 * q + r + j) ` {j. j < k \<and> j < 32 \<and> bit w (31 - j)}"
      by (intro image_eqI [of _ _ j]) (auto simp: bit_push_bit_iff add.commute)
  next
    fix i
    assume "i \<in> (\<lambda>j. 32 * q + r + j) ` {j. j < k \<and> j < 32 \<and> bit w (31 - j)}"
    then obtain j where j: "i = 32 * q + (r + j)" "j < k" "bit w (31 - j)"
      by (auto simp: ac_simps)
    with assms show "i \<in> {i. 32 * q + r \<le> i \<and> i < 32 * q + r + k \<and> bit_at ds i}"
      by (simp add: bit_at_slot bit_push_bit_iff add.commute [of r j])
  qed
  then show ?thesis
    by (simp add: cnt_def top_count_def card_image)
qed

lemma cnt_slot_top: "q < length ds \<Longrightarrow> k \<le> 32 \<Longrightarrow> cnt ds (32 * q) (32 * q + k) = top_count k (ds ! q)"
  using cnt_slot_part [of q ds 0 k "ds ! q"] by simp

lemma cnt_slot: "q < length ds \<Longrightarrow> cnt ds (32 * q) (32 * q + 32) = pop (ds ! q)"
  by (simp add: cnt_slot_top top_count_32)

lemma cnt_slot_rest:
  assumes "q < length ds" "r < 32"
  shows "cnt ds (32 * q + r) (32 * q + 32) = pop (push_bit r (ds ! q))"
proof -
  have "top_count 32 (push_bit r (ds ! q)) = top_count (32 - r) (push_bit r (ds ! q))"
    unfolding top_count_def by (rule arg_cong [where f = card]) (auto simp: bit_push_bit_iff)
  then show ?thesis
    using cnt_slot_part [OF assms(1) _ refl, of r "32 - r"] assms(2) by (simp add: top_count_32)
qed

lemma count_bits64_word: "count_bits64 v = word_of_nat (pop v)"
  by (simp flip: count_bits64_pop)

lemma count_bits_word: "count_bits v n = word_of_nat (top_count (unat n) v)"
  by (simp flip: count_bits_top)

lemma shift_count_word: "shift_count v = word_of_nat (pop v)"
  by (simp flip: shift_count_pop)

lemma finite_bits: "finite {i. bit (w :: u32) i}"
  by (rule finite_subset [of _ "{..<32}"]) (auto dest: bit_imp_less_32)

lemma pop_pair: "pop (ucast lo OR push_bit 32 (ucast hi) :: u64) = pop lo + pop hi" for lo hi :: u32
proof -
  have "{i. bit (ucast lo OR push_bit 32 (ucast hi) :: u64) i} = {i. bit lo i} \<union> (\<lambda>i. i + 32) ` {i. bit hi i}"
  proof (rule set_eqI)
    fix i
    have "bit (ucast lo OR push_bit 32 (ucast hi) :: u64) i \<longleftrightarrow> bit lo i \<or> 32 \<le> i \<and> bit hi (i - 32)"
      using bit_imp_less_32 [of hi "i - 32"] bit_imp_less_32 [of lo i]
      by (auto simp: bit_simps)
    also have "\<dots> \<longleftrightarrow> i \<in> {i. bit lo i} \<union> (\<lambda>i. i + 32) ` {i. bit hi i}"
      by (auto simp: image_iff intro: le_add_diff_inverse2 [symmetric])
    finally show "i \<in> {i. bit (ucast lo OR push_bit 32 (ucast hi) :: u64) i} \<longleftrightarrow>
        i \<in> {i. bit lo i} \<union> (\<lambda>i. i + 32) ` {i. bit hi i}"
      by simp
  qed
  moreover have "{i. bit lo i} \<inter> (\<lambda>i. i + 32) ` {i. bit hi i} = {}"
    using bit_imp_less_32 [of lo] by fastforce
  moreover have "finite {i. bit lo i}" "finite {i. bit hi i}"
    by (rule finite_bits)+
  ultimately show ?thesis
    by (simp add: pop_def card_Un_disjoint card_image)
qed

text \<open>The batched loops count two slots at a time.\<close>

lemma count_batches_step:
  assumes "i + 1 < length ds" "b_data b = Some ds"
  shows "count_batches b (i # is) c = count_batches b is (c + word_of_nat (pop (ds ! i) + pop (ds ! (i + 1))))"
proof -
  let ?v = "ucast (ds ! i) OR push_bit 32 (ucast (ds ! (i + 1))) :: u64"
  have l: "load64 b i = Some ?v"
    using assms by (simp add: load64_def load_slots)
  show ?thesis
  proof (cases "?v = 0")
    case True
    have "pop (0 :: u64) = 0"
      by (simp add: pop_def)
    then have "pop (ds ! i) + pop (ds ! (i + 1)) = 0"
      using pop_pair [of "ds ! i" "ds ! (i + 1)"] True by simp
    then show ?thesis
      using l True by simp
  next
    case False
    then show ?thesis
      using l by (simp only: count_batches.simps count_bits64_word pop_pair Option.bind.bind_lunit if_False)
  qed
qed

lemma count_batches_pairs:
  assumes "b_data b = Some ds" "f + 2 * k \<le> length ds"
  shows "count_batches b (map (\<lambda>j. f + 2 * j) [0..<k]) c =
    Some (c + word_of_nat (cnt ds (32 * f) (32 * (f + 2 * k))))"
  using assms(2)
proof (induction k arbitrary: f c)
  case (Suc k)
  have "map (\<lambda>j. f + 2 * j) [0..<Suc k] = f # map (\<lambda>j. (f + 2) + 2 * j) [0..<k]"
    by (simp add: upt_conv_Cons map_Suc_upt [symmetric] comp_def del: upt_Suc)
  then have "count_batches b (map (\<lambda>j. f + 2 * j) [0..<Suc k]) c =
      count_batches b (map (\<lambda>j. (f + 2) + 2 * j) [0..<k]) (c + word_of_nat (pop (ds ! f) + pop (ds ! (f + 1))))"
    using Suc.prems assms(1) count_batches_step [of f ds] by simp
  also have "\<dots> = Some (c + word_of_nat (pop (ds ! f) + pop (ds ! (f + 1)) +
      cnt ds (32 * (f + 2)) (32 * ((f + 2) + 2 * k))))"
    using Suc.IH [of "f + 2"] Suc.prems by (simp add: add.assoc)
  also have "pop (ds ! f) + pop (ds ! (f + 1)) + cnt ds (32 * (f + 2)) (32 * ((f + 2) + 2 * k)) =
      cnt ds (32 * f) (32 * (f + 2 * Suc k))"
    using Suc.prems cnt_slot [of f ds] cnt_slot [of "f + 1" ds]
      cnt_split [of "32 * f" "32 * f + 32" "32 * (f + 2 * Suc k)" ds]
      cnt_split [of "32 * f + 32" "32 * f + 64" "32 * (f + 2 * Suc k)" ds]
    by (simp add: algebra_simps)
  finally show ?case .
qed simp

lemma card_items: "card (items b) = cnt (slots b) 0 (unat (b_itemCount b))"
  by (simp add: items_def cnt_def)

lemma and_one_even: "(L :: u32) AND 1 = 0 \<longleftrightarrow> even (unat L)"
proof -
  have "bit (unat L) 0 \<longleftrightarrow> bit L 0"
    unfolding bit_unsigned_iff by simp
  then show ?thesis
    unfolding bit_0 and_one_eq even_iff_mod_2_eq_zero [symmetric] by blast
qed

lemma refresh_even_cnt:
  assumes "b_data b = Some ds" "unat L < length ds"
  shows "refresh_even b L c = Some (c + word_of_nat (cnt ds 0 (32 * (unat L + 1))))"
proof -
  have pairs: "refresh_pairs b K e = Some (e + word_of_nat (cnt ds 0 (32 * (unat K + 1))))"
    if "odd (unat K)" "unat K < length ds" for K e
  proof -
    have k: "2 * (unat K div 2 + 1) = unat K + 1"
      using that(1) by presburger
    have "unat (K div 2 + 1) = unat K div 2 + 1"
      using unsigned_less [of K, where ?'a = nat] by (simp add: unat_word_ariths unat_div del: unsigned_less)
    then show ?thesis
      using count_batches_pairs [OF assms(1), of 0 "unat K div 2 + 1" e] that(2)
      unfolding refresh_pairs_def add_0 k by simp
  qed
  note e = and_one_even [of L]
  show ?thesis
  proof (cases "even (unat L)")
    case False
    then show ?thesis
      using pairs [OF _ assms(2)] by (simp add: refresh_even_def e)
  next
    case True
    have l: "load b (unat L) = Some (ds ! unat L)"
      using assms by (simp add: load_slots)
    have cs: "count_bits (ds ! unat L) 32 = word_of_nat (cnt ds (32 * unat L) (32 * unat L + 32))"
      using cnt_slot [OF assms(2)] by (simp add: count_bits_word top_count_32)
    show ?thesis
    proof (cases "L = 0")
      case True
      then show ?thesis
        using l cs by (simp add: refresh_even_def)
    next
      case False
      then have u: "unat (L - 1) = unat L - 1" "0 < unat L"
        by (simp_all add: unat_minus_one unat_gt_0)
      have "odd (unat L - 1)"
        using \<open>even (unat L)\<close> u(2) by simp
      then have r: "refresh_pairs b (L - 1) x = Some (x + word_of_nat (cnt ds 0 (32 * unat L)))" for x
        using pairs [of "L - 1" x] u assms(2) by simp
      have "cnt ds 0 (32 * (unat L + 1)) =
          cnt ds (32 * unat L) (32 * unat L + 32) + cnt ds 0 (32 * unat L)"
        using cnt_split [of 0 "32 * unat L" "32 * unat L + 32" ds] by (simp add: add.commute)
      then show ?thesis
        using l cs e \<open>even (unat L)\<close> False by (simp add: refresh_even_def r add.assoc)
    qed
  qed
qed

lemma slots_aligned: "m mod 32 = 0 \<Longrightarrow> (m + 31) div 32 = m div 32" for m :: nat
  by (auto simp: mod_eq_0_iff_dvd)

lemma slots_partial: "m mod 32 \<noteq> 0 \<Longrightarrow> (m + 31) div 32 = m div 32 + 1" for m :: nat
proof -
  assume "m mod 32 \<noteq> 0"
  moreover have "m mod 32 < 32"
    by simp
  ultimately have "(m mod 32 + 31) div 32 = 1"
    by (intro div_nat_eqI) simp_all
  moreover have "m + 31 = (m mod 32 + 31) + 32 * (m div 32)"
    by simp
  then have "(m + 31) div 32 = m div 32 + (m mod 32 + 31) div 32"
    by (simp only: div_mult_self2)
  ultimately show ?thesis
    by simp
qed

lemma scan_set_count_items:
  assumes "bm_shape b" "b_itemCount b \<noteq> 0"
  shows "scan_set_count b = Some (word_of_nat (card (items b)))"
proof -
  let ?ds = "slots b" and ?n = "unat (b_itemCount b)" and ?L = "b_slotCount b - 1"
  let ?t = "b_itemCount b AND SLOT_SIZE_BIT_MASK"
  have n: "0 < ?n"
    using assms(2) by (simp add: unat_gt_0)
  have len: "length ?ds = (?n + 31) div 32" "unat (b_slotCount b) = (?n + 31) div 32"
    using shape_length shape_slotCount assms(1) by auto
  have "b_slotCount b \<noteq> 0"
  proof
    assume "b_slotCount b = 0"
    with len(2) n show False by simp
  qed
  then have L: "unat ?L = (?n + 31) div 32 - 1" "unat ?L < length ?ds"
    using n len unat_minus_one [of "b_slotCount b"] by auto
  have t: "unat ?t = ?n mod 32"
    using rem_mod [of "b_itemCount b"] by (simp add: rem_def)
  have d: "b_data b = Some ?ds"
    using shape_data [OF assms(1)] .
  show ?thesis
  proof (cases "?n mod 32 = 0")
    case True
    then have "?t = 0"
      using t unat_eq_zero [of ?t] by simp
    moreover have "32 * (unat ?L + 1) = ?n"
      unfolding L(1) slots_aligned [OF True] using True n by auto
    ultimately show ?thesis
      using refresh_even_cnt [OF d L(2), of 0] d by (simp add: scan_set_count_def card_items)
  next
    case False
    then have t0: "?t \<noteq> 0"
      using t unat_eq_zero [of ?t] by simp
    have Ln: "unat ?L = ?n div 32"
      unfolding L(1) slots_partial [OF False] by simp
    have l: "load b (unat ?L) = Some (?ds ! unat ?L)"
      using d L(2) by (simp add: load_slots)
    have c: "count_bits (?ds ! unat ?L) ?t = word_of_nat (cnt ?ds (32 * (?n div 32)) ?n)"
      using cnt_slot_top [OF L(2), of "?n mod 32"] t Ln by (simp add: count_bits_word)
    show ?thesis
    proof (cases "?L = 0")
      case True
      then have "?n div 32 = 0"
        using Ln by simp
      then show ?thesis
        using l c t0 True d by (simp add: scan_set_count_def card_items Let_def)
    next
      case F: False
      then have u: "unat (?L - 1) = ?n div 32 - 1" "0 < ?n div 32"
        using unat_minus_one [OF F] Ln unat_gt_0 [of ?L] by auto
      then have "unat (?L - 1) < length ?ds"
        using L(2) Ln by simp
      from refresh_even_cnt [OF d this]
      have r: "refresh_even b (?L - 1) x = Some (x + word_of_nat (cnt ?ds 0 (32 * (unat (?L - 1) + 1))))" for x .
      have e: "unat (?L - 1) + 1 = ?n div 32"
        using u by simp
      have "scan_set_count b = refresh_even b (?L - 1) (count_bits (?ds ! unat ?L) ?t)"
        using l t0 F d by (simp add: scan_set_count_def Let_def)
      also have "\<dots> = Some (word_of_nat (cnt ?ds (32 * (?n div 32)) ?n) +
          word_of_nat (cnt ?ds 0 (32 * (?n div 32))))"
        unfolding r c e ..
      finally show ?thesis
        using cnt_split [of 0 "32 * (?n div 32)" ?n ?ds] by (simp add: card_items add.commute)
    qed
  qed
qed

end
