(* ===== verification/BitmapOps.thy ===== *)
theory BitmapOps
  imports BitmapCorrect
begin

text \<open>
  The operations on whole bitmaps and on ranges: the set operators, iteration, range tests, range resets
  and counts, each related to the set of items.
\<close>

section \<open>Loops over slots\<close>

lemma bit_index_less [simp]: "31 - j < (32 :: nat)"
  by simp

definition update_slots :: "(nat \<Rightarrow> u32 \<Rightarrow> u32) \<Rightarrow> nat list \<Rightarrow> u32 list \<Rightarrow> u32 list" where
  "update_slots g is ds = map (\<lambda>i. if i \<in> set is then g i (ds ! i) else ds ! i) [0..<length ds]"

lemma length_update_slots [simp]: "length (update_slots g is ds) = length ds"
  by (simp add: update_slots_def)

lemma nth_update_slots:
  "i < length ds \<Longrightarrow> update_slots g is ds ! i = (if i \<in> set is then g i (ds ! i) else ds ! i)"
  by (simp add: update_slots_def)

lemma update_slots_Cons:
  assumes "i < length ds" "i \<notin> set is"
  shows "update_slots g is (ds[i := g i (ds ! i)]) = update_slots g (i # is) ds"
  using assms by (auto intro!: nth_equalityI simp: nth_update_slots nth_list_update)

lemma modify_slots_eq:
  assumes "b_data b = Some ds" "distinct is" "\<forall>i \<in> set is. i < length ds \<and> f i (ds ! i) = Some (g i (ds ! i))"
  shows "modify_slots f is b = Some (b\<lparr>b_data := Some (update_slots g is ds)\<rparr>)"
  using assms
proof (induction "is" arbitrary: b ds)
  case Nil
  have "update_slots g [] ds = ds"
    by (simp add: update_slots_def map_nth)
  with Nil.prems(1) show ?case by simp
next
  case (Cons i "is")
  let ?ds = "ds[i := g i (ds ! i)]" and ?b = "b\<lparr>b_data := Some (ds[i := g i (ds ! i)])\<rparr>"
  have i: "i < length ds" "f i (ds ! i) = Some (g i (ds ! i))" "i \<notin> set is"
    using Cons.prems by auto
  have "modify_slots f is ?b = Some (?b\<lparr>b_data := Some (update_slots g is ?ds)\<rparr>)"
    using Cons.prems by (intro Cons.IH) (auto simp: nth_list_update)
  then show ?case
    using i Cons.prems(1) update_slots_Cons [OF i(1,3), of g]
    by (simp add: load_slots store_slots)
qed

lemma bit_at_update_slots:
  "bit_at (update_slots g is ds) k \<longleftrightarrow> k div 32 < length ds \<and>
     bit (if k div 32 \<in> set is then g (k div 32) (ds ! (k div 32)) else ds ! (k div 32)) (31 - k mod 32)"
  by (auto simp: bit_at_def nth_update_slots)

lemma update_slots_shape:
  assumes "bm_shape b" "ds = update_slots g is (slots b)"
  shows "bm_shape (b\<lparr>b_data := Some ds\<rparr>)"
  using shape_data_update [OF assms(1)] assms(2) by simp

lemma refresh_wf:
  assumes "bm_shape b" "b_itemCount b \<noteq> 0"
  shows "refresh_set_count b = Some (b\<lparr>b_setCount := word_of_nat (card (items b))\<rparr>)"
    "bm_wf (b\<lparr>b_setCount := word_of_nat (card (items b))\<rparr>)"
proof -
  show "refresh_set_count b = Some (b\<lparr>b_setCount := word_of_nat (card (items b))\<rparr>)"
    by (simp add: refresh_set_count_def scan_set_count_items [OF assms])
  have "card (items b) < 2 ^ 32"
    using card_items_le [of b] unsigned_less [of "b_itemCount b", where ?'a = nat] by simp
  then show "bm_wf (b\<lparr>b_setCount := word_of_nat (card (items b))\<rparr>)"
    using assms(1) by (simp add: bm_wf_def unat_of_nat)
qed

section \<open>Set operators\<close>

lemma map_plus_upt: "map (\<lambda>j. a + j) [0..<k] = [a..<a + k]" for a k :: nat
  by (rule nth_equalityI) simp_all

lemma batch_indices_upt: "batch_indices n = [0..<n]"
proof -
  have "concat (map (\<lambda>k. map (\<lambda>j. w * k + j) [0..<w]) [0..<m]) = [0..<w * m]" for m w :: nat
  proof (induction m)
    case (Suc m)
    then have "concat (map (\<lambda>k. map (\<lambda>j. w * k + j) [0..<w]) [0..<Suc m]) = [0..<w * m] @ [w * m..<w * m + w]"
      by (simp add: map_plus_upt)
    also have "\<dots> = [0..<w * m + w]"
      by (rule upt_add_eq_append [symmetric]) simp
    finally show ?case
      by (simp only: mult_Suc_right add.commute)
  qed simp
  then have "batch_indices n = [0..<32 * (n div 32)] @ [32 * (n div 32)..<32 * (n div 32) + n mod 32]"
    unfolding batch_indices_def map_plus_upt by simp
  also have "\<dots> = [0..<32 * (n div 32) + n mod 32]"
    by (rule upt_add_eq_append [symmetric]) simp
  finally show ?thesis by simp
qed

text \<open>One lemma for the three binary operators: \<open>F\<close> is the operation on a bit.\<close>

lemma binary_operator:
  assumes b: "bm_shape b" and c: "bm_shape c" and n: "b_itemCount c = b_itemCount b" "b_itemCount b \<noteq> 0"
    and F: "\<And>d e j. j < 32 \<Longrightarrow> bit (f d e) j = F (bit d j) (bit e j)"
  obtains b' where
    "do { b1 \<leftarrow> modify_slots (\<lambda>i d. map_option (f d) (load c i)) [0..<unat (b_slotCount b)] b; refresh_set_count b1 } = Some b'"
    "bm_wf b'" "b_itemCount b' = b_itemCount b"
    "\<And>i. bit_at (slots b') i \<longleftrightarrow> i < 32 * length (slots b) \<and> F (bit_at (slots b) i) (bit_at (slots c) i)"
proof -
  let ?is = "[0..<unat (b_slotCount b)]"
  let ?ds = "update_slots (\<lambda>i d. f d (slots c ! i)) ?is (slots b)"
  let ?b1 = "b\<lparr>b_data := Some ?ds\<rparr>"
  have len: "length (slots b) = unat (b_slotCount b)" "length (slots c) = unat (b_slotCount b)"
    using b c n shape_length by (auto simp: bm_shape_def)
  have m: "modify_slots (\<lambda>i d. map_option (f d) (load c i)) ?is b = Some ?b1"
    using b c len by (intro modify_slots_eq) (auto simp: bm_shape_def load_slots)
  have sh: "bm_shape ?b1"
    using b by (rule update_slots_shape) simp
  have nz: "b_itemCount ?b1 \<noteq> 0"
    using n by simp
  have bits: "bit_at ?ds i \<longleftrightarrow> i < 32 * length (slots b) \<and> F (bit_at (slots b) i) (bit_at (slots c) i)" for i
  proof -
    have "i div 32 < length (slots b) \<longleftrightarrow> i < 32 * length (slots b)"
      by (simp add: less_mult_imp_div_less div_less_iff_less_mult mult.commute)
    then show ?thesis
      using len F [of "31 - i mod 32"] by (auto simp: nth_update_slots bit_at_def)
  qed
  show ?thesis
    by (rule that [of "?b1\<lparr>b_setCount := word_of_nat (card (items ?b1))\<rparr>"])
      (use m refresh_wf [OF sh nz] bits in simp_all)
qed

lemma flip_slot_bit:
  assumes "n \<le> 32" "j < 32"
  shows "bit (flip_slot n d) (31 - j) \<longleftrightarrow> (if j < n then \<not> bit d (31 - j) else bit d (31 - j))"
  using assms(1)
proof (induction n)
  case (Suc n)
  have n: "n < 32"
    using Suc.prems by simp
  have "flip_slot (Suc n) d = (if bit d (31 - n) then flip_slot n d AND NOT (BITMAPOPMASK ! n)
      else flip_slot n d OR BITMAPOPMASK ! n)"
    using n by (simp add: flip_slot_def and_op_mask)
  moreover have "31 - j = 31 - n \<longleftrightarrow> j = n"
    using n assms(2) by auto
  ultimately show ?case
    using Suc n assms(2)
    by (auto simp: bit_and_iff bit_or_iff bit_not_iff bit_op_mask)
qed (simp add: flip_slot_def)

lemma shape_last:
  assumes "bm_shape b" "b_itemCount b \<noteq> 0"
  shows "unat (b_slotCount b - 1) = length (slots b) - 1" "0 < length (slots b)"
    "32 * (length (slots b) - 1) < unat (b_itemCount b)" "unat (b_itemCount b) \<le> 32 * length (slots b)"
proof -
  let ?n = "unat (b_itemCount b)"
  have n: "0 < ?n"
    using assms(2) by (simp add: unat_gt_0)
  have len: "length (slots b) = (?n + 31) div 32" "unat (b_slotCount b) = length (slots b)"
    using shape_length [OF assms(1)] assms(1) by (auto simp: bm_shape_def)
  show pos: "0 < length (slots b)"
    using n len(1) by simp
  then have "b_slotCount b \<noteq> 0"
    using len(2) by auto
  then show "unat (b_slotCount b - 1) = length (slots b) - 1"
    using len(2) unat_minus_one [of "b_slotCount b"] by simp
  show "32 * (length (slots b) - 1) < ?n" "?n \<le> 32 * length (slots b)"
    using len(1) n div_mult_mod_eq [of "?n + 31" 32] mod_less_divisor [of 32 "?n + 31"] by linarith+
qed

lemma unat_times_slot: "32 * unat x < 2 ^ 32 \<Longrightarrow> unat (x * SLOT_SIZE) = 32 * unat x"
  by (simp add: SLOT_SIZE_def unat_word_ariths mult.commute)

lemma bm_complement_bits:
  assumes "bm_shape b" "b_itemCount b \<noteq> 0"
  obtains ds where "bm_complement b = Some (b\<lparr>b_setCount := get_unset_count b, b_data := Some ds\<rparr>)"
    "length ds = length (slots b)"
    "\<And>i. bit_at ds i \<longleftrightarrow> (if i < unat (b_itemCount b) then \<not> bit_at (slots b) i else bit_at (slots b) i)"
proof -
  let ?ds = "slots b" and ?n = "unat (b_itemCount b)" and ?L = "b_slotCount b - 1"
  let ?c = "b_itemCount b - ?L * SLOT_SIZE"
  let ?d1 = "update_slots (\<lambda>_ d. NOT d) [0..<unat ?L] ?ds"
  let ?d2 = "update_slots (\<lambda>_ d. flip_slot (unat ?c) d) [unat ?L] ?d1"
  let ?b0 = "b\<lparr>b_setCount := get_unset_count b\<rparr>"
  note L = shape_last [OF assms]
  have u: "unat (?L * SLOT_SIZE) = 32 * unat ?L"
    using L(1,3) unsigned_less [of "b_itemCount b", where ?'a = nat]
    by (intro unat_times_slot) (simp del: unsigned_less)
  have c: "unat ?c = ?n - 32 * unat ?L"
    using u L(1,3) by (simp add: unat_sub word_le_nat_alt)
  have c32: "unat ?c \<le> 32"
    using c L by simp
  have m1: "modify_slots (\<lambda>_ d. Some (NOT d)) [0..<unat ?L] ?b0 = Some (?b0\<lparr>b_data := Some ?d1\<rparr>)"
    using shape_data [OF assms(1)] L by (intro modify_slots_eq) auto
  have m2: "modify_slots (\<lambda>_ d. Some (flip_slot (unat ?c) d)) [unat ?L] (?b0\<lparr>b_data := Some ?d1\<rparr>) =
      Some (?b0\<lparr>b_data := Some ?d1, b_data := Some ?d2\<rparr>)"
    using L by (intro modify_slots_eq) auto
  have "bm_complement b = Some (?b0\<lparr>b_data := Some ?d2\<rparr>)"
    using m1 m2 c32 by (simp add: bm_complement_def Let_def word_less_nat_alt)
  moreover have "bit_at ?d2 i \<longleftrightarrow> (if i < ?n then \<not> bit_at ?ds i else bit_at ?ds i)" for i
  proof (cases "i div 32 < unat ?L")
    case True
    then have "i < 32 * unat ?L"
      by (simp add: div_less_iff_less_mult mult.commute)
    then show ?thesis
      using True L by (simp add: bit_at_def nth_update_slots bit_not_iff)
  next
    case False
    show ?thesis
    proof (cases "i div 32 = unat ?L")
      case True
      have "i = 32 * unat ?L + i mod 32"
        using True by (metis mult_div_mod_eq)
      moreover have "32 * unat ?L < ?n"
        using L(1,3) by simp
      ultimately have "i < ?n \<longleftrightarrow> i mod 32 < unat ?c"
        using c by linarith
      then show ?thesis
        using True L c32 by (simp add: bit_at_def nth_update_slots flip_slot_bit)
    next
      case F: False
      then have "\<not> i div 32 < length ?ds"
        using False L by auto
      then show ?thesis
        using L(4) by (auto simp: bit_at_def div_less_iff_less_mult)
    qed
  qed
  ultimately show ?thesis
    by (intro that [of ?d2]) simp_all
qed

section \<open>Iteration\<close>

text \<open>The first set bit from position \<open>a\<close> on.\<close>

definition next_item :: "u32 list \<Rightarrow> nat \<Rightarrow> u32" where
  "next_item ds a = (if \<exists>i \<ge> a. bit_at ds i then word_of_nat (LEAST i. a \<le> i \<and> bit_at ds i) else INVALID_INDEX)"

lemma next_item_hit:
  assumes "a \<le> m" "bit_at ds m" "\<And>i. a \<le> i \<Longrightarrow> i < m \<Longrightarrow> \<not> bit_at ds i"
  shows "next_item ds a = word_of_nat m"
proof -
  have "(LEAST i. a \<le> i \<and> bit_at ds i) = m"
    using assms by (intro Least_equality) (auto simp: not_less [symmetric])
  then show ?thesis
    using assms(1,2) by (auto simp: next_item_def)
qed

lemma next_item_skip:
  assumes "a \<le> a'" "\<And>i. a \<le> i \<Longrightarrow> i < a' \<Longrightarrow> \<not> bit_at ds i"
  shows "next_item ds a = next_item ds a'"
proof -
  have "(\<lambda>i. a \<le> i \<and> bit_at ds i) = (\<lambda>i. a' \<le> i \<and> bit_at ds i)"
    using assms by (auto simp: fun_eq_iff) (meson not_le)
  then show ?thesis
    unfolding next_item_def by metis
qed

lemma next_item_end: "32 * length ds \<le> a \<Longrightarrow> next_item ds a = INVALID_INDEX"
  by (auto simp: next_item_def bit_at_def div_less_iff_less_mult)

lemma takeWhile_shorter: "x \<in> set xs \<Longrightarrow> \<not> P x \<Longrightarrow> length (takeWhile P xs) < length xs"
  by (induction xs) auto

lemma builtin_clz_first:
  assumes "d \<noteq> 0"
  shows "unat (builtin_clz d) < 32" "bit d (31 - unat (builtin_clz d))"
    "j < unat (builtin_clz d) \<Longrightarrow> \<not> bit d (31 - j)"
proof -
  let ?xs = "takeWhile (\<lambda>i. \<not> bit d (31 - i)) [0..<32]"
  obtain k where "bit d k"
    using assms bit_eq_iff [of d 0] by auto
  then have "k < 32" "bit d (31 - (31 - k))"
    using bit_imp_less_32 [of d k] by simp_all
  then have "31 - k \<in> set [0..<32]" "\<not> \<not> bit d (31 - (31 - k))"
    by simp_all
  then have len: "length ?xs < 32"
    using takeWhile_shorter [of "31 - k" "[0..<32]" "\<lambda>i. \<not> bit d (31 - i)"] by simp
  then have u: "unat (builtin_clz d) = length ?xs"
    by (simp add: builtin_clz_def unat_of_nat)
  show "unat (builtin_clz d) < 32"
    using u len by simp
  show "bit d (31 - unat (builtin_clz d))"
    using nth_length_takeWhile [of "\<lambda>i. \<not> bit d (31 - i)" "[0..<32]"] len u by simp
  show "\<not> bit d (31 - j)" if "j < unat (builtin_clz d)"
    using that u len takeWhile_nth [of j "\<lambda>i. \<not> bit d (31 - i)" "[0..<32]"]
      set_takeWhileD [of "?xs ! j" "\<lambda>i. \<not> bit d (31 - i)" "[0..<32]"] nth_mem [of j ?xs] by simp
qed

text \<open>A slot whose bits before \<open>r\<close> are masked out, with the mask giving \<open>d\<close>.\<close>

lemma next_item_slot:
  assumes "q < length ds" "r < 32" "d \<noteq> 0" "\<And>j. j < 32 \<Longrightarrow> bit d (31 - j) \<longleftrightarrow> r \<le> j \<and> bit (ds ! q) (31 - j)"
  shows "next_item ds (32 * q + r) = word_of_nat q * SLOT_SIZE + builtin_clz d"
proof -
  let ?z = "unat (builtin_clz d)"
  note z = builtin_clz_first [OF assms(3)]
  have "next_item ds (32 * q + r) = word_of_nat (32 * q + ?z)"
  proof (rule next_item_hit)
    show "32 * q + r \<le> 32 * q + ?z" "bit_at ds (32 * q + ?z)"
      using z assms by (auto simp: bit_at_slot)
    fix i
    assume "32 * q + r \<le> i" "i < 32 * q + ?z"
    then have "i = 32 * q + (i - 32 * q)" "r \<le> i - 32 * q" "i - 32 * q < ?z"
      by linarith+
    then obtain j where "i = 32 * q + j" "r \<le> j" "j < ?z"
      by blast
    then show "\<not> bit_at ds i"
      using z assms by (auto simp: bit_at_slot)
  qed
  then show ?thesis
    by (simp add: SLOT_SIZE_def mult.commute)
qed

lemma next_item_empty_slot:
  assumes "q < length ds" "r \<le> 32" "\<And>j. r \<le> j \<Longrightarrow> j < 32 \<Longrightarrow> \<not> bit (ds ! q) (31 - j)"
  shows "next_item ds (32 * q + r) = next_item ds (32 * (q + 1))"
proof (rule next_item_skip)
  show "32 * q + r \<le> 32 * (q + 1)"
    using assms(2) by simp
  fix i
  assume "32 * q + r \<le> i" "i < 32 * (q + 1)"
  then have "i = 32 * q + (i - 32 * q)" "r \<le> i - 32 * q" "i - 32 * q < 32"
    by (simp_all add: less_diff_conv2)
  then obtain j where "i = 32 * q + j" "r \<le> j" "j < 32"
    by blast
  then show "\<not> bit_at ds i"
    using assms by (simp add: bit_at_slot)
qed

lemma begin_scan_next:
  assumes "b_data b = Some ds"
  shows "begin_scan b [q..<length ds] = Some (next_item ds (32 * q))"
proof (induction "length ds - q" arbitrary: q)
  case 0
  then show ?case by (simp add: next_item_end)
next
  case (Suc k)
  then have q: "q < length ds" by simp
  then have split: "[q..<length ds] = q # [Suc q..<length ds]"
    by (rule upt_conv_Cons)
  have l: "load b q = Some (ds ! q)"
    using q assms by (simp add: load_slots)
  show ?case
  proof (cases "ds ! q = 0")
    case True
    then show ?thesis
      using Suc l split next_item_empty_slot [OF q, of 0] by simp
  next
    case False
    then show ?thesis
      using l split next_item_slot [OF q, of 0 "ds ! q"] by simp
  qed
qed

end
