(* ===== verification/BitmapRange.thy ===== *)
theory BitmapRange
  imports BitmapOps
begin

text \<open>
  Iteration from an index, and the operations on a range of items: the masks of partial slots, the range
  test, the range reset and the range count.
\<close>

section \<open>Masks\<close>

lemma next_mask_bit: "r < 32 \<Longrightarrow> bit (BITMAP_NEXT_MASK ! r) i \<longleftrightarrow> i \<le> 31 - r"
proof -
  assume r: "r < 32"
  have "BITMAP_NEXT_MASK = map (\<lambda>r. mask (32 - r)) [0..<32]"
    by code_simp
  also have "\<dots> ! r = mask (32 - r)"
    using r by (subst nth_map) simp_all
  finally show ?thesis
    using r by (auto simp: bit_mask_iff)
qed

lemma op_mask_pred: "r < 32 \<Longrightarrow> BITMAPOPMASK ! r - 1 = mask (31 - r)"
  by (simp add: op_mask_nth mask_eq_exp_minus_1)

lemma from_mask_eq: "r < 32 \<Longrightarrow> from_mask r = mask (32 - r)"
proof -
  assume r: "r < 32"
  show ?thesis
  proof (rule bit_word_eqI)
    fix i
    assume "i < LENGTH(32)"
    then show "bit (from_mask r) i = bit (mask (32 - r) :: u32) i"
      using r by (auto simp: from_mask_def op_mask_pred bit_or_iff bit_op_mask bit_mask_iff)
  qed
qed

lemma from_mask_tail: "r < 32 \<Longrightarrow> j < 32 \<Longrightarrow> bit (from_mask r) (31 - j) \<longleftrightarrow> r \<le> j"
  by (auto simp: from_mask_eq bit_mask_iff)

lemma op_mask_pred_head: "r < 32 \<Longrightarrow> j < 32 \<Longrightarrow> bit (BITMAPOPMASK ! r - 1) (31 - j) \<longleftrightarrow> \<not> j \<le> r"
  by (auto simp: op_mask_pred bit_mask_iff)

lemma between_mask_bit:
  assumes "r \<le> r'" "r' < 32" "j < 32"
  shows "bit (between_mask r r') (31 - j) \<longleftrightarrow> r \<le> j \<and> j \<le> r'"
proof -
  have "mask (31 - r') AND (mask (32 - r) AND NOT (mask (31 - r'))) = (0 :: u32)"
    by (rule bit_word_eqI) (simp add: bit_simps)
  then have "mask (31 - r') + (mask (32 - r) AND NOT (mask (31 - r'))) =
      mask (31 - r') OR (mask (32 - r) AND NOT (mask (31 - r')) :: u32)"
    by (rule disjunctive_add_eq_or)
  also have "\<dots> = mask (32 - r)"
    using assms(1,2) by (intro bit_word_eqI) (auto simp: bit_simps)
  finally have "between_mask r r' = mask (32 - r) AND NOT (mask (31 - r'))"
    using assms by (simp add: between_mask_def from_mask_eq op_mask_pred algebra_simps)
  then show ?thesis
    using assms by (auto simp: bit_simps)
qed

lemma slot_nonzero: "(d :: u32) \<noteq> 0 \<longleftrightarrow> (\<exists>j < 32. bit d (31 - j))"
proof
  assume "d \<noteq> 0"
  then obtain k where "bit d k"
    using bit_eq_iff [of d 0] by auto
  then show "\<exists>j < 32. bit d (31 - j)"
    using bit_imp_less_32 [of d k] by (intro exI [of _ "31 - k"]) simp
qed auto

section \<open>Next\<close>

lemma next_scan_rest:
  assumes "b_data b = Some ds" "q < p"
  shows "next_scan b q r [p..<length ds] = begin_scan b [p..<length ds]"
proof -
  have "q \<notin> set is \<Longrightarrow> next_scan b q r is = begin_scan b is" for "is"
    by (induction "is") (auto intro!: Option.bind_cong)
  then show ?thesis
    using assms(2) by simp
qed

lemma next_scan_next:
  assumes "b_data b = Some ds" "q < length ds" "r < 32"
  shows "next_scan b q r [q..<length ds] = Some (next_item ds (32 * q + r))"
proof -
  let ?d = "ds ! q AND BITMAP_NEXT_MASK ! r"
  have split: "[q..<length ds] = q # [Suc q..<length ds]"
    using assms(2) by (rule upt_conv_Cons)
  have l: "load b q = Some (ds ! q)"
    using assms by (simp add: load_slots)
  have bits: "bit ?d (31 - j) \<longleftrightarrow> r \<le> j \<and> bit (ds ! q) (31 - j)" if "j < 32" for j
    using that assms(3) by (auto simp: bit_and_iff next_mask_bit)
  show ?thesis
  proof (cases "?d = 0")
    case True
    then have "\<not> bit (ds ! q) (31 - j)" if "r \<le> j" "j < 32" for j
      using bits [of j] that by simp
    then show ?thesis
      using True l split assms next_scan_rest [OF assms(1), of q "Suc q" r]
        begin_scan_next [OF assms(1), of "Suc q"] next_item_empty_slot [OF assms(2), of r]
      by simp
  next
    case False
    then show ?thesis
      using l split next_item_slot [OF assms(2,3) False bits] by (simp add: Let_def)
  qed
qed

section \<open>The parts of a range\<close>

definition inner_slots :: "u32 \<Rightarrow> u32 \<Rightarrow> nat list" where
  "inner_slots a e = map nat [test_start a..test_end e]"

lemma set_inner_slots:
  "set (inner_slots a e) = {k. test_start a \<le> int k \<and> int k \<le> test_end e}"
  by (auto simp: inner_slots_def test_start_def image_iff intro!: bexI [of _ "int _"] split: if_splits)

lemma distinct_inner_slots: "distinct (inner_slots a e)"
proof -
  have "inj_on nat (set [test_start a..test_end e])"
    by (rule inj_onI) (auto simp: test_start_def split: if_splits)
  then show ?thesis
    by (simp add: inner_slots_def distinct_map)
qed

lemma lex_le: "r < 32 \<Longrightarrow> s < 32 \<Longrightarrow> 32 * a + r \<le> 32 * b + s \<longleftrightarrow> a < b \<or> a = b \<and> r \<le> s"
  for a b r s :: nat
  by arith

lemma range_parts_arith:
  fixes q m qa ra qe re :: nat
  assumes "m < 32" "ra < 32" "re < 32" "qa < qe \<or> qa = qe \<and> ra \<le> re"
  shows "(qa < q \<or> qa = q \<and> ra \<le> m) \<and> (q < qe \<or> q = qe \<and> m \<le> re) \<longleftrightarrow>
    (if ra = 0 then int qa else int qa + 1) \<le> int q \<and> int q \<le> (if re = 31 then int qe else int qe - 1) \<or>
    (if qa \<noteq> qe then ra \<noteq> 0 \<and> q = qa \<and> ra \<le> m \<or> re \<noteq> 31 \<and> q = qe \<and> m \<le> re
     else (ra \<noteq> 0 \<or> re \<noteq> 31) \<and> q = qa \<and> ra \<le> m \<and> m \<le> re)"
proof (cases "qa = qe")
  case True
  then show ?thesis using assms by (cases "ra = 0"; cases "re = 31") auto
next
  case False
  then have "qa < qe" using assms by simp
  then show ?thesis using assms by (cases "ra = 0"; cases "re = 31") auto
qed
text \<open>A range of items is the union of its inner slots and the parts of the two outer ones.\<close>

lemma range_parts:
  assumes "a \<le> e"
  shows "unat a \<le> i \<and> i \<le> unat e \<longleftrightarrow>
    i div 32 \<in> set (inner_slots a e) \<or>
    (if quot a \<noteq> quot e
     then rem a \<noteq> 0 \<and> i div 32 = quot a \<and> rem a \<le> i mod 32 \<or>
          rem e \<noteq> 31 \<and> i div 32 = quot e \<and> i mod 32 \<le> rem e
     else (rem a \<noteq> 0 \<or> rem e \<noteq> 31) \<and> i div 32 = quot a \<and> rem a \<le> i mod 32 \<and> i mod 32 \<le> rem e)"
proof -
  have i: "i = 32 * (i div 32) + i mod 32" "i mod 32 < 32"
    by simp_all
  have le: "quot a < quot e \<or> quot a = quot e \<and> rem a \<le> rem e"
    using assms lex_le [of "rem a" "rem e" "quot a" "quot e"] by (simp add: word_le_nat_alt quot_rem [symmetric])
  have "unat a \<le> i \<longleftrightarrow> quot a < i div 32 \<or> quot a = i div 32 \<and> rem a \<le> i mod 32"
    using lex_le [of "rem a" "i mod 32" "quot a" "i div 32"] by (simp add: quot_rem [symmetric])
  moreover have "i \<le> unat e \<longleftrightarrow> i div 32 < quot e \<or> i div 32 = quot e \<and> i mod 32 \<le> rem e"
    using lex_le [of "i mod 32" "rem e" "i div 32" "quot e"] by (simp add: quot_rem [symmetric])
  ultimately show ?thesis
    unfolding set_inner_slots test_start_def test_end_def mem_Collect_eq
    using range_parts_arith [OF i(2) rem_less rem_less le] by simp
qed

lemma range_parts_same:
  assumes "a \<le> e" "quot a = quot e"
  shows "unat a \<le> i \<and> i \<le> unat e \<longleftrightarrow> i div 32 \<in> set (inner_slots a e) \<or>
    (rem a \<noteq> 0 \<or> rem e \<noteq> 31) \<and> i div 32 = quot a \<and> rem a \<le> i mod 32 \<and> i mod 32 \<le> rem e"
  using range_parts [OF assms(1), of i] assms(2) by simp

lemma range_parts_apart:
  assumes "a \<le> e" "quot a \<noteq> quot e"
  shows "unat a \<le> i \<and> i \<le> unat e \<longleftrightarrow> i div 32 \<in> set (inner_slots a e) \<or>
    rem a \<noteq> 0 \<and> i div 32 = quot a \<and> rem a \<le> i mod 32 \<or>
    rem e \<noteq> 31 \<and> i div 32 = quot e \<and> i mod 32 \<le> rem e"
  using range_parts [OF assms(1), of i] assms(2) by simp

lemma inner_slots_bound:
  assumes "bm_shape b" "e < b_itemCount b" "k \<in> set (inner_slots a e)"
  shows "k < length (slots b)"
  using assms shape_quot [OF assms(1,2)] by (auto simp: set_inner_slots test_end_def split: if_splits)

section \<open>HasSetData\<close>

lemma any_slot_ex:
  assumes "b_data b = Some ds" "\<forall>i \<in> set is. nat i < length ds"
  shows "any_slot b is = Some (\<exists>i \<in> set is. ds ! nat i \<noteq> 0)"
  using assms(2) by (induction "is") (auto simp: load_slots [OF assms(1)])

lemma ex_slot_bits: "(\<exists>i. i div 32 = q \<and> P (i mod 32)) \<longleftrightarrow> (\<exists>j < 32. P j)" for q :: nat
proof
  assume "\<exists>j < 32. P j"
  then obtain j where "j < 32" "P j" by blast
  then show "\<exists>i. i div 32 = q \<and> P (i mod 32)"
    by (intro exI [of _ "32 * q + j"]) simp
qed (metis mod_less_divisor zero_less_numeral)

lemma slot_part_nonzero:
  assumes "q < length ds" "\<And>j. j < 32 \<Longrightarrow> bit w (31 - j) \<longleftrightarrow> P j"
  shows "ds ! q AND w \<noteq> 0 \<longleftrightarrow> (\<exists>i. i div 32 = q \<and> P (i mod 32) \<and> bit_at ds i)"
proof -
  have "ds ! q AND w \<noteq> 0 \<longleftrightarrow> (\<exists>j < 32. P j \<and> bit (ds ! q) (31 - j))"
    using assms(2) by (auto simp: slot_nonzero bit_and_iff)
  also have "\<dots> \<longleftrightarrow> (\<exists>i. i div 32 = q \<and> P (i mod 32) \<and> bit (ds ! q) (31 - i mod 32))"
    using ex_slot_bits [of q "\<lambda>j. P j \<and> bit (ds ! q) (31 - j)"] by simp
  also have "\<dots> \<longleftrightarrow> (\<exists>i. i div 32 = q \<and> P (i mod 32) \<and> bit_at ds i)"
    using assms(1) by (auto simp: bit_at_def)
  finally show ?thesis .
qed

lemma slot_nonzero_bits: "q < length ds \<Longrightarrow> ds ! q \<noteq> 0 \<longleftrightarrow> (\<exists>i. i div 32 = q \<and> bit_at ds i)"
  using slot_part_nonzero [of q ds "-1" "\<lambda>_. True"] by simp

lemma ex_parts:
  "(\<exists>i. (I i \<or> c \<and> R i \<or> c' \<and> R' i) \<and> B i) \<longleftrightarrow>
   (\<exists>i. I i \<and> B i) \<or> c \<and> (\<exists>i. R i \<and> B i) \<or> c' \<and> (\<exists>i. R' i \<and> B i)"
  by blast

lemma has_set_data_items:
  assumes "bm_shape b" and le: "a \<le> e" and "e < b_itemCount b"
  shows "has_set_data b a e = Some (\<exists>i \<in> items b. unat a \<le> i \<and> i \<le> unat e)"
proof -
  let ?ds = "slots b" and ?in = "set (inner_slots a e)"
  have d: "b_data b = Some ?ds"
    using shape_data [OF assms(1)] .
  have qe: "quot e < length ?ds" and qa: "quot a < length ?ds"
    using shape_quot [OF assms(1)] assms(2,3) by (auto intro: le_less_trans)
  have "any_slot b [test_start a..test_end e] = Some (\<exists>i \<in> set [test_start a..test_end e]. ?ds ! nat i \<noteq> 0)"
    using inner_slots_bound [OF assms(1,3)] by (intro any_slot_ex [OF d]) (auto simp: inner_slots_def)
  also have "(\<exists>i \<in> set [test_start a..test_end e]. ?ds ! nat i \<noteq> 0) \<longleftrightarrow> (\<exists>q \<in> ?in. ?ds ! q \<noteq> 0)"
    by (simp add: inner_slots_def)
  also have "\<dots> \<longleftrightarrow> (\<exists>i. i div 32 \<in> ?in \<and> bit_at ?ds i)"
    using slot_nonzero_bits inner_slots_bound [OF assms(1,3)] by blast
  finally have inn: "any_slot b [test_start a..test_end e] = Some (\<exists>i. i div 32 \<in> ?in \<and> bit_at ?ds i)" .
  have fa: "?ds ! quot a AND from_mask (rem a) \<noteq> 0 \<longleftrightarrow> (\<exists>i. i div 32 = quot a \<and> rem a \<le> i mod 32 \<and> bit_at ?ds i)"
    using qa by (rule slot_part_nonzero) (auto simp: from_mask_eq bit_mask_iff)
  have fe: "?ds ! quot e AND NOT (BITMAPOPMASK ! rem e - 1) \<noteq> 0 \<longleftrightarrow>
      (\<exists>i. i div 32 = quot e \<and> i mod 32 \<le> rem e \<and> bit_at ?ds i)"
    using qe by (rule slot_part_nonzero) (auto simp: op_mask_pred bit_not_iff bit_mask_iff)
  have fb: "?ds ! quot a AND between_mask (rem a) (rem e) \<noteq> 0 \<longleftrightarrow>
      (\<exists>i. i div 32 = quot a \<and> (rem a \<le> i mod 32 \<and> i mod 32 \<le> rem e) \<and> bit_at ?ds i)" if "quot a = quot e"
  proof -
    have "rem a \<le> rem e"
      using that assms(2) quot_rem [of a] quot_rem [of e] by (simp add: word_le_nat_alt)
    then show ?thesis
      using qa between_mask_bit [OF _ rem_less] by (intro slot_part_nonzero) auto
  qed
  have it: "(\<exists>i \<in> items b. unat a \<le> i \<and> i \<le> unat e) \<longleftrightarrow> (\<exists>i. (unat a \<le> i \<and> i \<le> unat e) \<and> bit_at ?ds i)"
  proof -
    have "i < unat (b_itemCount b)" if "i \<le> unat e" for i
      using that assms(3) by (simp add: word_less_nat_alt)
    then show ?thesis
      unfolding items_def by blast
  qed
  define A where "A \<longleftrightarrow> (\<exists>i. i div 32 \<in> ?in \<and> bit_at ?ds i)"
  define Ba where "Ba \<longleftrightarrow> (\<exists>i. i div 32 = quot a \<and> rem a \<le> i mod 32 \<and> bit_at ?ds i)"
  define Be where "Be \<longleftrightarrow> (\<exists>i. i div 32 = quot e \<and> i mod 32 \<le> rem e \<and> bit_at ?ds i)"
  define Bb where "Bb \<longleftrightarrow> (\<exists>i. i div 32 = quot a \<and> (rem a \<le> i mod 32 \<and> i mod 32 \<le> rem e) \<and> bit_at ?ds i)"
  note defs = inn [folded A_def] fa [folded Ba_def] fe [folded Be_def] fb [folded Bb_def]
    load_slots [OF d qa] load_slots [OF d qe]
  show ?thesis
  proof (cases "quot a = quot e")
    case True
    have "has_set_data b a e = Some (A \<or> (rem a \<noteq> 0 \<or> rem e \<noteq> 31) \<and> Bb)"
      using True defs(1,4,5) by (cases A) (simp_all add: has_set_data_def)
    also have "(A \<or> (rem a \<noteq> 0 \<or> rem e \<noteq> 31) \<and> Bb) \<longleftrightarrow> (\<exists>i \<in> items b. unat a \<le> i \<and> i \<le> unat e)"
      unfolding it
      unfolding range_parts_same [OF le True] A_def Bb_def
      using ex_parts [of "\<lambda>i. i div 32 \<in> ?in" "rem a \<noteq> 0 \<or> rem e \<noteq> 31"
          "\<lambda>i. i div 32 = quot a \<and> rem a \<le> i mod 32 \<and> i mod 32 \<le> rem e" False "\<lambda>_. False" "bit_at ?ds"]
      by (simp only: conj_assoc simp_thms)
    finally show ?thesis .
  next
    case False
    have "has_set_data b a e = Some (A \<or> rem a \<noteq> 0 \<and> Ba \<or> rem e \<noteq> 31 \<and> Be)"
      using False defs(1-3,5,6) by (cases A; cases Ba) (simp_all add: has_set_data_def)
    also have "(A \<or> rem a \<noteq> 0 \<and> Ba \<or> rem e \<noteq> 31 \<and> Be) \<longleftrightarrow> (\<exists>i \<in> items b. unat a \<le> i \<and> i \<le> unat e)"
      unfolding it
      unfolding range_parts_apart [OF le False] A_def Ba_def Be_def
      using ex_parts [of "\<lambda>i. i div 32 \<in> ?in" "rem a \<noteq> 0" "\<lambda>i. i div 32 = quot a \<and> rem a \<le> i mod 32"
          "rem e \<noteq> 31" "\<lambda>i. i div 32 = quot e \<and> i mod 32 \<le> rem e" "bit_at ?ds"]
      by (simp only: conj_assoc)
    finally show ?thesis .
  qed
qed

section \<open>Clearing bits\<close>

definition clears :: "'a bitmap_scheme \<Rightarrow> nat set \<Rightarrow> 'a bitmap_scheme \<Rightarrow> bool" where
  "clears b S b' \<longleftrightarrow> b_data b = Some (slots b) \<and> b' = b\<lparr>b_data := Some (slots b')\<rparr> \<and>
     length (slots b') = length (slots b) \<and> (\<forall>i. bit_at (slots b') i \<longleftrightarrow> bit_at (slots b) i \<and> i \<notin> S)"

lemma clears_refl: "b_data b = Some (slots b) \<Longrightarrow> clears b {} b"
  by (simp add: clears_def)

lemma clears_data: "clears b S b' \<Longrightarrow> b_data b' = Some (slots b')"
  unfolding clears_def by (metis bitmap.simps(3) bitmap.surjective bitmap.update_convs(3))

lemma clears_trans: "clears b S b1 \<Longrightarrow> clears b1 T b2 \<Longrightarrow> clears b (S \<union> T) b2"
  unfolding clears_def by (auto intro: bitmap.equality) (metis bitmap.update_convs(3) bitmap.surjective)

lemma modify_clears:
  assumes "b_data b = Some (slots b)" "distinct is" "\<forall>i \<in> set is. i < length (slots b)"
    and "\<And>d j. j < 32 \<Longrightarrow> bit (g d) (31 - j) \<longleftrightarrow> bit d (31 - j) \<and> \<not> P j"
  shows "\<exists>b'. modify_slots (\<lambda>_ d. Some (g d)) is b = Some b' \<and>
    clears b {i. i div 32 \<in> set is \<and> P (i mod 32)} b'"
proof -
  let ?b' = "b\<lparr>b_data := Some (update_slots (\<lambda>_. g) is (slots b))\<rparr>"
  have "modify_slots (\<lambda>_ d. Some (g d)) is b = Some ?b'"
    using assms by (intro modify_slots_eq) auto
  moreover have "clears b {i. i div 32 \<in> set is \<and> P (i mod 32)} ?b'"
    using assms(1,4) by (auto simp: clears_def bit_at_def nth_update_slots split: if_splits)
  ultimately show ?thesis
    by blast
qed

lemma clears_items:
  assumes "clears b S b'"
  shows "items b' = items b - S" "b_itemCount b' = b_itemCount b" "b_setCount b' = b_setCount b"
    "b_slotCount b' = b_slotCount b" "bm_shape b \<Longrightarrow> bm_shape b'"
proof -
  obtain ds where b': "b' = b\<lparr>b_data := Some ds\<rparr>" "slots b' = ds"
    using assms by (auto simp: clears_def)
  show "b_itemCount b' = b_itemCount b" "b_setCount b' = b_setCount b" "b_slotCount b' = b_slotCount b"
    by (simp_all add: b')
  then show "items b' = items b - S"
    using assms by (auto simp: items_def clears_def)
  show "bm_shape b \<Longrightarrow> bm_shape b'"
    using assms b' shape_data_update [of b ds] by (simp add: clears_def)
qed

section \<open>ResetBetween\<close>

lemma reset_between_clears:
  assumes sh: "bm_shape b" and le: "a \<le> e" and e: "e < b_itemCount b"
  obtains b' where "reset_between b a e = Some b'" "clears b {unat a..unat e} b'"
proof -
  have qe: "quot e < length (slots b)" and qa: "quot a < length (slots b)"
    using shape_quot [OF sh] le e by (auto intro: le_less_trans)
  have "\<forall>i \<in> set (inner_slots a e). i < length (slots b)"
    using inner_slots_bound [OF sh e] by blast
  then obtain b1 where b1: "modify_slots (\<lambda>_ _. Some 0) (inner_slots a e) b = Some b1"
    "clears b {i. i div 32 \<in> set (inner_slots a e) \<and> True} b1"
    using modify_clears [OF shape_data [OF sh] distinct_inner_slots, of a e "\<lambda>_. 0" "\<lambda>_. True"] by force
  have len1: "length (slots b1) = length (slots b)"
    using b1(2) by (simp add: clears_def)
  show ?thesis
  proof (cases "quot a = quot e")
    case True
    then have "rem a \<le> rem e"
      using le quot_rem [of a] quot_rem [of e] by (simp add: word_le_nat_alt)
    then have "\<exists>b2. modify_slots (\<lambda>_ d. Some (d AND NOT (between_mask (rem a) (rem e)))) [quot a] b1 = Some b2 \<and>
        clears b1 {i. i div 32 \<in> set [quot a] \<and> rem a \<le> i mod 32 \<and> i mod 32 \<le> rem e} b2"
      using qa len1
      by (intro modify_clears [OF clears_data [OF b1(2)], where P = "\<lambda>j. rem a \<le> j \<and> j \<le> rem e"])
        (simp_all add: bit_and_iff bit_not_iff between_mask_bit)
    then obtain b2 where b2:
      "modify_slots (\<lambda>_ d. Some (d AND NOT (between_mask (rem a) (rem e)))) [quot a] b1 = Some b2"
      "clears b1 {i. i div 32 \<in> set [quot a] \<and> rem a \<le> i mod 32 \<and> i mod 32 \<le> rem e} b2"
      by blast
    show ?thesis
    proof (cases "rem a \<noteq> 0 \<or> rem e \<noteq> 31")
      case T: True
      have "{i. i div 32 \<in> set (inner_slots a e) \<and> True} \<union>
          {i. i div 32 \<in> set [quot a] \<and> rem a \<le> i mod 32 \<and> i mod 32 \<le> rem e} = {unat a..unat e}"
        unfolding set_eq_iff Un_iff mem_Collect_eq atLeastAtMost_iff range_parts_same [OF le True]
        using T by simp
      then show ?thesis
        using that [of b2] clears_trans [OF b1(2) b2(2)] b1(1) b2(1) True T
        by (auto simp: reset_between_def inner_slots_def)
    next
      case F: False
      have "{i. i div 32 \<in> set (inner_slots a e) \<and> True} = {unat a..unat e}"
        unfolding set_eq_iff Un_iff mem_Collect_eq atLeastAtMost_iff range_parts_same [OF le True]
        using F by simp
      then show ?thesis
        using that [of b1] b1 True F by (auto simp: reset_between_def inner_slots_def)
    qed
  next
    case False
    let ?I = "{i. i div 32 \<in> set (inner_slots a e) \<and> True}"
    let ?A = "{i. i div 32 \<in> set [quot a] \<and> rem a \<le> i mod 32}"
    let ?E = "{i. i div 32 \<in> set [quot e] \<and> i mod 32 \<le> rem e}"
    obtain b2 where b2: "clears b1 (if rem a \<noteq> 0 then ?A else {}) b2"
      "(if rem a \<noteq> 0 then modify_slots (\<lambda>_ d. Some (d AND NOT (from_mask (rem a)))) [quot a] b1
        else Some b1) = Some b2"
    proof (cases "rem a = 0")
      case True
      then show ?thesis
        using that [of b1] clears_refl [OF clears_data [OF b1(2)]] by simp
    next
      case False
      have "\<exists>b2. modify_slots (\<lambda>_ d. Some (d AND NOT (from_mask (rem a)))) [quot a] b1 = Some b2 \<and> clears b1 ?A b2"
        using qa len1
        by (intro modify_clears [OF clears_data [OF b1(2)], where P = "\<lambda>j. rem a \<le> j"])
          (simp_all add: bit_and_iff bit_not_iff from_mask_tail)
      then show ?thesis
        using False that by auto
    qed
    have len2: "length (slots b2) = length (slots b)"
      using b2(1) len1 by (simp add: clears_def)
    obtain b3 where b3: "clears b2 (if rem e \<noteq> 31 then ?E else {}) b3"
      "(if rem e \<noteq> 31 then modify_slots (\<lambda>_ d. Some (d AND (BITMAPOPMASK ! rem e - 1))) [quot e] b2
        else Some b2) = Some b3"
    proof (cases "rem e = 31")
      case True
      then show ?thesis
        using that [of b2] clears_refl [OF clears_data [OF b2(1)]] by simp
    next
      case False
      have "\<exists>b3. modify_slots (\<lambda>_ d. Some (d AND (BITMAPOPMASK ! rem e - 1))) [quot e] b2 = Some b3 \<and> clears b2 ?E b3"
        using qe len2
        by (intro modify_clears [OF clears_data [OF b2(1)], where P = "\<lambda>j. j \<le> rem e"])
          (simp_all add: bit_and_iff op_mask_pred_head)
      then show ?thesis
        using False that by auto
    qed
    have "?I \<union> (if rem a \<noteq> 0 then ?A else {}) \<union> (if rem e \<noteq> 31 then ?E else {}) = {unat a..unat e}"
      unfolding set_eq_iff Un_iff atLeastAtMost_iff range_parts_apart [OF le False] by simp
    then show ?thesis
      using that [of b3] clears_trans [OF clears_trans [OF b1(2) b2(1)] b3(1)] b1(1) b2(2) b3(2) False
      by (simp add: reset_between_def inner_slots_def)
  qed
qed

end
