(* ===== verification/BitmapCount.thy ===== *)
theory BitmapCount
  imports BitmapRange
begin

text \<open>
  \<^verbatim>\<open>GetSetCount(begin, end)\<close>: the count over a range is put together from the tail of the first slot,
  the head of the last one, one odd slot and pairs of slots.
\<close>

lemma pop_zero: "pop 0 = 0"
  by (simp add: pop_def)

lemma pair_indices_even:
  assumes "f \<le> t" "even (t - f)"
  shows "pair_indices f t = map (\<lambda>k. f + 2 * k) [0..<(t - f) div 2]" "f + 2 * ((t - f) div 2) = t"
  using assms by (auto simp: pair_indices_def elim!: evenE)

lemma pair_indices_empty: "t \<le> f \<Longrightarrow> pair_indices f t = []"
  by (simp add: pair_indices_def)

text \<open>The odd slot and the pairs together count the full slots from \<open>s\<close> to \<open>t\<close>.\<close>

lemma full_slots_count:
  assumes d: "b_data b = Some ds" and le: "unat s \<le> unat t" and t: "unat t \<le> length ds"
  shows "\<exists>s' c. odd_slot_count b s t = Some (s', c) \<and>
    (\<forall>x. count_batches b (pair_indices (unat s') (unat t)) (x + c) =
      Some (x + word_of_nat (cnt ds (32 * unat s) (32 * unat t))))"
proof -
  have sub: "unat (t - s) = unat t - unat s"
    using le by (simp add: unat_sub word_le_nat_alt)
  have e: "(t - s) AND 1 = 0 \<longleftrightarrow> even (unat t - unat s)"
    using and_one_even [of "t - s"] sub by simp
  show ?thesis
  proof (cases "even (unat t - unat s)")
    case True
    then have "odd_slot_count b s t = Some (s, 0)"
      using e by (simp add: odd_slot_count_def)
    moreover have "count_batches b (pair_indices (unat s) (unat t)) (x + 0) =
        Some (x + word_of_nat (cnt ds (32 * unat s) (32 * unat t)))" for x
      using count_batches_pairs [OF d, of "unat s" "(unat t - unat s) div 2" x]
        pair_indices_even [OF le True] t by simp
    ultimately show ?thesis by blast
  next
    case False
    then have lt: "unat s < unat t"
      using le by (cases "unat s = unat t") simp_all
    then have l: "load b (unat s) = Some (ds ! unat s)"
      using t by (simp add: load_slots [OF d])
    have s1: "unat (s + 1) = unat s + 1"
      using lt unat_succ [of s t] by (simp add: word_less_nat_alt)
    let ?c = "word_of_nat (cnt ds (32 * unat s) (32 * unat s + 32)) :: u32"
    have c: "(if ds ! unat s \<noteq> 0 then count_bits (ds ! unat s) 32 else 0) = ?c"
      using cnt_slot [of "unat s" ds] lt t by (simp add: count_bits_word top_count_32 pop_zero)
    have o: "odd_slot_count b s t = Some (s + 1, ?c)"
      using False e lt l c by (simp add: odd_slot_count_def word_less_nat_alt)
    have "even (unat t - unat (s + 1))" "unat (s + 1) \<le> unat t"
      using False lt s1 by simp_all
    then have r: "count_batches b (pair_indices (unat (s + 1)) (unat t)) (x + ?c) =
        Some (x + ?c + word_of_nat (cnt ds (32 * unat (s + 1)) (32 * unat t)))" for x
      using count_batches_pairs [OF d, of "unat (s + 1)" "(unat t - unat (s + 1)) div 2" "x + ?c"]
        pair_indices_even [of "unat (s + 1)" "unat t"] t by simp
    have "x + ?c + word_of_nat (cnt ds (32 * unat (s + 1)) (32 * unat t)) =
        x + word_of_nat (cnt ds (32 * unat s) (32 * unat t))" for x
      using cnt_split [of "32 * unat s" "32 * unat s + 32" "32 * unat t" ds] lt s1
      by (simp add: add.assoc add.commute)
    then show ?thesis
      using o r by (intro exI [of _ "s + 1"] exI [of _ ?c]) simp
  qed
qed

text \<open>The tail of the first slot, up to the end of the range if that is in the same slot.\<close>

lemma bit_ones: "bit (0xFFFFFFFF :: int) n \<longleftrightarrow> n < 32"
proof -
  have "(0xFFFFFFFF :: int) = mask 32"
    by (simp add: mask_eq_exp_minus_1)
  then show ?thesis
    by (simp only: bit_mask_iff) simp
qed

lemma pop_slot_between:
  assumes "q < length ds" "r < k" "k < 32"
  shows "pop (push_bit r (ds ! q AND push_bit (32 - k) 0xFFFFFFFF)) = cnt ds (32 * q + r) (32 * q + k)"
proof -
  have "top_count 32 (push_bit r (ds ! q AND push_bit (32 - k) 0xFFFFFFFF)) = top_count (k - r) (push_bit r (ds ! q))"
    unfolding top_count_def
  proof (rule arg_cong [where f = card], intro Collect_cong)
    fix j
    show "(j < 32 \<and> j < 32 \<and> bit (push_bit r (ds ! q AND push_bit (32 - k) 0xFFFFFFFF)) (31 - j)) =
        (j < k - r \<and> j < 32 \<and> bit (push_bit r (ds ! q)) (31 - j))"
      using assms(2,3) by (auto simp: bit_push_bit_iff bit_and_iff bit_ones)
  qed
  then show ?thesis
    using cnt_slot_part [OF assms(1) _ refl, of r "k - r"] assms(2,3) by (simp add: top_count_32)
qed

lemma begin_slot_count_cnt:
  assumes d: "b_data b = Some ds" and a: "quot a < length ds" and lt: "unat a < z"
    and t: "unat tE = z div 32" "unat tB = z mod 32" and z: "z < 2 ^ 32"
  shows "\<exists>s. begin_slot_count b a tE tB = Some (s, word_of_nat (cnt ds (unat a) (min z (32 * unat s)))) \<and>
    unat a \<le> 32 * unat s \<and> 32 * unat s \<le> unat a + 31"
proof -
  let ?q = "quot a" and ?r = "rem a"
  have q: "unat (a div SLOT_SIZE) = ?q"
    by (simp add: SLOT_SIZE_def unat_div quot_div)
  have m: "SLOT_SIZE - (a AND SLOT_SIZE_BIT_MASK) \<noteq> SLOT_SIZE \<longleftrightarrow> ?r \<noteq> 0"
    by (simp add: rem_def unat_eq_zero)
  have ar: "unat a = 32 * ?q + ?r"
    by (rule quot_rem)
  have s1: "unat (a div SLOT_SIZE + 1) = ?q + 1"
  proof -
    have "?q < 2 ^ 27"
      using unsigned_less [of a, where ?'a = nat] by (simp add: quot_div div_less_iff_less_mult del: unsigned_less)
    moreover have "unat (x + 1) = unat x + 1" if "unat x < 2 ^ 27" for x :: u32
      using that by (simp add: unat_word_ariths)
    ultimately show ?thesis
      unfolding q [symmetric] by blast
  qed
  show ?thesis
  proof (cases "?r = 0")
    case True
    then have "begin_slot_count b a tE tB = Some (a div SLOT_SIZE, 0)"
      using m by (simp add: begin_slot_count_def Let_def)
    then show ?thesis
      using q ar True by (intro exI [of _ "a div SLOT_SIZE"]) simp
  next
    case False
    have l: "load b ?q = Some (ds ! ?q)"
      using a by (rule load_slots [OF d])
    have c: "begin_slot_count b a tE tB =
        (if a div SLOT_SIZE = tE then
           (if tB = 0 then None
            else Some (a div SLOT_SIZE + 1, shift_count (push_bit ?r (ds ! ?q AND push_bit (unat (SLOT_SIZE - tB)) 0xFFFFFFFF))))
         else Some (a div SLOT_SIZE + 1, shift_count (push_bit ?r (ds ! ?q))))"
      using m False l q by (simp add: begin_slot_count_def Let_def)
    have same: "a div SLOT_SIZE = tE \<longleftrightarrow> ?q = z div 32"
      using q t(1) by (auto simp: word_unat_eq_iff)
    have zz: "z = 32 * (z div 32) + z mod 32" "z mod 32 < 32"
      by simp_all
    show ?thesis
    proof (cases "?q = z div 32")
      case True
      then have r: "?r < z mod 32"
        using lt ar zz(1) by linarith
      then have "tB \<noteq> 0" "unat (SLOT_SIZE - tB) = 32 - z mod 32"
        using t(2) zz(2) by (auto simp: SLOT_SIZE_def unat_sub word_le_nat_alt)
      then have "begin_slot_count b a tE tB = Some (a div SLOT_SIZE + 1, word_of_nat (cnt ds (unat a) z))"
        using c same True shift_count_word pop_slot_between [OF a r zz(2)] ar zz(1) by simp
      moreover have "z \<le> 32 * (?q + 1)"
        unfolding True using dividend_less_times_div [of 32 z] by simp
      ultimately show ?thesis
        using s1 ar less_imp_le [OF rem_less [of a]] False
        by (intro exI [of _ "a div SLOT_SIZE + 1"]) (simp add: min_absorb1)
    next
      case F: False
      moreover have "?q \<le> z div 32"
        using lt by (simp add: quot_div div_le_mono)
      ultimately have "?q < z div 32"
        by simp
      then have "32 * ?q + 32 \<le> 32 * (z div 32)"
        by simp
      also have "\<dots> \<le> z"
        by simp
      finally have "32 * ?q + 32 \<le> z" .
      then have "min z (32 * (?q + 1)) = 32 * ?q + 32"
        by (simp add: min_def)
      then show ?thesis
        using c same F s1 ar less_imp_le [OF rem_less [of a]] False shift_count_word cnt_slot_rest [OF a rem_less [of a]]
        by (intro exI [of _ "a div SLOT_SIZE + 1"]) simp
    qed
  qed
qed

lemma end_slot_count_cnt:
  assumes d: "b_data b = Some ds" and t: "unat tE = z div 32" "unat tB = z mod 32" and z: "z \<le> 32 * length ds"
  shows "end_slot_count b s tE tB =
    Some (word_of_nat (if unat s \<le> z div 32 then cnt ds (32 * (z div 32)) z else 0))"
proof (cases "unat s \<le> z div 32 \<and> z mod 32 \<noteq> 0")
  case True
  then have lt: "z div 32 < length ds"
    using z mult_div_mod_eq [of 32 z] by linarith
  have "tB \<noteq> 0"
    using True t(2) by auto
  then show ?thesis
    using True t lt load_slots [OF d lt] cnt_slot_top [OF lt, of "z mod 32"]
    by (simp add: end_slot_count_def word_le_nat_alt count_bits_word)
next
  case False
  moreover have "tB = 0 \<longleftrightarrow> z mod 32 = 0"
    using t(2) unat_eq_zero [of tB] by simp
  moreover have "cnt ds (32 * (z div 32)) z = 0" if "z mod 32 = 0"
    using that mult_div_mod_eq [of 32 z] by simp
  ultimately show ?thesis
    using t(1) by (auto simp: end_slot_count_def word_le_nat_alt)
qed

lemma count_parts:
  assumes sh: "bm_shape b" and a: "unat a < z" and z: "z \<le> unat (b_itemCount b)"
    and t: "unat tE = z div 32" "unat tB = z mod 32"
  shows "do { (s1, c1) \<leftarrow> begin_slot_count b a tE tB; c2 \<leftarrow> end_slot_count b s1 tE tB;
              (s2, c3) \<leftarrow> odd_slot_count b s1 tE;
              count_batches b (pair_indices (unat s2) (unat tE)) (c1 + c2 + c3) } =
    Some (word_of_nat (cnt (slots b) (unat a) z))"
proof -
  let ?ds = "slots b"
  have d: "b_data b = Some ?ds"
    using shape_data [OF sh] .
  have q: "quot a < length ?ds"
    using shape_quot [OF sh, of a] a z by (simp add: word_less_nat_alt)
  have zl: "z \<le> 32 * length ?ds"
    using z shape_length [OF sh] by simp
  have z32: "z < 2 ^ 32"
    using z unsigned_less [of "b_itemCount b", where ?'a = nat] by simp
  obtain s1 where s1: "begin_slot_count b a tE tB = Some (s1, word_of_nat (cnt ?ds (unat a) (min z (32 * unat s1))))"
    "unat a \<le> 32 * unat s1" "32 * unat s1 \<le> unat a + 31"
    using begin_slot_count_cnt [OF d q a t z32] by blast
  have c2: "end_slot_count b s1 tE tB =
      Some (word_of_nat (if unat s1 \<le> z div 32 then cnt ?ds (32 * (z div 32)) z else 0))"
    by (rule end_slot_count_cnt [OF d t zl])
  show ?thesis
  proof (cases "unat s1 \<le> z div 32")
    case True
    then have le: "32 * unat s1 \<le> 32 * (z div 32)" "32 * (z div 32) \<le> z"
      by simp_all
    then have m: "min z (32 * unat s1) = 32 * unat s1"
      by simp
    have "unat tE \<le> length ?ds"
      using t(1) zl by (simp add: div_le_mono [of z "32 * length ?ds" 32, simplified])
    then obtain s2 c3 where s2: "odd_slot_count b s1 tE = Some (s2, c3)"
      "\<And>x. count_batches b (pair_indices (unat s2) (unat tE)) (x + c3) =
        Some (x + word_of_nat (cnt ?ds (32 * unat s1) (32 * (z div 32))))"
      using full_slots_count [OF d, of s1 tE] True t(1) by auto
    have "cnt ?ds (unat a) z = cnt ?ds (unat a) (32 * unat s1) +
        cnt ?ds (32 * (z div 32)) z + cnt ?ds (32 * unat s1) (32 * (z div 32))"
      using cnt_split [of "unat a" "32 * unat s1" z ?ds] cnt_split [of "32 * unat s1" "32 * (z div 32)" z ?ds]
        s1(2) le by simp
    then show ?thesis
      using s1(1) c2 s2 True m by simp
  next
    case False
    then have "z \<le> 32 * unat s1"
      using dividend_less_times_div [of 32 z] by simp
    moreover have "odd_slot_count b s1 tE = Some (s1, 0)" "pair_indices (unat s1) (unat tE) = []"
      using False t(1) by (simp_all add: odd_slot_count_def word_less_nat_alt pair_indices_empty)
    ultimately show ?thesis
      using s1(1) c2 False by (simp add: min_absorb1)
  qed
qed

lemma get_set_count_items:
  assumes sh: "bm_shape b" and n: "b_itemCount b \<noteq> 0"
  shows "get_set_count b a e = Some (word_of_nat (card (items b \<inter> {unat a..unat e})))"
proof -
  let ?n = "unat (b_itemCount b)" and ?ds = "slots b"
  let ?endi = "if e \<ge> b_itemCount b then b_itemCount b - 1 else e"
  have n0: "0 < ?n"
    using n by (simp add: unat_gt_0)
  have e: "unat ?endi = min (unat e) (?n - 1)"
    using n0 n by (auto simp: unat_minus_one word_le_nat_alt)
  have lt: "?endi < b_itemCount b"
    unfolding word_less_nat_alt e using n0 by (simp add: min_less_iff_disj)
  have z: "unat (?endi + 1) = min (unat e) (?n - 1) + 1"
    using unat_succ [OF lt] e by simp
  have parts: "unat ((?endi + 1) div SLOT_SIZE) = (min (unat e) (?n - 1) + 1) div 32"
    "unat ((?endi + 1) AND SLOT_SIZE_BIT_MASK) = (min (unat e) (?n - 1) + 1) mod 32"
    using z rem_mod [of "?endi + 1"] by (simp_all add: SLOT_SIZE_def unat_div rem_def)
  have set: "items b \<inter> {unat a..unat e} = {i. unat a \<le> i \<and> i < min (unat e) (?n - 1) + 1 \<and> bit_at ?ds i}"
    using n0 by (auto simp: items_def)
  show ?thesis
  proof (cases "?endi < a")
    case True
    then have "min (unat e) (?n - 1) + 1 \<le> unat a"
      using e by (simp add: word_less_nat_alt)
    then show ?thesis
      using True set by (simp add: get_set_count_def Let_def cnt_def [symmetric])
  next
    case False
    then have "unat a < min (unat e) (?n - 1) + 1" "min (unat e) (?n - 1) + 1 \<le> ?n"
      using e n0 by (auto simp: word_less_nat_alt)
    from count_parts [OF sh this parts] show ?thesis
      using False set shape_data [OF sh] by (simp add: get_set_count_def Let_def cnt_def)
  qed
qed

end
