(* ===== verification/BitmapCopy.thy ===== *)
theory BitmapCopy
  imports BitmapCount
begin

text \<open>
  \<^verbatim>\<open>Copy\<close>: the slots of a source array are shifted into the bitmap from an arbitrary item on, and the
  set count grows by the number of copied items.  \<open>adds b S c b'\<close> says that \<open>b'\<close> is \<open>b\<close> with the bits
  in \<open>S\<close> set and \<open>c\<close> added to the cached count; the steps of the copy compose by \<open>adds_trans\<close>.
\<close>

definition adds :: "'a bitmap_scheme \<Rightarrow> nat set \<Rightarrow> u32 \<Rightarrow> 'a bitmap_scheme \<Rightarrow> bool" where
  "adds b S c b' \<longleftrightarrow> (\<exists>ds ds'. b_data b = Some ds \<and> length ds' = length ds \<and>
     b' = b\<lparr>b_data := Some ds', b_setCount := b_setCount b + c\<rparr> \<and>
     (\<forall>i. bit_at ds' i \<longleftrightarrow> bit_at ds i \<or> i \<in> S))"

lemma adds_refl: "b_data b = Some ds \<Longrightarrow> adds b {} 0 b"
  by (auto simp: adds_def intro!: exI [of _ ds])

lemma adds_trans: "adds b S c b1 \<Longrightarrow> adds b1 T d b2 \<Longrightarrow> adds b (S \<union> T) (c + d) b2"
  unfolding adds_def by (auto simp: add.assoc)

lemma adds_count: "adds b S c b1 \<Longrightarrow> adds b S (c + d) (add_set_count d b1)"
  unfolding adds_def add_set_count_def by (auto simp: add.assoc)

lemma adds_data: "adds b S c b1 \<Longrightarrow> b_data b = Some ds \<Longrightarrow> \<exists>ds1. b_data b1 = Some ds1 \<and> length ds1 = length ds"
  by (auto simp: adds_def)

lemma or_slot_adds:
  assumes "b_data b = Some ds" "i < length ds" "\<And>k. k \<in> S \<longleftrightarrow> k div 32 = i \<and> bit v (31 - k mod 32)"
  shows "\<exists>b'. or_slot i v b = Some b' \<and> adds b S 0 b'"
proof -
  let ?ds = "update_slots (\<lambda>_ d. d OR v) [i] ds"
  have "or_slot i v b = Some (b\<lparr>b_data := Some ?ds\<rparr>)"
    unfolding or_slot_def using assms(1,2) by (intro modify_slots_eq) auto
  moreover have "bit_at ?ds k \<longleftrightarrow> bit_at ds k \<or> k \<in> S" for k
    unfolding assms(3) using assms(2)
    by (cases "k div 32 = i"; cases "k div 32 < length ds") (simp_all add: bit_at_def nth_update_slots bit_or_iff)
  then have "adds b S 0 (b\<lparr>b_data := Some ?ds\<rparr>)"
    using assms(1) by (auto simp: adds_def intro!: exI [of _ ds] exI [of _ ?ds])
  ultimately show ?thesis by blast
qed

text \<open>The positions that the source bits from \<open>a\<close> to \<open>e\<close> get, shifted by \<open>base\<close>.\<close>

definition shifted :: "u32 list \<Rightarrow> nat \<Rightarrow> nat \<Rightarrow> nat \<Rightarrow> nat set" where
  "shifted xs base a e = {k. base + a \<le> k \<and> k < base + e \<and> bit_at xs (k - base)}"

lemma shifted_split: "a \<le> m \<Longrightarrow> m \<le> e \<Longrightarrow> shifted xs base a e = shifted xs base a m \<union> shifted xs base m e"
  unfolding shifted_def by auto

lemma shifted_empty [simp]: "shifted xs base a a = {}"
  by (simp add: shifted_def)

text \<open>One source slot, of which \<open>n\<close> bits are taken, goes to the rest of a destination slot and the next one.\<close>

lemma shifted_slot:
  assumes "q < length xs" "off < 32" "n \<le> 32" "p = dst + q"
  shows "k \<in> shifted xs (32 * dst + off) (32 * q) (32 * q + n) \<longleftrightarrow>
    k div 32 = p \<and> off \<le> k mod 32 \<and> k mod 32 - off < n \<and> bit (xs ! q) (31 - (k mod 32 - off)) \<or>
    k div 32 = p + 1 \<and> k mod 32 < off \<and> k mod 32 + 32 - off < n \<and> bit (xs ! q) (31 - (k mod 32 + 32 - off))"
proof -
  define d m where "d = k div 32" and "m = k mod 32"
  have k: "k = 32 * d + m" "m < 32"
    by (simp_all add: d_def m_def)
  have bits: "bit_at xs (32 * q + j) \<longleftrightarrow> bit (xs ! q) (31 - j)" if "j < 32" for j
    using assms(1) that by (rule bit_at_slot)
  consider "d < p" | "d = p" | "d = p + 1" | "d > p + 1"
    by linarith
  then show ?thesis
  proof cases
    case 1
    then have "\<not> 32 * dst + off + 32 * q \<le> k"
      using k assms(4) by linarith
    then show ?thesis
      using 1 by (simp add: shifted_def flip: d_def m_def)
  next
    case 2
    have "k \<in> shifted xs (32 * dst + off) (32 * q) (32 * q + n) \<longleftrightarrow> off \<le> m \<and> m - off < n \<and> bit_at xs (32 * q + (m - off))"
    proof (cases "off \<le> m")
      case True
      then have "k - (32 * dst + off) = 32 * q + (m - off)" "32 * dst + off + 32 * q \<le> k"
        "k < 32 * dst + off + (32 * q + n) \<longleftrightarrow> m - off < n"
        using k 2 assms(4) by auto
      with True show ?thesis by (simp add: shifted_def)
    next
      case False
      then have "\<not> 32 * dst + off + 32 * q \<le> k"
        using k 2 assms(4) by simp
      with False show ?thesis by (simp add: shifted_def)
    qed
    then show ?thesis
      using 2 bits [of "m - off"] k(2) by (simp flip: d_def m_def)
  next
    case 3
    then have "32 * dst + off + 32 * q \<le> k" "k - (32 * dst + off) = 32 * q + (m + 32 - off)"
      "k < 32 * dst + off + (32 * q + n) \<longleftrightarrow> m + 32 - off < n"
      using k assms by auto
    moreover have "m + 32 - off < n \<Longrightarrow> m < off \<and> m + 32 - off < 32"
      using assms(3) by auto
    ultimately show ?thesis
      using 3 bits [of "m + 32 - off"] by (auto simp: shifted_def simp flip: d_def m_def)
  next
    case 4
    then have "\<not> k < 32 * dst + off + (32 * q + n)"
      using k assms by auto
    then show ?thesis
      using 4 by (simp add: shifted_def flip: d_def m_def)
  qed
qed

lemma mod_32_less: "k mod 32 < (32 :: nat)"
  by simp

lemma bit_drop_slot: "m < 32 \<Longrightarrow> bit (drop_bit off v) (31 - m) \<longleftrightarrow> off \<le> m \<and> bit v (31 - (m - off))" for v :: u32
  using bit_imp_less_32 [of v "off + (31 - m)"] by (cases "off \<le> m") (auto simp: bit_drop_bit_eq add.commute)

lemma bit_push_slot:
  "m < 32 \<Longrightarrow> off < 32 \<Longrightarrow> 0 < off \<Longrightarrow>
   bit (push_bit (32 - off) v) (31 - m) \<longleftrightarrow> m < off \<and> bit v (31 - (m + 32 - off))" for v :: u32
  by (auto simp: bit_push_bit_iff)

text \<open>A full source slot.\<close>

definition copy_slot :: "nat \<Rightarrow> nat \<Rightarrow> u32 \<Rightarrow> 'a bitmap_scheme \<Rightarrow> 'a bitmap_scheme option" where
  "copy_slot p off value b =
     do { b1 \<leftarrow> or_slot p (drop_bit off value) b;
          if off \<noteq> 0 then or_slot (p + 1) (push_bit (32 - off) value) b1 else Some b1 }"

lemma copy_slot_adds:
  assumes d: "b_data b = Some ds" and i: "i < length xs" and off: "off < 32"
    and len: "dst + i < length ds" "off \<noteq> 0 \<Longrightarrow> dst + i + 1 < length ds"
  shows "\<exists>b2. copy_slot (dst + i) off (xs ! i) b = Some b2 \<and>
    adds b (shifted xs (32 * dst + off) (32 * i) (32 * i + 32)) 0 b2"
proof -
  let ?S = "shifted xs (32 * dst + off) (32 * i) (32 * i + 32)"
  let ?S1 = "{k \<in> ?S. k div 32 = dst + i}" and ?S2 = "{k \<in> ?S. k div 32 = dst + i + 1}"
  note mem = shifted_slot [OF i off order_refl refl, of _ dst]
  have S1: "k \<in> ?S1 \<longleftrightarrow> k div 32 = dst + i \<and> bit (drop_bit off (xs ! i)) (31 - k mod 32)" for k
    unfolding mem_Collect_eq mem bit_drop_slot [OF mod_32_less]
    using mod_32_less [of k] by auto
  obtain b1 where b1: "or_slot (dst + i) (drop_bit off (xs ! i)) b = Some b1" "adds b ?S1 0 b1"
    using or_slot_adds [OF d len(1) S1] by blast
  obtain ds1 where ds1: "b_data b1 = Some ds1" "length ds1 = length ds"
    using adds_data [OF b1(2) d] by blast
  have "k div 32 = dst + i \<or> k div 32 = dst + i + 1" if "k \<in> ?S" for k
    using that unfolding mem by blast
  then have S: "?S = ?S1 \<union> ?S2"
    by blast
  show ?thesis
  proof (cases "off = 0")
    case True
    then have "?S2 = {}"
      unfolding mem by auto
    with S have "?S1 = ?S" by blast
    with b1(2) have "adds b ?S 0 b1" by simp
    moreover have "copy_slot (dst + i) off (xs ! i) b = Some b1"
      using b1(1) True by (simp add: copy_slot_def)
    ultimately show ?thesis by blast
  next
    case False
    then have pos: "0 < off" by simp
    have S2: "k \<in> ?S2 \<longleftrightarrow> k div 32 = dst + i + 1 \<and> bit (push_bit (32 - off) (xs ! i)) (31 - k mod 32)" for k
      unfolding mem_Collect_eq mem bit_push_slot [OF mod_32_less off pos]
      using off by auto
    have "dst + i + 1 < length ds1"
      using len(2) [OF False] ds1(2) by simp
    from or_slot_adds [OF ds1(1) this S2]
    obtain b2 where "or_slot (dst + i + 1) (push_bit (32 - off) (xs ! i)) b1 = Some b2" "adds b1 ?S2 0 b2"
      by blast
    then have "copy_slot (dst + i) off (xs ! i) b = Some b2" "adds b (?S1 \<union> ?S2) (0 + 0) b2"
      using b1(1) False adds_trans [OF b1(2), of ?S2 0 b2] by (simp_all add: copy_slot_def)
    then show ?thesis
      unfolding S [symmetric] by auto
  qed
qed

lemma copy_loop_Cons:
  "copy_loop data dst off full (i # is) b =
     do { value \<leftarrow> src_at data i; b2 \<leftarrow> copy_slot (dst + i) off value b;
          b3 \<leftarrow> (if even i \<and> i + 1 < full then
                   do { countValue \<leftarrow> src_at64 data i; Some (add_set_count (count_bits64 countValue) b2) }
                 else Some b2);
          copy_loop data dst off full is b3 }"
  by (simp add: copy_slot_def Option.bind_assoc)

text \<open>What the rounds from \<open>i\<close> on add to the set count: the pairs that start at an even slot.\<close>

definition pairs_from :: "u32 list \<Rightarrow> nat \<Rightarrow> nat \<Rightarrow> nat" where
  "pairs_from xs full i = cnt xs (32 * (i + i mod 2)) (32 * (2 * (full div 2)))"

lemma pairs_from_step:
  assumes "i < full" "full \<le> length xs"
  shows "pairs_from xs full i =
    (if even i \<and> i + 1 < full then pop (xs ! i) + pop (xs ! (i + 1)) else 0) + pairs_from xs full (i + 1)"
proof (cases "even i")
  case False
  then have "i + i mod 2 = i + 1 + (i + 1) mod 2"
    by (auto elim!: oddE)
  then show ?thesis
    using False unfolding pairs_from_def by simp
next
  case True
  then have i2: "i + i mod 2 = i" "i + 1 + (i + 1) mod 2 = i + 2"
    by (auto elim: evenE)
  show ?thesis
  proof (cases "i + 1 < full")
    case T: True
    then have le: "i + 2 \<le> 2 * (full div 2)"
      using True by presburger
    have "cnt xs (32 * i) (32 * (2 * (full div 2))) =
        pop (xs ! i) + pop (xs ! (i + 1)) + cnt xs (32 * (i + 2)) (32 * (2 * (full div 2)))"
      using cnt_split [of "32 * i" "32 * i + 32" "32 * (2 * (full div 2))" xs]
        cnt_split [of "32 * i + 32" "32 * (i + 2)" "32 * (2 * (full div 2))" xs] le assms T
        cnt_slot [of i xs] cnt_slot [of "i + 1" xs] by (simp add: algebra_simps)
    then show ?thesis
      using True T unfolding pairs_from_def i2 by simp
  next
    case False
    then have "2 * (full div 2) \<le> i"
      using assms(1) True by presburger
    then show ?thesis
      using True False unfolding pairs_from_def i2 by simp
  qed
qed

lemma copy_loop_adds:
  assumes "b_data b = Some ds" "dst + full < length ds" "i \<le> full" "full \<le> length xs" "off < 32"
  shows "\<exists>b'. copy_loop xs dst off full [i..<full] b = Some b' \<and>
    adds b (shifted xs (32 * dst + off) (32 * i) (32 * full)) (word_of_nat (pairs_from xs full i)) b'"
  using assms(1-3)
proof (induction "full - i" arbitrary: i b ds)
  case 0
  then have "i = full" by simp
  moreover have "pairs_from xs full full = 0"
    by (simp add: pairs_from_def)
  ultimately show ?case
    using 0 adds_refl by auto
next
  case (Suc n)
  then have i: "i < full" by simp
  then have ix: "i < length xs"
    using assms(4) by simp
  let ?S = "shifted xs (32 * dst + off) (32 * i) (32 * i + 32)"
  let ?c = "if even i \<and> i + 1 < full then pop (xs ! i) + pop (xs ! (i + 1)) else 0"
  have s: "src_at xs i = Some (xs ! i)"
    using ix by (simp add: src_at_def)
  have s64: "src_at64 xs i = Some (ucast (xs ! i) OR push_bit 32 (ucast (xs ! (i + 1))))" if "i + 1 < full"
    using that assms(4) by (simp add: src_at64_def src_at_def)
  have "dst + i < length ds" "dst + i + 1 < length ds"
    using i Suc.prems(2) by simp_all
  with copy_slot_adds [OF Suc.prems(1) ix assms(5), of dst]
  obtain b2 where b2: "copy_slot (dst + i) off (xs ! i) b = Some b2" "adds b ?S 0 b2"
    by blast
  let ?b3 = "if even i \<and> i + 1 < full then add_set_count (word_of_nat ?c) b2 else b2"
  have b3: "adds b ?S (word_of_nat ?c) ?b3"
  proof (cases "even i \<and> i + 1 < full")
    case True
    then show ?thesis
      unfolding if_P [OF True] using adds_count [OF b2(2)] by simp
  next
    case False
    then show ?thesis
      unfolding if_not_P [OF False] using b2(2) by simp
  qed
  then obtain ds3 where ds3: "b_data ?b3 = Some ds3" "length ds3 = length ds"
    using adds_data [OF b3 Suc.prems(1)] by blast
  have "\<exists>b'. copy_loop xs dst off full [Suc i..<full] ?b3 = Some b' \<and>
      adds ?b3 (shifted xs (32 * dst + off) (32 * Suc i) (32 * full)) (word_of_nat (pairs_from xs full (Suc i))) b'"
    by (rule Suc.hyps(1) [OF _ ds3(1)]) (use Suc.hyps(2) i ds3(2) Suc.prems(2) in auto)
  then obtain b' where b': "copy_loop xs dst off full [Suc i..<full] ?b3 = Some b'"
    "adds ?b3 (shifted xs (32 * dst + off) (32 * Suc i) (32 * full)) (word_of_nat (pairs_from xs full (Suc i))) b'"
    by blast
  have "copy_loop xs dst off full [i..<full] b = Some b'"
    using b'(1) s s64 b2(1)
    by (simp only: upt_conv_Cons [OF i] copy_loop_Cons) (auto simp: count_bits64_word pop_pair split: if_splits)
  moreover have "shifted xs (32 * dst + off) (32 * i) (32 * full) =
      ?S \<union> shifted xs (32 * dst + off) (32 * Suc i) (32 * full)"
    using shifted_split [of "32 * i" "32 * i + 32" "32 * full" xs "32 * dst + off"] i by (simp add: add.commute)
  moreover have "word_of_nat (pairs_from xs full i) = (word_of_nat ?c + word_of_nat (pairs_from xs full (Suc i)) :: u32)"
    using pairs_from_step [OF i assms(4)] by simp
  ultimately show ?case
    using adds_trans [OF b3 b'(2)] by (simp only:) blast
qed

text \<open>The last source slot, of which only the first \<open>rs\<close> bits belong to the range.\<close>

lemma bit_last_slot:
  fixes v :: u32
  assumes "m < 32" "off < 32" "0 < rs" "rs \<le> 32 - off"
  shows "bit (push_bit (32 - off - rs) (drop_bit (32 - rs) v)) (31 - m) \<longleftrightarrow>
    off \<le> m \<and> m - off < rs \<and> bit v (31 - (m - off))"
proof (cases "off \<le> m \<and> m - off < rs")
  case True
  then have "32 - rs + (31 - m - (32 - off - rs)) = 31 - (m - off)" "32 - off - rs \<le> 31 - m"
    using assms by auto
  then show ?thesis
    using True by (simp add: bit_push_bit_iff bit_drop_bit_eq)
next
  case False
  then have "\<not> 32 - off - rs \<le> 31 - m \<or> 32 \<le> 32 - rs + (31 - m - (32 - off - rs))"
    using assms by auto
  then show ?thesis
    using False bit_imp_less_32 [of v] by (auto simp: bit_push_bit_iff bit_drop_bit_eq dest!: bit_imp_less_32)
qed

lemma bit_last_slot_overflow:
  fixes v :: u32
  assumes "m < 32" "off < 32" "rs \<le> 32" "32 - off < rs"
  shows "bit (push_bit (32 - rs + (32 - off)) (drop_bit (32 - rs) v)) (31 - m) \<longleftrightarrow>
    m < off \<and> m + 32 - off < rs \<and> bit v (31 - (m + 32 - off))"
proof (cases "m < off \<and> m + 32 - off < rs")
  case True
  then have "32 - rs + (31 - m - (32 - rs + (32 - off))) = 31 - (m + 32 - off)" "32 - rs + (32 - off) \<le> 31 - m"
    using assms by auto
  then show ?thesis
    using True by (simp add: bit_push_bit_iff bit_drop_bit_eq)
next
  case False
  then have "\<not> 32 - rs + (32 - off) \<le> 31 - m"
    using assms by auto
  then show ?thesis
    using False by (auto simp: bit_push_bit_iff)
qed

lemma copy_last_adds:
  assumes d: "b_data b = Some ds" and q: "full < length xs" and off: "off < 32"
    and rs: "0 < unat rs" "unat rs \<le> 32"
    and len: "32 * dst + off + 32 * full + unat rs \<le> 32 * length ds"
  shows "\<exists>b'. copy_last xs dst off full rs b = Some b' \<and>
    adds b (shifted xs (32 * dst + off) (32 * full) (32 * full + unat rs)) (word_of_nat (top_count (unat rs) (xs ! full))) b'"
proof -
  let ?S = "shifted xs (32 * dst + off) (32 * full) (32 * full + unat rs)" and ?p = "dst + full"
  let ?c = "word_of_nat (top_count (unat rs) (xs ! full)) :: u32"
  let ?b1 = "add_set_count ?c b" and ?v = "xs ! full" and ?rs = "unat rs"
  note mem = shifted_slot [OF q off rs(2) refl, of _ dst]
  have b1: "adds b {} ?c ?b1"
    using adds_count [OF adds_refl [OF d], of ?c] by simp
  have d1: "b_data ?b1 = Some ds"
    using d by (simp add: add_set_count_def)
  have p: "?p < length ds"
    using len rs(1) by linarith
  have cl: "copy_last xs dst off full rs b =
      (if ?rs \<le> 32 - off then or_slot ?p (push_bit (32 - off - ?rs) (drop_bit (32 - ?rs) ?v)) ?b1
       else do { b2 \<leftarrow> or_slot ?p (drop_bit off ?v) ?b1;
                 or_slot (?p + 1) (push_bit (32 - ?rs + (32 - off)) (drop_bit (32 - ?rs) ?v)) b2 })"
    using q rs(1) by (simp add: copy_last_def src_at_def Let_def count_bits_word)
  show ?thesis
  proof (cases "?rs \<le> 32 - off")
    case True
    have "k \<in> ?S \<longleftrightarrow> k div 32 = ?p \<and> bit (push_bit (32 - off - ?rs) (drop_bit (32 - ?rs) ?v)) (31 - k mod 32)" for k
      unfolding mem bit_last_slot [OF mod_32_less off rs(1) True] using True off by auto
    from or_slot_adds [OF d1 p this]
    obtain b2 where "or_slot ?p (push_bit (32 - off - ?rs) (drop_bit (32 - ?rs) ?v)) ?b1 = Some b2" "adds ?b1 ?S 0 b2"
      by blast
    then show ?thesis
      using cl True adds_trans [OF b1, of ?S 0 b2] by simp
  next
    case False
    let ?S1 = "{k \<in> ?S. k div 32 = ?p}" and ?S2 = "{k \<in> ?S. k div 32 = ?p + 1}"
    have S1: "k \<in> ?S1 \<longleftrightarrow> k div 32 = ?p \<and> bit (drop_bit off ?v) (31 - k mod 32)" for k
      unfolding mem_Collect_eq mem bit_drop_slot [OF mod_32_less]
      using mod_32_less [of k] False by auto
    have S2: "k \<in> ?S2 \<longleftrightarrow> k div 32 = ?p + 1 \<and>
        bit (push_bit (32 - ?rs + (32 - off)) (drop_bit (32 - ?rs) ?v)) (31 - k mod 32)" for k
      unfolding mem_Collect_eq mem bit_last_slot_overflow [OF mod_32_less off rs(2) False [unfolded not_le]]
      by auto
    have "k div 32 = ?p \<or> k div 32 = ?p + 1" if "k \<in> ?S" for k
      using that unfolding mem by blast
    then have S: "?S = {} \<union> ?S1 \<union> ?S2"
      by blast
    from or_slot_adds [OF d1 p S1]
    obtain b2 where b2: "or_slot ?p (drop_bit off ?v) ?b1 = Some b2" "adds ?b1 ?S1 0 b2"
      by blast
    obtain ds2 where ds2: "b_data b2 = Some ds2" "length ds2 = length ds"
      using adds_data [OF b2(2) d1] by blast
    have "?p + 1 < length ds2"
      using len False off ds2(2) by linarith
    from or_slot_adds [OF ds2(1) this S2]
    obtain b3 where b3: "or_slot (?p + 1) (push_bit (32 - ?rs + (32 - off)) (drop_bit (32 - ?rs) ?v)) b2 = Some b3"
      "adds b2 ?S2 0 b3"
      by blast
    have "adds b ?S ?c b3"
      using adds_trans [OF adds_trans [OF b1 b2(2)] b3(2)] unfolding S [symmetric] by simp
    then show ?thesis
      using cl False b2(1) b3(1) by simp
  qed
qed

lemma full_count:
  assumes "full \<le> length xs"
  shows "pairs_from xs full 0 + (if odd full then pop (xs ! (full - 1)) else 0) = cnt xs 0 (32 * full)"
proof (cases "even full")
  case True
  then show ?thesis
    by (simp add: pairs_from_def)
next
  case False
  then have f: "2 * (full div 2) = full - 1" "0 < full"
    by (auto elim!: oddE)
  then have "32 * (full - 1) + 32 = 32 * full"
    by simp
  then have "cnt xs (32 * (full - 1)) (32 * full) = pop (xs ! (full - 1))"
    using cnt_slot [of "full - 1" xs] assms f(2) by simp
  moreover have "cnt xs 0 (32 * full) = cnt xs 0 (32 * (full - 1)) + cnt xs (32 * (full - 1)) (32 * full)"
    by (rule cnt_split) simp_all
  ultimately show ?thesis
    using False f(1) by (simp add: pairs_from_def)
qed

lemma copy_slots_adds:
  assumes d: "b_data b = Some ds" and off: "off < 32" and c: "0 < unat c" "unat c \<le> 0xFFFFFFE0"
    and xs: "unat c \<le> 32 * length xs" and len: "32 * dst + off + unat c \<le> 32 * length ds"
  shows "\<exists>b'. bm_copy_slots b dst off xs c = Some b' \<and>
    adds b (shifted xs (32 * dst + off) 0 (unat c)) (word_of_nat (cnt xs 0 (unat c))) b'"
proof -
  let ?c = "unat c" and ?N = "drop_bit 5 (c + 31)"
  define full where "full = (?c + 31) div 32 - 1"
  have N: "unat ?N = full + 1"
    using c by (simp add: full_def unat_drop unat_word_ariths)
  then have "?N \<noteq> 0"
    by auto
  then have N1: "unat (?N - 1) = full"
    using N unat_minus_one [of ?N] by simp
  have fc: "32 * full < ?c" "?c \<le> 32 * full + 32"
    using c(1) dividend_less_times_div [of 32 "?c + 31"] times_div_less_eq_dividend [of 32 "?c + 31"]
    by (auto simp: full_def)
  have r: "unat (c - 32 * (?N - 1)) = ?c - 32 * full"
  proof -
    have "unat (32 * (?N - 1)) = 32 * full"
      using unat_times_slot [of "?N - 1"] N1 fc(1) c(2) by (simp add: SLOT_SIZE_def mult.commute)
    then show ?thesis
      using fc(1) by (simp add: unat_sub word_le_nat_alt)
  qed
  have len': "dst + full < length ds" "full < length xs"
    using fc len xs by linarith+
  obtain b1 where b1: "copy_loop xs dst off full [0..<full] b = Some b1"
    "adds b (shifted xs (32 * dst + off) (32 * 0) (32 * full)) (word_of_nat (pairs_from xs full 0)) b1"
    using copy_loop_adds [OF d len'(1), of 0 xs off] len'(2) off by auto
  let ?p = "if odd full then pop (xs ! (full - 1)) else 0"
  let ?b2 = "if ?N AND 1 = 0 \<and> ?N \<ge> 2 then add_set_count (word_of_nat ?p) b1 else b1"
  have even: "?N AND 1 = 0 \<and> ?N \<ge> 2 \<longleftrightarrow> odd full"
    using and_one_even [of ?N] N by (auto simp: word_le_nat_alt elim!: oddE)
  have N2: "unat (?N - 2) = full - 1" if "odd full"
    using that N by (subst unat_sub) (auto simp: word_le_nat_alt elim!: oddE)
  have step: "(if ?N AND 1 = 0 \<and> ?N \<ge> 2 then
       do { value \<leftarrow> src_at xs (unat (?N - 2)); Some (add_set_count (count_bits value 32) b1) } else Some b1) = Some ?b2"
    using even N2 le_less_trans [OF diff_le_self len'(2), of 1] by (simp add: src_at_def count_bits_word top_count_32)
  have b2: "adds b (shifted xs (32 * dst + off) 0 (32 * full)) (word_of_nat (pairs_from xs full 0 + ?p)) ?b2"
    using b1(2) adds_count [OF b1(2), of "word_of_nat ?p"] even by (cases "odd full") simp_all
  then obtain ds2 where ds2: "b_data ?b2 = Some ds2" "length ds2 = length ds"
    using adds_data [OF b2 d] by blast
  have "32 * dst + off + 32 * full + unat (c - 32 * (?N - 1)) \<le> 32 * length ds2"
    "0 < unat (c - 32 * (?N - 1))" "unat (c - 32 * (?N - 1)) \<le> 32"
    unfolding r ds2(2) using len fc by auto
  from copy_last_adds [OF ds2(1) len'(2) off this(2,3,1)]
  obtain b3 where b3: "copy_last xs dst off full (c - 32 * (?N - 1)) ?b2 = Some b3"
    "adds ?b2 (shifted xs (32 * dst + off) (32 * full) (32 * full + (?c - 32 * full)))
       (word_of_nat (top_count (?c - 32 * full) (xs ! full))) b3"
    unfolding r by blast
  have "bm_copy_slots b dst off xs c = Some b3"
    unfolding bm_copy_slots_def Let_def N1 b1(1) Option.bind.bind_lunit step using b3(1) by simp
  moreover have "shifted xs (32 * dst + off) 0 ?c = shifted xs (32 * dst + off) 0 (32 * full) \<union>
      shifted xs (32 * dst + off) (32 * full) (32 * full + (?c - 32 * full))"
    using shifted_split [of 0 "32 * full" ?c] fc by simp
  moreover have "cnt xs 0 ?c = pairs_from xs full 0 + ?p + top_count (?c - 32 * full) (xs ! full)"
    using cnt_split [of 0 "32 * full" ?c xs] fc full_count [of full xs] len'(2)
      cnt_slot_top [OF len'(2), of "?c - 32 * full"] by simp
  ultimately show ?thesis
    using adds_trans [OF b2 b3(2)] by simp
qed

text \<open>The items that a source array holds below \<open>n\<close>.\<close>

definition source_items :: "u32 list \<Rightarrow> nat \<Rightarrow> nat set" where
  "source_items xs n = {j. j < n \<and> bit_at xs j}"

lemma bm_copy_items:
  assumes wf: "bm_wf b" and xs: "unat c \<le> 32 * length xs"
    and fit: "unat start + unat c \<le> unat (b_itemCount b)"
    and free: "items b \<inter> {unat start..<unat start + unat c} = {}"
  obtains b' where "bm_copy b start (Some xs) c = Some b'" "bm_wf b'" "b_itemCount b' = b_itemCount b"
    "items b' = items b \<union> (\<lambda>j. unat start + j) ` source_items xs (unat c)"
proof (cases "c = 0")
  case True
  then show ?thesis
    using that [of b] wf by (simp add: bm_copy_def source_items_def)
next
  case False
  let ?im = "(\<lambda>j. unat start + j) ` source_items xs (unat c)"
  have sh: "bm_shape b"
    using wf by (simp add: bm_wf_def)
  have base: "32 * quot start + rem start = unat start"
    by (rule quot_rem [symmetric])
  have "unat (b_itemCount b) \<le> 0xFFFFFFE0"
    using sh by (simp add: bm_shape_def word_le_nat_alt)
  moreover have "unat (b_itemCount b) \<le> 32 * length (slots b)"
    unfolding shape_length [OF sh] by simp
  ultimately obtain b' where b': "bm_copy_slots b (quot start) (rem start) xs c = Some b'"
    "adds b (shifted xs (unat start) 0 (unat c)) (word_of_nat (cnt xs 0 (unat c))) b'"
    using copy_slots_adds [OF shape_data [OF sh] rem_less [of start], of c xs "quot start"]
      fit xs False unfolding base by (auto simp: unat_gt_0)
  obtain ds' where ds': "length ds' = length (slots b)"
    "b' = b\<lparr>b_data := Some ds', b_setCount := b_setCount b + word_of_nat (cnt xs 0 (unat c))\<rparr>"
    "\<And>i. bit_at ds' i \<longleftrightarrow> bit_at (slots b) i \<or> i \<in> shifted xs (unat start) 0 (unat c)"
    using b'(2) shape_data [OF sh] by (auto simp: adds_def)
  have im: "shifted xs (unat start) 0 (unat c) = ?im"
  proof (intro equalityI subsetI)
    fix k
    assume "k \<in> shifted xs (unat start) 0 (unat c)"
    then show "k \<in> ?im"
      by (intro image_eqI [of _ _ "k - unat start"]) (auto simp: shifted_def source_items_def)
  qed (auto simp: shifted_def source_items_def)
  have it: "items b' = items b \<union> ?im"
    using fit ds'(2,3) by (auto simp: items_def im source_items_def)
  have "card ?im = cnt xs 0 (unat c)"
    by (simp add: card_image source_items_def cnt_def)
  moreover have "items b \<inter> ?im = {}"
    using free by (force simp: source_items_def)
  ultimately have card: "card (items b') = card (items b) + cnt xs 0 (unat c)"
    unfolding it by (simp add: card_Un_disjoint source_items_def)
  have shb: "bm_shape b'"
    using shape_data_update [OF sh ds'(1)] ds'(2) by simp
  have "b_setCount b' = word_of_nat (card (items b'))"
    using wf ds'(2) card by (simp add: bm_wf_def flip: word_unat_eq_iff)
      (metis of_nat_add of_nat_unat ucast_id)
  moreover have "card (items b') < 2 ^ 32"
    using card_items_le [of b'] unsigned_less [of "b_itemCount b'", where ?'a = nat] by simp
  ultimately have "bm_wf b'"
    using shb by (simp add: bm_wf_def unat_of_nat)
  then show ?thesis
    using that [of b'] b'(1) it ds'(2) False by (simp add: bm_copy_def)
qed

end
