(* ===== verification/ItemSets.thy ===== *)
theory ItemSets
  imports Prelude "HOL-Library.Monad_Syntax"
begin

text \<open>
  The contract that the bitmaps of \<^verbatim>\<open>indexlib/util\<close> share: a state that stands for a set of indices, an
  operation that puts an index in and one that takes it out, both telling whether the set changed.  What
  a sequence of calls does is proved once, from the contract.
\<close>

datatype item_op = Put u32 | Drop u32

primrec op_index :: "item_op \<Rightarrow> u32" where
  "op_index (Put n) = n"
| "op_index (Drop n) = n"

text \<open>A sequence of calls on the implementation: the answers and the final state.\<close>

fun run_ops ::
  "('s \<Rightarrow> u32 \<Rightarrow> (bool \<times> 's) option) \<Rightarrow> ('s \<Rightarrow> u32 \<Rightarrow> (bool \<times> 's) option) \<Rightarrow>
   's \<Rightarrow> item_op list \<Rightarrow> (bool list \<times> 's) option" where
  "run_ops add del s [] = Some ([], s)"
| "run_ops add del s (x # xs) =
     do { (r, s') \<leftarrow> (case x of Put n \<Rightarrow> add s n | Drop n \<Rightarrow> del s n);
          (rs, t) \<leftarrow> run_ops add del s' xs;
          Some (r # rs, t) }"

text \<open>The same sequence on a set.\<close>

fun set_ops :: "nat set \<Rightarrow> item_op list \<Rightarrow> bool list \<times> nat set" where
  "set_ops A [] = ([], A)"
| "set_ops A (x # xs) =
     (case x of
        Put n \<Rightarrow> apfst (Cons (unat n \<notin> A)) (set_ops (insert (unat n) A) xs)
      | Drop n \<Rightarrow> apfst (Cons (unat n \<in> A)) (set_ops (A - {unat n}) xs))"

locale item_set =
  fixes inv :: "'s \<Rightarrow> bool" and elems :: "'s \<Rightarrow> nat set" and room :: "'s \<Rightarrow> u32 \<Rightarrow> bool"
    and add :: "'s \<Rightarrow> u32 \<Rightarrow> (bool \<times> 's) option" and del :: "'s \<Rightarrow> u32 \<Rightarrow> (bool \<times> 's) option"
  assumes add_law: "inv s \<Longrightarrow> room s n \<Longrightarrow>
      \<exists>s'. add s n = Some (unat n \<notin> elems s, s') \<and> inv s' \<and> elems s' = insert (unat n) (elems s) \<and>
        (\<forall>m. room s m \<longrightarrow> room s' m)"
    and del_law: "inv s \<Longrightarrow> room s n \<Longrightarrow>
      \<exists>s'. del s n = Some (unat n \<in> elems s, s') \<and> inv s' \<and> elems s' = elems s - {unat n} \<and>
        (\<forall>m. room s m \<longrightarrow> room s' m)"
begin

lemma run_refines:
  assumes "inv s" "\<forall>x \<in> set xs. room s (op_index x)"
  shows "\<exists>t. run_ops add del s xs = Some (fst (set_ops (elems s) xs), t) \<and> inv t \<and>
    elems t = snd (set_ops (elems s) xs)"
  using assms
proof (induction xs arbitrary: s)
  case Nil
  then show ?case by simp
next
  case (Cons x xs)
  show ?case
  proof (cases x)
    case (Put n)
    then obtain s' where s': "add s n = Some (unat n \<notin> elems s, s')" "inv s'"
      "elems s' = insert (unat n) (elems s)" "\<forall>m. room s m \<longrightarrow> room s' m"
      using add_law Cons.prems by fastforce
    then obtain t where "run_ops add del s' xs = Some (fst (set_ops (elems s') xs), t) \<and> inv t \<and>
        elems t = snd (set_ops (elems s') xs)"
      using Cons.IH [of s'] Cons.prems by auto
    then show ?thesis
      using s' Put by simp
  next
    case (Drop n)
    then obtain s' where s': "del s n = Some (unat n \<in> elems s, s')" "inv s'"
      "elems s' = elems s - {unat n}" "\<forall>m. room s m \<longrightarrow> room s' m"
      using del_law Cons.prems by fastforce
    then obtain t where "run_ops add del s' xs = Some (fst (set_ops (elems s') xs), t) \<and> inv t \<and>
        elems t = snd (set_ops (elems s') xs)"
      using Cons.IH [of s'] Cons.prems by auto
    then show ?thesis
      using s' Drop by simp
  qed
qed

end

end
