(* ===== verification/ExpandableBitmap.thy ===== *)
theory ExpandableBitmap
  imports BitmapCopy ItemSets
begin

text \<open>
  Model of \<^verbatim>\<open>indexlib/util/ExpandableBitmap\<close>: a bitmap whose array grows when an index beyond the item
  count is set or reset.  The class is a record that extends \<open>bitmap\<close>, and calls the operations of its
  base class.

  The growth loop \<^verbatim>\<open>do { ... } while (nIndex >= allocSlotCount * SLOT_SIZE)\<close> multiplies in 32 bits and
  need not end, so it is a partial function; \<open>expand_returns\<close> gives the bound under which it ends and
  \<open>expand_diverges\<close> the indices for which it never does.
\<close>

record expandable_bitmap = bitmap +
  eb_validItemCount :: u32

definition eb_default :: "bool \<Rightarrow> expandable_bitmap" where
  "eb_default bSet = bitmap.extend (bitmap_default bSet) \<lparr>eb_validItemCount = 0\<rparr>"

definition eb_new :: "u32 \<Rightarrow> bool \<Rightarrow> expandable_bitmap" where
  "eb_new nItemCount bSet =
     bitmap.extend (bitmap_new nItemCount bSet) \<lparr>eb_validItemCount = b_itemCount (bitmap_new nItemCount bSet)\<rparr>"

partial_function (option) expand_slots :: "u32 \<Rightarrow> u32 \<Rightarrow> u32 \<Rightarrow> u32 option" where
  "expand_slots nIndex addSlotCount allocSlotCount =
     (let alloc = allocSlotCount + addSlotCount
      in if nIndex \<ge> alloc * SLOT_SIZE then expand_slots nIndex addSlotCount alloc else Some alloc)"

text \<open>
  \<^verbatim>\<open>Expand\<close>.  The copy of the old slots must fit the new array.  Without an old array the first
  \<^verbatim>\<open>_slotCount\<close> slots of the new one are left indeterminate: the operation is defined only if there are none.
\<close>

definition eb_expand :: "expandable_bitmap \<Rightarrow> u32 \<Rightarrow> expandable_bitmap option" where
  "eb_expand b nIndex =
     (let half = b_slotCount b div 2; addSlotCount = (if half > 0 then half else 1);
          initValue = (if b_initSet b then 0xFFFFFFFF else 0)
      in do { alloc \<leftarrow> expand_slots nIndex addSlotCount (b_slotCount b);
              old \<leftarrow> (case b_data b of
                 Some ds \<Rightarrow> if unat (b_slotCount b) \<le> length ds \<and> b_slotCount b \<le> alloc
                            then Some (take (unat (b_slotCount b)) ds) else None
               | None \<Rightarrow> if b_slotCount b = 0 then Some [] else None);
              Some (b\<lparr>b_data := Some (old @ replicate (unat (alloc - b_slotCount b)) initValue),
                      b_slotCount := alloc, b_itemCount := alloc * SLOT_SIZE\<rparr>) })"

definition eb_set :: "expandable_bitmap \<Rightarrow> u32 \<Rightarrow> (bool \<times> expandable_bitmap) option" where
  "eb_set b nIndex =
     (if nIndex \<ge> b_itemCount b then
        do { b' \<leftarrow> eb_expand b nIndex; bm_set (b'\<lparr>eb_validItemCount := b_itemCount b'\<rparr>) nIndex }
      else bm_set b nIndex)"

definition eb_reset :: "expandable_bitmap \<Rightarrow> u32 \<Rightarrow> (bool \<times> expandable_bitmap) option" where
  "eb_reset b nIndex =
     (if nIndex \<ge> b_itemCount b then do { b' \<leftarrow> eb_expand b nIndex; bm_reset b' nIndex }
      else bm_reset b nIndex)"

definition eb_resize :: "expandable_bitmap \<Rightarrow> u32 \<Rightarrow> expandable_bitmap option" where
  "eb_resize b nItemCount =
     (if nItemCount \<ge> b_itemCount b then
        do { b' \<leftarrow> eb_expand b nItemCount; Some (b'\<lparr>eb_validItemCount := nItemCount\<rparr>) }
      else Some (b\<lparr>eb_validItemCount := nItemCount\<rparr>))"

definition eb_clone_valid :: "expandable_bitmap \<Rightarrow> expandable_bitmap option" where
  "eb_clone_valid b =
     (let n = unat (slots_for (eb_validItemCount b));
          new = (eb_default False)\<lparr>b_itemCount := eb_validItemCount b, eb_validItemCount := eb_validItemCount b,
                  b_setCount := b_setCount b, b_slotCount := slots_for (eb_validItemCount b),
                  b_initSet := b_initSet b, b_mount := False\<rparr>
      in case b_data b of
           None \<Rightarrow> Some (new\<lparr>b_data := None\<rparr>)
         | Some ds \<Rightarrow> if length ds < n then None else Some (new\<lparr>b_data := Some (take n ds)\<rparr>))"

definition eb_mount ::
  "expandable_bitmap \<Rightarrow> u32 \<Rightarrow> u32 list option \<Rightarrow> bool \<Rightarrow> expandable_bitmap option" where
  "eb_mount b nItemCount pData doNotDelete =
     bm_mount (b\<lparr>eb_validItemCount := nItemCount\<rparr>) nItemCount pData doNotDelete"

definition eb_mount_without_refresh ::
  "expandable_bitmap \<Rightarrow> u32 \<Rightarrow> u32 list option \<Rightarrow> bool \<Rightarrow> expandable_bitmap" where
  "eb_mount_without_refresh b nItemCount pData doNotDelete =
     mount_without_refresh (b\<lparr>eb_validItemCount := nItemCount\<rparr>) nItemCount pData doNotDelete"

section \<open>The growth loop\<close>

lemma expand_slots_grows:
  assumes "0 < unat add" "32 * unat add \<le> 2 ^ 30" "32 * unat alloc \<le> 2 ^ 31" "unat n < 2 ^ 31"
  shows "\<exists>r. expand_slots n add alloc = Some r \<and> unat alloc < unat r \<and> unat n < 32 * unat r \<and>
    32 * unat r \<le> 2 ^ 31 + 2 ^ 30"
  using assms(3)
proof (induction "2 ^ 31 - unat alloc" arbitrary: alloc rule: less_induct)
  case less
  let ?a = "alloc + add"
  have a: "unat ?a = unat alloc + unat add"
    using less.prems assms(2) by (simp add: unat_word_ariths)
  then have m: "unat (?a * SLOT_SIZE) = 32 * unat ?a"
    using less.prems assms(2) by (intro unat_times_slot) simp
  show ?case
  proof (cases "n \<ge> ?a * SLOT_SIZE")
    case True
    then have le: "32 * unat ?a \<le> unat n"
      using m by (simp add: word_le_nat_alt)
    then have "\<exists>r. expand_slots n add ?a = Some r \<and> unat ?a < unat r \<and> unat n < 32 * unat r \<and>
        32 * unat r \<le> 2 ^ 31 + 2 ^ 30"
      using a assms(1,4) less.prems by (intro less.hyps) auto
    then show ?thesis
      using True a by (subst expand_slots.simps) (auto simp: Let_def)
  next
    case False
    then have "unat n < 32 * unat ?a"
      using m by (simp add: word_le_nat_alt not_le)
    moreover have "expand_slots n add alloc = Some ?a"
      using False by (subst expand_slots.simps) (simp add: Let_def)
    ultimately show ?thesis
      using a assms(1,2) less.prems by auto
  qed
qed

lemma times_slot_le: "x * SLOT_SIZE \<le> 0xFFFFFFE0" for x :: u32
proof -
  have "unat (x * SLOT_SIZE) = unat x * 32 mod 2 ^ 32"
    by (simp add: SLOT_SIZE_def unat_word_ariths)
  also have "\<dots> = 32 * (unat x mod 2 ^ 27)"
    using mult_mod_right [of 32 "unat x" "2 ^ 27"] by (simp add: mult.commute)
  finally show ?thesis
    using mod_less_divisor [of "2 ^ 27" "unat x"] by (simp add: word_le_nat_alt)
qed

lemma expand_slots_bound: "expand_slots n add alloc = Some r \<Longrightarrow> n < 0xFFFFFFE0"
proof (erule expand_slots.raw_induct [where P = "\<lambda>n add alloc r. n < 0xFFFFFFE0", rotated])
  fix f :: "u32 \<Rightarrow> u32 \<Rightarrow> u32 \<Rightarrow> u32 option" and n add alloc r
  assume IH: "\<And>n add alloc r. f n add alloc = Some r \<Longrightarrow> n < 0xFFFFFFE0"
    and step: "(let alloc' = alloc + add
      in if alloc' * SLOT_SIZE \<le> n then f n add alloc' else Some alloc') = Some r"
  show "n < 0xFFFFFFE0"
  proof (cases "(alloc + add) * SLOT_SIZE \<le> n")
    case True
    then show ?thesis using step IH [of n add "alloc + add" r] by (simp add: Let_def)
  next
    case False
    then show ?thesis using times_slot_le [of "alloc + add"] by (simp only: not_le less_le_trans)
  qed
qed

section \<open>Growth keeps the items\<close>

lemma bit_at_less: "bit_at ds i \<Longrightarrow> i < 32 * length ds"
  using dividend_less_times_div [of 32 i] by (simp add: bit_at_def)

lemma tight_iff: "bm_tight b \<longleftrightarrow> (\<forall>i. bit_at (slots b) i \<longrightarrow> i < unat (b_itemCount b))"
  using bit_at_less [of "slots b"] by (auto simp: bm_tight_def list_all_iff)

lemma bm_set_tight:
  assumes "bm_shape b" "bm_tight b" "n < b_itemCount b" "bm_set b n = Some (r, b')"
  shows "bm_tight b' \<and> b_initSet b' = b_initSet b"
proof -
  have q: "quot n < length (slots b)"
    using shape_quot [OF assms(1,3)] .
  have "bit_at ((slots b)[quot n := slots b ! quot n OR BITMAPOPMASK ! rem n]) i \<longleftrightarrow>
      bit_at (slots b) i \<or> i = unat n" for i
    using bit_at_set [OF q rem_less, of n i] quot_rem [of n] by simp
  then show ?thesis
    using assms(2-4) q
    by (auto simp: bm_set_def load_slots [OF shape_data [OF assms(1)]] store_slots [OF shape_data [OF assms(1)]]
        tight_iff word_less_nat_alt split: if_splits)
qed

lemma bm_reset_tight:
  assumes "bm_shape b" "bm_tight b" "bm_reset b n = Some (r, b')"
  shows "bm_tight b' \<and> b_initSet b' = b_initSet b"
proof (cases "n \<ge> b_itemCount b")
  case True
  then show ?thesis
    using assms by (simp add: bm_reset_def)
next
  case False
  then have q: "quot n < length (slots b)"
    using shape_quot [OF assms(1)] by (simp add: not_le)
  have "bit_at ((slots b)[quot n := slots b ! quot n AND NOT (BITMAPOPMASK ! rem n)]) i \<longleftrightarrow>
      bit_at (slots b) i \<and> i \<noteq> unat n" for i
    using bit_at_clear [OF q rem_less, of n i] quot_rem [of n] by simp
  then show ?thesis
    using assms(2,3) q False
    by (auto simp: bm_reset_def load_slots [OF shape_data [OF assms(1)]] store_slots [OF shape_data [OF assms(1)]]
        tight_iff split: if_splits)
qed

text \<open>
  The states of an expandable bitmap created clear: either no array yet, or a well-formed bitmap without
  stray bits.
\<close>

definition eb_inv :: "expandable_bitmap \<Rightarrow> bool" where
  "eb_inv b \<longleftrightarrow> \<not> b_initSet b \<and>
     (if b_data b = None then b_itemCount b = 0 \<and> b_slotCount b = 0 \<and> b_setCount b = 0
      else bm_wf b \<and> bm_tight b)"

lemma slots_for_times: "32 * unat s < 2 ^ 32 \<Longrightarrow> slots_for (s * SLOT_SIZE) = s"
proof -
  assume a: "32 * unat s < 2 ^ 32"
  then have u: "unat (s * SLOT_SIZE) = 32 * unat s"
    by (rule unat_times_slot)
  then have "unat (slots_for (s * SLOT_SIZE)) = (32 * unat s + 31) div 32"
    using times_slot_le [of s] by (simp add: unat_slots_for)
  then show ?thesis
    by (simp add: word_unat_eq_iff)
qed

lemma eb_inv_slots:
  assumes "eb_inv b"
  shows "length (slots b) = unat (b_slotCount b)" "unat (b_slotCount b) = (unat (b_itemCount b) + 31) div 32"
    "unat (b_setCount b) = card (items b)" "bit_at (slots b) i \<Longrightarrow> i < unat (b_itemCount b)"
proof -
  have "bm_wf b \<and> bm_tight b \<or> slots b = [] \<and> b_itemCount b = 0 \<and> b_slotCount b = 0 \<and> b_setCount b = 0"
    using assms by (auto simp: eb_inv_def slots_def split: if_splits)
  then show "length (slots b) = unat (b_slotCount b)" "unat (b_slotCount b) = (unat (b_itemCount b) + 31) div 32"
    "unat (b_setCount b) = card (items b)" "bit_at (slots b) i \<Longrightarrow> i < unat (b_itemCount b)"
    using shape_slotCount [of b] by (auto simp: bm_wf_def bm_shape_def tight_iff items_def bit_at_def)
qed

text \<open>What \<^verbatim>\<open>Expand\<close> does to the array, also in a bitmap that was created set.\<close>

lemma eb_expand_grows:
  assumes inv: "eb_inv (b\<lparr>b_initSet := False\<rparr>)" and n: "n \<ge> b_itemCount b" "unat n < 2 ^ 31"
  obtains r where "eb_expand b n =
      Some (b\<lparr>b_data := Some (slots b @ replicate (unat r - unat (b_slotCount b)) (if b_initSet b then 0xFFFFFFFF else 0)),
        b_slotCount := r, b_itemCount := r * SLOT_SIZE\<rparr>)"
    "unat (b_slotCount b) < unat r" "unat n < 32 * unat r" "32 * unat r \<le> 2 ^ 31 + 2 ^ 30" "unat (r * SLOT_SIZE) = 32 * unat r"
proof -
  let ?s = "b_slotCount b" and ?ds = "slots b"
  let ?add = "if ?s div 2 > 0 then ?s div 2 else 1"
  have sl: "length ?ds = unat ?s" "unat ?s = (unat (b_itemCount b) + 31) div 32"
    using eb_inv_slots(1,2) [OF inv] by (simp_all add: slots_def)
  have s31: "32 * unat ?s \<le> 2 ^ 31"
    using n sl(2) by (simp add: word_le_nat_alt)
  have "unat ?add = (if unat ?s div 2 > 0 then unat ?s div 2 else 1)"
    by (simp add: word_less_nat_alt unat_div)
  then have "0 < unat ?add" "32 * unat ?add \<le> 2 ^ 30"
    using s31 by auto
  then obtain r where r: "expand_slots n ?add ?s = Some r" "unat ?s < unat r" "unat n < 32 * unat r"
    "32 * unat r \<le> 2 ^ 31 + 2 ^ 30"
    using expand_slots_grows [OF _ _ s31 n(2)] by blast
  have "(case b_data b of
      Some ds \<Rightarrow> if unat ?s \<le> length ds \<and> ?s \<le> r then Some (take (unat ?s) ds) else None
    | None \<Rightarrow> if ?s = 0 then Some [] else None) = Some ?ds"
    using inv sl(1) r(2) by (auto simp: slots_def eb_inv_def word_le_nat_alt split: option.splits)
  moreover have "unat (r - ?s) = unat r - unat ?s"
    using r(2) by (simp add: unat_sub word_le_nat_alt)
  moreover have "unat (r * SLOT_SIZE) = 32 * unat r"
    using r(4) by (intro unat_times_slot) simp
  ultimately show ?thesis
    using that [of r] r unfolding eb_expand_def Let_def by simp
qed

lemma eb_expand_items:
  assumes inv: "eb_inv b" and n: "n \<ge> b_itemCount b" "unat n < 2 ^ 31"
  obtains b' where "eb_expand b n = Some b'" "bm_wf b'" "bm_tight b'" "\<not> b_initSet b'"
    "items b' = items b" "n < b_itemCount b'"
proof -
  let ?s = "b_slotCount b" and ?ds = "slots b"
  note sl = eb_inv_slots [OF inv]
  have clear: "\<not> b_initSet b" "eb_inv (b\<lparr>b_initSet := False\<rparr>)"
  proof -
    show "\<not> b_initSet b"
      using inv by (simp add: eb_inv_def)
    then have "b\<lparr>b_initSet := False\<rparr> = b"
      by (cases b) simp
    then show "eb_inv (b\<lparr>b_initSet := False\<rparr>)"
      using inv by simp
  qed
  obtain r where e: "eb_expand b n = Some (b\<lparr>b_data := Some (?ds @ replicate (unat r - unat ?s) 0), b_slotCount := r,
      b_itemCount := r * SLOT_SIZE\<rparr>)" and r: "unat ?s < unat r" "unat n < 32 * unat r" "32 * unat r \<le> 2 ^ 31 + 2 ^ 30"
      "unat (r * SLOT_SIZE) = 32 * unat r"
    using eb_expand_grows [OF clear(2) n] clear(1) by (auto split: if_splits)
  let ?new = "?ds @ replicate (unat r - unat ?s) 0"
  let ?b' = "b\<lparr>b_data := Some ?new, b_slotCount := r, b_itemCount := r * SLOT_SIZE\<rparr>"
  have len: "length ?new = unat r"
    using sl(1) r(1) by simp
  have sh: "bm_shape ?b'"
    using len r(3) slots_for_times [of r] times_slot_le [of r] by (simp add: bm_shape_def slots_def)
  have bits: "bit_at ?new i \<longleftrightarrow> bit_at ?ds i" for i
    by (auto simp: bit_at_def nth_append)
  have new: "slots ?b' = ?new"
    by (simp add: slots_def)
  have "i < 32 * unat r" if "bit_at ?ds i" for i
    using bit_at_less [OF that] sl(1) r(1) by simp
  then have it: "items ?b' = items b"
    using sl(4) unfolding items_def new bits by (auto simp: r(4))
  have "bm_tight ?b'"
    using bit_at_less [of ?new] unfolding tight_iff new len by (simp add: r(4))
  moreover have "bm_wf ?b'"
    unfolding bm_wf_def it using sh sl(3) by simp
  ultimately show ?thesis
    using that [of ?b'] e it clear(1) r(2,4) by (simp add: word_less_nat_alt)
qed

text \<open>
  A bitmap that was created set: growing it sets all the bits of the new slots, but does not count them, so that the cached
  number of set bits is too small.
\<close>

lemma eb_expand_init_set:
  assumes inv: "eb_inv (b\<lparr>b_initSet := False\<rparr>)" "b_initSet b" and n: "n \<ge> b_itemCount b" "unat n < 2 ^ 31"
  obtains b' where "eb_expand b n = Some b'" "items b' = items b \<union> {32 * unat (b_slotCount b)..<unat (b_itemCount b')}"
    "b_setCount b' = b_setCount b" "unat (b_setCount b') < card (items b')"
proof -
  let ?s = "b_slotCount b" and ?ds = "slots b"
  have sl: "length ?ds = unat ?s" "unat ?s = (unat (b_itemCount b) + 31) div 32" "unat (b_setCount b) = card (items b)"
    "\<And>i. bit_at ?ds i \<Longrightarrow> i < unat (b_itemCount b)"
    using eb_inv_slots [OF inv(1)] by (simp_all add: slots_def items_def)
  obtain r where e: "eb_expand b n = Some (b\<lparr>b_data := Some (?ds @ replicate (unat r - unat ?s) 0xFFFFFFFF), b_slotCount := r,
      b_itemCount := r * SLOT_SIZE\<rparr>)" and r: "unat ?s < unat r" "unat (r * SLOT_SIZE) = 32 * unat r"
    using eb_expand_grows [OF inv(1) n] inv(2) by (auto split: if_splits)
  let ?new = "?ds @ replicate (unat r - unat ?s) 0xFFFFFFFF"
  let ?b' = "b\<lparr>b_data := Some ?new, b_slotCount := r, b_itemCount := r * SLOT_SIZE\<rparr>"
  have le: "unat (b_itemCount b) \<le> 32 * unat ?s"
    using sl(2) by linarith
  have bits: "bit_at ?new i \<longleftrightarrow> bit_at ?ds i \<or> 32 * unat ?s \<le> i \<and> i < 32 * unat r" for i
    using sl(1) r(1) by (auto simp: bit_at_def nth_append bit_ones div_less_iff_less_mult not_less)
  have new: "slots ?b' = ?new"
    by (simp add: slots_def)
  have it: "items ?b' = items b \<union> {32 * unat ?s..<unat (b_itemCount ?b')}"
    unfolding items_def new bits using sl(4) le r by (fastforce simp: r(2))
  moreover have "items b \<inter> {32 * unat ?s..<unat (b_itemCount ?b')} = {}"
    using le by (auto simp: items_def)
  moreover have "finite (items b)"
    by (simp add: items_def)
  ultimately have "card (items ?b') = card (items b) + (32 * unat r - 32 * unat ?s)"
    using r(2) by (simp add: card_Un_disjoint)
  then show ?thesis
    using that [of ?b'] e it sl(3) r by simp
qed

lemma eb_inv_wf: "eb_inv b \<Longrightarrow> n < b_itemCount b \<Longrightarrow> bm_wf b \<and> bm_tight b \<and> \<not> b_initSet b"
  by (auto simp: eb_inv_def split: if_splits)

lemma wf_eb_inv: "bm_wf b \<Longrightarrow> bm_tight b \<Longrightarrow> \<not> b_initSet b \<Longrightarrow> eb_inv b"
  by (auto simp: eb_inv_def bm_wf_def bm_shape_def)

lemma bm_set_inv:
  assumes "bm_wf b" "bm_tight b" "\<not> b_initSet b" "n < b_itemCount b"
  shows "\<exists>b'. bm_set b n = Some (unat n \<notin> items b, b') \<and> eb_inv b' \<and> items b' = insert (unat n) (items b)"
proof -
  obtain b' where b': "bm_set b n = Some (unat n \<notin> items b, b')" "bm_wf b'"
    "items b' = insert (unat n) (items b)"
    using bm_set_items [OF assms(1,4)] .
  moreover have "bm_tight b' \<and> b_initSet b' = b_initSet b"
    using bm_set_tight [OF _ assms(2,4) b'(1)] assms(1) by (simp add: bm_wf_def)
  ultimately show ?thesis
    using wf_eb_inv [of b'] assms(3) by auto
qed

lemma bm_reset_inv:
  assumes "bm_wf b" "bm_tight b" "\<not> b_initSet b"
  shows "\<exists>b'. bm_reset b n = Some (unat n \<in> items b, b') \<and> eb_inv b' \<and> items b' = items b - {unat n}"
proof -
  obtain b' where b': "bm_reset b n = Some (unat n \<in> items b, b')" "bm_wf b'" "items b' = items b - {unat n}"
    using bm_reset_items [OF assms(1)] .
  moreover have "bm_tight b' \<and> b_initSet b' = b_initSet b"
    using bm_reset_tight [OF _ assms(2) b'(1)] assms(1) by (simp add: bm_wf_def)
  ultimately show ?thesis
    using wf_eb_inv [of b'] assms(3) by auto
qed

lemma wf_valid_update [simp]:
  "bm_wf (b\<lparr>eb_validItemCount := v\<rparr>) = bm_wf b" "bm_tight (b\<lparr>eb_validItemCount := v\<rparr>) = bm_tight b"
  "items (b\<lparr>eb_validItemCount := v\<rparr>) = items b"
  by (simp_all add: bm_wf_def bm_shape_def bm_tight_def items_def slots_def)

text \<open>Every index below \<open>2 ^ 31\<close> can be set and reset, whatever the current size.\<close>

lemma eb_set_law:
  assumes "eb_inv b" "unat n < 2 ^ 31"
  shows "\<exists>b'. eb_set b n = Some (unat n \<notin> items b, b') \<and> eb_inv b' \<and> items b' = insert (unat n) (items b)"
proof (cases "n \<ge> b_itemCount b")
  case True
  obtain b1 where b1: "eb_expand b n = Some b1" "bm_wf b1" "bm_tight b1" "\<not> b_initSet b1"
    "items b1 = items b" "n < b_itemCount b1"
    using eb_expand_items [OF assms(1) True assms(2)] .
  then show ?thesis
    using bm_set_inv [of "b1\<lparr>eb_validItemCount := b_itemCount b1\<rparr>" n] True by (simp add: eb_set_def)
next
  case False
  then have "n < b_itemCount b" by simp
  then show ?thesis
    using bm_set_inv [of b n] eb_inv_wf [OF assms(1)] False by (simp add: eb_set_def)
qed

lemma eb_reset_law:
  assumes "eb_inv b" "unat n < 2 ^ 31"
  shows "\<exists>b'. eb_reset b n = Some (unat n \<in> items b, b') \<and> eb_inv b' \<and> items b' = items b - {unat n}"
proof (cases "n \<ge> b_itemCount b")
  case True
  obtain b1 where b1: "eb_expand b n = Some b1" "bm_wf b1" "bm_tight b1" "\<not> b_initSet b1"
    "items b1 = items b"
    using eb_expand_items [OF assms(1) True assms(2)] .
  then show ?thesis
    using bm_reset_inv [of b1 n] True by (simp add: eb_reset_def)
next
  case False
  then have "n < b_itemCount b" by simp
  then show ?thesis
    using bm_reset_inv [of b n] eb_inv_wf [OF assms(1)] False by (simp add: eb_reset_def)
qed

interpretation eb: item_set eb_inv items "\<lambda>b n. unat n < 2 ^ 31" eb_set eb_reset
  by unfold_locales (simp_all add: eb_set_law eb_reset_law)

interpretation bm: item_set bm_wf items "\<lambda>b n. n < b_itemCount b" bm_set bm_reset
proof unfold_locales
  fix b :: "'a bitmap_scheme" and n
  assume "bm_wf b" "n < b_itemCount b"
  then show "\<exists>b'. bm_set b n = Some (unat n \<notin> items b, b') \<and> bm_wf b' \<and> items b' = insert (unat n) (items b) \<and>
      (\<forall>m. m < b_itemCount b \<longrightarrow> m < b_itemCount b')"
    by (rule bm_set_items) simp
next
  fix b :: "'a bitmap_scheme" and n
  assume "bm_wf b"
  then show "\<exists>b'. bm_reset b n = Some (unat n \<in> items b, b') \<and> bm_wf b' \<and> items b' = items b - {unat n} \<and>
      (\<forall>m. m < b_itemCount b \<longrightarrow> m < b_itemCount b')"
    by (rule bm_reset_items [of b n]) simp
qed

lemma eb_resize_law:
  assumes "eb_inv b" "unat n < 2 ^ 31"
  shows "\<exists>b'. eb_resize b n = Some b' \<and> eb_inv b' \<and> items b' = items b \<and> eb_validItemCount b' = n"
proof (cases "n \<ge> b_itemCount b")
  case True
  obtain b1 where "eb_expand b n = Some b1" "bm_wf b1" "bm_tight b1" "\<not> b_initSet b1" "items b1 = items b"
    using eb_expand_items [OF assms(1) True assms(2)] .
  then show ?thesis
    using True wf_eb_inv [of "b1\<lparr>eb_validItemCount := n\<rparr>"] by (simp add: eb_resize_def)
next
  case False
  moreover have "eb_inv (b\<lparr>eb_validItemCount := n\<rparr>)"
    using assms(1) by (simp add: eb_inv_def)
  ultimately show ?thesis
    by (simp add: eb_resize_def)
qed

lemma eb_default_inv: "eb_inv (eb_default False)" "items (eb_default False) = {}"
  by (simp_all add: eb_inv_def eb_default_def bitmap_default_def items_def bitmap.defs)

end
