(* ===== verification/BitmapProps.thy ===== *)
theory BitmapProps
  imports ExpandableBitmap
begin

text \<open>
  The properties of \<^verbatim>\<open>Bitmap\<close> and \<^verbatim>\<open>ExpandableBitmap\<close>.  A bitmap stands for the set \<open>items\<close> of the
  indices below its item count whose bit is set; each property says what an operation does to that set.
\<close>

section \<open>Remaining operations\<close>

lemma bit_at_replicate:
  "bit_at (replicate k (if s then 0xFFFFFFFF else 0)) i \<longleftrightarrow> s \<and> i < 32 * k"
proof -
  have "i div 32 < k \<longleftrightarrow> i < 32 * k"
    by (simp add: div_less_iff_less_mult mult.commute)
  then show ?thesis
    by (auto simp: bit_at_def bit_ones)
qed

lemma bitmap_new_wf:
  assumes "n \<le> 0xFFFFFFE0"
  shows "bm_wf (bitmap_new n s)" "items (bitmap_new n s) = (if s then {..<unat n} else {})"
    "bm_tight (bitmap_new n False)"
proof -
  have sl: "slots (bitmap_new n s) = replicate (unat (slots_for n)) (if s then 0xFFFFFFFF else 0)" for s
    by (simp add: bitmap_new_def slots_def)
  have len: "unat n \<le> 32 * unat (slots_for n)"
    using assms by (simp add: unat_slots_for)
  have it: "items (bitmap_new n s) = (if s then {..<unat n} else {})" for s
    using len unfolding items_def sl bit_at_replicate by (auto simp: bitmap_new_def)
  show "items (bitmap_new n s) = (if s then {..<unat n} else {})"
    by (rule it)
  have "bm_shape (bitmap_new n s)"
    using assms by (simp add: bm_shape_def sl) (simp add: bitmap_new_def)
  then show "bm_wf (bitmap_new n s)"
    unfolding bm_wf_def it by (simp add: bitmap_new_def)
  show "bm_tight (bitmap_new n False)"
    unfolding tight_iff sl bit_at_replicate by simp
qed

lemma items_outside: "unat n \<in> items b \<Longrightarrow> n < b_itemCount b"
  by (simp add: items_def word_less_nat_alt)

lemma adds_slots_tail: "bm_shape b \<Longrightarrow> unat (b_itemCount b) \<le> 32 * length (slots b)"
  unfolding shape_length by simp

text \<open>A binary operator, read on items.\<close>

lemma operator_items:
  assumes b: "bm_shape b" and c: "bm_shape c" and n: "b_itemCount c = b_itemCount b" "b_itemCount b \<noteq> 0"
    and F: "\<And>d e j. j < 32 \<Longrightarrow> bit (f d e) j = F (bit d j) (bit e j)"
  shows "\<exists>b'. do { b1 \<leftarrow> modify_slots (\<lambda>i d. map_option (f d) (load c i)) [0..<unat (b_slotCount b)] b;
      refresh_set_count b1 } = Some b' \<and> bm_wf b' \<and>
      items b' = {i. i < unat (b_itemCount b) \<and> F (i \<in> items b) (i \<in> items c)}"
proof -
  obtain b' where
    b': "do { b1 \<leftarrow> modify_slots (\<lambda>i d. map_option (f d) (load c i)) [0..<unat (b_slotCount b)] b; refresh_set_count b1 } = Some b'"
    "bm_wf b'" "b_itemCount b' = b_itemCount b"
    "\<And>i. bit_at (slots b') i \<longleftrightarrow> i < 32 * length (slots b) \<and> F (bit_at (slots b) i) (bit_at (slots c) i)"
    using binary_operator [where f = f and F = F, OF b c n F] by blast
  have "items b' = {i. i < unat (b_itemCount b) \<and> F (i \<in> items b) (i \<in> items c)}"
    using adds_slots_tail [OF b] n(1) by (auto simp: items_def [of b'] b'(3,4)) (auto simp: items_def)
  then show ?thesis
    using b' by blast
qed

lemma complement_items:
  assumes "bm_wf b" "b_itemCount b \<noteq> 0"
  shows "\<exists>b'. bm_complement b = Some b' \<and> bm_wf b' \<and> items b' = {..<unat (b_itemCount b)} - items b"
proof -
  have sh: "bm_shape b" and cnt: "unat (b_setCount b) = card (items b)"
    using assms(1) by (simp_all add: bm_wf_def)
  obtain ds where ds: "bm_complement b = Some (b\<lparr>b_setCount := get_unset_count b, b_data := Some ds\<rparr>)"
    "length ds = length (slots b)"
    "\<And>i. bit_at ds i \<longleftrightarrow> (if i < unat (b_itemCount b) then \<not> bit_at (slots b) i else bit_at (slots b) i)"
    using bm_complement_bits [OF sh assms(2)] by blast
  let ?b' = "b\<lparr>b_setCount := get_unset_count b, b_data := Some ds\<rparr>"
  have it: "items ?b' = {..<unat (b_itemCount b)} - items b"
    using ds(3) by (auto simp: items_def slots_def [of ?b'])
  have sub: "items b \<subseteq> {..<unat (b_itemCount b)}"
    by (auto simp: items_def)
  then have "card (items b) \<le> unat (b_itemCount b)"
    using card_items_le by blast
  then have "unat (get_unset_count b) = unat (b_itemCount b) - card (items b)"
    using cnt by (simp add: get_unset_count_def unat_sub word_le_nat_alt)
  moreover have "card ({..<unat (b_itemCount b)} - items b) = unat (b_itemCount b) - card (items b)"
    using sub by (simp add: card_Diff_subset)
  moreover have "bm_shape ?b'"
    using shape_data_update [OF sh ds(2)] by (simp add: bm_shape_def slots_def)
  ultimately show ?thesis
    using ds(1) it by (simp add: bm_wf_def)
qed

lemma next_item_items:
  assumes "bm_shape b" "bm_tight b"
  shows "next_item (slots b) a =
    (if \<exists>i \<in> items b. a \<le> i then word_of_nat (LEAST i. i \<in> items b \<and> a \<le> i) else INVALID_INDEX)"
proof -
  have "bit_at (slots b) i \<longleftrightarrow> i \<in> items b" for i
    using assms(2) by (auto simp: tight_iff items_def)
  then show ?thesis
    by (auto simp: next_item_def conj_commute)
qed

lemma bm_next_items:
  assumes "bm_shape b" "bm_tight b" "n \<noteq> INVALID_INDEX"
  shows "bm_next b n = Some (if \<exists>i \<in> items b. unat n < i then word_of_nat (LEAST i. i \<in> items b \<and> unat n < i)
    else INVALID_INDEX)"
proof -
  have "unat n \<noteq> 0xFFFFFFFF" "unat n < 2 ^ 32"
    using assms(3) unsigned_less [of n, where ?'a = nat] by (simp_all add: INVALID_INDEX_def word_unat_eq_iff)
  then have u: "unat (n + 1) = Suc (unat n)"
    by (simp add: unat_word_ariths)
  have "bm_next b n = Some (next_item (slots b) (unat (n + 1)))"
  proof (cases "n + 1 < b_itemCount b")
    case True
    then have "quot (n + 1) < length (slots b)"
      by (rule shape_quot [OF assms(1)])
    moreover have "unat (b_slotCount b) = length (slots b)"
      using assms(1) by (simp add: bm_shape_def)
    ultimately show ?thesis
      using next_scan_next [OF shape_data [OF assms(1)], of "quot (n + 1)" "rem (n + 1)"] True
      by (simp add: bm_next_def quot_rem [symmetric])
  next
    case False
    then have "\<not> (\<exists>i \<in> items b. unat (n + 1) \<le> i)"
      by (auto simp: items_def word_less_nat_alt)
    then show ?thesis
      using False by (simp add: bm_next_def next_item_items [OF assms(1,2)])
  qed
  then show ?thesis
    by (simp only: next_item_items [OF assms(1,2)] u Suc_le_eq)
qed

section \<open>Properties\<close>

text \<open>Concrete bitmaps: a fresh one of 40 items, and a full one.\<close>

abbreviation clear40 :: bitmap where "clear40 \<equiv> bitmap_new 40 False"
abbreviation full40 :: bitmap where "full40 \<equiv> bitmap_new 40 True"

lemma new40:
  "bm_wf (bitmap_new 40 s)" "bm_shape (bitmap_new 40 s)" "bm_tight clear40" "items clear40 = {}"
  "items full40 = {..<40}" "b_itemCount (bitmap_new 40 s) = 40" "b_setCount full40 = 40"
  using bitmap_new_wf [of 40] by (simp_all add: bm_wf_def) (simp_all add: bitmap_new_def)

text \<open>
  C5. Any sequence of \<^verbatim>\<open>Set\<close> and \<^verbatim>\<open>Reset\<close> calls within the item count behaves as on a set of indices: each
  call answers whether it changed the set, the bits end up being exactly the set, and the cached number
  of set bits is its size.
\<close>

theorem bitmap_runs_as_set:
  assumes "bm_wf b" "\<forall>x \<in> set xs. op_index x < b_itemCount b"
  shows "\<exists>b'. run_ops bm_set bm_reset b xs = Some (fst (set_ops (items b) xs), b') \<and>
    items b' = snd (set_ops (items b) xs) \<and> unat (b_setCount b') = card (items b')"
  using bm.run_refines [OF assms] by (auto simp: bm_wf_def)

theorem bitmap_runs_as_set_witness:
  "\<exists>b'. run_ops bm_set bm_reset clear40 [Put 3, Put 33, Put 3, Drop 33] = Some ([True, True, False, True], b') \<and>
    items b' = {3} \<and> unat (b_setCount b') = 1"
proof -
  have "set_ops {} [Put 3, Put 33, Put 3, Drop 33] = ([True, True, False, True], {3})"
    by auto
  then show ?thesis
    using bitmap_runs_as_set [of clear40 "[Put 3, Put 33, Put 3, Drop 33]"]
    by (auto simp: new40 simp del: run_ops.simps set_ops.simps)
qed

text \<open>
  C7. Any sequence of \<^verbatim>\<open>Set\<close> and \<^verbatim>\<open>Reset\<close> calls on an expandable bitmap that was created clear, for every index below
  \<open>2 ^ 31\<close>, whatever its current size, behaves as on a set of indices: each call answers as on the set, the bits end up being
  exactly the set, and the cached number of set bits is its size.  Growing on demand is invisible to the caller.  The bitmap has either no array yet, or one of the right size with no
  bits set beyond the item count and a cached number of set bits that is right.  (A bitmap that was created set grows by
  bits that are set and not counted.)
\<close>

theorem expandable_bitmap_runs_as_set:
  assumes "eb_inv b" "\<forall>x \<in> set xs. unat (op_index x) < 2 ^ 31"
  shows "\<exists>b'. run_ops eb_set eb_reset b xs = Some (fst (set_ops (items b) xs), b') \<and>
    items b' = snd (set_ops (items b) xs) \<and> unat (b_setCount b') = card (items b')"
  using eb.run_refines [OF assms] eb_inv_slots(3) by blast

theorem expandable_bitmap_runs_as_set_witness:
  "\<exists>b'. run_ops eb_set eb_reset (eb_default False) [Put 1000000, Drop 7, Put 1000000] =
      Some ([True, False, False], b') \<and>
    items b' = {1000000} \<and> unat (b_setCount b') = 1"
proof -
  have "set_ops {} [Put 1000000, Drop 7, Put 1000000] = ([True, False, False], {1000000})"
    by auto
  then show ?thesis
    using expandable_bitmap_runs_as_set [of "eb_default False" "[Put 1000000, Drop 7, Put 1000000]"]
    by (auto simp: eb_default_inv simp del: run_ops.simps set_ops.simps)
qed

text \<open>C26. The parallel bit count of a 64-bit word is the number of its set bits, for every word.\<close>

theorem count_bits64_counts: "unat (count_bits64 v) = card {i. bit v i}"
  using count_bits64_pop [of v] by (simp add: pop_def)

text \<open>
  C27. The number of set bits in a range of a bitmap that is not empty, computed slot by slot with partial first and last
  slots and an end that is cut to the item count, is the number of items in the range.
\<close>

theorem get_set_count_counts_range:
  assumes "bm_shape b" "b_itemCount b \<noteq> 0"
  shows "get_set_count b i j = Some (word_of_nat (card (items b \<inter> {unat i..unat j})))"
  using get_set_count_items [OF assms] .

theorem get_set_count_counts_range_witness: "get_set_count full40 5 100 = Some 35"
proof -
  have "items full40 \<inter> {5..100} = {5..<40}"
    by (auto simp: new40)
  then show ?thesis
    using get_set_count_counts_range [of full40 5 100] by (simp add: new40)
qed

text \<open>
  C28. \<^verbatim>\<open>ResetBetween\<close> takes exactly the items of the range out, after which \<^verbatim>\<open>HasSetData\<close> finds none there;
  it leaves the cached number of set bits as it was.
\<close>

theorem reset_between_clears_range:
  assumes "bm_shape b" "i \<le> j" "j < b_itemCount b"
  shows "\<exists>b'. reset_between b i j = Some b' \<and> items b' = items b - {unat i..unat j} \<and>
    has_set_data b' i j = Some False \<and> b_setCount b' = b_setCount b"
proof -
  obtain b' where b': "reset_between b i j = Some b'" "clears b {unat i..unat j} b'"
    using reset_between_clears [OF assms] .
  have "has_set_data b' i j = Some (\<exists>k \<in> items b'. unat i \<le> k \<and> k \<le> unat j)"
    using clears_items [OF b'(2)] assms by (intro has_set_data_items) simp_all
  then show ?thesis
    using b' clears_items [OF b'(2)] by auto
qed

theorem reset_between_clears_range_witness:
  "\<exists>b'. reset_between full40 3 35 = Some b' \<and> items b' = {..<3} \<union> {36..<40} \<and>
    has_set_data b' 3 35 = Some False \<and> b_setCount b' = 40"
proof -
  have "{..<40} - {3..35} = {..<3} \<union> {36..<(40 :: nat)}"
    by auto
  then show ?thesis
    using reset_between_clears_range [of full40 3 35] by (simp add: new40)
qed

text \<open>
  C29. \<^verbatim>\<open>Next\<close> answers the least item after its argument, or the invalid index if there is none, on a bitmap
  whose last slot has no bits beyond the item count; the argument is not the invalid index itself.
\<close>

theorem next_is_least_item:
  assumes "bm_shape b" "bm_tight b" "n \<noteq> INVALID_INDEX"
  shows "bm_next b n = Some (if \<exists>i \<in> items b. unat n < i then word_of_nat (LEAST i. i \<in> items b \<and> unat n < i)
    else INVALID_INDEX)"
  using bm_next_items [OF assms] .

definition one40 :: bitmap where
  "one40 = clear40\<lparr>b_data := Some [0, 0x40000000]\<rparr>"

lemma one40: "bm_shape one40" "bm_tight one40" "items one40 = {33}"
proof -
  have "filter (bit_at [0, 0x40000000]) [0..<64] = [33]"
    by code_simp
  then have at: "bit_at [0, 0x40000000] i \<longleftrightarrow> i = 33" if "i < 64" for i
    using that by (auto dest!: arg_cong [of _ _ set])
  have n: "slots one40 = [0, 0x40000000]" "b_itemCount one40 = 40" "b_slotCount one40 = 2"
    by (simp_all add: one40_def slots_def bitmap_new_def slots_for_def SLOT_SIZE_def)
  then show "bm_shape one40" "bm_tight one40" "items one40 = {33}"
    using at by (auto simp: bm_shape_def bm_tight_def items_def list_all_iff one40_def slots_for_def SLOT_SIZE_def)
qed

theorem next_is_least_item_witness: "bm_next one40 5 = Some 33 \<and> bm_next one40 33 = Some INVALID_INDEX"
proof -
  have "(LEAST i. i = 33 \<and> 5 < i) = (33 :: nat)"
    by (rule Least_equality) auto
  then show ?thesis
    using next_is_least_item [OF one40(1,2), of 5] next_is_least_item [OF one40(1,2), of 33] by (simp add: one40 INVALID_INDEX_def)
qed

text \<open>
  C30. The operators on bitmaps of the same item count, which is not zero, are the operations of the set of items: intersection,
  union, difference and complement, and each leaves the cached number of set bits right.
\<close>

theorem operators_are_set_operations:
  assumes "bm_wf b" "bm_shape c" "b_itemCount c = b_itemCount b" "b_itemCount b \<noteq> 0"
  shows "(\<exists>x. bm_and b c = Some x \<and> bm_wf x \<and> items x = items b \<inter> items c) \<and>
    (\<exists>x. bm_or b c = Some x \<and> bm_wf x \<and> items x = items b \<union> items c) \<and>
    (\<exists>x. bm_minus b c = Some x \<and> bm_wf x \<and> items x = items b - items c) \<and>
    (\<exists>x. bm_complement b = Some x \<and> bm_wf x \<and> items x = {..<unat (b_itemCount b)} - items b)"
proof (intro conjI)
  have sh: "bm_shape b" using assms(1) by (simp add: bm_wf_def)
  have sub: "i < unat (b_itemCount b)" if "i \<in> items b \<or> i \<in> items c" for i
    using that assms(3) by (auto simp: items_def)
  note op = operator_items [OF sh assms(2-4)]
  have "{i. i < unat (b_itemCount b) \<and> i \<in> items b \<and> i \<in> items c} = items b \<inter> items c"
    using sub by blast
  then show "\<exists>x. bm_and b c = Some x \<and> bm_wf x \<and> items x = items b \<inter> items c"
    using op [of "\<lambda>d e. d AND e" "\<lambda>p q. p \<and> q"] by (simp add: bm_and_def bit_and_iff)
  have "{i. i < unat (b_itemCount b) \<and> (i \<in> items b \<or> i \<in> items c)} = items b \<union> items c"
    using sub by blast
  then show "\<exists>x. bm_or b c = Some x \<and> bm_wf x \<and> items x = items b \<union> items c"
    using op [of "\<lambda>d e. d OR e" "\<lambda>p q. p \<or> q"] by (simp add: bm_or_def batch_indices_upt bit_or_iff)
  have "{i. i < unat (b_itemCount b) \<and> i \<in> items b \<and> i \<notin> items c} = items b - items c"
    using sub by blast
  then show "\<exists>x. bm_minus b c = Some x \<and> bm_wf x \<and> items x = items b - items c"
    using op [of "\<lambda>d e. d AND NOT e" "\<lambda>p q. p \<and> \<not> q"] by (simp add: bm_minus_def bit_and_iff bit_not_iff)
  show "\<exists>x. bm_complement b = Some x \<and> bm_wf x \<and> items x = {..<unat (b_itemCount b)} - items b"
    using complement_items [OF assms(1,4)] .
qed

theorem operators_are_set_operations_witness:
  "(\<exists>x. bm_minus full40 clear40 = Some x \<and> items x = {..<40}) \<and>
   (\<exists>x. bm_complement full40 = Some x \<and> items x = {})"
  using operators_are_set_operations [of full40 clear40] by (auto simp: new40)

text \<open>
  C31. \<^verbatim>\<open>Copy\<close> of \<open>c\<close> items of a source array to an index where the bitmap has no items yet adds exactly the
  source's items, shifted by the index, and keeps the cached number of set bits right.
\<close>

theorem copy_shifts_items:
  assumes "bm_wf b" "unat c \<le> 32 * length xs" "unat start + unat c \<le> unat (b_itemCount b)"
    and "items b \<inter> {unat start..<unat start + unat c} = {}"
  shows "\<exists>b'. bm_copy b start (Some xs) c = Some b' \<and> bm_wf b' \<and>
    items b' = items b \<union> (\<lambda>j. unat start + j) ` source_items xs (unat c)"
  using bm_copy_items [OF assms] by blast

theorem copy_shifts_items_witness:
  "\<exists>b'. bm_copy clear40 7 (Some [0x80000000, 0x80000000]) 33 = Some b' \<and> items b' = {7, 39}"
proof -
  have "source_items [0x80000000, 0x80000000] 33 = {0, 32}"
  proof -
    have "bit_at [0x80000000, 0x80000000] j \<longleftrightarrow> j = 0 \<or> j = 32" if "j < 33" for j
    proof (cases "j < 32")
      case True
      then show ?thesis
        using bit_at_slot [of 0 "[0x80000000, 0x80000000]" j] bit_op_mask [of 0 "31 - j"] by (auto simp: op_mask_nth)
    next
      case False
      then have "j = 32" using that by simp
      then show ?thesis
        using bit_at_slot [of 1 "[0x80000000, 0x80000000]" 0] by auto
    qed
    then show ?thesis by (auto simp: source_items_def)
  qed
  then show ?thesis
    using copy_shifts_items [of clear40 33 "[0x80000000, 0x80000000]" 7] by (auto simp: new40)
qed

text \<open>
  C32. The loop of \<^verbatim>\<open>Expand\<close> that looks for a large enough slot count ends for every index below \<open>2 ^ 31\<close> in a
  bitmap of at most \<open>2 ^ 31\<close> items: the new array is longer and has room for the index.
\<close>

theorem expand_returns:
  assumes "0 < unat add" "32 * unat add \<le> 2 ^ 30" "32 * unat alloc \<le> 2 ^ 31" "unat n < 2 ^ 31"
  shows "\<exists>r. expand_slots n add alloc = Some r \<and> unat alloc < unat r \<and> unat n < 32 * unat r"
  using expand_slots_grows [OF assms] by blast

theorem expand_returns_witness:
  "\<exists>r. expand_slots 2000000000 1 0 = Some r \<and> 0 < unat r \<and> 2000000000 < 32 * unat r"
  using expand_returns [of 1 0 2000000000] by simp

text \<open>
  C33. For an index in the last slot of the 32-bit range the loop never ends: no slot count times 32, kept in
  32 bits, exceeds it.
\<close>

theorem expand_diverges:
  assumes "n \<ge> 0xFFFFFFE0"
  shows "expand_slots n add alloc = None"
  using expand_slots_bound [of n add alloc] assms by (cases "expand_slots n add alloc") auto

theorem expand_diverges_witness: "expand_slots 0xFFFFFFE5 1 0 = None"
  by (rule expand_diverges) simp

end
