(* ===== verification/BitmapPosting.thy ===== *)
theory BitmapPosting
  imports BitmapProps QueryTree
begin

text \<open>
  Model of \<^verbatim>\<open>indexlib/index/inverted_index/builtin_index/bitmap\<close>: the posting iterator over the bitmaps of a
  term, one per segment, each with an optional second bitmap for documents that were added later.  It is
  the implementation of the contract \<open>postings\<close> that the query executors rely on.

  The bytes of a stored posting are taken as decoded: the size of the bitmap and its slots.
\<close>

section \<open>One segment\<close>

text \<open>\<^verbatim>\<open>SingleBitmapPostingIterator\<close>; document identifiers are signed 64-bit integers.\<close>

record single_iter =
  s_currentLocalId :: int
  s_baseDocId :: int
  s_bitmap :: bitmap
  s_lastDocId :: int
  s_expandBitmap :: bitmap

definition single_new :: single_iter where
  "single_new = \<lparr>s_currentLocalId = INVALID_DOCID, s_baseDocId = 0, s_bitmap = bitmap_default False,
     s_lastDocId = INVALID_DOCID, s_expandBitmap = bitmap_default False\<rparr>"

definition BYTE_SLOT_NUM :: u32 where "BYTE_SLOT_NUM = 8"

text \<open>
  The sources of a posting: a stored bitmap with its size in bytes, the writer of a segment that is being
  built with its item count, or nothing but the documents added later.
\<close>

datatype posting_data = Stored u32 "u32 list" | Realtime u32 "u32 list" | Unstored

type_synonym expand_data = "(u32 \<times> u32 list) option"

definition item_count :: "bitmap \<Rightarrow> int" where
  "item_count b = uint (b_itemCount b)"

definition init_expand_bitmap :: "single_iter \<Rightarrow> expand_data \<Rightarrow> single_iter" where
  "init_expand_bitmap s expandData =
     (case expandData of
        None \<Rightarrow> s
      | Some (n, ds) \<Rightarrow>
          s\<lparr>s_expandBitmap := mount_without_refresh (s_expandBitmap s) n (Some ds) True,
            s_lastDocId := s_lastDocId s + uint n\<rparr>)"

definition single_init :: "single_iter \<Rightarrow> posting_data \<Rightarrow> expand_data \<Rightarrow> single_iter" where
  "single_init s pd expandData =
     (case pd of
        Unstored \<Rightarrow>
          init_expand_bitmap (s\<lparr>s_currentLocalId := INVALID_DOCID, s_lastDocId := s_baseDocId s\<rparr>) expandData
      | Stored bmSize ds \<Rightarrow>
          (let b = mount_without_refresh (s_bitmap s) (bmSize * BYTE_SLOT_NUM) (Some ds) True
           in init_expand_bitmap
                (s\<lparr>s_bitmap := b, s_currentLocalId := INVALID_DOCID, s_lastDocId := s_baseDocId s + item_count b\<rparr>)
                expandData)
      | Realtime n ds \<Rightarrow>
          (let b = mount_without_refresh (s_bitmap s) n (Some ds) True
           in s\<lparr>s_bitmap := b, s_currentLocalId := INVALID_DOCID, s_lastDocId := s_baseDocId s + item_count b\<rparr>))"

text \<open>The loop of \<^verbatim>\<open>SeekBitmap\<close> over the blocks after the first one.\<close>

fun seek_blocks :: "bitmap \<Rightarrow> nat list \<Rightarrow> int option" where
  "seek_blocks b [] = Some INVALID_DOCID"
| "seek_blocks b (i # is) =
     do { d \<leftarrow> load b i;
          if d \<noteq> 0 then Some (uint (push_bit 5 (word_of_nat i) + builtin_clz d)) else seek_blocks b is }"

definition seek_bitmap :: "bitmap \<Rightarrow> int \<Rightarrow> int option" where
  "seek_bitmap b docId =
     (if docId \<ge> item_count b then Some INVALID_DOCID
      else
        (let blockId = nat (docId div 32); blockOffset = nat (docId mod 32)
         in do { d \<leftarrow> load b blockId;
                 let block = (if blockOffset \<noteq> 0 then d AND drop_bit blockOffset 0xFFFFFFFF else d);
                 if block \<noteq> 0 then Some (uint (push_bit 5 (word_of_nat blockId) + builtin_clz block))
                 else seek_blocks b [blockId + 1..<unat (b_slotCount b)] }))"

text \<open>\<^verbatim>\<open>SeekDoc\<close>.\<close>

definition single_seek :: "single_iter \<Rightarrow> int \<Rightarrow> (int \<times> single_iter) option" where
  "single_seek s docId0 =
     (let docId = max (s_currentLocalId s + 1) (docId0 - s_baseDocId s); n = item_count (s_bitmap s);
          hit = (\<lambda>local. Some (local + s_baseDocId s, s\<lparr>s_currentLocalId := local\<rparr>));
          miss = Some (INVALID_DOCID, s)
      in if docId \<ge> n then
           do { expandDocId \<leftarrow> (if bm_size (s_expandBitmap s) \<noteq> 0 then seek_bitmap (s_expandBitmap s) (docId - n)
                                else Some INVALID_DOCID);
                if expandDocId \<noteq> INVALID_DOCID then hit (expandDocId + n) else miss }
         else
           do { localDocId \<leftarrow> seek_bitmap (s_bitmap s) docId;
                if localDocId \<noteq> INVALID_DOCID then hit localDocId
                else if bm_size (s_expandBitmap s) \<noteq> 0 then
                  do { expandDocId \<leftarrow> seek_bitmap (s_expandBitmap s) 0;
                       if expandDocId \<noteq> INVALID_DOCID then hit (expandDocId + n) else miss }
                else miss })"

definition single_test :: "single_iter \<Rightarrow> int \<Rightarrow> (bool \<times> single_iter) option" where
  "single_test s docId =
     (let localDocId = docId - s_baseDocId s; n = item_count (s_bitmap s)
      in do { r \<leftarrow> (if localDocId \<ge> n then bm_test (s_expandBitmap s) (word_of_int (localDocId - n))
                    else bm_test (s_bitmap s) (word_of_int localDocId));
              Some (r, if r then s\<lparr>s_currentLocalId := localDocId\<rparr> else s) })"

section \<open>All segments\<close>

record segment_posting =
  sp_baseDocId :: int
  sp_docCount :: u32
  sp_data :: posting_data
  sp_expand :: expand_data
  sp_mainDocFreq :: int
  sp_currentDocFreq :: int

text \<open>\<^verbatim>\<open>BitmapPostingIterator\<close> with the members of \<^verbatim>\<open>PositionIteratorTyped\<close>.\<close>

record bitmap_iter =
  bi_segs :: "segment_posting list"
  bi_cursor :: int
  bi_singles :: "single_iter list"
  bi_curBaseDocId :: int
  bi_curLastDocId :: int
  bi_segmentLastDocId :: int

definition init_single_iterator :: "bitmap_iter \<Rightarrow> segment_posting \<Rightarrow> single_iter \<Rightarrow> single_iter \<times> bitmap_iter" where
  "init_single_iterator it sp s =
     (let s1 = single_init (s\<lparr>s_baseDocId := sp_baseDocId sp\<rparr>) (sp_data sp) (sp_expand sp);
          segLast = (case sp_data sp of Realtime _ _ \<Rightarrow> s_lastDocId s1 | _ \<Rightarrow> sp_baseDocId sp + uint (sp_docCount sp))
      in (s1, it\<lparr>bi_curBaseDocId := sp_baseDocId sp, bi_segmentLastDocId := segLast,
                 bi_curLastDocId := min segLast (s_lastDocId s1)\<rparr>))"

definition move_to_next_segment :: "bitmap_iter \<Rightarrow> bool \<times> bitmap_iter" where
  "move_to_next_segment it =
     (if bi_cursor it \<noteq> int (length (bi_segs it)) - 1 then
        (let cursor = bi_cursor it + 1; sp = bi_segs it ! nat cursor;
             (s, it1) = init_single_iterator (it\<lparr>bi_cursor := cursor\<rparr>) sp (single_new\<lparr>s_baseDocId := sp_baseDocId sp\<rparr>)
         in (True, it1\<lparr>bi_singles := bi_singles it1 @ [s]\<rparr>))
      else (False, it))"

definition bitmap_iter_init :: "segment_posting list \<Rightarrow> bool \<times> bitmap_iter" where
  "bitmap_iter_init segs =
     (let it = \<lparr>bi_segs = segs, bi_cursor = -1, bi_singles = [], bi_curBaseDocId = INVALID_DOCID,
               bi_curLastDocId = INVALID_DOCID, bi_segmentLastDocId = INVALID_DOCID\<rparr>
      in if segs = [] then (False, it) else move_to_next_segment it)"

definition bitmap_iter_reset :: "bitmap_iter \<Rightarrow> bitmap_iter" where
  "bitmap_iter_reset it = snd (move_to_next_segment (it\<lparr>bi_singles := [], bi_cursor := -1\<rparr>))"

text \<open>The segment the cursor is on.\<close>

definition cur_single :: "bitmap_iter \<Rightarrow> single_iter option" where
  "cur_single it =
     (if 0 \<le> bi_cursor it \<and> nat (bi_cursor it) < length (bi_singles it)
      then Some (bi_singles it ! nat (bi_cursor it)) else None)"

definition put_single :: "single_iter \<Rightarrow> bitmap_iter \<Rightarrow> bitmap_iter" where
  "put_single s it = it\<lparr>bi_singles := (bi_singles it)[nat (bi_cursor it) := s]\<rparr>"

partial_function (option) inner_seek_doc :: "bitmap_iter \<Rightarrow> docid \<Rightarrow> bitmap_iter outcome" where
  "inner_seek_doc it docId =
     do { s \<leftarrow> cur_single it;
          (docRet, s') \<leftarrow> single_seek s docId;
          let it1 = put_single s' it;
          if docRet \<noteq> INVALID_DOCID then Some (Inr docRet, it1)
          else (case move_to_next_segment it1 of
                  (go, it2) \<Rightarrow> if go then inner_seek_doc it2 docId else Some (Inr INVALID_DOCID, it2)) }"

partial_function (option) bitmap_iter_test :: "bitmap_iter \<Rightarrow> docid \<Rightarrow> (bool \<times> bitmap_iter) option" where
  "bitmap_iter_test it docId =
     (if docId < bi_curBaseDocId it then Some (False, it)
      else if docId < bi_curLastDocId it then
        do { s \<leftarrow> cur_single it; (r, s') \<leftarrow> single_test s docId; Some (r, put_single s' it) }
      else if docId < bi_segmentLastDocId it then Some (False, it)
      else (case move_to_next_segment it of
              (go, it') \<Rightarrow> if go then bitmap_iter_test it' docId else Some (False, it')))"

text \<open>
  The iterator as the executors use it.  \<^verbatim>\<open>Clone\<close> starts again from the segments of the iterator; it gives a null pointer
  only if there are none, and then the original could not have been initialised either.
\<close>

definition bitmap_postings :: "bitmap_iter posting_ops" where
  "bitmap_postings =
     \<lparr>it_seek = inner_seek_doc, it_test = bitmap_iter_test,
      it_clone = (\<lambda>it. snd (bitmap_iter_init (bi_segs it))),
      it_doc_freq = (\<lambda>it. sum_list (map sp_mainDocFreq (bi_segs it))),
      it_truncate_doc_freq = (\<lambda>it. sum_list (map sp_currentDocFreq (bi_segs it)))\<rparr>"

section \<open>Seeking in one bitmap\<close>

text \<open>The first item from \<open>a\<close> on, as a document, and the same from the answer of \<^verbatim>\<open>Bitmap::Next\<close>.\<close>

definition item_from :: "'a bitmap_scheme \<Rightarrow> nat \<Rightarrow> int" where
  "item_from b a = (if \<exists>i \<in> items b. a \<le> i then int (LEAST i. i \<in> items b \<and> a \<le> i) else INVALID_DOCID)"

definition as_docid :: "u32 \<Rightarrow> int" where
  "as_docid w = (if w = INVALID_INDEX then INVALID_DOCID else uint w)"

lemma slot_index_valid:
  assumes "32 * i + 31 < 0xFFFFFFFF" "d \<noteq> 0"
  shows "word_of_nat i * SLOT_SIZE + builtin_clz d \<noteq> INVALID_INDEX"
proof -
  have "unat (builtin_clz d) < 32"
    using builtin_clz_first [OF assms(2)] by simp
  then have "unat (word_of_nat i * SLOT_SIZE + builtin_clz d) = 32 * i + unat (builtin_clz d)"
    using assms(1) unat_times_slot [of "word_of_nat i"] by (simp add: unat_word_ariths unat_of_nat)
  then show ?thesis
    using assms(1) \<open>unat (builtin_clz d) < 32\<close> by (auto simp: INVALID_INDEX_def word_unat_eq_iff)
qed

lemma push_bit_slot: "push_bit 5 w = w * SLOT_SIZE" for w :: u32
  by (simp add: push_bit_eq_mult SLOT_SIZE_def)

lemma seek_blocks_scan:
  assumes "\<And>i. i \<in> set is \<Longrightarrow> 32 * i + 31 < 0xFFFFFFFF"
  shows "seek_blocks b is = map_option as_docid (begin_scan b is)"
  using assms
proof (induction "is")
  case Nil
  then show ?case by (simp add: as_docid_def)
next
  case (Cons i "is")
  then show ?case
    using slot_index_valid [of i] by (auto simp: push_bit_slot as_docid_def split: bind_splits)
qed

lemma next_mask_drop: "r < 32 \<Longrightarrow> BITMAP_NEXT_MASK ! r = drop_bit r 0xFFFFFFFF"
  by (rule bit_eqI) (simp add: next_mask_bit bit_drop_bit_eq bit_ones, linarith)

lemma item_from_cases:
  obtains (hit) k where "item_from b a = int k" "k \<in> items b" "a \<le> k" "\<And>i. i \<in> items b \<Longrightarrow> a \<le> i \<Longrightarrow> k \<le> i"
  | (none) "item_from b a = INVALID_DOCID" "\<And>i. i \<in> items b \<Longrightarrow> i < a"
proof (cases "\<exists>i \<in> items b. a \<le> i")
  case True
  then have "(LEAST i. i \<in> items b \<and> a \<le> i) \<in> items b \<and> a \<le> (LEAST i. i \<in> items b \<and> a \<le> i)"
    using LeastI_ex [of "\<lambda>i. i \<in> items b \<and> a \<le> i"] by blast
  moreover have "(LEAST i. i \<in> items b \<and> a \<le> i) \<le> i" if "i \<in> items b" "a \<le> i" for i
    using that by (intro Least_le) simp
  ultimately show ?thesis
    using hit [of "LEAST i. i \<in> items b \<and> a \<le> i"] True unfolding item_from_def by presburger
next
  case False
  then show ?thesis
    by (intro none) (auto simp: item_from_def not_le)
qed

lemma item_from_none: "item_from b a = INVALID_DOCID \<Longrightarrow> i \<in> items b \<Longrightarrow> i < a"
  by (rule item_from_cases [of b a]) (auto simp: INVALID_DOCID_def)

lemma item_from_nonneg: "item_from b a \<noteq> INVALID_DOCID \<Longrightarrow> 0 \<le> item_from b a"
  by (rule item_from_cases [of b a]) auto

lemma item_count_nonneg [simp]: "0 \<le> item_count b"
  by (simp add: item_count_def)

lemma as_docid_next:
  assumes "bm_shape b" "bm_tight b"
  shows "as_docid (next_item (slots b) a) = item_from b a"
proof (cases "\<exists>i \<in> items b. a \<le> i")
  case True
  let ?k = "LEAST i. i \<in> items b \<and> a \<le> i"
  have "?k \<in> items b"
    using LeastI_ex [of "\<lambda>i. i \<in> items b \<and> a \<le> i"] True by blast
  then have "?k < 0xFFFFFFE0"
    using assms(1) by (auto simp: items_def bm_shape_def word_le_nat_alt)
  then have "uint (word_of_nat ?k :: u32) = int ?k" "(word_of_nat ?k :: u32) \<noteq> INVALID_INDEX"
    by (simp_all add: uint_nat unat_of_nat INVALID_INDEX_def word_unat_eq_iff)
  then show ?thesis
    using True by (simp add: next_item_items [OF assms] item_from_def as_docid_def)
next
  case False
  then show ?thesis
    by (simp add: next_item_items [OF assms] item_from_def as_docid_def)
qed

lemma item_count_less: "0 \<le> l \<Longrightarrow> l < item_count b \<longleftrightarrow> nat l < unat (b_itemCount b)"
  by (simp only: item_count_def uint_nat nat_less_iff)

lemma seek_bitmap_scan:
  assumes "bm_shape b" "0 \<le> l" "l < item_count b" "q = nat l div 32" "r = nat l mod 32"
  shows "seek_bitmap b l = map_option as_docid (next_scan b q r [q..<length (slots b)])"
proof -
  have ds: "b_data b = Some (slots b)"
    using shape_data [OF assms(1)] .
  have "nat l < unat (b_itemCount b)"
    using assms(3) item_count_less [OF assms(2)] by blast
  then have q: "q < length (slots b)"
    unfolding shape_length [OF assms(1)] assms(4) by simp
  have sc: "length (slots b) = unat (b_slotCount b)"
    using assms(1) by (simp add: bm_shape_def)
  have "unat (b_itemCount b) \<le> 0xFFFFFFE0"
    using assms(1) by (simp add: bm_shape_def word_le_nat_alt)
  then have len: "32 * i + 31 < 0xFFFFFFFF" if "i < length (slots b)" for i
    using that unfolding shape_length [OF assms(1)] by linarith
  have qr: "nat (l div 32) = q" "nat (l mod 32) = r" "r < 32"
    using assms(2,4,5) by (simp_all add: nat_div_distrib nat_mod_distrib)
  have blocks: "seek_blocks b [q + 1..<length (slots b)] = map_option as_docid (next_scan b q r [q + 1..<length (slots b)])"
    using len seek_blocks_scan [of "[q + 1..<length (slots b)]" b] next_scan_rest [OF ds, of q "q + 1" r] by simp
  have data: "(if r \<noteq> 0 then d AND drop_bit r 0xFFFFFFFF else d) = d AND BITMAP_NEXT_MASK ! r" for d
  proof (cases "r = 0")
    case True
    have "d AND 0xFFFFFFFF = d"
      by (rule bit_eqI) (simp add: bit_and_iff bit_ones)
    then show ?thesis
      using True by (simp add: BITMAP_NEXT_MASK_def)
  next
    case False
    then show ?thesis
      using next_mask_drop [OF qr(3)] by simp
  qed
  have split: "[q..<length (slots b)] = q # [q + 1..<length (slots b)]"
    using q by (simp add: upt_conv_Cons)
  let ?d = "slots b ! q AND BITMAP_NEXT_MASK ! r"
  have "seek_bitmap b l =
    (let block = (if r \<noteq> 0 then slots b ! q AND drop_bit r 0xFFFFFFFF else slots b ! q)
     in if block \<noteq> 0 then Some (uint (push_bit 5 (word_of_nat q) + builtin_clz block))
        else seek_blocks b [q + 1..<unat (b_slotCount b)])"
    unfolding seek_bitmap_def qr Let_def using assms(3) q by (simp add: load_slots [OF ds])
  also have "\<dots> =
    (if ?d \<noteq> 0 then Some (uint (word_of_nat q * SLOT_SIZE + builtin_clz ?d))
     else seek_blocks b [q + 1..<length (slots b)])"
    unfolding data Let_def push_bit_slot sc ..
  also have "\<dots> = map_option as_docid (next_scan b q r [q..<length (slots b)])"
    using q slot_index_valid [OF len [OF q], of ?d] unfolding split blocks
    by (simp add: load_slots [OF ds] Let_def as_docid_def)
  finally show ?thesis .
qed

definition bm_good :: "'a bitmap_scheme \<Rightarrow> bool" where
  "bm_good b \<longleftrightarrow> b_itemCount b = 0 \<and> b_slotCount b = 0 \<or> bm_shape b \<and> bm_tight b"

lemma seek_bitmap_items:
  assumes "bm_good b" "0 \<le> l"
  shows "seek_bitmap b l = Some (item_from b (nat l))"
proof (cases "l < item_count b")
  case False
  then have "\<not> (\<exists>i \<in> items b. nat l \<le> i)"
    using item_count_less [OF assms(2), of b] by (auto simp: items_def)
  then show ?thesis
    using False by (simp add: seek_bitmap_def item_from_def)
next
  case True
  then have b: "bm_shape b" "bm_tight b"
    using assms by (auto simp: bm_good_def item_count_def)
  have "nat l < unat (b_itemCount b)"
    using item_count_less [OF assms(2)] True by blast
  then have "nat l div 32 < length (slots b)"
    unfolding shape_length [OF b(1)] by simp
  then show ?thesis
    using seek_bitmap_scan [OF b(1) assms(2) True refl refl] as_docid_next [OF b]
      next_scan_next [OF shape_data [OF b(1)], of "nat l div 32" "nat l mod 32"]
    by simp
qed

section \<open>Seeking in one segment\<close>

text \<open>The documents of a segment, without its base: the items of the bitmap and, behind them, of the second one.\<close>

definition local_docs :: "single_iter \<Rightarrow> int set" where
  "local_docs s = int ` items (s_bitmap s) \<union> (\<lambda>i. item_count (s_bitmap s) + int i) ` items (s_expandBitmap s)"

definition single_docs :: "single_iter \<Rightarrow> docid set" where
  "single_docs s = (\<lambda>x. x + s_baseDocId s) ` local_docs s"

definition single_inv :: "single_iter \<Rightarrow> bool" where
  "single_inv s \<longleftrightarrow> bm_good (s_bitmap s) \<and> bm_good (s_expandBitmap s) \<and> 0 \<le> s_baseDocId s \<and> -1 \<le> s_currentLocalId s"

lemma local_docs_bitmap: "x \<in> int ` items b \<Longrightarrow> x < item_count b"
  using item_count_less [of x b] by (auto simp: items_def)

lemma bm_size_items: "bm_good b \<Longrightarrow> bm_size b = 0 \<Longrightarrow> items b = {}"
proof -
  assume "bm_good b" "bm_size b = 0"
  moreover have "items b = {}" if "bm_shape b" "bm_size b = 0"
  proof -
    have "unat (b_itemCount b) \<le> 0xFFFFFFE0"
      using that(1) by (simp add: bm_shape_def word_le_nat_alt)
    then have "unat (b_slotCount b) \<le> 2 ^ 27"
      unfolding shape_slotCount [OF that(1)] by simp
    then have "unat (b_slotCount b * 4) = unat (b_slotCount b) * 4"
      by (simp add: unat_word_ariths)
    then have "unat (b_itemCount b) = 0"
      using that shape_slotCount [OF that(1)] by (simp add: bm_size_def)
    then show ?thesis
      by (simp add: items_def)
  qed
  ultimately show ?thesis
    by (auto simp: bm_good_def items_def)
qed

text \<open>The answer that the two bitmaps give from position \<open>l\<close> of the segment on.\<close>

definition local_from :: "single_iter \<Rightarrow> int \<Rightarrow> int" where
  "local_from s l =
     (let n = item_count (s_bitmap s); m = item_from (s_bitmap s) (nat l);
          e = item_from (s_expandBitmap s) (nat (l - n))
      in if l < n \<and> m \<noteq> INVALID_DOCID then m else if e \<noteq> INVALID_DOCID then e + n else INVALID_DOCID)"

lemma local_from_cases:
  assumes "0 \<le> l"
  obtains (hit) "local_from s l \<in> local_docs s" "l \<le> local_from s l" "\<And>x. x \<in> local_docs s \<Longrightarrow> l \<le> x \<Longrightarrow> local_from s l \<le> x"
      "0 \<le> local_from s l"
  | (none) "local_from s l = INVALID_DOCID" "\<And>x. x \<in> local_docs s \<Longrightarrow> x < l"
proof -
  let ?n = "item_count (s_bitmap s)" and ?m = "item_from (s_bitmap s) (nat l)"
  let ?e = "item_from (s_expandBitmap s) (nat (l - ?n))"
  have n: "0 \<le> ?n"
    by (simp add: item_count_def)
  have inv: "int k \<noteq> INVALID_DOCID" for k
    by (simp add: INVALID_DOCID_def)
  show ?thesis
  proof (cases "l < ?n \<and> ?m \<noteq> INVALID_DOCID")
    case True
    then obtain k where k: "?m = int k" "k \<in> items (s_bitmap s)" "nat l \<le> k"
      "\<And>i. i \<in> items (s_bitmap s) \<Longrightarrow> nat l \<le> i \<Longrightarrow> k \<le> i"
      by (rule_tac item_from_cases [of "s_bitmap s" "nat l"]) auto
    have "local_from s l = int k"
      using True k(1) by (simp add: local_from_def)
    moreover have "int k < ?n"
      using local_docs_bitmap k(2) by blast
    ultimately show ?thesis
      using k assms by (intro hit) (auto simp: local_docs_def)
  next
    case False
    have m: "x < l" if x: "x \<in> int ` items (s_bitmap s)" for x
    proof (cases "l < ?n")
      case True
      then have "?m = INVALID_DOCID"
        using False by blast
      then show ?thesis
        using x item_from_none [of "s_bitmap s" "nat l"] by (auto simp: zless_nat_eq_int_zless)
    next
      case False
      then show ?thesis
        using local_docs_bitmap [OF x] by simp
    qed
    have lf: "local_from s l = (if ?e \<noteq> INVALID_DOCID then ?e + ?n else INVALID_DOCID)"
      using False by (auto simp: local_from_def Let_def)
    show ?thesis
    proof (rule item_from_cases [of "s_expandBitmap s" "nat (l - ?n)"])
      fix k
      assume k: "?e = int k" "k \<in> items (s_expandBitmap s)" "nat (l - ?n) \<le> k"
        "\<And>i. i \<in> items (s_expandBitmap s) \<Longrightarrow> nat (l - ?n) \<le> i \<Longrightarrow> k \<le> i"
      have "local_from s l = int k + ?n"
        using lf k(1) inv by simp
      then show ?thesis
        using k n m by (intro hit) (force simp: local_docs_def)+
    next
      assume "?e = INVALID_DOCID" "\<And>i. i \<in> items (s_expandBitmap s) \<Longrightarrow> i < nat (l - ?n)"
      then show ?thesis
        using lf m by (intro none) (force simp: local_docs_def)+
    qed
  qed
qed

lemma single_seek_from:
  assumes "single_inv s" "l = max (s_currentLocalId s + 1) (a - s_baseDocId s)"
  shows "single_seek s a =
    Some (if local_from s l \<noteq> INVALID_DOCID then (local_from s l + s_baseDocId s, s\<lparr>s_currentLocalId := local_from s l\<rparr>)
          else (INVALID_DOCID, s))"
proof -
  let ?n = "item_count (s_bitmap s)"
  have g: "bm_good (s_bitmap s)" "bm_good (s_expandBitmap s)" and l: "0 \<le> l"
    using assms by (auto simp: single_inv_def)
  have e: "(if bm_size (s_expandBitmap s) \<noteq> 0 then seek_bitmap (s_expandBitmap s) x else Some INVALID_DOCID) =
      Some (item_from (s_expandBitmap s) (nat x))" if "0 \<le> x" for x
    using seek_bitmap_items [OF g(2) that] bm_size_items [OF g(2)] by (simp add: item_from_def)
  have pos: "item_from (s_expandBitmap s) k \<noteq> INVALID_DOCID \<Longrightarrow> item_from (s_expandBitmap s) k + ?n \<noteq> INVALID_DOCID" for k
    using item_from_nonneg [of "s_expandBitmap s" k] item_count_nonneg [of "s_bitmap s"]
    unfolding INVALID_DOCID_def by linarith
  show ?thesis
  proof (cases "l \<ge> ?n")
    case True
    then show ?thesis
      using e [of "l - ?n"] pos unfolding single_seek_def local_from_def Let_def assms(2) [symmetric] by auto
  next
    case False
    have "nat (l - ?n) = 0"
      using False by simp
    then show ?thesis
      using False seek_bitmap_items [OF g(1) l] e [of 0] pos
      unfolding single_seek_def local_from_def Let_def assms(2) [symmetric] by (auto split: if_splits)
  qed
qed

lemma single_seek_cases:
  assumes "single_inv s" "l = max (s_currentLocalId s + 1 + s_baseDocId s) a"
  obtains (hit) d where "single_seek s a = Some (d, s\<lparr>s_currentLocalId := d - s_baseDocId s\<rparr>)" "d \<in> single_docs s" "l \<le> d"
      "0 \<le> d" "\<And>x. x \<in> single_docs s \<Longrightarrow> l \<le> x \<Longrightarrow> d \<le> x"
  | (none) "single_seek s a = Some (INVALID_DOCID, s)" "\<And>x. x \<in> single_docs s \<Longrightarrow> x < l"
proof -
  let ?l = "max (s_currentLocalId s + 1) (a - s_baseDocId s)"
  have l: "0 \<le> ?l" "?l = l - s_baseDocId s" and base: "0 \<le> s_baseDocId s"
    using assms by (auto simp: single_inv_def)
  note seek = single_seek_from [OF assms(1) refl, of a]
  show ?thesis
  proof (rule local_from_cases [OF l(1), of s])
    assume h: "local_from s ?l \<in> local_docs s" "?l \<le> local_from s ?l" "0 \<le> local_from s ?l"
      "\<And>x. x \<in> local_docs s \<Longrightarrow> ?l \<le> x \<Longrightarrow> local_from s ?l \<le> x"
    then have "local_from s ?l \<noteq> INVALID_DOCID"
      by (auto simp: INVALID_DOCID_def)
    then show ?thesis
      using seek h base l(2) by (intro hit [of "local_from s ?l + s_baseDocId s"]) (auto simp: single_docs_def)
  next
    assume n: "local_from s ?l = INVALID_DOCID" "\<And>x. x \<in> local_docs s \<Longrightarrow> x < ?l"
    then show ?thesis
      using seek l(2) by (intro none) (force simp: single_docs_def)+
  qed
qed

lemma single_test_docs:
  assumes "single_inv s" "s_baseDocId s \<le> a" "a < s_baseDocId s + item_count (s_bitmap s) + item_count (s_expandBitmap s)"
  shows "single_test s a =
    Some (a \<in> single_docs s, if a \<in> single_docs s then s\<lparr>s_currentLocalId := a - s_baseDocId s\<rparr> else s)"
proof -
  let ?l = "a - s_baseDocId s" and ?n = "item_count (s_bitmap s)"
  have mem: "a \<in> single_docs s \<longleftrightarrow> ?l \<in> local_docs s"
    by (force simp: single_docs_def)
  have test: "bm_test b (word_of_int x) = Some (x \<in> int ` items b)" if "bm_good b" "0 \<le> x" "x < item_count b" for x and b :: bitmap
  proof -
    have lt: "nat x < unat (b_itemCount b)"
      using item_count_less [OF that(2)] that(3) by blast
    then have "nat x < 2 ^ 32"
      using unsigned_less [of "b_itemCount b", where ?'a = nat] by simp
    then have u: "unat (word_of_int x :: u32) = nat x"
      using that(2) by (simp add: unat_eq_nat_uint uint_word_of_int nat_less_iff)
    have "bm_shape b"
      using that by (auto simp: bm_good_def item_count_def)
    then have "bm_test b (word_of_int x) = Some (nat x \<in> items b)"
      using bm_test_items [of b "word_of_int x"] lt by (simp add: u word_less_nat_alt)
    moreover have "nat x \<in> items b \<longleftrightarrow> x \<in> int ` items b"
      using that(2) by force
    ultimately show ?thesis
      by simp
  qed
  have g: "bm_good (s_bitmap s)" "bm_good (s_expandBitmap s)"
    using assms(1) by (simp_all add: single_inv_def)
  have "(if ?l \<ge> ?n then bm_test (s_expandBitmap s) (word_of_int (?l - ?n)) else bm_test (s_bitmap s) (word_of_int ?l)) =
      Some (?l \<in> local_docs s)"
  proof (cases "?l \<ge> ?n")
    case True
    have "?l \<notin> int ` items (s_bitmap s)"
      using local_docs_bitmap True by fastforce
    moreover have "?l - ?n \<in> int ` items (s_expandBitmap s) \<longleftrightarrow> ?l \<in> (\<lambda>i. ?n + int i) ` items (s_expandBitmap s)"
      by force
    ultimately show ?thesis
      using True test [OF g(2), of "?l - ?n"] assms(3) by (simp add: local_docs_def)
  next
    case False
    have "?l \<notin> (\<lambda>i. ?n + int i) ` items (s_expandBitmap s)"
      using False by auto
    then show ?thesis
      using False test [OF g(1), of ?l] assms(2) by (simp add: local_docs_def)
  qed
  then show ?thesis
    unfolding single_test_def Let_def mem by simp
qed

section \<open>Seeking in all segments\<close>

definition seg_single :: "segment_posting \<Rightarrow> single_iter" where
  "seg_single sp = single_init (single_new\<lparr>s_baseDocId := sp_baseDocId sp\<rparr>) (sp_data sp) (sp_expand sp)"

definition seg_docs :: "segment_posting \<Rightarrow> docid set" where
  "seg_docs sp = single_docs (seg_single sp)"

definition seg_last :: "segment_posting \<Rightarrow> int" where
  "seg_last sp =
     (case sp_data sp of Realtime _ _ \<Rightarrow> s_lastDocId (seg_single sp) | _ \<Rightarrow> sp_baseDocId sp + uint (sp_docCount sp))"

text \<open>The segments of a term: in the order of their documents, each bitmap of the size its header says.\<close>

definition segs_ok :: "segment_posting list \<Rightarrow> bool" where
  "segs_ok segs \<longleftrightarrow> sorted_wrt (\<lambda>x y. seg_last x \<le> sp_baseDocId y) segs \<and>
     (\<forall>sp \<in> set segs. single_inv (seg_single sp) \<and> sp_baseDocId sp \<le> seg_last sp \<and> seg_last sp \<le> END_DOCID \<and>
        (\<forall>d \<in> seg_docs sp. d < seg_last sp))"

lemma seg_single_simps:
  "s_baseDocId (seg_single sp) = sp_baseDocId sp" "s_currentLocalId (seg_single sp) = INVALID_DOCID"
  "s_lastDocId (seg_single sp) =
     sp_baseDocId sp + item_count (s_bitmap (seg_single sp)) + item_count (s_expandBitmap (seg_single sp))"
  by (auto simp: seg_single_def single_init_def init_expand_bitmap_def single_new_def Let_def item_count_def
      mount_without_refresh_def bitmap_default_def split: posting_data.splits option.splits)

lemma seg_docs_base: "d \<in> seg_docs sp \<Longrightarrow> sp_baseDocId sp \<le> d"
  by (auto simp: seg_docs_def single_docs_def local_docs_def seg_single_simps)

end
