(* ===== verification/BitmapIterator.thy ===== *)
theory BitmapIterator
  imports BitmapPosting
begin

text \<open>
  The bitmap posting iterator keeps the contract \<open>postings\<close>: over all the segments of a term, a seek gives the
  first document from its argument on and a test tells whether a document is there.
\<close>

section \<open>The state of the iterator\<close>

definition bi_seg :: "bitmap_iter \<Rightarrow> segment_posting" where
  "bi_seg it = bi_segs it ! nat (bi_cursor it)"

definition bi_docs :: "bitmap_iter \<Rightarrow> docid set" where
  "bi_docs it = (\<Union>sp \<in> set (bi_segs it). seg_docs sp)"

text \<open>The segment the cursor is on, at local position \<open>c\<close>.\<close>

definition bi_at :: "bitmap_iter \<Rightarrow> int \<Rightarrow> bool" where
  "bi_at it c \<longleftrightarrow> segs_ok (bi_segs it) \<and> 0 \<le> bi_cursor it \<and> bi_cursor it < int (length (bi_segs it)) \<and>
     cur_single it = Some ((seg_single (bi_seg it))\<lparr>s_currentLocalId := c\<rparr>) \<and> -1 \<le> c \<and>
     int (length (bi_singles it)) = bi_cursor it + 1 \<and>
     bi_curBaseDocId it = sp_baseDocId (bi_seg it) \<and> bi_segmentLastDocId it = seg_last (bi_seg it) \<and>
     bi_curLastDocId it = min (seg_last (bi_seg it)) (s_lastDocId (seg_single (bi_seg it)))"

definition bi_local :: "bitmap_iter \<Rightarrow> int" where
  "bi_local it = (case cur_single it of None \<Rightarrow> 0 | Some s \<Rightarrow> s_currentLocalId s)"

definition bi_inv :: "bitmap_iter \<Rightarrow> bool" where
  "bi_inv it \<longleftrightarrow> bi_at it (bi_local it)"

definition bi_low :: "bitmap_iter \<Rightarrow> docid" where
  "bi_low it = sp_baseDocId (bi_seg it) + bi_local it + 1"

lemma bi_at_local: "bi_at it c \<Longrightarrow> bi_local it = c"
  by (simp add: bi_at_def bi_local_def)

lemma bi_at_inv: "bi_at it c \<Longrightarrow> bi_inv it \<and> bi_low it = sp_baseDocId (bi_seg it) + c + 1"
  using bi_at_local [of it c] by (simp add: bi_inv_def bi_low_def)

lemma segs_before:
  assumes "segs_ok segs" "i < j" "j < length segs"
  shows "seg_last (segs ! i) \<le> sp_baseDocId (segs ! j)"
  using assms sorted_wrt_nth_less [of "\<lambda>x y. seg_last x \<le> sp_baseDocId y" segs i j] by (simp add: segs_ok_def)

lemma seg_ok: "segs_ok segs \<Longrightarrow> i < length segs \<Longrightarrow>
    single_inv (seg_single (segs ! i)) \<and> sp_baseDocId (segs ! i) \<le> seg_last (segs ! i) \<and>
    seg_last (segs ! i) \<le> END_DOCID \<and> 0 \<le> sp_baseDocId (segs ! i)"
  using nth_mem [of i segs] seg_single_simps(1) by (fastforce simp: segs_ok_def single_inv_def)

lemma seg_docs_range: "segs_ok segs \<Longrightarrow> i < length segs \<Longrightarrow> d \<in> seg_docs (segs ! i) \<Longrightarrow>
    sp_baseDocId (segs ! i) \<le> d \<and> d < seg_last (segs ! i)"
  using nth_mem [of i segs] seg_docs_base by (auto simp: segs_ok_def)

lemma bi_docset: "segs_ok (bi_segs it) \<Longrightarrow> docset (bi_docs it)"
  unfolding docset_def bi_docs_def
proof
  fix d
  assume ok: "segs_ok (bi_segs it)" and "d \<in> (\<Union>sp \<in> set (bi_segs it). seg_docs sp)"
  then obtain i where i: "i < length (bi_segs it)" "d \<in> seg_docs (bi_segs it ! i)"
    by (auto simp: in_set_conv_nth)
  then show "d \<in> {0..<END_DOCID}"
    using seg_ok [OF ok i(1)] seg_docs_range [OF ok i] by auto
qed

text \<open>A document between the base and the end of a segment can only be in that segment.\<close>

lemma docs_in_segment:
  assumes ok: "segs_ok (bi_segs it)" and i: "i < length (bi_segs it)"
    and d: "d \<in> bi_docs it" "sp_baseDocId (bi_segs it ! i) \<le> d"
  shows "d \<in> seg_docs (bi_segs it ! i) \<or> (\<exists>j > i. j < length (bi_segs it) \<and> d \<in> seg_docs (bi_segs it ! j))"
proof -
  obtain j where j: "j < length (bi_segs it)" "d \<in> seg_docs (bi_segs it ! j)"
    using d(1) by (auto simp: bi_docs_def in_set_conv_nth)
  have "\<not> j < i"
    using segs_before [OF ok _ i, of j] seg_docs_range [OF ok j] d(2) by auto
  then show ?thesis
    using j by (cases "i = j") auto
qed

lemma later_docs:
  assumes ok: "segs_ok (bi_segs it)" and "i < j" "j < length (bi_segs it)" "d \<in> seg_docs (bi_segs it ! j)"
  shows "seg_last (bi_segs it ! i) \<le> d" "i + 1 < length (bi_segs it)" "sp_baseDocId (bi_segs it ! (i + 1)) \<le> d"
proof -
  have d: "sp_baseDocId (bi_segs it ! j) \<le> d"
    using seg_docs_range [OF ok assms(3,4)] by simp
  then show "seg_last (bi_segs it ! i) \<le> d"
    using segs_before [OF ok assms(2,3)] by simp
  show "i + 1 < length (bi_segs it)"
    using assms(2,3) by simp
  then show "sp_baseDocId (bi_segs it ! (i + 1)) \<le> d"
    using d segs_before [OF ok, of "i + 1" j] seg_ok [OF ok, of "i + 1"] assms(2,3) by (cases "j = i + 1") auto
qed

lemma put_single_at:
  assumes "bi_at it c" "-1 \<le> c'"
  shows "bi_at (put_single ((seg_single (bi_seg it))\<lparr>s_currentLocalId := c'\<rparr>) it) c'"
    "bi_segs (put_single s it) = bi_segs it" "bi_seg (put_single s it) = bi_seg it" "bi_cursor (put_single s it) = bi_cursor it"
proof -
  show "bi_segs (put_single s it) = bi_segs it" "bi_seg (put_single s it) = bi_seg it"
    "bi_cursor (put_single s it) = bi_cursor it" for s
    by (simp_all add: put_single_def bi_seg_def)
  then show "bi_at (put_single ((seg_single (bi_seg it))\<lparr>s_currentLocalId := c'\<rparr>) it) c'"
    using assms by (auto simp: bi_at_def cur_single_def put_single_def split: if_splits)
qed

text \<open>Moving to the next segment starts before its first document.\<close>

lemma move_to_next_at:
  assumes "bi_at it c"
  shows "fst (move_to_next_segment it) \<longleftrightarrow> bi_cursor it + 1 < int (length (bi_segs it))"
    "fst (move_to_next_segment it) \<Longrightarrow> bi_at (snd (move_to_next_segment it)) INVALID_DOCID"
    "fst (move_to_next_segment it) \<Longrightarrow> bi_cursor (snd (move_to_next_segment it)) = bi_cursor it + 1"
    "\<not> fst (move_to_next_segment it) \<Longrightarrow> snd (move_to_next_segment it) = it"
    "bi_segs (snd (move_to_next_segment it)) = bi_segs it"
proof -
  show more: "fst (move_to_next_segment it) \<longleftrightarrow> bi_cursor it + 1 < int (length (bi_segs it))"
    using assms by (auto simp: move_to_next_segment_def Let_def case_prod_beta bi_at_def)
  show "\<not> fst (move_to_next_segment it) \<Longrightarrow> snd (move_to_next_segment it) = it"
    "bi_segs (snd (move_to_next_segment it)) = bi_segs it"
    by (auto simp: move_to_next_segment_def init_single_iterator_def Let_def case_prod_beta)
  assume go: "fst (move_to_next_segment it)"
  have new: "single_init (single_new\<lparr>s_baseDocId := sp_baseDocId sp\<rparr>) (sp_data sp) (sp_expand sp) =
      (seg_single sp)\<lparr>s_currentLocalId := INVALID_DOCID\<rparr>" for sp
    using seg_single_simps(2) [of sp] by (simp add: seg_single_def)
  show "bi_cursor (snd (move_to_next_segment it)) = bi_cursor it + 1"
    using go by (auto simp: move_to_next_segment_def init_single_iterator_def Let_def case_prod_beta split: if_splits)
  have len: "length (bi_singles it) = nat (bi_cursor it + 1)" "0 \<le> bi_cursor it"
    using assms by (auto simp: bi_at_def)
  show "bi_at (snd (move_to_next_segment it)) INVALID_DOCID"
    using assms go more len
    by (auto simp: bi_at_def bi_seg_def cur_single_def move_to_next_segment_def init_single_iterator_def Let_def
        case_prod_beta new seg_last_def seg_single_simps INVALID_DOCID_def nth_append split: posting_data.splits)
qed

section \<open>The contract\<close>

text \<open>The documents from \<open>a\<close> on, none of which the iterator has passed, that are not in the current segment.\<close>

lemma next_segment_low:
  assumes at: "bi_at it c" and low: "\<And>x. x \<in> bi_docs it \<Longrightarrow> a \<le> x \<Longrightarrow> sp_baseDocId (bi_seg it) \<le> x"
    and miss: "\<And>x. x \<in> seg_docs (bi_seg it) \<Longrightarrow> x < a"
  shows "fst (move_to_next_segment it) \<Longrightarrow> bi_low (snd (move_to_next_segment it)) \<le> nxt (bi_docs it) a"
    "\<not> fst (move_to_next_segment it) \<Longrightarrow> nxt (bi_docs it) a = END_DOCID"
proof -
  note mv = move_to_next_at [OF at]
  have ok: "segs_ok (bi_segs it)" and i: "nat (bi_cursor it) < length (bi_segs it)" "0 \<le> bi_cursor it"
    using at by (auto simp: bi_at_def nat_less_iff)
  let ?i = "nat (bi_cursor it)"
  have later: "\<exists>j > ?i. j < length (bi_segs it) \<and> x \<in> seg_docs (bi_segs it ! j)" if "x \<in> bi_docs it" "a \<le> x" for x
    using docs_in_segment [OF ok i(1) that(1)] low [OF that] miss [of x] that(2) by (auto simp: bi_seg_def)
  show "nxt (bi_docs it) a = END_DOCID" if "\<not> fst (move_to_next_segment it)"
  proof (rule nxt_none)
    fix x
    assume x: "x \<in> bi_docs it"
    have "length (bi_segs it) \<le> ?i + 1"
      using that mv(1) i(2) by linarith
    then show "x < a"
      using later [OF x] by (cases "a \<le> x") auto
  qed
  assume go: "fst (move_to_next_segment it)"
  have seg: "bi_seg (snd (move_to_next_segment it)) = bi_segs it ! (?i + 1)"
    using mv(3) [OF go] mv(5) i(2) by (simp add: bi_seg_def nat_add_distrib)
  then have bl: "bi_low (snd (move_to_next_segment it)) = sp_baseDocId (bi_segs it ! (?i + 1))"
    using bi_at_inv [OF mv(2) [OF go]] by (simp add: INVALID_DOCID_def)
  have "?i + 1 < length (bi_segs it)"
    using go mv(1) i(2) by linarith
  then have "sp_baseDocId (bi_segs it ! (?i + 1)) \<le> END_DOCID"
    using seg_ok [OF ok] by fastforce
  moreover have "sp_baseDocId (bi_segs it ! (?i + 1)) \<le> x" if x: "x \<in> bi_docs it" "a \<le> x" for x
    using later [OF x] later_docs(3) [OF ok] by blast
  ultimately show "bi_low (snd (move_to_next_segment it)) \<le> nxt (bi_docs it) a"
    unfolding bl by (rule_tac nxt_cases [OF bi_docset [OF ok], of a]) auto
qed

lemma bi_docs_segs: "bi_segs it' = bi_segs it \<Longrightarrow> bi_docs it' = bi_docs it"
  by (simp add: bi_docs_def)

text \<open>What a seek promises.\<close>

definition bi_seek_ok :: "docid set \<Rightarrow> docid \<Rightarrow> bitmap_iter outcome \<Rightarrow> bool" where
  "bi_seek_ok D a res \<longleftrightarrow>
     (\<exists>d it'. res = Some (Inr d, it') \<and> d \<noteq> END_DOCID \<and> posting_result d = nxt D a \<and> bi_docs it' = D \<and>
        (posting_result d \<noteq> END_DOCID \<longrightarrow> bi_inv it' \<and> bi_low it' \<le> d + 1 \<and> d \<noteq> INVALID_DOCID))"

lemma inner_seek_hit:
  assumes at: "bi_at it c" and low: "bi_low it \<le> nxt (bi_docs it) a"
    and d: "d \<in> seg_docs (bi_seg it)" "max (bi_low it) a \<le> d" "0 \<le> d"
      "\<And>x. x \<in> seg_docs (bi_seg it) \<Longrightarrow> max (bi_low it) a \<le> x \<Longrightarrow> d \<le> x"
    and it': "it' = put_single ((seg_single (bi_seg it))\<lparr>s_currentLocalId := d - sp_baseDocId (bi_seg it)\<rparr>) it"
  shows "bi_seek_ok (bi_docs it) a (Some (Inr d, it'))"
proof -
  have ok: "segs_ok (bi_segs it)" and i: "nat (bi_cursor it) < length (bi_segs it)" and c: "-1 \<le> c"
    using at by (auto simp: bi_at_def nat_less_iff)
  have D: "docset (bi_docs it)"
    using ok by (rule bi_docset)
  have base: "sp_baseDocId (bi_seg it) \<le> bi_low it"
    using bi_at_inv [OF at] c by simp
  have dD: "d \<in> bi_docs it" and last: "d < seg_last (bi_seg it)"
    using d(1) i seg_docs_range [OF ok i, of d] by (auto simp: bi_docs_def bi_seg_def)
  have "d \<le> x" if x: "x \<in> bi_docs it" "a \<le> x" for x
  proof -
    have "bi_low it \<le> x"
      using nxt_le [OF D x] low by simp
    then show ?thesis
      using docs_in_segment [OF ok i x(1)] base d(4) [of x] x(2) later_docs(1) [OF ok] last
      by (fastforce simp: bi_seg_def)
  qed
  then have n: "nxt (bi_docs it) a = d"
    using nxt_eqI [OF D dD] d(2) by simp
  have "-1 \<le> d - sp_baseDocId (bi_seg it)"
    using d(2) base by simp
  note at' = put_single_at [OF at this]
  have "bi_low it' = d + 1"
    using bi_at_inv [OF at'(1)] at'(3) it' by simp
  moreover have "bi_inv it'" "bi_docs it' = bi_docs it"
    using bi_at_inv [OF at'(1)] bi_docs_segs [OF at'(2)] it' by simp_all
  moreover have "d \<noteq> INVALID_DOCID"
    using d(3) by (simp add: INVALID_DOCID_def)
  moreover have "d \<noteq> END_DOCID"
    using last seg_ok [OF ok i] by (auto simp: bi_seg_def)
  ultimately show ?thesis
    using n by (simp add: bi_seek_ok_def posting_result_def)
qed

lemma inner_seek_ok:
  assumes "bi_at it c" "0 \<le> a" "a \<le> END_DOCID" "bi_low it \<le> nxt (bi_docs it) a"
  shows "bi_seek_ok (bi_docs it) a (inner_seek_doc it a)"
  using assms
proof (induction "length (bi_segs it) - nat (bi_cursor it)" arbitrary: it c rule: less_induct)
  case less
  let ?s = "(seg_single (bi_seg it))\<lparr>s_currentLocalId := c\<rparr>"
  have ok: "segs_ok (bi_segs it)" and i: "nat (bi_cursor it) < length (bi_segs it)" "0 \<le> bi_cursor it"
    and cs: "cur_single it = Some ?s" and c: "-1 \<le> c"
    using less.prems(1) by (auto simp: bi_at_def nat_less_iff)
  have inv: "single_inv ?s"
    using seg_ok [OF ok i(1)] c by (auto simp: single_inv_def bi_seg_def)
  have docs: "single_docs ?s = seg_docs (bi_seg it)"
    by (simp add: seg_docs_def single_docs_def local_docs_def)
  have bl: "bi_low it = sp_baseDocId (bi_seg it) + c + 1"
    using bi_at_inv [OF less.prems(1)] by simp
  have l: "max (bi_low it) a = max (s_currentLocalId ?s + 1 + s_baseDocId ?s) a"
    using bl by (simp add: seg_single_simps)
  show ?case
  proof (rule single_seek_cases [OF inv l])
    fix d
    assume d: "single_seek ?s a = Some (d, ?s\<lparr>s_currentLocalId := d - s_baseDocId ?s\<rparr>)" "d \<in> single_docs ?s"
      "max (bi_low it) a \<le> d" "0 \<le> d" "\<And>x. x \<in> single_docs ?s \<Longrightarrow> max (bi_low it) a \<le> x \<Longrightarrow> d \<le> x"
    have "d \<noteq> INVALID_DOCID"
      using d(4) by (simp add: INVALID_DOCID_def)
    then have "inner_seek_doc it a =
        Some (Inr d, put_single ((seg_single (bi_seg it))\<lparr>s_currentLocalId := d - sp_baseDocId (bi_seg it)\<rparr>) it)"
      using d(1) cs by (subst inner_seek_doc.simps) (simp add: Let_def seg_single_simps)
    then show ?thesis
      using inner_seek_hit [OF less.prems(1,4) _ d(3,4) _ refl] d(2,5) unfolding docs by simp
  next
    assume d: "single_seek ?s a = Some (INVALID_DOCID, ?s)" "\<And>x. x \<in> single_docs ?s \<Longrightarrow> x < max (bi_low it) a"
    note at = put_single_at [OF less.prems(1) c]
    let ?it = "put_single ?s it"
    note mv = move_to_next_at [OF at(1)]
    have D: "bi_docs ?it = bi_docs it"
      using at(2) by (rule bi_docs_segs)
    have reach: "bi_low it \<le> x" if "x \<in> bi_docs it" "a \<le> x" for x
      using nxt_le [OF bi_docset [OF ok] that] less.prems(4) by simp
    have "x < a" if x: "x \<in> seg_docs (bi_seg ?it)" for x
    proof (rule ccontr)
      assume "\<not> x < a"
      moreover have "x \<in> bi_docs it"
        using x i(1) at(3) by (auto simp: bi_docs_def bi_seg_def)
      ultimately show False
        using reach [of x] d(2) [of x] x at(3) unfolding docs by simp
    qed
    moreover have "sp_baseDocId (bi_seg ?it) \<le> x" if "x \<in> bi_docs ?it" "a \<le> x" for x
      using reach [of x] that bl c at(3) D by simp
    ultimately have nx: "fst (move_to_next_segment ?it) \<Longrightarrow> bi_low (snd (move_to_next_segment ?it)) \<le> nxt (bi_docs it) a"
      "\<not> fst (move_to_next_segment ?it) \<Longrightarrow> nxt (bi_docs it) a = END_DOCID"
      using next_segment_low [OF at(1), of a] D by simp_all
    have D2: "bi_docs (snd (move_to_next_segment ?it)) = bi_docs it"
      using bi_docs_segs [OF mv(5)] D by simp
    have eq: "inner_seek_doc it a =
      (if fst (move_to_next_segment ?it) then inner_seek_doc (snd (move_to_next_segment ?it)) a
       else Some (Inr INVALID_DOCID, snd (move_to_next_segment ?it)))"
      using d(1) cs by (subst inner_seek_doc.simps) (simp add: Let_def case_prod_beta)
    show ?thesis
    proof (cases "fst (move_to_next_segment ?it)")
      case True
      have "length (bi_segs (snd (move_to_next_segment ?it))) - nat (bi_cursor (snd (move_to_next_segment ?it))) <
          length (bi_segs it) - nat (bi_cursor it)"
        using mv(3) [OF True] mv(5) at(2,4) i by (simp add: nat_add_distrib)
      then show ?thesis
        using less.hyps [OF _ mv(2) [OF True] less.prems(2,3)] nx(1) [OF True] D2 eq True by simp
    next
      case False
      then show ?thesis
        using eq nx(2) D2 by (simp add: bi_seek_ok_def posting_result_def INVALID_DOCID_def END_DOCID_def)
    qed
  qed
qed

text \<open>What a test promises.\<close>

definition bi_test_ok :: "docid set \<Rightarrow> docid \<Rightarrow> (bool \<times> bitmap_iter) option \<Rightarrow> bool" where
  "bi_test_ok D a res \<longleftrightarrow>
     (\<exists>it'. res = Some (a \<in> D, it') \<and> bi_inv it' \<and> bi_docs it' = D \<and> bi_low it' \<le> nxt D (a + 1))"

lemma local_docs_less: "x \<in> local_docs s \<Longrightarrow> x < item_count (s_bitmap s) + item_count (s_expandBitmap s)"
  using local_docs_bitmap [of x "s_bitmap s"] local_docs_bitmap [of "x - item_count (s_bitmap s)" "s_expandBitmap s"]
    less_le_trans [of x "item_count (s_bitmap s)" "item_count (s_bitmap s) + item_count (s_expandBitmap s)"]
  by (auto simp: local_docs_def)

lemma seg_docs_last: "d \<in> seg_docs sp \<Longrightarrow> d < s_lastDocId (seg_single sp)"
  using local_docs_less [of _ "seg_single sp"] by (fastforce simp: seg_docs_def single_docs_def seg_single_simps)

text \<open>A document before the end of the current segment is there when the segment has it.\<close>

lemma docs_here:
  assumes at: "bi_at it c" and low: "bi_low it \<le> nxt (bi_docs it) a" and a: "a < seg_last (bi_seg it)"
  shows "a \<in> bi_docs it \<longleftrightarrow> a \<in> seg_docs (bi_seg it)"
proof
  have ok: "segs_ok (bi_segs it)" and i: "nat (bi_cursor it) < length (bi_segs it)" and c: "-1 \<le> c"
    using at by (auto simp: bi_at_def nat_less_iff)
  show "a \<in> bi_docs it" if "a \<in> seg_docs (bi_seg it)"
    using that i by (auto simp: bi_docs_def bi_seg_def)
  assume "a \<in> bi_docs it"
  moreover have "sp_baseDocId (bi_seg it) \<le> a"
    using nxt_at [OF bi_docset [OF ok] \<open>a \<in> bi_docs it\<close>] low bi_at_inv [OF at] c by simp
  ultimately show "a \<in> seg_docs (bi_seg it)"
    using docs_in_segment [OF ok i] later_docs(1) [OF ok] a by (fastforce simp: bi_seg_def)
qed

lemma test_miss:
  assumes "bi_inv it'" "bi_docs it' = D" "bi_low it' \<le> nxt D a" "a \<notin> D"
  shows "bi_test_ok D a (Some (False, it'))"
  using assms nxt_miss [OF assms(4)] by (simp add: bi_test_ok_def)

lemma test_here:
  assumes at: "bi_at it c" and low: "bi_low it \<le> nxt (bi_docs it) a" and aE: "a < END_DOCID"
    and a: "sp_baseDocId (bi_seg it) \<le> a" "a < bi_curLastDocId it"
  shows "bi_test_ok (bi_docs it) a
    (do { s \<leftarrow> cur_single it; (r, s') \<leftarrow> single_test s a; Some (r, put_single s' it) })"
proof -
  let ?s = "(seg_single (bi_seg it))\<lparr>s_currentLocalId := c\<rparr>" and ?D = "bi_docs it"
  have ok: "segs_ok (bi_segs it)" and i: "nat (bi_cursor it) < length (bi_segs it)" and c: "-1 \<le> c"
    and cs: "cur_single it = Some ?s" and le: "a < seg_last (bi_seg it)" "a < s_lastDocId (seg_single (bi_seg it))"
    using at a(2) by (auto simp: bi_at_def nat_less_iff)
  have inv: "single_inv ?s"
    using seg_ok [OF ok i] c by (auto simp: single_inv_def bi_seg_def)
  have docs: "single_docs ?s = seg_docs (bi_seg it)"
    by (simp add: seg_docs_def single_docs_def local_docs_def)
  have mem: "a \<in> ?D \<longleftrightarrow> a \<in> single_docs ?s"
    using docs_here [OF at low le(1)] docs by simp
  have test: "single_test ?s a =
      Some (a \<in> ?D, if a \<in> ?D then (seg_single (bi_seg it))\<lparr>s_currentLocalId := a - sp_baseDocId (bi_seg it)\<rparr> else ?s)"
    using single_test_docs [OF inv, of a] a(1) le(2) mem by (simp add: seg_single_simps)
  show ?thesis
  proof (cases "a \<in> ?D")
    case True
    have "-1 \<le> a - sp_baseDocId (bi_seg it)"
      using a(1) by simp
    note at' = put_single_at [OF at this]
    show ?thesis
      using cs test True bi_at_inv [OF at'(1)] at'(3) bi_docs_segs [OF at'(2)] aE nxt_ge [OF bi_docset [OF ok], of "a + 1"]
      by (simp add: bi_test_ok_def)
  next
    case False
    note at' = put_single_at [OF at c]
    show ?thesis
      using cs test False bi_at_inv [OF at'(1)] bi_at_inv [OF at] at'(3) bi_docs_segs [OF at'(2)] low
      by (simp add: test_miss)
  qed
qed

lemma bitmap_iter_test_ok:
  assumes "bi_at it c" "a < END_DOCID" "bi_low it \<le> nxt (bi_docs it) a"
  shows "bi_test_ok (bi_docs it) a (bitmap_iter_test it a)"
  using assms
proof (induction "length (bi_segs it) - nat (bi_cursor it)" arbitrary: it c rule: less_induct)
  case less
  note at = less.prems(1)
  have ok: "segs_ok (bi_segs it)" and i: "nat (bi_cursor it) < length (bi_segs it)" "0 \<le> bi_cursor it" and c: "-1 \<le> c"
    and b: "bi_curBaseDocId it = sp_baseDocId (bi_seg it)" "bi_segmentLastDocId it = seg_last (bi_seg it)"
      "bi_curLastDocId it = min (seg_last (bi_seg it)) (s_lastDocId (seg_single (bi_seg it)))"
    using at by (auto simp: bi_at_def nat_less_iff)
  have D: "docset (bi_docs it)"
    using ok by (rule bi_docset)
  have inv: "bi_inv it" and bl: "bi_low it = sp_baseDocId (bi_seg it) + c + 1"
    using bi_at_inv [OF at] by simp_all
  have reach: "bi_low it \<le> x" if "x \<in> bi_docs it" "a \<le> x" for x
    using nxt_le [OF D that] less.prems(3) by simp
  consider "a < sp_baseDocId (bi_seg it)" | "sp_baseDocId (bi_seg it) \<le> a" "a < bi_curLastDocId it"
    | "sp_baseDocId (bi_seg it) \<le> a" "\<not> a < bi_curLastDocId it" "a < seg_last (bi_seg it)"
    | "sp_baseDocId (bi_seg it) \<le> a" "\<not> a < bi_curLastDocId it" "seg_last (bi_seg it) \<le> a"
    by linarith
  then show ?case
  proof cases
    case 1
    then have "a \<notin> bi_docs it"
      using reach [of a] bl c by auto
    then show ?thesis
      using 1 test_miss [OF inv refl less.prems(3)] b(1) by (subst bitmap_iter_test.simps) simp
  next
    case 2
    then show ?thesis
      using test_here [OF at less.prems(3,2) 2] b(1) by (subst bitmap_iter_test.simps) simp
  next
    case 3
    have "a \<notin> seg_docs (bi_seg it)"
      using 3(2,3) seg_docs_last [of a "bi_seg it"] b(3) by auto
    then have "a \<notin> bi_docs it"
      using docs_here [OF at less.prems(3) 3(3)] by simp
    then show ?thesis
      using 3 test_miss [OF inv refl less.prems(3)] b by (subst bitmap_iter_test.simps) simp
  next
    case 4
    note mv = move_to_next_at [OF at]
    have "x < a" if "x \<in> seg_docs (bi_seg it)" for x
      using that seg_docs_range [OF ok i(1), of x] 4(3) by (simp add: bi_seg_def)
    then have nx: "fst (move_to_next_segment it) \<Longrightarrow> bi_low (snd (move_to_next_segment it)) \<le> nxt (bi_docs it) a"
      "\<not> fst (move_to_next_segment it) \<Longrightarrow> nxt (bi_docs it) a = END_DOCID"
      using next_segment_low [OF at, of a] reach bl c by force+
    have D2: "bi_docs (snd (move_to_next_segment it)) = bi_docs it"
      using bi_docs_segs [OF mv(5)] .
    have eq: "bitmap_iter_test it a =
      (if fst (move_to_next_segment it) then bitmap_iter_test (snd (move_to_next_segment it)) a
       else Some (False, it))"
      using 4 b mv(4) by (subst bitmap_iter_test.simps) (simp add: case_prod_beta)
    show ?thesis
    proof (cases "fst (move_to_next_segment it)")
      case True
      have "length (bi_segs (snd (move_to_next_segment it))) - nat (bi_cursor (snd (move_to_next_segment it))) <
          length (bi_segs it) - nat (bi_cursor it)"
        using mv(3) [OF True] mv(5) i by (simp add: nat_add_distrib)
      then show ?thesis
        using less.hyps [OF _ mv(2) [OF True] less.prems(2)] nx(1) [OF True] D2 eq True by simp
    next
      case False
      have "a \<notin> bi_docs it"
        using nx(2) [OF False] nxt_at [OF D, of a] less.prems(2) by auto
      then show ?thesis
        using eq False test_miss [OF inv refl less.prems(3)] by simp
    qed
  qed
qed

section \<open>The iterator as postings\<close>

lemma bitmap_iter_init_inv:
  assumes "segs_ok segs" "segs \<noteq> []"
  shows "fst (bitmap_iter_init segs)" "bi_inv (snd (bitmap_iter_init segs))" "bi_segs (snd (bitmap_iter_init segs)) = segs"
    "bi_low (snd (bitmap_iter_init segs)) = sp_baseDocId (hd segs)"
proof -
  have new: "single_init (single_new\<lparr>s_baseDocId := sp_baseDocId sp\<rparr>) (sp_data sp) (sp_expand sp) =
      (seg_single sp)\<lparr>s_currentLocalId := INVALID_DOCID\<rparr>" for sp
    using seg_single_simps(2) [of sp] by (simp add: seg_single_def)
  have at: "bi_at (snd (bitmap_iter_init segs)) INVALID_DOCID"
    using assms
    by (auto simp: bitmap_iter_init_def bi_at_def bi_seg_def cur_single_def move_to_next_segment_def init_single_iterator_def
        Let_def case_prod_beta new seg_last_def seg_single_simps INVALID_DOCID_def split: posting_data.splits)
  then show "bi_inv (snd (bitmap_iter_init segs))"
    using bi_at_inv by blast
  show "fst (bitmap_iter_init segs)" and segs: "bi_segs (snd (bitmap_iter_init segs)) = segs"
    using assms by (auto simp: bitmap_iter_init_def move_to_next_segment_def init_single_iterator_def Let_def case_prod_beta)
  have "bi_cursor (snd (bitmap_iter_init segs)) = 0"
    using assms by (auto simp: bitmap_iter_init_def move_to_next_segment_def init_single_iterator_def Let_def case_prod_beta)
  then show "bi_low (snd (bitmap_iter_init segs)) = sp_baseDocId (hd segs)"
    using bi_at_inv [OF at] segs assms(2) by (simp add: bi_seg_def INVALID_DOCID_def hd_conv_nth)
qed

definition bitmap_spec :: "bitmap_iter posting_spec" where
  "bitmap_spec = \<lparr>ps_inv = bi_inv, ps_docs = bi_docs, ps_low = bi_low\<rparr>"

interpretation bmp: postings bitmap_postings bitmap_spec True
proof
  fix it a
  assume "ps_inv bitmap_spec it"
  then have at: "bi_at it (bi_local it)"
    by (simp add: bitmap_spec_def bi_inv_def)
  then show "docset (ps_docs bitmap_spec it)"
    by (simp add: bitmap_spec_def bi_docset bi_at_def)
  assume a: "0 \<le> a" and low: "ps_low bitmap_spec it \<le> nxt (ps_docs bitmap_spec it) a"
  show "\<exists>it'. it_test bitmap_postings it a = Some (a \<in> ps_docs bitmap_spec it, it') \<and> ps_inv bitmap_spec it' \<and>
      ps_docs bitmap_spec it' = ps_docs bitmap_spec it \<and> ps_low bitmap_spec it' \<le> nxt (ps_docs bitmap_spec it) (a + 1)"
    if "a < END_DOCID"
    using bitmap_iter_test_ok [OF at that] low by (simp add: bitmap_spec_def bitmap_postings_def bi_test_ok_def)
  show "\<exists>r it'. it_seek bitmap_postings it a = Some (r, it') \<and>
      (case r of
         Inl _ \<Rightarrow> \<not> True
       | Inr d \<Rightarrow> posting_result d = nxt (ps_docs bitmap_spec it) a \<and> ps_docs bitmap_spec it' = ps_docs bitmap_spec it \<and>
           (posting_result d \<noteq> END_DOCID \<longrightarrow>
              ps_inv bitmap_spec it' \<and> ps_low bitmap_spec it' \<le> d + 1 \<and> d \<noteq> INVALID_DOCID))"
    if "a \<le> END_DOCID"
    using inner_seek_ok [OF at a that] low by (fastforce simp: bitmap_spec_def bitmap_postings_def bi_seek_ok_def)
qed

end
