(* ===== verification/QueryProps.thy ===== *)
theory QueryProps
  imports QueryBuild BitmapIterator
begin

text \<open>
  The correctness of query execution: the heap of the executors, the bitmap posting iterator, and trees of
  executors over such iterators.
\<close>

section \<open>The heap\<close>

text \<open>
  C37. \<^verbatim>\<open>adjustDown\<close> puts a new value at the top of the heap into its place: the result is a heap again, it has
  the same entries, and its first entry is a least one.
\<close>

theorem adjust_down_restores_heap:
  assumes "is_heap endd heap" "1 \<le> endd" "length heap = endd + 1" "h = adjust_down 1 endd (heap[1 := e])"
  shows "is_heap endd h \<and> mset h = mset (heap[1 := e]) \<and> (\<forall>i. 1 \<le> i \<longrightarrow> i \<le> endd \<longrightarrow> e_docId (h ! 1) \<le> e_docId (h ! i))"
proof -
  have "is_heap endd h"
    using adjust_down_heap [of 1 endd "heap[1 := e]"] heap_replace_top [OF assms(1), of e] assms by simp
  moreover have "mset h = mset (heap[1 := e])"
    using adjust_down_mset [of 1 "heap[1 := e]" endd] assms by simp
  ultimately show ?thesis
    using heap_min by blast
qed

definition heap_example :: "entry list" where
  "heap_example = [\<lparr>e_docId = -1, e_entryId = 0\<rparr>, \<lparr>e_docId = 3, e_entryId = 0\<rparr>, \<lparr>e_docId = 5, e_entryId = 1\<rparr>, \<lparr>e_docId = 4, e_entryId = 2\<rparr>]"

lemma heap_example_heap: "is_heap 3 heap_example"
  unfolding is_heap_def heap_example_def
proof (intro allI impI)
  fix i :: nat
  assume "2 \<le> i" "i \<le> 3"
  then have "i = 2 \<or> i = 3" by arith
  then show "e_docId ([\<lparr>e_docId = -1, e_entryId = 0\<rparr>, \<lparr>e_docId = 3, e_entryId = 0\<rparr>, \<lparr>e_docId = 5, e_entryId = 1\<rparr>, \<lparr>e_docId = 4, e_entryId = 2\<rparr>] ! (i div 2))
      \<le> e_docId ([\<lparr>e_docId = -1, e_entryId = 0\<rparr>, \<lparr>e_docId = 3, e_entryId = 0\<rparr>, \<lparr>e_docId = 5, e_entryId = 1\<rparr>, \<lparr>e_docId = 4, e_entryId = 2\<rparr>] ! i)"
    by auto
qed

theorem adjust_down_restores_heap_witness:
  "is_heap 3 heap_example \<and> is_heap 3 (adjust_down 1 3 (heap_example[1 := \<lparr>e_docId = 9, e_entryId = 0\<rparr>]))"
  using adjust_down_restores_heap [OF heap_example_heap _ _ refl, of "\<lparr>e_docId = 9, e_entryId = 0\<rparr>"] heap_example_heap
  by (simp add: heap_example_def)

section \<open>Trees of executors\<close>

lemma bitmap_tree_seek:
  assumes "exec_inv bitmap_spec n e" "0 \<le> a" "a \<le> END_DOCID" "get_doc_id e \<le> nxt (exec_docs bitmap_spec e) a"
  obtains e' where "seek bitmap_postings n e a = Some (Inr (nxt (exec_docs bitmap_spec e) a), e')"
    "exec_inv bitmap_spec n e'" "exec_docs bitmap_spec e' = exec_docs bitmap_spec e"
    "get_doc_id e' = nxt (exec_docs bitmap_spec e) a"
proof -
  obtain r e' where r: "seek bitmap_postings n e a = Some (r, e')"
    "case r of
       Inl _ \<Rightarrow> \<not> True
     | Inr d \<Rightarrow> d = nxt (exec_docs bitmap_spec e) a \<and> exec_inv bitmap_spec n e' \<and>
         exec_docs bitmap_spec e' = exec_docs bitmap_spec e \<and> get_doc_id e' = d"
    using bmp.tree.sk_law [OF assms] by blast
  then show ?thesis
    using that by (cases r) auto
qed

text \<open>
  C1. \<^verbatim>\<open>QueryExecutor::seek\<close> on any tree of executors over bitmap postings: it returns the first document from
  the argument on that the query matches, or \<^verbatim>\<open>END_DOCID\<close>; it always returns and reports no error; it
  leaves a tree for the same documents that can be sought further on.
\<close>

theorem seek_returns_next_match:
  assumes "exec_inv bitmap_spec n e" "0 \<le> a" "a \<le> END_DOCID" "get_doc_id e \<le> a"
    and "D = {d \<in> exec_docs bitmap_spec e. a \<le> d}"
  shows "\<exists>e'. seek bitmap_postings n e a = Some (Inr (if D = {} then END_DOCID else Min D), e') \<and>
    exec_inv bitmap_spec n e' \<and> exec_docs bitmap_spec e' = exec_docs bitmap_spec e \<and>
    get_doc_id e' = (if D = {} then END_DOCID else Min D)"
proof -
  have "nxt (exec_docs bitmap_spec e) a = (if D = {} then END_DOCID else Min D)"
    using assms(5) by (auto simp: nxt_def)
  moreover have "get_doc_id e \<le> nxt (exec_docs bitmap_spec e) a"
    using nxt_ge [OF exec_inv_docset [OF assms(1)] assms(3)] assms(4) by simp
  moreover obtain e' where "seek bitmap_postings n e a = Some (Inr (nxt (exec_docs bitmap_spec e) a), e')"
    "exec_inv bitmap_spec n e'" "exec_docs bitmap_spec e' = exec_docs bitmap_spec e"
    "get_doc_id e' = nxt (exec_docs bitmap_spec e) a"
    using bitmap_tree_seek [OF assms(1-3) calculation(2)] .
  ultimately show ?thesis
    by (intro exI [of _ e']) simp
qed

text \<open>A tree for the examples.\<close>

definition docs_tree :: "bitmap_iter executor" where
  "docs_tree = or_add qbase_init [doc_ids_init [7, 2], doc_ids_init [4]]"

lemma docs_tree_fresh: "fresh bitmap_spec (Suc (Suc n)) docs_tree" "exec_docs bitmap_spec docs_tree = {2, 4, 7}"
proof -
  have "\<forall>c \<in> set [doc_ids_init [7, 2], doc_ids_init [4]]. fresh bitmap_spec (Suc n) (c :: bitmap_iter executor)"
    using doc_ids_init_fresh [of "[7, 2]" bitmap_spec n] doc_ids_init_fresh [of "[4]" bitmap_spec n]
    by (simp add: docset_def END_DOCID_def)
  note or = or_add_fresh [OF this, of qbase_init]
  then show "fresh bitmap_spec (Suc (Suc n)) docs_tree"
    by (simp add: docs_tree_def)
  show "exec_docs bitmap_spec docs_tree = {2, 4, 7}"
    using or(2) by (auto simp: docs_tree_def doc_ids_init_def)
qed

theorem seek_returns_next_match_witness:
  "exec_inv bitmap_spec 2 docs_tree \<and> (\<exists>e'. seek bitmap_postings 2 docs_tree 3 = Some (Inr 4, e') \<and> get_doc_id e' = 4)"
proof -
  have inv: "exec_inv bitmap_spec 2 docs_tree" "get_doc_id docs_tree = INVALID_DOCID"
    using docs_tree_fresh(1) [of 0] by (simp_all add: fresh_def numeral_2_eq_2 del: exec_inv.simps)
  have D: "{d \<in> exec_docs bitmap_spec docs_tree. 3 \<le> d} = {4, 7}"
    unfolding docs_tree_fresh(2) by auto
  have "get_doc_id docs_tree \<le> 3" "(3 :: docid) \<le> END_DOCID"
    using inv(2) by (simp_all add: INVALID_DOCID_def END_DOCID_def)
  then show ?thesis
    using seek_returns_next_match [OF inv(1) _ _ _ refl, of 3] inv(1) unfolding D by auto
qed

text \<open>Successive seeks, each from the document after the last result on, until \<^verbatim>\<open>END_DOCID\<close>.\<close>

fun seek_all :: "('it, 'z) posting_ops_scheme \<Rightarrow> nat \<Rightarrow> nat \<Rightarrow> 'it executor \<Rightarrow> docid \<Rightarrow> docid list option" where
  "seek_all P n 0 e a = None"
| "seek_all P n (Suc k) e a =
     do { (r, e') \<leftarrow> seek P n e a;
          case r of
            Inl _ \<Rightarrow> None
          | Inr d \<Rightarrow> if d = END_DOCID then Some [] else do { ds \<leftarrow> seek_all P n k e' (d + 1); Some (d # ds) } }"

lemma seek_all_from:
  assumes "exec_inv bitmap_spec n e" "0 \<le> a" "a \<le> END_DOCID" "get_doc_id e \<le> nxt (exec_docs bitmap_spec e) a"
    "card {d \<in> exec_docs bitmap_spec e. a \<le> d} < k"
  shows "seek_all bitmap_postings n k e a = Some (sorted_list_of_set {d \<in> exec_docs bitmap_spec e. a \<le> d})"
  using assms
proof (induction k arbitrary: e a)
  case 0
  then show ?case by simp
next
  case (Suc k)
  let ?D = "exec_docs bitmap_spec e"
  have dv: "docset ?D"
    using Suc.prems(1) by (rule exec_inv_docset)
  obtain e' where e': "seek bitmap_postings n e a = Some (Inr (nxt ?D a), e')" "exec_inv bitmap_spec n e'"
    "exec_docs bitmap_spec e' = ?D" "get_doc_id e' = nxt ?D a"
    using bitmap_tree_seek [OF Suc.prems(1-4)] .
  show ?case
  proof (rule nxt_cases [OF dv, of a])
    assume last: "nxt ?D a = END_DOCID" and none: "\<And>d. d \<in> ?D \<Longrightarrow> d < a"
    have "{d \<in> ?D. a \<le> d} = {}"
      using none by force
    then show ?thesis
      using e'(1) last by (simp only: seek_all.simps sorted_list_of_set_empty) simp
  next
    let ?d = "nxt ?D a"
    assume hit: "?d \<in> ?D" "a \<le> ?d" "?d < END_DOCID"
    have split: "{d \<in> ?D. a \<le> d} = insert ?d {d \<in> ?D. ?d + 1 \<le> d}"
      using hit nxt_le [OF dv, of _ a] by force
    have fin: "finite {d \<in> ?D. ?d + 1 \<le> d}"
      using docset_finite [OF dv] by simp
    have "card {d \<in> ?D. ?d + 1 \<le> d} < k"
      using Suc.prems(5) fin unfolding split by simp
    moreover have "0 \<le> ?d + 1" "?d + 1 \<le> END_DOCID" "get_doc_id e' \<le> nxt ?D (?d + 1)"
      using Suc.prems(2) hit nxt_ge [OF dv, of "?d + 1"] e'(4) by simp_all
    ultimately have "seek_all bitmap_postings n k e' (?d + 1) = Some (sorted_list_of_set {d \<in> ?D. ?d + 1 \<le> d})"
      using Suc.IH [of e' "?d + 1"] e'(2,3) by simp
    moreover have "sorted_list_of_set {d \<in> ?D. a \<le> d} = ?d # sorted_list_of_set {d \<in> ?D. ?d + 1 \<le> d}"
      unfolding split using fin by (intro sorted_list_first) auto
    ultimately show ?thesis
      using e'(1) hit(3) by simp
  qed
qed

text \<open>
  C6. Every document that matches is found: successive seeks on a fresh tree over bitmap postings return
  all its documents, in increasing order and each once, and then end.
\<close>

theorem seeks_find_every_match:
  assumes "fresh bitmap_spec n e" "card (exec_docs bitmap_spec e) < k"
  shows "seek_all bitmap_postings n k e 0 = Some (sorted_list_of_set (exec_docs bitmap_spec e))"
proof -
  have "{d \<in> exec_docs bitmap_spec e. 0 \<le> d} = exec_docs bitmap_spec e"
    using fresh_docset [OF assms(1)] by (auto simp: docset_def)
  then show ?thesis
    using seek_all_from [of n e 0 k] assms fresh_le [OF assms(1), of 0] by (simp add: fresh_def END_DOCID_def)
qed

theorem seeks_find_every_match_witness:
  "fresh bitmap_spec 2 docs_tree \<and> seek_all bitmap_postings 2 4 docs_tree 0 = Some [2, 4, 7]"
  using seeks_find_every_match [of 2 docs_tree 4] docs_tree_fresh(1) [of 0]
  by (simp add: numeral_2_eq_2 docs_tree_fresh(2) sorted_list_of_set_insert_remove)

section \<open>What the executors are built for\<close>

text \<open>Children for the examples.\<close>

abbreviation ids_leaf :: "docid list \<Rightarrow> bitmap_iter executor" where
  "ids_leaf ids \<equiv> doc_ids_init ids"

lemma ids_leaf_ok:
  assumes "\<forall>x \<in> set ids. 0 \<le> x \<and> x < END_DOCID"
  shows "fresh bitmap_spec (Suc n) (ids_leaf ids) \<and> filter_fits bitmap_spec (ids_leaf ids) \<and>
    exec_docs bitmap_spec (ids_leaf ids) = set ids \<and> \<not> has_sub (ids_leaf ids)"
proof -
  have "docset (set ids)"
    using assms by (auto simp: docset_def)
  then show ?thesis
    using doc_ids_init_fresh [of ids bitmap_spec n]
    by (simp add: filter_fits_def kept_docs_def steal_filter_def doc_ids_init_def has_sub_def)
qed

lemma sort_key_sorts: "sorts (\<lambda>key xs. sort_key key xs)"
  by (simp add: sorts_def)

lemma get_df_ids [simp]: "get_df P ty (doc_ids_init ids) = Some 1"
  by (simp add: doc_ids_init_def)

text \<open>A term with one stored bitmap of 40 bits, of which bits 3 and 33 are set.\<close>

definition example_seg :: segment_posting where
  "example_seg = \<lparr>sp_baseDocId = 100, sp_docCount = 40, sp_data = Stored 5 [0x10000000, 0x40000000], sp_expand = None,
     sp_mainDocFreq = 2, sp_currentDocFreq = 2\<rparr>"

definition example_iter :: bitmap_iter where
  "example_iter = snd (bitmap_iter_init [example_seg])"

lemma example_single: "seg_single example_seg = \<lparr>s_currentLocalId = -1, s_baseDocId = 100,
    s_bitmap = mount_without_refresh (bitmap_default False) 40 (Some [0x10000000, 0x40000000]) True,
    s_lastDocId = 140, s_expandBitmap = bitmap_default False\<rparr>"
  by (simp add: seg_single_def example_seg_def single_init_def single_new_def init_expand_bitmap_def INVALID_DOCID_def
      BYTE_SLOT_NUM_def item_count_def mount_without_refresh_def Let_def)

lemma example_items: "filter (bit_at [0x10000000, 0x40000000]) [0..<64] = [3, 33]"
  by code_simp

lemma example_docs: "seg_docs example_seg = {103, 133}" "single_inv (seg_single example_seg)"
proof -
  let ?b = "mount_without_refresh (bitmap_default False) 40 (Some [0x10000000, 0x40000000]) True"
  have at: "bit_at [0x10000000, 0x40000000] i \<longleftrightarrow> i = 3 \<or> i = 33" if "i < 64" for i
    using that example_items [THEN arg_cong, of set] by auto
  have slots: "slots ?b = [0x10000000, 0x40000000]" and n: "b_itemCount ?b = 40" "b_slotCount ?b = 2"
    by (simp_all add: mount_without_refresh_def slots_def slots_for_def SLOT_SIZE_def Let_def)
  have items: "items ?b = {3, 33}" "items (bitmap_default False) = {}"
    unfolding items_def slots n using at by (auto simp: bitmap_default_def)
  then show "seg_docs example_seg = {103, 133}"
    by (auto simp: seg_docs_def single_docs_def local_docs_def example_single)
  have "bm_shape ?b"
    by (simp add: bm_shape_def slots n) (simp add: mount_without_refresh_def slots_for_def SLOT_SIZE_def Let_def)
  moreover have "bm_tight ?b"
    unfolding bm_tight_def slots n list_all_iff using at by auto
  moreover have "bm_good (bitmap_default False)"
    by (simp add: bm_good_def bitmap_default_def)
  ultimately show "single_inv (seg_single example_seg)"
    by (simp add: single_inv_def example_single bm_good_def)
qed

lemma example_segs_ok: "segs_ok [example_seg]"
  using example_docs by (simp add: segs_ok_def seg_last_def example_seg_def END_DOCID_def)

lemma example_iter_inv: "bi_inv example_iter" "bi_docs example_iter = {103, 133}" "bi_low example_iter = 100"
  using bitmap_iter_init_inv [OF example_segs_ok] example_docs(1)
  by (simp_all add: example_iter_def bi_docs_def) (simp add: example_seg_def)

lemma example_fresh: "fresh_iter bitmap_spec example_iter"
proof -
  have "nxt {103, 133} 0 = 103"
    by (rule nxt_eqI) (auto simp: docset_def END_DOCID_def)
  then show ?thesis
    using example_iter_inv by (simp add: fresh_iter_def bitmap_spec_def docset_def END_DOCID_def)
qed

lemma example_leaf:
  "fresh bitmap_spec (Suc n) (bitmap_term_init example_iter)" "filter_fits bitmap_spec (bitmap_term_init example_iter)"
  "exec_docs bitmap_spec (bitmap_term_init example_iter) = {103, 133}"
proof -
  show "fresh bitmap_spec (Suc n) (bitmap_term_init example_iter)"
    using example_fresh by (rule bitmap_term_init_fresh)
qed (simp_all add: filter_fits_def kept_docs_def steal_filter_def bitmap_term_init_def bitmap_spec_def example_iter_inv(2))

text \<open>A range of which the index recalls the documents of the term, and whose filter accepts others: 133 and 140.\<close>

abbreviation range_leaf :: "bitmap_iter executor" where
  "range_leaf \<equiv> range_term_init example_iter (Some (\<lambda>d. d = 133 \<or> d = 140))"

lemma range_leaf:
  "fresh bitmap_spec (Suc n) range_leaf" "exec_docs bitmap_spec range_leaf = {103, 133}" "kept_docs bitmap_spec range_leaf = {133, 140}"
  "get_df bitmap_postings GDT_CURRENT_CHAIN range_leaf = Some 2" "\<not> has_sub range_leaf"
proof -
  show "fresh bitmap_spec (Suc n) range_leaf"
    using example_fresh by (rule range_term_init_fresh)
  show "exec_docs bitmap_spec range_leaf = {103, 133}" "kept_docs bitmap_spec range_leaf = {133, 140}" "\<not> has_sub range_leaf"
    by (auto simp: range_term_init_def bitmap_spec_def example_iter_inv(2) kept_docs_def steal_filter_def has_sub_def)
  show "get_df bitmap_postings GDT_CURRENT_CHAIN range_leaf = Some 2"
    by (simp add: range_term_init_def term_df_def) code_simp
qed

text \<open>
  C34. \<^verbatim>\<open>AndQueryExecutor::addQueryExecutors\<close> on fresh children whose document frequencies can be computed (their sums do not
  overflow), for any way of sorting children of equal frequency: it builds a fresh executor, for the documents that a child
  of least frequency finds and that all the other children keep.  A child keeps the documents it finds, or, if it is a range
  with a filter, those that its filter accepts, whatever it would find by itself.
\<close>

theorem and_builds_intersection:
  assumes "\<forall>c \<in> set cs. fresh G n c" "cs \<noteq> []" "sorts srt" "those (map (get_df P GDT_CURRENT_CHAIN) cs) = Some dfs"
  shows "\<exists>e h. and_add srt P cs = Some e \<and> fresh G (Suc n) e \<and> h < length cs \<and> (\<forall>i < length cs. dfs ! h \<le> dfs ! i) \<and>
    exec_docs G e = {d \<in> exec_docs G (cs ! h). \<forall>i < length cs. i \<noteq> h \<longrightarrow>
      (case fst (steal_filter (cs ! i)) of None \<Rightarrow> d \<in> exec_docs G (cs ! i) | Some f \<Rightarrow> f d)}"
proof -
  have kept: "d \<in> kept_docs G c \<longleftrightarrow> (case fst (steal_filter c) of None \<Rightarrow> d \<in> exec_docs G c | Some f \<Rightarrow> f d)" for d c
    by (simp add: kept_docs_def split: option.split)
  obtain e h where "and_add srt P cs = Some e" "h < length cs" "\<forall>i < length cs. dfs ! h \<le> dfs ! i" "fresh G (Suc n) e"
    "exec_docs G e = {d \<in> exec_docs G (cs ! h). \<forall>i < length cs. i \<noteq> h \<longrightarrow> d \<in> kept_docs G (cs ! i)}"
    using and_add_kept [OF assms] .
  then show ?thesis
    unfolding kept by blast
qed

theorem and_builds_intersection_witness:
  "\<exists>e. and_add (\<lambda>key xs. sort_key key xs) bitmap_postings [range_leaf, ids_leaf [103, 133, 150]] = Some e \<and>
     fresh bitmap_spec 2 e \<and> exec_docs bitmap_spec e = {133}"
proof -
  let ?cs = "[range_leaf, ids_leaf [103, 133, 150]]"
  have ids: "fresh bitmap_spec 1 (ids_leaf [103, 133, 150])" "exec_docs bitmap_spec (ids_leaf [103, 133, 150]) = {103, 133, 150}"
    using ids_leaf_ok [of "[103, 133, 150]" 0] by (simp_all add: END_DOCID_def)
  have c: "\<forall>c \<in> set ?cs. fresh bitmap_spec 1 c" "?cs \<noteq> []"
    "those (map (get_df bitmap_postings GDT_CURRENT_CHAIN) ?cs) = Some [2, 1]"
    using ids(1) range_leaf(1) [of 0] by (simp_all add: range_leaf(4))
  have f: "fst (steal_filter range_leaf) = Some (\<lambda>d. d = 133 \<or> d = 140)"
    by (simp add: steal_filter_def range_term_init_def)
  have len: "length ?cs = 2"
    by simp
  obtain e h where e: "and_add (\<lambda>key xs. sort_key key xs) bitmap_postings ?cs = Some e" "fresh bitmap_spec 2 e" "h < 2"
    "\<forall>i < 2. [2, 1 :: int] ! h \<le> [2, 1] ! i"
    "exec_docs bitmap_spec e = {d \<in> exec_docs bitmap_spec (?cs ! h). \<forall>i < 2. i \<noteq> h \<longrightarrow>
      (case fst (steal_filter (?cs ! i)) of None \<Rightarrow> d \<in> exec_docs bitmap_spec (?cs ! i) | Some f \<Rightarrow> f d)}"
    using and_builds_intersection [OF c(1,2) sort_key_sorts c(3)] by (simp only: len Suc_1) blast
  have "h = 1"
    using e(3,4) by (auto simp: less_2_cases_iff)
  then have "exec_docs bitmap_spec e = {d \<in> {103, 133, 150}. d = 133 \<or> d = 140}"
    using e(5) ids(2) f by (auto simp: less_2_cases_iff)
  then show ?thesis
    using e(1,2) by auto
qed

text \<open>
  C35. \<^verbatim>\<open>WeakAndQueryExecutor\<close>: it stands for the documents that at least \<^verbatim>\<open>minShouldMatch\<close> of its children
  have, where the number is at least one and at most that of the children.
\<close>

theorem weak_and_builds_threshold:
  assumes "\<forall>c \<in> set cs. fresh G n c" "cs \<noteq> []"
  shows "fresh G (Suc n) (weak_and_init m cs) \<and>
    exec_docs G (weak_and_init m cs) =
      {d. min (max 1 m) (length cs) \<le> length (filter (\<lambda>c. d \<in> exec_docs G c) cs)}"
  using weak_and_add_fresh [OF assms, of qbase_init "max 1 m" "[]"] by (simp add: weak_and_init_def)

theorem weak_and_builds_threshold_witness:
  "fresh bitmap_spec 2 (weak_and_init 2 [ids_leaf [1, 2], ids_leaf [2, 3], ids_leaf [3, 5]]) \<and>
   2 \<in> exec_docs bitmap_spec (weak_and_init 2 [ids_leaf [1, 2], ids_leaf [2, 3], ids_leaf [3, 5]]) \<and>
   5 \<notin> exec_docs bitmap_spec (weak_and_init 2 [ids_leaf [1, 2], ids_leaf [2, 3], ids_leaf [3, 5]])"
proof -
  have ok: "fresh bitmap_spec 1 (ids_leaf [1, 2])" "fresh bitmap_spec 1 (ids_leaf [2, 3])" "fresh bitmap_spec 1 (ids_leaf [3, 5])"
    "exec_docs bitmap_spec (ids_leaf [1, 2]) = {1, 2}" "exec_docs bitmap_spec (ids_leaf [2, 3]) = {2, 3}"
    "exec_docs bitmap_spec (ids_leaf [3, 5]) = {3, 5}"
    using ids_leaf_ok [of "[1, 2]" 0] ids_leaf_ok [of "[2, 3]" 0] ids_leaf_ok [of "[3, 5]" 0] by (simp_all add: END_DOCID_def)
  then show ?thesis
    using weak_and_builds_threshold [of "[ids_leaf [1, 2], ids_leaf [2, 3], ids_leaf [3, 5]]" bitmap_spec 1 2]
    by (simp add: numeral_2_eq_2)
qed

text \<open>
  C36. \<^verbatim>\<open>AndNotQueryExecutor::addQueryExecutors\<close> on two fresh children whose document frequencies can be computed, the right one
  without sub documents: it builds a fresh executor for the documents of the left child without those of the right one,
  which are the ones it finds; if the right child is the more frequent one and a range with a filter, they are the ones that
  the filter accepts, whatever it would find by itself.
\<close>

theorem and_not_builds_difference:
  assumes "fresh G n l" "fresh G n r" "\<not> has_sub r"
    "get_df P GDT_CURRENT_CHAIN l = Some dl" "get_df P GDT_CURRENT_CHAIN r = Some dr"
  shows "\<exists>e. and_not_add P l (Some r) = Some e \<and> fresh G (Suc n) e \<and>
    exec_docs G e = {d \<in> exec_docs G l. \<not> (case fst (steal_filter r) of
      Some f \<Rightarrow> if dl < dr then f d else d \<in> exec_docs G r | None \<Rightarrow> d \<in> exec_docs G r)}"
proof -
  have kept: "exec_docs G l - (if dl < dr then kept_docs G r else exec_docs G r) =
      {d \<in> exec_docs G l. \<not> (case fst (steal_filter r) of
        Some f \<Rightarrow> if dl < dr then f d else d \<in> exec_docs G r | None \<Rightarrow> d \<in> exec_docs G r)}"
    by (auto simp: kept_docs_def split: option.splits if_splits)
  obtain e where "and_not_add P l (Some r) = Some e" "fresh G (Suc n) e"
    "exec_docs G e = exec_docs G l - (if dl < dr then kept_docs G r else exec_docs G r)"
    using and_not_add_kept [OF assms] .
  then show ?thesis
    unfolding kept by blast
qed

theorem and_not_builds_difference_witness:
  "\<exists>e. and_not_add bitmap_postings (ids_leaf [103, 133, 150]) (Some range_leaf) = Some e \<and>
     fresh bitmap_spec 2 e \<and> exec_docs bitmap_spec e = {103, 150}"
proof -
  have l: "fresh bitmap_spec 1 (ids_leaf [103, 133, 150])" "exec_docs bitmap_spec (ids_leaf [103, 133, 150]) = {103, 133, 150}"
    using ids_leaf_ok [of "[103, 133, 150]" 0] by (simp_all add: END_DOCID_def)
  have f: "fst (steal_filter range_leaf) = Some (\<lambda>d. d = 133 \<or> d = 140)"
    by (simp add: steal_filter_def range_term_init_def)
  have "{d \<in> {103, 133, 150}. \<not> (d = 133 \<or> d = 140)} = {103, 150 :: docid}"
    by auto
  moreover have "fresh bitmap_spec 1 range_leaf"
    using range_leaf(1) [of 0] by simp
  ultimately show ?thesis
    using and_not_builds_difference [OF l(1) _ range_leaf(5) get_df_ids range_leaf(4)] by (simp add: l(2) f numeral_2_eq_2)
qed

text \<open>
  \<^verbatim>\<open>BitmapAndQueryExecutor::addQueryExecutors\<close>: whatever children it seeks in and whatever bitmaps it only
  tests, it builds a fresh executor for the intersection of all its children, where the filter of a range accepts the
  documents that the range finds.
\<close>

theorem bitmap_and_builds_intersection:
  assumes "\<forall>c \<in> set es. fresh G n c \<and> filter_fits G c" "2 \<le> length es" "\<exists>c \<in> set es. is_bitmap_term c" "sorts srt"
    "bitmap_and_add srt P es = Some e"
  shows "fresh G (Suc (Suc n)) e \<and> exec_docs G e = (\<Inter>c \<in> set es. exec_docs G c)"
  using bitmap_and_add_fresh [OF assms] by simp

theorem bitmap_and_builds_intersection_witness:
  "\<exists>e. bitmap_and_add (\<lambda>key xs. sort_key key xs) bitmap_postings [bitmap_term_init example_iter, ids_leaf [103, 105]] = Some e \<and>
     fresh bitmap_spec 3 e \<and> exec_docs bitmap_spec e = {103}"
proof -
  have c: "\<forall>c \<in> set [bitmap_term_init example_iter, ids_leaf [103, 105]]. fresh bitmap_spec 1 c \<and> filter_fits bitmap_spec c"
    using ids_leaf_ok [of "[103, 105]" 0] example_leaf by (simp add: END_DOCID_def)
  obtain e where e: "bitmap_and_add (\<lambda>key xs. sort_key key xs) bitmap_postings [bitmap_term_init example_iter, ids_leaf [103, 105]] = Some e"
    by (simp add: bitmap_and_add_def bitmap_term_init_def doc_ids_init_def is_bitmap_term_def)
  have "(\<Inter>c \<in> set [bitmap_term_init example_iter, ids_leaf [103, 105]]. exec_docs bitmap_spec c) = {103}"
    using ids_leaf_ok [of "[103, 105]" 0] example_leaf by (auto simp: END_DOCID_def)
  then show ?thesis
    using bitmap_and_builds_intersection [OF c _ _ sort_key_sorts e] e
    by (simp add: numeral_3_eq_3 bitmap_term_init_def is_bitmap_term_def)
qed

section \<open>The bitmap posting iterator\<close>

text \<open>
  C10. \<^verbatim>\<open>BitmapPostingIterator\<close> over the segments of a term: \<^verbatim>\<open>InnerSeekDoc\<close> gives the first document of all
  segments from its argument on, or \<^verbatim>\<open>INVALID_DOCID\<close>, when no document asked for has been passed; it always
  returns, and when it has found a document it can be asked for a later one.
\<close>

theorem bitmap_iterator_seeks_next:
  assumes "bi_inv it" "0 \<le> a" "a \<le> END_DOCID" "\<And>d. d \<in> bi_docs it \<Longrightarrow> a \<le> d \<Longrightarrow> bi_low it \<le> d" "bi_low it \<le> END_DOCID"
    and "D = {d \<in> bi_docs it. a \<le> d}"
  shows "\<exists>it'. inner_seek_doc it a = Some (Inr (if D = {} then INVALID_DOCID else Min D), it') \<and>
    bi_docs it' = bi_docs it \<and> (D \<noteq> {} \<longrightarrow> bi_inv it' \<and> bi_low it' \<le> Min D + 1)"
proof -
  have at: "bi_at it (bi_local it)"
    using assms(1) by (simp add: bi_inv_def)
  have dv: "docset (bi_docs it)"
    using at by (simp add: bi_docset bi_at_def)
  have low: "bi_low it \<le> nxt (bi_docs it) a"
    using assms(4,5) by (rule_tac nxt_cases [OF dv, of a]) auto
  obtain d it' where r: "inner_seek_doc it a = Some (Inr d, it')" "posting_result d = nxt (bi_docs it) a"
    "bi_docs it' = bi_docs it" "posting_result d \<noteq> END_DOCID \<longrightarrow> bi_inv it' \<and> bi_low it' \<le> d + 1 \<and> d \<noteq> INVALID_DOCID"
    "d \<noteq> END_DOCID"
    using inner_seek_ok [OF at assms(2,3) low] by (auto simp: bi_seek_ok_def)
  show ?thesis
  proof (cases "D = {}")
    case True
    then have "nxt (bi_docs it) a = END_DOCID"
      using assms(6) by (intro nxt_none) force
    then have "d = INVALID_DOCID"
      using r(2,5) by (auto simp: posting_result_def split: if_splits)
    then show ?thesis
      using r(1,3) True by auto
  next
    case False
    have "finite D"
      using assms(6) docset_finite [OF dv] by simp
    then have "Min D \<in> D"
      using False by (rule Min_in)
    moreover have n: "nxt (bi_docs it) a = Min D"
      using assms(6) False by (auto simp: nxt_def)
    ultimately have "posting_result d \<noteq> END_DOCID"
      using assms(6) docset_less [OF dv, of "Min D"] r(2) by simp
    moreover from this have "d = Min D"
      using n r(2,4) unfolding posting_result_def by metis
    ultimately show ?thesis
      using r(1,3,4) False by auto
  qed
qed

theorem bitmap_iterator_seeks_next_witness:
  "bi_inv example_iter \<and> (\<exists>it'. inner_seek_doc example_iter 104 = Some (Inr 133, it') \<and> bi_inv it')"
proof -
  have D: "{d \<in> bi_docs example_iter. 104 \<le> d} = {133}"
    unfolding example_iter_inv(2) by auto
  show ?thesis
    using bitmap_iterator_seeks_next [OF example_iter_inv(1) _ _ _ _ refl, of 104] example_iter_inv unfolding D
    by (auto simp: END_DOCID_def)
qed

end
