(* ===== verification/BitPacking.thy ===== *)
theory BitPacking
  imports Prelude
begin

text \<open>
  Reference definitions of bit packing: \<open>b\<close>-bit values stored one after the other in 32-bit words, the first
  value in the lowest bits.  The unrolled routines of \<^verbatim>\<open>indexlib/index/common/numeric_compress\<close> are proved equal
  to them in the theories that model those routines.
\<close>

section \<open>Fields of words\<close>

text \<open>The bit at position \<open>s\<close> of the words \<open>w 0\<close>, \<open>w 1\<close>, and so on.\<close>

definition stream_bit :: "(nat \<Rightarrow> u32) \<Rightarrow> nat \<Rightarrow> bool" where
  "stream_bit w s = bit (w (s div 32)) (s mod 32)"

text \<open>
  A field of \<open>b\<close> bits from bit \<open>s\<close> on, within one word or across two, and the two ways a value is placed in a word.
  The simplifier has no rules for these constants, so that equations between lists of shift expressions reduce to
  equations between their parameters.
\<close>

definition field :: "nat \<Rightarrow> nat \<Rightarrow> u32 \<Rightarrow> u32" where
  "field s b v = drop_bit s v AND mask b"

definition field2 :: "nat \<Rightarrow> nat \<Rightarrow> nat \<Rightarrow> u32 \<Rightarrow> u32 \<Rightarrow> u32" where
  "field2 s l b v1 v2 = (drop_bit s v1 OR push_bit l v2) AND mask b"

definition low_part :: "nat \<Rightarrow> nat \<Rightarrow> u32 \<Rightarrow> u32" where
  "low_part s b v = push_bit s (v AND mask b)"

definition high_part :: "nat \<Rightarrow> nat \<Rightarrow> u32 \<Rightarrow> u32" where
  "high_part s b v = drop_bit s (v AND mask b)"

definition unpack_word :: "nat \<Rightarrow> (nat \<Rightarrow> u32) \<Rightarrow> nat \<Rightarrow> u32" where
  "unpack_word b w i =
     (let s = b * i mod 32; j = b * i div 32
      in if s + b \<le> 32 then field s b (w j) else field2 s (32 - s) b (w j) (w (j + 1)))"

text \<open>The bits of value \<open>i\<close> that fall into word \<open>j\<close>.\<close>

definition pack_piece :: "nat \<Rightarrow> (nat \<Rightarrow> u32) \<Rightarrow> nat \<Rightarrow> nat \<Rightarrow> u32" where
  "pack_piece b x j i =
     (if 32 * j \<le> b * i then low_part (b * i - 32 * j) b (x i) else high_part (32 * j - b * i) b (x i))"

fun or_all :: "u32 list \<Rightarrow> u32" where
  "or_all [] = 0"
| "or_all [v] = v"
| "or_all (v # w # vs) = v OR or_all (w # vs)"

definition pack_word :: "nat \<Rightarrow> (nat \<Rightarrow> u32) \<Rightarrow> nat \<Rightarrow> u32" where
  "pack_word b x j = or_all (map (pack_piece b x j) [32 * j div b..<(32 * j + 31) div b + 1])"

section \<open>Bits\<close>

lemma div_mod_split: "0 < b \<Longrightarrow> t < b \<Longrightarrow> (b * i + t) div b = i \<and> (b * i + t) mod b = t" for b :: nat
  by simp

lemma next_word:
  fixes s t j :: nat
  assumes "s < 32" "t < 32"
  shows "(32 * j + s + t) div 32 = (if s + t < 32 then j else j + 1)"
    and "(32 * j + s + t) mod 32 = (if s + t < 32 then s + t else s + t - 32)"
proof -
  have "(32 * j + s + t) div 32 = j + (s + t) div 32" "(32 * j + s + t) mod 32 = (s + t) mod 32"
    by (simp_all add: add.assoc)
  moreover have "(s + t) div 32 = (if s + t < 32 then 0 else 1)"
    using assms by (auto intro!: div_nat_eqI)
  moreover have "(s + t) mod 32 = (if s + t < 32 then s + t else s + t - 32)"
    using assms by (simp add: mod_if)
  ultimately show "(32 * j + s + t) div 32 = (if s + t < 32 then j else j + 1)"
    "(32 * j + s + t) mod 32 = (if s + t < 32 then s + t else s + t - 32)"
    by auto
qed

lemma bit_field: "bit (field s b v) t \<longleftrightarrow> t < b \<and> bit v (s + t)"
  by (auto simp: field_def bit_simps dest: bit_imp_le_length)

lemma bit_field2:
  "s < 32 \<Longrightarrow> t < 32 \<Longrightarrow> bit (field2 s (32 - s) b v1 v2) t \<longleftrightarrow> t < b \<and> (if s + t < 32 then bit v1 (s + t) else bit v2 (s + t - 32))"
  by (auto simp: field2_def bit_simps add.commute dest: bit_imp_le_length)

lemma bit_unpack_word:
  assumes "b \<le> 32"
  shows "bit (unpack_word b w i) t \<longleftrightarrow> t < b \<and> stream_bit w (b * i + t)"
proof (cases "t < b")
  case True
  let ?s = "b * i mod 32" and ?j = "b * i div 32"
  have bi: "b * i = 32 * ?j + ?s"
    by simp
  have s: "?s < 32" "t < 32"
    using True assms by simp_all
  have "stream_bit w (b * i + t) = stream_bit w (32 * ?j + ?s + t)"
    using bi by simp
  also have "\<dots> = (if ?s + t < 32 then bit (w ?j) (?s + t) else bit (w (?j + 1)) (?s + t - 32))"
    unfolding stream_bit_def next_word [OF s] by simp
  finally have st: "stream_bit w (b * i + t) = (if ?s + t < 32 then bit (w ?j) (?s + t) else bit (w (?j + 1)) (?s + t - 32))" .
  show ?thesis
    unfolding st unpack_word_def Let_def using True s by (simp add: bit_field bit_field2)
next
  case False
  then show ?thesis
    by (simp add: unpack_word_def Let_def field_def field2_def bit_simps)
qed

lemma bit_or_all: "bit (or_all vs) t \<longleftrightarrow> (\<exists>v \<in> set vs. bit v t)"
  by (induction vs rule: or_all.induct) (auto simp: bit_simps)

lemma bit_pack_piece:
  assumes "t < 32" "b \<le> 32"
  shows "bit (pack_piece b x j i) t \<longleftrightarrow> b * i \<le> 32 * j + t \<and> 32 * j + t < b * i + b \<and> bit (x i) (32 * j + t - b * i)"
  using assms by (auto simp: pack_piece_def low_part_def high_part_def bit_simps le_diff_conv2 algebra_simps dest: bit_imp_le_length)

lemma bit_pack_word:
  assumes "0 < b" "b \<le> 32" "t < 32"
  shows "bit (pack_word b x j) t \<longleftrightarrow> bit (x ((32 * j + t) div b)) ((32 * j + t) mod b)"
proof -
  let ?p = "32 * j + t"
  have iff: "b * i \<le> ?p \<and> ?p < b * i + b \<longleftrightarrow> i = ?p div b" for i
  proof
    show "i = ?p div b" if "b * i \<le> ?p \<and> ?p < b * i + b"
      using that assms(1) by (intro div_nat_eqI [symmetric]) (auto simp: algebra_simps)
    show "b * i \<le> ?p \<and> ?p < b * i + b" if "i = ?p div b"
      using that assms(1) mult_div_mod_eq [of b ?p] mod_less_divisor [of b ?p] by (metis add_less_cancel_left le_add1)
  qed
  have "32 * j div b \<le> ?p div b" "?p div b < (32 * j + 31) div b + 1"
    using assms(3) by (simp_all add: div_le_mono less_Suc_eq_le)
  then have mem: "?p div b \<in> set [32 * j div b..<(32 * j + 31) div b + 1]"
    by (simp only: set_upt atLeastLessThan_iff)
  have "bit (pack_piece b x j i) t \<longleftrightarrow> i = ?p div b \<and> bit (x (?p div b)) (?p mod b)" for i
    using iff [of i] minus_mult_div_eq_mod [of ?p b] by (auto simp: bit_pack_piece [OF assms(3,2)])
  then have "(\<exists>v \<in> set (map (pack_piece b x j) is). bit v t) \<longleftrightarrow> ?p div b \<in> set is \<and> bit (x (?p div b)) (?p mod b)" for "is"
    by auto
  then show ?thesis
    unfolding pack_word_def bit_or_all using mem by blast
qed

text \<open>Reading back: the words in which the value lies have to be the packed ones.\<close>

lemma unpack_pack_word:
  assumes "0 < b" "b \<le> 32" "\<And>j. 32 * j < b * i + b \<Longrightarrow> b * i < 32 * j + 32 \<Longrightarrow> w j = pack_word b x j"
  shows "unpack_word b w i = take_bit b (x i)"
proof (rule bit_eqI)
  fix t
  let ?p = "b * i + t"
  show "bit (unpack_word b w i) t \<longleftrightarrow> bit (take_bit b (x i)) t"
  proof (cases "t < b")
    case True
    have "32 * (?p div 32) \<le> ?p" "?p < 32 * (?p div 32) + 32"
      using mult_div_mod_eq [of 32 ?p] mod_less_divisor [of 32 ?p] by linarith+
    then have "w (?p div 32) = pack_word b x (?p div 32)"
      using True by (intro assms(3)) linarith+
    then show ?thesis
      using True assms(1) by (simp add: bit_unpack_word [OF assms(2)] stream_bit_def bit_pack_word [OF assms(1,2)] bit_simps)
  next
    case False
    then show ?thesis
      by (simp add: bit_unpack_word [OF assms(2)] bit_simps)
  qed
qed

section \<open>Shift forms\<close>

text \<open>The unrolled routines spell a field as a left shift followed by a right shift, as well as by masking.\<close>

definition shifted :: "nat \<Rightarrow> nat \<Rightarrow> u32 \<Rightarrow> u32" where
  "shifted m l v = drop_bit m (push_bit l v)"

definition shifted2 :: "nat \<Rightarrow> nat \<Rightarrow> nat \<Rightarrow> u32 \<Rightarrow> u32 \<Rightarrow> u32" where
  "shifted2 m l s v2 v1 = drop_bit m (push_bit l v2) OR drop_bit s v1"

lemma shifted_zero: "drop_bit m v = shifted m 0 v"
  by (simp add: shifted_def)

lemma low_part_zero: "v AND mask b = low_part 0 b v"
  by (simp add: low_part_def)

lemma field_zero: "v AND mask b = field 0 b v"
  by (simp add: field_def)

lemma field_shifted:
  assumes "s + b \<le> 32"
  shows "field s b v = shifted (32 - b) (32 - b - s) v"
proof (rule bit_word_eqI)
  fix t assume "t < LENGTH(32)"
  moreover from assms have "32 - b - s \<le> t + (32 - b)" "t + (32 - b) - (32 - b - s) = s + t"
    by simp_all
  ultimately show "bit (field s b v) t = bit (shifted (32 - b) (32 - b - s) v) t"
    using assms by (auto simp: shifted_def bit_field bit_simps add.commute)
qed

lemma field2_shifted:
  assumes "s < 32" "b < 32" "32 < s + b"
  shows "field2 s (32 - s) b v1 v2 = shifted2 (32 - b) (64 - b - s) s v2 v1"
proof (rule bit_word_eqI)
  fix t assume "t < LENGTH(32)"
  then have t: "t < 32"
    by simp
  have "64 - b - s \<le> t + (32 - b) \<longleftrightarrow> 32 \<le> s + t" "t + (32 - b) - (64 - b - s) = s + t - 32"
    using assms by linarith+
  then show "bit (field2 s (32 - s) b v1 v2) t = bit (shifted2 (32 - b) (64 - b - s) s v2 v1) t"
    using assms t by (auto simp: shifted2_def bit_field2 bit_simps add.commute dest: bit_imp_le_length)
qed

lemma unpack_word_shifted:
  "b < 32 \<Longrightarrow> unpack_word b w i =
     (let s = b * i mod 32; j = b * i div 32
      in if s + b \<le> 32 then shifted (32 - b) (32 - b - s) (w j) else shifted2 (32 - b) (64 - b - s) s (w (j + 1)) (w j))"
  by (simp add: unpack_word_def Let_def field_shifted field2_shifted)

text \<open>The masks as the source writes them.\<close>

lemma mask_numerals:
    "(0x1 :: u32) = mask 1"
    "(0x3 :: u32) = mask 2"
    "(0x7 :: u32) = mask 3"
    "(0xF :: u32) = mask 4"
    "(0x1F :: u32) = mask 5"
    "(0x3F :: u32) = mask 6"
    "(0x7F :: u32) = mask 7"
    "(0xFF :: u32) = mask 8"
    "(0x1FF :: u32) = mask 9"
    "(0x3FF :: u32) = mask 10"
    "(0x7FF :: u32) = mask 11"
    "(0xFFF :: u32) = mask 12"
    "(0x1FFF :: u32) = mask 13"
    "(0x3FFF :: u32) = mask 14"
    "(0x7FFF :: u32) = mask 15"
    "(0xFFFF :: u32) = mask 16"
    "(0x1FFFF :: u32) = mask 17"
    "(0x3FFFF :: u32) = mask 18"
    "(0x7FFFF :: u32) = mask 19"
    "(0xFFFFF :: u32) = mask 20"
    "(0x1FFFFF :: u32) = mask 21"
    "(0x3FFFFF :: u32) = mask 22"
    "(0x7FFFFF :: u32) = mask 23"
    "(0xFFFFFF :: u32) = mask 24"
    "(0x1FFFFFF :: u32) = mask 25"
    "(0x3FFFFFF :: u32) = mask 26"
    "(0x7FFFFFF :: u32) = mask 27"
    "(0xFFFFFFF :: u32) = mask 28"
    "(0x1FFFFFFF :: u32) = mask 29"
    "(0x3FFFFFFF :: u32) = mask 30"
    "(0x7FFFFFFF :: u32) = mask 31"
    "(0xFFFFFFFF :: u32) = mask 32"
  by (simp_all add: mask_eq_exp_minus_1)

section \<open>Blocks\<close>

lemma pack_word_32: "pack_word 32 x j = x j"
proof -
  have "32 * j div 32 = j" "(32 * j + 31) div 32 = j"
    by simp_all
  then show ?thesis
    by (simp add: pack_word_def pack_piece_def low_part_def take_bit_word_eq_self flip: take_bit_eq_mask)
qed

lemma unpack_word_0: "unpack_word 0 w i = 0"
  by (simp add: unpack_word_def field_def)

text \<open>If \<open>step\<close> values fill \<open>per\<close> words, then reading can start anew after each such group.\<close>

lemma unpack_word_shift:
  assumes "b * step = 32 * per" "b \<le> 32"
  shows "unpack_word b (\<lambda>j. w (per * k + j)) = (\<lambda>i. unpack_word b w (step * k + i))"
proof
  fix i
  have "b * (step * k + i) = 32 * (per * k) + b * i"
    using arg_cong [OF assms(1), of "\<lambda>m. m * k"] by (simp add: distrib_left mult.assoc)
  then have "b * (step * k + i) mod 32 = b * i mod 32" "b * (step * k + i) div 32 = per * k + b * i div 32"
    by simp_all
  then show "unpack_word b (\<lambda>j. w (per * k + j)) i = unpack_word b w (step * k + i)"
    by (simp add: unpack_word_def Let_def add.assoc)
qed

lemma map_shift_upt: "map (\<lambda>i. f (a + i)) [0..<n] = map f [a..<a + n]"
  by (simp add: list_eq_iff_nth_eq)

lemma concat_blocks:
  "concat (map (\<lambda>k. map (\<lambda>i. f (step * k + i)) [0..<step]) [0..<q]) = map f [0..<step * q]" for f :: "nat \<Rightarrow> 'a"
proof (induction q)
  case (Suc q)
  have "[0..<step * Suc q] = [0..<step * q] @ [step * q..<step * q + step]"
    using upt_add_eq_append [of 0 "step * q" step] by (simp add: add.commute)
  then show ?case
    using Suc by (simp add: map_shift_upt)
qed simp

end
