(* ===== verification/UnalignedBlocks.thy ===== *)
theory UnalignedBlocks
  imports BitPacking
begin

text \<open>
  The unpacking routines for fewer than 32 values of \<^verbatim>\<open>indexlib/index/common/numeric_compress/UnalignedUnpack.h\<close>,
  as functions from the words read through \<open>encode\<close> to the decoded values.  The source returns as soon as the given
  number of values is stored, which is \<open>take\<close> here; a word is read in the source no earlier than by the first value
  that lies in it.
\<close>

section \<open>The routines\<close>

text \<open>The loop of the routines that process blocks of \<open>step\<close> values in \<open>per\<close> words before the rest.\<close>

definition unaligned_blocks :: "nat \<Rightarrow> nat \<Rightarrow> ((nat \<Rightarrow> u32) \<Rightarrow> u32 list) \<Rightarrow> ((nat \<Rightarrow> u32) \<Rightarrow> nat \<Rightarrow> u32 list) \<Rightarrow>
    (nat \<Rightarrow> u32) \<Rightarrow> nat \<Rightarrow> u32 list" where
  "unaligned_blocks step per block rest_of encode dataNum =
     concat (map (\<lambda>k. block (\<lambda>j. encode (per * k + j))) [0..<dataNum div step]) @
     (if dataNum mod step = 0 then [] else rest_of (\<lambda>j. encode (per * (dataNum div step) + j)) (dataNum mod step))"

definition unaligned_unpack_0 :: "(nat \<Rightarrow> u32) \<Rightarrow> nat \<Rightarrow> u32 list" where
  "unaligned_unpack_0 encode dataNum = replicate dataNum 0"

definition unaligned_unpack_1 :: "(nat \<Rightarrow> u32) \<Rightarrow> nat \<Rightarrow> u32 list" where
  "unaligned_unpack_1 encode dataNum =
     (let val = encode 0
      in take dataNum [drop_bit 31 (push_bit 31 val), drop_bit 31 (push_bit 30 val), drop_bit 31 (push_bit 29 val),
          drop_bit 31 (push_bit 28 val), drop_bit 31 (push_bit 27 val), drop_bit 31 (push_bit 26 val),
          drop_bit 31 (push_bit 25 val), drop_bit 31 (push_bit 24 val), drop_bit 31 (push_bit 23 val),
          drop_bit 31 (push_bit 22 val), drop_bit 31 (push_bit 21 val), drop_bit 31 (push_bit 20 val),
          drop_bit 31 (push_bit 19 val), drop_bit 31 (push_bit 18 val), drop_bit 31 (push_bit 17 val),
          drop_bit 31 (push_bit 16 val), drop_bit 31 (push_bit 15 val), drop_bit 31 (push_bit 14 val),
          drop_bit 31 (push_bit 13 val), drop_bit 31 (push_bit 12 val), drop_bit 31 (push_bit 11 val),
          drop_bit 31 (push_bit 10 val), drop_bit 31 (push_bit 9 val), drop_bit 31 (push_bit 8 val),
          drop_bit 31 (push_bit 7 val), drop_bit 31 (push_bit 6 val), drop_bit 31 (push_bit 5 val),
          drop_bit 31 (push_bit 4 val), drop_bit 31 (push_bit 3 val), drop_bit 31 (push_bit 2 val),
          drop_bit 31 (push_bit 1 val)])"

definition unaligned_unpack_2 :: "(nat \<Rightarrow> u32) \<Rightarrow> nat \<Rightarrow> u32 list" where
  "unaligned_unpack_2 =
     unaligned_blocks 16 1
       (\<lambda>encode. let val = encode 0
          in [drop_bit 30 (push_bit 30 val), drop_bit 30 (push_bit 28 val), drop_bit 30 (push_bit 26 val),
              drop_bit 30 (push_bit 24 val), drop_bit 30 (push_bit 22 val), drop_bit 30 (push_bit 20 val),
              drop_bit 30 (push_bit 18 val), drop_bit 30 (push_bit 16 val), drop_bit 30 (push_bit 14 val),
              drop_bit 30 (push_bit 12 val), drop_bit 30 (push_bit 10 val), drop_bit 30 (push_bit 8 val),
              drop_bit 30 (push_bit 6 val), drop_bit 30 (push_bit 4 val), drop_bit 30 (push_bit 2 val),
              drop_bit 30 val])
       (\<lambda>encode rest. let val = encode 0
          in take rest [drop_bit 30 (push_bit 30 val), drop_bit 30 (push_bit 28 val), drop_bit 30 (push_bit 26 val),
              drop_bit 30 (push_bit 24 val), drop_bit 30 (push_bit 22 val), drop_bit 30 (push_bit 20 val),
              drop_bit 30 (push_bit 18 val), drop_bit 30 (push_bit 16 val), drop_bit 30 (push_bit 14 val),
              drop_bit 30 (push_bit 12 val), drop_bit 30 (push_bit 10 val), drop_bit 30 (push_bit 8 val),
              drop_bit 30 (push_bit 6 val), drop_bit 30 (push_bit 4 val), drop_bit 30 (push_bit 2 val)])"

definition unaligned_unpack_3 :: "(nat \<Rightarrow> u32) \<Rightarrow> nat \<Rightarrow> u32 list" where
  "unaligned_unpack_3 encode dataNum =
     (let val1 = encode 0; val2 = encode 1; val3 = encode 2
      in take dataNum [drop_bit 29 (push_bit 29 val1), drop_bit 29 (push_bit 26 val1), drop_bit 29 (push_bit 23 val1),
          drop_bit 29 (push_bit 20 val1), drop_bit 29 (push_bit 17 val1), drop_bit 29 (push_bit 14 val1),
          drop_bit 29 (push_bit 11 val1), drop_bit 29 (push_bit 8 val1), drop_bit 29 (push_bit 5 val1),
          drop_bit 29 (push_bit 2 val1), drop_bit 29 (push_bit 31 val2) OR drop_bit 30 val1,
          drop_bit 29 (push_bit 28 val2), drop_bit 29 (push_bit 25 val2), drop_bit 29 (push_bit 22 val2),
          drop_bit 29 (push_bit 19 val2), drop_bit 29 (push_bit 16 val2), drop_bit 29 (push_bit 13 val2),
          drop_bit 29 (push_bit 10 val2), drop_bit 29 (push_bit 7 val2), drop_bit 29 (push_bit 4 val2),
          drop_bit 29 (push_bit 1 val2), drop_bit 29 (push_bit 30 val3) OR drop_bit 31 val2,
          drop_bit 29 (push_bit 27 val3), drop_bit 29 (push_bit 24 val3), drop_bit 29 (push_bit 21 val3),
          drop_bit 29 (push_bit 18 val3), drop_bit 29 (push_bit 15 val3), drop_bit 29 (push_bit 12 val3),
          drop_bit 29 (push_bit 9 val3), drop_bit 29 (push_bit 6 val3), drop_bit 29 (push_bit 3 val3)])"

definition unaligned_unpack_4 :: "(nat \<Rightarrow> u32) \<Rightarrow> nat \<Rightarrow> u32 list" where
  "unaligned_unpack_4 =
     unaligned_blocks 8 1
       (\<lambda>encode. let val1 = encode 0
          in [drop_bit 28 (push_bit 28 val1), drop_bit 28 (push_bit 24 val1), drop_bit 28 (push_bit 20 val1),
              drop_bit 28 (push_bit 16 val1), drop_bit 28 (push_bit 12 val1), drop_bit 28 (push_bit 8 val1),
              drop_bit 28 (push_bit 4 val1), drop_bit 28 val1])
       (\<lambda>encode rest. let val1 = encode 0
          in take rest [drop_bit 28 (push_bit 28 val1), drop_bit 28 (push_bit 24 val1), drop_bit 28 (push_bit 20 val1),
              drop_bit 28 (push_bit 16 val1), drop_bit 28 (push_bit 12 val1), drop_bit 28 (push_bit 8 val1),
              drop_bit 28 (push_bit 4 val1)])"

definition unaligned_unpack_5 :: "(nat \<Rightarrow> u32) \<Rightarrow> nat \<Rightarrow> u32 list" where
  "unaligned_unpack_5 encode dataNum =
     (let val1 = encode 0; val2 = encode 1; val3 = encode 2; val4 = encode 3; val5 = encode 4
      in take dataNum [drop_bit 27 (push_bit 27 val1), drop_bit 27 (push_bit 22 val1), drop_bit 27 (push_bit 17 val1),
          drop_bit 27 (push_bit 12 val1), drop_bit 27 (push_bit 7 val1), drop_bit 27 (push_bit 2 val1),
          drop_bit 27 (push_bit 29 val2) OR drop_bit 30 val1, drop_bit 27 (push_bit 24 val2),
          drop_bit 27 (push_bit 19 val2), drop_bit 27 (push_bit 14 val2), drop_bit 27 (push_bit 9 val2),
          drop_bit 27 (push_bit 4 val2), drop_bit 27 (push_bit 31 val3) OR drop_bit 28 val2,
          drop_bit 27 (push_bit 26 val3), drop_bit 27 (push_bit 21 val3), drop_bit 27 (push_bit 16 val3),
          drop_bit 27 (push_bit 11 val3), drop_bit 27 (push_bit 6 val3), drop_bit 27 (push_bit 1 val3),
          drop_bit 27 (push_bit 28 val4) OR drop_bit 31 val3, drop_bit 27 (push_bit 23 val4),
          drop_bit 27 (push_bit 18 val4), drop_bit 27 (push_bit 13 val4), drop_bit 27 (push_bit 8 val4),
          drop_bit 27 (push_bit 3 val4), drop_bit 27 (push_bit 30 val5) OR drop_bit 29 val4,
          drop_bit 27 (push_bit 25 val5), drop_bit 27 (push_bit 20 val5), drop_bit 27 (push_bit 15 val5),
          drop_bit 27 (push_bit 10 val5), drop_bit 27 (push_bit 5 val5)])"

definition unaligned_unpack_6 :: "(nat \<Rightarrow> u32) \<Rightarrow> nat \<Rightarrow> u32 list" where
  "unaligned_unpack_6 =
     unaligned_blocks 16 3
       (\<lambda>encode. let val1 = encode 0; val2 = encode 1; val3 = encode 2
          in [drop_bit 26 (push_bit 26 val1), drop_bit 26 (push_bit 20 val1), drop_bit 26 (push_bit 14 val1),
              drop_bit 26 (push_bit 8 val1), drop_bit 26 (push_bit 2 val1),
              drop_bit 26 (push_bit 28 val2) OR drop_bit 30 val1, drop_bit 26 (push_bit 22 val2),
              drop_bit 26 (push_bit 16 val2), drop_bit 26 (push_bit 10 val2), drop_bit 26 (push_bit 4 val2),
              drop_bit 26 (push_bit 30 val3) OR drop_bit 28 val2, drop_bit 26 (push_bit 24 val3),
              drop_bit 26 (push_bit 18 val3), drop_bit 26 (push_bit 12 val3), drop_bit 26 (push_bit 6 val3),
              drop_bit 26 val3])
       (\<lambda>encode rest. let val1 = encode 0; val2 = encode 1; val3 = encode 2
          in take rest [drop_bit 26 (push_bit 26 val1), drop_bit 26 (push_bit 20 val1), drop_bit 26 (push_bit 14 val1),
              drop_bit 26 (push_bit 8 val1), drop_bit 26 (push_bit 2 val1),
              drop_bit 26 (push_bit 28 val2) OR drop_bit 30 val1, drop_bit 26 (push_bit 22 val2),
              drop_bit 26 (push_bit 16 val2), drop_bit 26 (push_bit 10 val2), drop_bit 26 (push_bit 4 val2),
              drop_bit 26 (push_bit 30 val3) OR drop_bit 28 val2, drop_bit 26 (push_bit 24 val3),
              drop_bit 26 (push_bit 18 val3), drop_bit 26 (push_bit 12 val3), drop_bit 26 (push_bit 6 val3),
              drop_bit 26 val3])"

definition unaligned_unpack_7 :: "(nat \<Rightarrow> u32) \<Rightarrow> nat \<Rightarrow> u32 list" where
  "unaligned_unpack_7 encode dataNum =
     (let val1 = encode 0; val2 = encode 1; val3 = encode 2; val4 = encode 3; val5 = encode 4; val6 = encode 5;
          val7 = encode 6
      in take dataNum [drop_bit 25 (push_bit 25 val1), drop_bit 25 (push_bit 18 val1), drop_bit 25 (push_bit 11 val1),
          drop_bit 25 (push_bit 4 val1), drop_bit 25 (push_bit 29 val2) OR drop_bit 28 val1,
          drop_bit 25 (push_bit 22 val2), drop_bit 25 (push_bit 15 val2), drop_bit 25 (push_bit 8 val2),
          drop_bit 25 (push_bit 1 val2), drop_bit 25 (push_bit 26 val3) OR drop_bit 31 val2,
          drop_bit 25 (push_bit 19 val3), drop_bit 25 (push_bit 12 val3), drop_bit 25 (push_bit 5 val3),
          drop_bit 25 (push_bit 30 val4) OR drop_bit 27 val3, drop_bit 25 (push_bit 23 val4),
          drop_bit 25 (push_bit 16 val4), drop_bit 25 (push_bit 9 val4), drop_bit 25 (push_bit 2 val4),
          drop_bit 25 (push_bit 27 val5) OR drop_bit 30 val4, drop_bit 25 (push_bit 20 val5),
          drop_bit 25 (push_bit 13 val5), drop_bit 25 (push_bit 6 val5),
          drop_bit 25 (push_bit 31 val6) OR drop_bit 26 val5, drop_bit 25 (push_bit 24 val6),
          drop_bit 25 (push_bit 17 val6), drop_bit 25 (push_bit 10 val6), drop_bit 25 (push_bit 3 val6),
          drop_bit 25 (push_bit 28 val7) OR drop_bit 29 val6, drop_bit 25 (push_bit 21 val7),
          drop_bit 25 (push_bit 14 val7), drop_bit 25 (push_bit 7 val7)])"

definition unaligned_unpack_8 :: "(nat \<Rightarrow> u32) \<Rightarrow> nat \<Rightarrow> u32 list" where
  "unaligned_unpack_8 =
     unaligned_blocks 4 1
       (\<lambda>encode. let val1 = encode 0
          in [drop_bit 24 (push_bit 24 val1), drop_bit 24 (push_bit 16 val1), drop_bit 24 (push_bit 8 val1),
              drop_bit 24 val1])
       (\<lambda>encode rest. let val1 = encode 0
          in take rest [drop_bit 24 (push_bit 24 val1), drop_bit 24 (push_bit 16 val1), drop_bit 24 (push_bit 8 val1)])"

definition unaligned_unpack_9 :: "(nat \<Rightarrow> u32) \<Rightarrow> nat \<Rightarrow> u32 list" where
  "unaligned_unpack_9 encode dataNum =
     (let val1 = encode 0; val2 = encode 1; val3 = encode 2; val4 = encode 3; val5 = encode 4; val6 = encode 5;
          val7 = encode 6; val8 = encode 7; val9 = encode 8
      in take dataNum [drop_bit 23 (push_bit 23 val1), drop_bit 23 (push_bit 14 val1), drop_bit 23 (push_bit 5 val1),
          drop_bit 23 (push_bit 28 val2) OR drop_bit 27 val1, drop_bit 23 (push_bit 19 val2),
          drop_bit 23 (push_bit 10 val2), drop_bit 23 (push_bit 1 val2),
          drop_bit 23 (push_bit 24 val3) OR drop_bit 31 val2, drop_bit 23 (push_bit 15 val3),
          drop_bit 23 (push_bit 6 val3), drop_bit 23 (push_bit 29 val4) OR drop_bit 26 val3,
          drop_bit 23 (push_bit 20 val4), drop_bit 23 (push_bit 11 val4), drop_bit 23 (push_bit 2 val4),
          drop_bit 23 (push_bit 25 val5) OR drop_bit 30 val4, drop_bit 23 (push_bit 16 val5),
          drop_bit 23 (push_bit 7 val5), drop_bit 23 (push_bit 30 val6) OR drop_bit 25 val5,
          drop_bit 23 (push_bit 21 val6), drop_bit 23 (push_bit 12 val6), drop_bit 23 (push_bit 3 val6),
          drop_bit 23 (push_bit 26 val7) OR drop_bit 29 val6, drop_bit 23 (push_bit 17 val7),
          drop_bit 23 (push_bit 8 val7), drop_bit 23 (push_bit 31 val8) OR drop_bit 24 val7,
          drop_bit 23 (push_bit 22 val8), drop_bit 23 (push_bit 13 val8), drop_bit 23 (push_bit 4 val8),
          drop_bit 23 (push_bit 27 val9) OR drop_bit 28 val8, drop_bit 23 (push_bit 18 val9),
          drop_bit 23 (push_bit 9 val9)])"

definition unaligned_unpack_10 :: "(nat \<Rightarrow> u32) \<Rightarrow> nat \<Rightarrow> u32 list" where
  "unaligned_unpack_10 =
     unaligned_blocks 16 5
       (\<lambda>encode. let val1 = encode 0; val2 = encode 1; val3 = encode 2; val4 = encode 3; val5 = encode 4
          in [drop_bit 22 (push_bit 22 val1), drop_bit 22 (push_bit 12 val1), drop_bit 22 (push_bit 2 val1),
              drop_bit 22 (push_bit 24 val2) OR drop_bit 30 val1, drop_bit 22 (push_bit 14 val2),
              drop_bit 22 (push_bit 4 val2), drop_bit 22 (push_bit 26 val3) OR drop_bit 28 val2,
              drop_bit 22 (push_bit 16 val3), drop_bit 22 (push_bit 6 val3),
              drop_bit 22 (push_bit 28 val4) OR drop_bit 26 val3, drop_bit 22 (push_bit 18 val4),
              drop_bit 22 (push_bit 8 val4), drop_bit 22 (push_bit 30 val5) OR drop_bit 24 val4,
              drop_bit 22 (push_bit 20 val5), drop_bit 22 (push_bit 10 val5), drop_bit 22 val5])
       (\<lambda>encode rest. let val1 = encode 0; val2 = encode 1; val3 = encode 2; val4 = encode 3; val5 = encode 4
          in take rest [drop_bit 22 (push_bit 22 val1), drop_bit 22 (push_bit 12 val1), drop_bit 22 (push_bit 2 val1),
              drop_bit 22 (push_bit 24 val2) OR drop_bit 30 val1, drop_bit 22 (push_bit 14 val2),
              drop_bit 22 (push_bit 4 val2), drop_bit 22 (push_bit 26 val3) OR drop_bit 28 val2,
              drop_bit 22 (push_bit 16 val3), drop_bit 22 (push_bit 6 val3),
              drop_bit 22 (push_bit 28 val4) OR drop_bit 26 val3, drop_bit 22 (push_bit 18 val4),
              drop_bit 22 (push_bit 8 val4), drop_bit 22 (push_bit 30 val5) OR drop_bit 24 val4,
              drop_bit 22 (push_bit 20 val5), drop_bit 22 (push_bit 10 val5)])"

definition unaligned_unpack_11 :: "(nat \<Rightarrow> u32) \<Rightarrow> nat \<Rightarrow> u32 list" where
  "unaligned_unpack_11 encode dataNum =
     (let val1 = encode 0; val2 = encode 1; val3 = encode 2; val4 = encode 3; val5 = encode 4; val6 = encode 5;
          val7 = encode 6; val8 = encode 7; val9 = encode 8; val10 = encode 9; val11 = encode 10
      in take dataNum [drop_bit 21 (push_bit 21 val1), drop_bit 21 (push_bit 10 val1),
          drop_bit 21 (push_bit 31 val2) OR drop_bit 22 val1, drop_bit 21 (push_bit 20 val2),
          drop_bit 21 (push_bit 9 val2), drop_bit 21 (push_bit 30 val3) OR drop_bit 23 val2,
          drop_bit 21 (push_bit 19 val3), drop_bit 21 (push_bit 8 val3),
          drop_bit 21 (push_bit 29 val4) OR drop_bit 24 val3, drop_bit 21 (push_bit 18 val4),
          drop_bit 21 (push_bit 7 val4), drop_bit 21 (push_bit 28 val5) OR drop_bit 25 val4,
          drop_bit 21 (push_bit 17 val5), drop_bit 21 (push_bit 6 val5),
          drop_bit 21 (push_bit 27 val6) OR drop_bit 26 val5, drop_bit 21 (push_bit 16 val6),
          drop_bit 21 (push_bit 5 val6), drop_bit 21 (push_bit 26 val7) OR drop_bit 27 val6,
          drop_bit 21 (push_bit 15 val7), drop_bit 21 (push_bit 4 val7),
          drop_bit 21 (push_bit 25 val8) OR drop_bit 28 val7, drop_bit 21 (push_bit 14 val8),
          drop_bit 21 (push_bit 3 val8), drop_bit 21 (push_bit 24 val9) OR drop_bit 29 val8,
          drop_bit 21 (push_bit 13 val9), drop_bit 21 (push_bit 2 val9),
          drop_bit 21 (push_bit 23 val10) OR drop_bit 30 val9, drop_bit 21 (push_bit 12 val10),
          drop_bit 21 (push_bit 1 val10), drop_bit 21 (push_bit 22 val11) OR drop_bit 31 val10,
          drop_bit 21 (push_bit 11 val11)])"

definition unaligned_unpack_12 :: "(nat \<Rightarrow> u32) \<Rightarrow> nat \<Rightarrow> u32 list" where
  "unaligned_unpack_12 =
     unaligned_blocks 8 3
       (\<lambda>encode. let val1 = encode 0; val2 = encode 1; val3 = encode 2
          in [drop_bit 20 (push_bit 20 val1), drop_bit 20 (push_bit 8 val1),
              drop_bit 20 (push_bit 28 val2) OR drop_bit 24 val1, drop_bit 20 (push_bit 16 val2),
              drop_bit 20 (push_bit 4 val2), drop_bit 20 (push_bit 24 val3) OR drop_bit 28 val2,
              drop_bit 20 (push_bit 12 val3), drop_bit 20 val3])
       (\<lambda>encode rest. let val1 = encode 0; val2 = encode 1; val3 = encode 2
          in take rest [drop_bit 20 (push_bit 20 val1), drop_bit 20 (push_bit 8 val1),
              drop_bit 20 (push_bit 28 val2) OR drop_bit 24 val1, drop_bit 20 (push_bit 16 val2),
              drop_bit 20 (push_bit 4 val2), drop_bit 20 (push_bit 24 val3) OR drop_bit 28 val2,
              drop_bit 20 (push_bit 12 val3), drop_bit 20 val3])"

definition unaligned_unpack_13 :: "(nat \<Rightarrow> u32) \<Rightarrow> nat \<Rightarrow> u32 list" where
  "unaligned_unpack_13 encode dataNum =
     (let val1 = encode 0; val2 = encode 1; val3 = encode 2; val4 = encode 3; val5 = encode 4; val6 = encode 5;
          val7 = encode 6; val8 = encode 7; val9 = encode 8; val10 = encode 9; val11 = encode 10; val12 = encode 11;
          val13 = encode 12
      in take dataNum [drop_bit 19 (push_bit 19 val1), drop_bit 19 (push_bit 6 val1),
          drop_bit 19 (push_bit 25 val2) OR drop_bit 26 val1, drop_bit 19 (push_bit 12 val2),
          drop_bit 19 (push_bit 31 val3) OR drop_bit 20 val2, drop_bit 19 (push_bit 18 val3),
          drop_bit 19 (push_bit 5 val3), drop_bit 19 (push_bit 24 val4) OR drop_bit 27 val3,
          drop_bit 19 (push_bit 11 val4), drop_bit 19 (push_bit 30 val5) OR drop_bit 21 val4,
          drop_bit 19 (push_bit 17 val5), drop_bit 19 (push_bit 4 val5),
          drop_bit 19 (push_bit 23 val6) OR drop_bit 28 val5, drop_bit 19 (push_bit 10 val6),
          drop_bit 19 (push_bit 29 val7) OR drop_bit 22 val6, drop_bit 19 (push_bit 16 val7),
          drop_bit 19 (push_bit 3 val7), drop_bit 19 (push_bit 22 val8) OR drop_bit 29 val7,
          drop_bit 19 (push_bit 9 val8), drop_bit 19 (push_bit 28 val9) OR drop_bit 23 val8,
          drop_bit 19 (push_bit 15 val9), drop_bit 19 (push_bit 2 val9),
          drop_bit 19 (push_bit 21 val10) OR drop_bit 30 val9, drop_bit 19 (push_bit 8 val10),
          drop_bit 19 (push_bit 27 val11) OR drop_bit 24 val10, drop_bit 19 (push_bit 14 val11),
          drop_bit 19 (push_bit 1 val11), drop_bit 19 (push_bit 20 val12) OR drop_bit 31 val11,
          drop_bit 19 (push_bit 7 val12), drop_bit 19 (push_bit 26 val13) OR drop_bit 25 val12,
          drop_bit 19 (push_bit 13 val13)])"

definition unaligned_unpack_14 :: "(nat \<Rightarrow> u32) \<Rightarrow> nat \<Rightarrow> u32 list" where
  "unaligned_unpack_14 =
     unaligned_blocks 16 7
       (\<lambda>encode. let val1 = encode 0; val2 = encode 1; val3 = encode 2; val4 = encode 3; val5 = encode 4; val6 = encode 5;
              val7 = encode 6
          in [drop_bit 18 (push_bit 18 val1), drop_bit 18 (push_bit 4 val1),
              drop_bit 18 (push_bit 22 val2) OR drop_bit 28 val1, drop_bit 18 (push_bit 8 val2),
              drop_bit 18 (push_bit 26 val3) OR drop_bit 24 val2, drop_bit 18 (push_bit 12 val3),
              drop_bit 18 (push_bit 30 val4) OR drop_bit 20 val3, drop_bit 18 (push_bit 16 val4),
              drop_bit 18 (push_bit 2 val4), drop_bit 18 (push_bit 20 val5) OR drop_bit 30 val4,
              drop_bit 18 (push_bit 6 val5), drop_bit 18 (push_bit 24 val6) OR drop_bit 26 val5,
              drop_bit 18 (push_bit 10 val6), drop_bit 18 (push_bit 28 val7) OR drop_bit 22 val6,
              drop_bit 18 (push_bit 14 val7), drop_bit 18 val7])
       (\<lambda>encode rest. let val1 = encode 0; val2 = encode 1; val3 = encode 2; val4 = encode 3; val5 = encode 4; val6 = encode 5;
              val7 = encode 6
          in take rest [drop_bit 18 (push_bit 18 val1), drop_bit 18 (push_bit 4 val1),
              drop_bit 18 (push_bit 22 val2) OR drop_bit 28 val1, drop_bit 18 (push_bit 8 val2),
              drop_bit 18 (push_bit 26 val3) OR drop_bit 24 val2, drop_bit 18 (push_bit 12 val3),
              drop_bit 18 (push_bit 30 val4) OR drop_bit 20 val3, drop_bit 18 (push_bit 16 val4),
              drop_bit 18 (push_bit 2 val4), drop_bit 18 (push_bit 20 val5) OR drop_bit 30 val4,
              drop_bit 18 (push_bit 6 val5), drop_bit 18 (push_bit 24 val6) OR drop_bit 26 val5,
              drop_bit 18 (push_bit 10 val6), drop_bit 18 (push_bit 28 val7) OR drop_bit 22 val6,
              drop_bit 18 (push_bit 14 val7), drop_bit 18 val7])"

definition unaligned_unpack_15 :: "(nat \<Rightarrow> u32) \<Rightarrow> nat \<Rightarrow> u32 list" where
  "unaligned_unpack_15 encode dataNum =
     (let val1 = encode 0; val2 = encode 1; val3 = encode 2; val4 = encode 3; val5 = encode 4; val6 = encode 5;
          val7 = encode 6; val8 = encode 7; val9 = encode 8; val10 = encode 9; val11 = encode 10; val12 = encode 11;
          val13 = encode 12; val14 = encode 13; val15 = encode 14
      in take dataNum [drop_bit 17 (push_bit 17 val1), drop_bit 17 (push_bit 2 val1),
          drop_bit 17 (push_bit 19 val2) OR drop_bit 30 val1, drop_bit 17 (push_bit 4 val2),
          drop_bit 17 (push_bit 21 val3) OR drop_bit 28 val2, drop_bit 17 (push_bit 6 val3),
          drop_bit 17 (push_bit 23 val4) OR drop_bit 26 val3, drop_bit 17 (push_bit 8 val4),
          drop_bit 17 (push_bit 25 val5) OR drop_bit 24 val4, drop_bit 17 (push_bit 10 val5),
          drop_bit 17 (push_bit 27 val6) OR drop_bit 22 val5, drop_bit 17 (push_bit 12 val6),
          drop_bit 17 (push_bit 29 val7) OR drop_bit 20 val6, drop_bit 17 (push_bit 14 val7),
          drop_bit 17 (push_bit 31 val8) OR drop_bit 18 val7, drop_bit 17 (push_bit 16 val8),
          drop_bit 17 (push_bit 1 val8), drop_bit 17 (push_bit 18 val9) OR drop_bit 31 val8,
          drop_bit 17 (push_bit 3 val9), drop_bit 17 (push_bit 20 val10) OR drop_bit 29 val9,
          drop_bit 17 (push_bit 5 val10), drop_bit 17 (push_bit 22 val11) OR drop_bit 27 val10,
          drop_bit 17 (push_bit 7 val11), drop_bit 17 (push_bit 24 val12) OR drop_bit 25 val11,
          drop_bit 17 (push_bit 9 val12), drop_bit 17 (push_bit 26 val13) OR drop_bit 23 val12,
          drop_bit 17 (push_bit 11 val13), drop_bit 17 (push_bit 28 val14) OR drop_bit 21 val13,
          drop_bit 17 (push_bit 13 val14), drop_bit 17 (push_bit 30 val15) OR drop_bit 19 val14,
          drop_bit 17 (push_bit 15 val15), drop_bit 17 val15])"

definition unaligned_unpack_16 :: "(nat \<Rightarrow> u32) \<Rightarrow> nat \<Rightarrow> u32 list" where
  "unaligned_unpack_16 =
     unaligned_blocks 2 1
       (\<lambda>encode. let val1 = encode 0
          in [drop_bit 16 (push_bit 16 val1), drop_bit 16 val1])
       (\<lambda>encode rest. let val1 = encode 0
          in take rest [drop_bit 16 (push_bit 16 val1)])"

definition unaligned_unpack_17 :: "(nat \<Rightarrow> u32) \<Rightarrow> nat \<Rightarrow> u32 list" where
  "unaligned_unpack_17 encode dataNum =
     (let val1 = encode 0; val2 = encode 1; val3 = encode 2; val4 = encode 3; val5 = encode 4; val6 = encode 5;
          val7 = encode 6; val8 = encode 7; val9 = encode 8; val10 = encode 9; val11 = encode 10; val12 = encode 11;
          val13 = encode 12; val14 = encode 13; val15 = encode 14; val16 = encode 15; val17 = encode 16
      in take dataNum [drop_bit 15 (push_bit 15 val1), drop_bit 15 (push_bit 30 val2) OR drop_bit 17 val1,
          drop_bit 15 (push_bit 13 val2), drop_bit 15 (push_bit 28 val3) OR drop_bit 19 val2,
          drop_bit 15 (push_bit 11 val3), drop_bit 15 (push_bit 26 val4) OR drop_bit 21 val3,
          drop_bit 15 (push_bit 9 val4), drop_bit 15 (push_bit 24 val5) OR drop_bit 23 val4,
          drop_bit 15 (push_bit 7 val5), drop_bit 15 (push_bit 22 val6) OR drop_bit 25 val5,
          drop_bit 15 (push_bit 5 val6), drop_bit 15 (push_bit 20 val7) OR drop_bit 27 val6,
          drop_bit 15 (push_bit 3 val7), drop_bit 15 (push_bit 18 val8) OR drop_bit 29 val7,
          drop_bit 15 (push_bit 1 val8), drop_bit 15 (push_bit 16 val9) OR drop_bit 31 val8,
          drop_bit 15 (push_bit 31 val10) OR drop_bit 16 val9, drop_bit 15 (push_bit 14 val10),
          drop_bit 15 (push_bit 29 val11) OR drop_bit 18 val10, drop_bit 15 (push_bit 12 val11),
          drop_bit 15 (push_bit 27 val12) OR drop_bit 20 val11, drop_bit 15 (push_bit 10 val12),
          drop_bit 15 (push_bit 25 val13) OR drop_bit 22 val12, drop_bit 15 (push_bit 8 val13),
          drop_bit 15 (push_bit 23 val14) OR drop_bit 24 val13, drop_bit 15 (push_bit 6 val14),
          drop_bit 15 (push_bit 21 val15) OR drop_bit 26 val14, drop_bit 15 (push_bit 4 val15),
          drop_bit 15 (push_bit 19 val16) OR drop_bit 28 val15, drop_bit 15 (push_bit 2 val16),
          drop_bit 15 (push_bit 17 val17) OR drop_bit 30 val16])"

definition unaligned_unpack_18 :: "(nat \<Rightarrow> u32) \<Rightarrow> nat \<Rightarrow> u32 list" where
  "unaligned_unpack_18 =
     unaligned_blocks 16 9
       (\<lambda>encode. let val1 = encode 0; val2 = encode 1; val3 = encode 2; val4 = encode 3; val5 = encode 4; val6 = encode 5;
              val7 = encode 6; val8 = encode 7; val9 = encode 8
          in [drop_bit 14 (push_bit 14 val1), drop_bit 14 (push_bit 28 val2) OR drop_bit 18 val1,
              drop_bit 14 (push_bit 10 val2), drop_bit 14 (push_bit 24 val3) OR drop_bit 22 val2,
              drop_bit 14 (push_bit 6 val3), drop_bit 14 (push_bit 20 val4) OR drop_bit 26 val3,
              drop_bit 14 (push_bit 2 val4), drop_bit 14 (push_bit 16 val5) OR drop_bit 30 val4,
              drop_bit 14 (push_bit 30 val6) OR drop_bit 16 val5, drop_bit 14 (push_bit 12 val6),
              drop_bit 14 (push_bit 26 val7) OR drop_bit 20 val6, drop_bit 14 (push_bit 8 val7),
              drop_bit 14 (push_bit 22 val8) OR drop_bit 24 val7, drop_bit 14 (push_bit 4 val8),
              drop_bit 14 (push_bit 18 val9) OR drop_bit 28 val8, drop_bit 14 val9])
       (\<lambda>encode rest. let val1 = encode 0; val2 = encode 1; val3 = encode 2; val4 = encode 3; val5 = encode 4; val6 = encode 5;
              val7 = encode 6; val8 = encode 7; val9 = encode 8
          in take rest [drop_bit 14 (push_bit 14 val1), drop_bit 14 (push_bit 28 val2) OR drop_bit 18 val1,
              drop_bit 14 (push_bit 10 val2), drop_bit 14 (push_bit 24 val3) OR drop_bit 22 val2,
              drop_bit 14 (push_bit 6 val3), drop_bit 14 (push_bit 20 val4) OR drop_bit 26 val3,
              drop_bit 14 (push_bit 2 val4), drop_bit 14 (push_bit 16 val5) OR drop_bit 30 val4,
              drop_bit 14 (push_bit 30 val6) OR drop_bit 16 val5, drop_bit 14 (push_bit 12 val6),
              drop_bit 14 (push_bit 26 val7) OR drop_bit 20 val6, drop_bit 14 (push_bit 8 val7),
              drop_bit 14 (push_bit 22 val8) OR drop_bit 24 val7, drop_bit 14 (push_bit 4 val8),
              drop_bit 14 (push_bit 18 val9) OR drop_bit 28 val8])"

definition unaligned_unpack_19 :: "(nat \<Rightarrow> u32) \<Rightarrow> nat \<Rightarrow> u32 list" where
  "unaligned_unpack_19 encode dataNum =
     (take dataNum [encode 0 AND 0x7FFFF, (drop_bit 19 (encode 0) OR push_bit 13 (encode 1)) AND 0x7FFFF,
          drop_bit 6 (encode 1) AND 0x7FFFF, (drop_bit 25 (encode 1) OR push_bit 7 (encode 2)) AND 0x7FFFF,
          drop_bit 12 (encode 2) AND 0x7FFFF, (drop_bit 31 (encode 2) OR push_bit 1 (encode 3)) AND 0x7FFFF,
          (drop_bit 18 (encode 3) OR push_bit 14 (encode 4)) AND 0x7FFFF, drop_bit 5 (encode 4) AND 0x7FFFF,
          (drop_bit 24 (encode 4) OR push_bit 8 (encode 5)) AND 0x7FFFF, drop_bit 11 (encode 5) AND 0x7FFFF,
          (drop_bit 30 (encode 5) OR push_bit 2 (encode 6)) AND 0x7FFFF,
          (drop_bit 17 (encode 6) OR push_bit 15 (encode 7)) AND 0x7FFFF, drop_bit 4 (encode 7) AND 0x7FFFF,
          (drop_bit 23 (encode 7) OR push_bit 9 (encode 8)) AND 0x7FFFF, drop_bit 10 (encode 8) AND 0x7FFFF,
          (drop_bit 29 (encode 8) OR push_bit 3 (encode 9)) AND 0x7FFFF,
          (drop_bit 16 (encode 9) OR push_bit 16 (encode 10)) AND 0x7FFFF, drop_bit 3 (encode 10) AND 0x7FFFF,
          (drop_bit 22 (encode 10) OR push_bit 10 (encode 11)) AND 0x7FFFF, drop_bit 9 (encode 11) AND 0x7FFFF,
          (drop_bit 28 (encode 11) OR push_bit 4 (encode 12)) AND 0x7FFFF,
          (drop_bit 15 (encode 12) OR push_bit 17 (encode 13)) AND 0x7FFFF, drop_bit 2 (encode 13) AND 0x7FFFF,
          (drop_bit 21 (encode 13) OR push_bit 11 (encode 14)) AND 0x7FFFF, drop_bit 8 (encode 14) AND 0x7FFFF,
          (drop_bit 27 (encode 14) OR push_bit 5 (encode 15)) AND 0x7FFFF,
          (drop_bit 14 (encode 15) OR push_bit 18 (encode 16)) AND 0x7FFFF, drop_bit 1 (encode 16) AND 0x7FFFF,
          (drop_bit 20 (encode 16) OR push_bit 12 (encode 17)) AND 0x7FFFF, drop_bit 7 (encode 17) AND 0x7FFFF,
          (drop_bit 26 (encode 17) OR push_bit 6 (encode 18)) AND 0x7FFFF])"

definition unaligned_unpack_20 :: "(nat \<Rightarrow> u32) \<Rightarrow> nat \<Rightarrow> u32 list" where
  "unaligned_unpack_20 =
     unaligned_blocks 8 5
       (\<lambda>encode. let val1 = encode 0; val2 = encode 1; val3 = encode 2; val4 = encode 3; val5 = encode 4
          in [drop_bit 12 (push_bit 12 val1), drop_bit 12 (push_bit 24 val2) OR drop_bit 20 val1,
              drop_bit 12 (push_bit 4 val2), drop_bit 12 (push_bit 16 val3) OR drop_bit 28 val2,
              drop_bit 12 (push_bit 28 val4) OR drop_bit 16 val3, drop_bit 12 (push_bit 8 val4),
              drop_bit 12 (push_bit 20 val5) OR drop_bit 24 val4, drop_bit 12 val5])
       (\<lambda>encode rest. let val1 = encode 0; val2 = encode 1; val3 = encode 2; val4 = encode 3; val5 = encode 4
          in take rest [drop_bit 12 (push_bit 12 val1), drop_bit 12 (push_bit 24 val2) OR drop_bit 20 val1,
              drop_bit 12 (push_bit 4 val2), drop_bit 12 (push_bit 16 val3) OR drop_bit 28 val2,
              drop_bit 12 (push_bit 28 val4) OR drop_bit 16 val3, drop_bit 12 (push_bit 8 val4),
              drop_bit 12 (push_bit 20 val5) OR drop_bit 24 val4])"

definition unaligned_unpack_21 :: "(nat \<Rightarrow> u32) \<Rightarrow> nat \<Rightarrow> u32 list" where
  "unaligned_unpack_21 encode dataNum =
     (let val1 = encode 0; val2 = encode 1; val3 = encode 2; val4 = encode 3; val5 = encode 4; val6 = encode 5;
          val7 = encode 6; val8 = encode 7; val9 = encode 8; val10 = encode 9; val11 = encode 10; val12 = encode 11;
          val13 = encode 12; val14 = encode 13; val15 = encode 14; val16 = encode 15; val17 = encode 16;
          val18 = encode 17; val19 = encode 18; val20 = encode 19; val21 = encode 20
      in take dataNum [drop_bit 11 (push_bit 11 val1), drop_bit 11 (push_bit 22 val2) OR drop_bit 21 val1,
          drop_bit 11 (push_bit 1 val2), drop_bit 11 (push_bit 12 val3) OR drop_bit 31 val2,
          drop_bit 11 (push_bit 23 val4) OR drop_bit 20 val3, drop_bit 11 (push_bit 2 val4),
          drop_bit 11 (push_bit 13 val5) OR drop_bit 30 val4, drop_bit 11 (push_bit 24 val6) OR drop_bit 19 val5,
          drop_bit 11 (push_bit 3 val6), drop_bit 11 (push_bit 14 val7) OR drop_bit 29 val6,
          drop_bit 11 (push_bit 25 val8) OR drop_bit 18 val7, drop_bit 11 (push_bit 4 val8),
          drop_bit 11 (push_bit 15 val9) OR drop_bit 28 val8, drop_bit 11 (push_bit 26 val10) OR drop_bit 17 val9,
          drop_bit 11 (push_bit 5 val10), drop_bit 11 (push_bit 16 val11) OR drop_bit 27 val10,
          drop_bit 11 (push_bit 27 val12) OR drop_bit 16 val11, drop_bit 11 (push_bit 6 val12),
          drop_bit 11 (push_bit 17 val13) OR drop_bit 26 val12, drop_bit 11 (push_bit 28 val14) OR drop_bit 15 val13,
          drop_bit 11 (push_bit 7 val14), drop_bit 11 (push_bit 18 val15) OR drop_bit 25 val14,
          drop_bit 11 (push_bit 29 val16) OR drop_bit 14 val15, drop_bit 11 (push_bit 8 val16),
          drop_bit 11 (push_bit 19 val17) OR drop_bit 24 val16, drop_bit 11 (push_bit 30 val18) OR drop_bit 13 val17,
          drop_bit 11 (push_bit 9 val18), drop_bit 11 (push_bit 20 val19) OR drop_bit 23 val18,
          drop_bit 11 (push_bit 31 val20) OR drop_bit 12 val19, drop_bit 11 (push_bit 10 val20),
          drop_bit 11 (push_bit 21 val21) OR drop_bit 22 val20])"

definition unaligned_unpack_22 :: "(nat \<Rightarrow> u32) \<Rightarrow> nat \<Rightarrow> u32 list" where
  "unaligned_unpack_22 =
     unaligned_blocks 16 11
       (\<lambda>encode. let val1 = encode 0; val2 = encode 1; val3 = encode 2; val4 = encode 3; val5 = encode 4; val6 = encode 5;
              val7 = encode 6; val8 = encode 7; val9 = encode 8; val10 = encode 9; val11 = encode 10
          in [drop_bit 10 (push_bit 10 val1), drop_bit 10 (push_bit 20 val2) OR drop_bit 22 val1,
              drop_bit 10 (push_bit 30 val3) OR drop_bit 12 val2, drop_bit 10 (push_bit 8 val3),
              drop_bit 10 (push_bit 18 val4) OR drop_bit 24 val3, drop_bit 10 (push_bit 28 val5) OR drop_bit 14 val4,
              drop_bit 10 (push_bit 6 val5), drop_bit 10 (push_bit 16 val6) OR drop_bit 26 val5,
              drop_bit 10 (push_bit 26 val7) OR drop_bit 16 val6, drop_bit 10 (push_bit 4 val7),
              drop_bit 10 (push_bit 14 val8) OR drop_bit 28 val7, drop_bit 10 (push_bit 24 val9) OR drop_bit 18 val8,
              drop_bit 10 (push_bit 2 val9), drop_bit 10 (push_bit 12 val10) OR drop_bit 30 val9,
              drop_bit 10 (push_bit 22 val11) OR drop_bit 20 val10, drop_bit 10 val11])
       (\<lambda>encode rest. let val1 = encode 0; val2 = encode 1; val3 = encode 2; val4 = encode 3; val5 = encode 4; val6 = encode 5;
              val7 = encode 6; val8 = encode 7; val9 = encode 8; val10 = encode 9; val11 = encode 10
          in take rest [drop_bit 10 (push_bit 10 val1), drop_bit 10 (push_bit 20 val2) OR drop_bit 22 val1,
              drop_bit 10 (push_bit 30 val3) OR drop_bit 12 val2, drop_bit 10 (push_bit 8 val3),
              drop_bit 10 (push_bit 18 val4) OR drop_bit 24 val3, drop_bit 10 (push_bit 28 val5) OR drop_bit 14 val4,
              drop_bit 10 (push_bit 6 val5), drop_bit 10 (push_bit 16 val6) OR drop_bit 26 val5,
              drop_bit 10 (push_bit 26 val7) OR drop_bit 16 val6, drop_bit 10 (push_bit 4 val7),
              drop_bit 10 (push_bit 14 val8) OR drop_bit 28 val7, drop_bit 10 (push_bit 24 val9) OR drop_bit 18 val8,
              drop_bit 10 (push_bit 2 val9), drop_bit 10 (push_bit 12 val10) OR drop_bit 30 val9,
              drop_bit 10 (push_bit 22 val11) OR drop_bit 20 val10])"

definition unaligned_unpack_23 :: "(nat \<Rightarrow> u32) \<Rightarrow> nat \<Rightarrow> u32 list" where
  "unaligned_unpack_23 encode dataNum =
     (take dataNum [encode 0 AND 0x7FFFFF, (drop_bit 23 (encode 0) OR push_bit 9 (encode 1)) AND 0x7FFFFF,
          (drop_bit 14 (encode 1) OR push_bit 18 (encode 2)) AND 0x7FFFFF, drop_bit 5 (encode 2) AND 0x7FFFFF,
          (drop_bit 28 (encode 2) OR push_bit 4 (encode 3)) AND 0x7FFFFF,
          (drop_bit 19 (encode 3) OR push_bit 13 (encode 4)) AND 0x7FFFFF,
          (drop_bit 10 (encode 4) OR push_bit 22 (encode 5)) AND 0x7FFFFF, drop_bit 1 (encode 5) AND 0x7FFFFF,
          (drop_bit 24 (encode 5) OR push_bit 8 (encode 6)) AND 0x7FFFFF,
          (drop_bit 15 (encode 6) OR push_bit 17 (encode 7)) AND 0x7FFFFF, drop_bit 6 (encode 7) AND 0x7FFFFF,
          (drop_bit 29 (encode 7) OR push_bit 3 (encode 8)) AND 0x7FFFFF,
          (drop_bit 20 (encode 8) OR push_bit 12 (encode 9)) AND 0x7FFFFF,
          (drop_bit 11 (encode 9) OR push_bit 21 (encode 10)) AND 0x7FFFFF, drop_bit 2 (encode 10) AND 0x7FFFFF,
          (drop_bit 25 (encode 10) OR push_bit 7 (encode 11)) AND 0x7FFFFF,
          (drop_bit 16 (encode 11) OR push_bit 16 (encode 12)) AND 0x7FFFFF, drop_bit 7 (encode 12) AND 0x7FFFFF,
          (drop_bit 30 (encode 12) OR push_bit 2 (encode 13)) AND 0x7FFFFF,
          (drop_bit 21 (encode 13) OR push_bit 11 (encode 14)) AND 0x7FFFFF,
          (drop_bit 12 (encode 14) OR push_bit 20 (encode 15)) AND 0x7FFFFF, drop_bit 3 (encode 15) AND 0x7FFFFF,
          (drop_bit 26 (encode 15) OR push_bit 6 (encode 16)) AND 0x7FFFFF,
          (drop_bit 17 (encode 16) OR push_bit 15 (encode 17)) AND 0x7FFFFF, drop_bit 8 (encode 17) AND 0x7FFFFF,
          (drop_bit 31 (encode 17) OR push_bit 1 (encode 18)) AND 0x7FFFFF,
          (drop_bit 22 (encode 18) OR push_bit 10 (encode 19)) AND 0x7FFFFF,
          (drop_bit 13 (encode 19) OR push_bit 19 (encode 20)) AND 0x7FFFFF, drop_bit 4 (encode 20) AND 0x7FFFFF,
          (drop_bit 27 (encode 20) OR push_bit 5 (encode 21)) AND 0x7FFFFF,
          (drop_bit 18 (encode 21) OR push_bit 14 (encode 22)) AND 0x7FFFFF])"

definition unaligned_unpack_24 :: "(nat \<Rightarrow> u32) \<Rightarrow> nat \<Rightarrow> u32 list" where
  "unaligned_unpack_24 =
     unaligned_blocks 4 3
       (\<lambda>encode. let val1 = encode 0; val2 = encode 1; val3 = encode 2
          in [val1 AND 0xFFFFFF, (drop_bit 24 val1 OR push_bit 8 val2) AND 0xFFFFFF,
              (drop_bit 16 val2 OR push_bit 16 val3) AND 0xFFFFFF, drop_bit 8 val3 AND 0xFFFFFF])
       (\<lambda>encode rest. take rest [encode 0 AND 0xFFFFFF, (drop_bit 24 (encode 0) OR push_bit 8 (encode 1)) AND 0xFFFFFF,
              (drop_bit 16 (encode 1) OR push_bit 16 (encode 2)) AND 0xFFFFFF])"

definition unaligned_unpack_25 :: "(nat \<Rightarrow> u32) \<Rightarrow> nat \<Rightarrow> u32 list" where
  "unaligned_unpack_25 encode dataNum =
     (take dataNum [encode 0 AND 0x1FFFFFF, (drop_bit 25 (encode 0) OR push_bit 7 (encode 1)) AND 0x1FFFFFF,
          (drop_bit 18 (encode 1) OR push_bit 14 (encode 2)) AND 0x1FFFFFF,
          (drop_bit 11 (encode 2) OR push_bit 21 (encode 3)) AND 0x1FFFFFF, drop_bit 4 (encode 3) AND 0x1FFFFFF,
          (drop_bit 29 (encode 3) OR push_bit 3 (encode 4)) AND 0x1FFFFFF,
          (drop_bit 22 (encode 4) OR push_bit 10 (encode 5)) AND 0x1FFFFFF,
          (drop_bit 15 (encode 5) OR push_bit 17 (encode 6)) AND 0x1FFFFFF,
          (drop_bit 8 (encode 6) OR push_bit 24 (encode 7)) AND 0x1FFFFFF, drop_bit 1 (encode 7) AND 0x1FFFFFF,
          (drop_bit 26 (encode 7) OR push_bit 6 (encode 8)) AND 0x1FFFFFF,
          (drop_bit 19 (encode 8) OR push_bit 13 (encode 9)) AND 0x1FFFFFF,
          (drop_bit 12 (encode 9) OR push_bit 20 (encode 10)) AND 0x1FFFFFF, drop_bit 5 (encode 10) AND 0x1FFFFFF,
          (drop_bit 30 (encode 10) OR push_bit 2 (encode 11)) AND 0x1FFFFFF,
          (drop_bit 23 (encode 11) OR push_bit 9 (encode 12)) AND 0x1FFFFFF,
          (drop_bit 16 (encode 12) OR push_bit 16 (encode 13)) AND 0x1FFFFFF,
          (drop_bit 9 (encode 13) OR push_bit 23 (encode 14)) AND 0x1FFFFFF, drop_bit 2 (encode 14) AND 0x1FFFFFF,
          (drop_bit 27 (encode 14) OR push_bit 5 (encode 15)) AND 0x1FFFFFF,
          (drop_bit 20 (encode 15) OR push_bit 12 (encode 16)) AND 0x1FFFFFF,
          (drop_bit 13 (encode 16) OR push_bit 19 (encode 17)) AND 0x1FFFFFF, drop_bit 6 (encode 17) AND 0x1FFFFFF,
          (drop_bit 31 (encode 17) OR push_bit 1 (encode 18)) AND 0x1FFFFFF,
          (drop_bit 24 (encode 18) OR push_bit 8 (encode 19)) AND 0x1FFFFFF,
          (drop_bit 17 (encode 19) OR push_bit 15 (encode 20)) AND 0x1FFFFFF,
          (drop_bit 10 (encode 20) OR push_bit 22 (encode 21)) AND 0x1FFFFFF, drop_bit 3 (encode 21) AND 0x1FFFFFF,
          (drop_bit 28 (encode 21) OR push_bit 4 (encode 22)) AND 0x1FFFFFF,
          (drop_bit 21 (encode 22) OR push_bit 11 (encode 23)) AND 0x1FFFFFF,
          (drop_bit 14 (encode 23) OR push_bit 18 (encode 24)) AND 0x1FFFFFF])"

definition unaligned_unpack_26 :: "(nat \<Rightarrow> u32) \<Rightarrow> nat \<Rightarrow> u32 list" where
  "unaligned_unpack_26 =
     unaligned_blocks 16 13
       (\<lambda>encode. let val1 = encode 0; val2 = encode 1; val3 = encode 2; val4 = encode 3; val5 = encode 4; val6 = encode 5;
              val7 = encode 6; val8 = encode 7; val9 = encode 8; val10 = encode 9; val11 = encode 10;
              val12 = encode 11; val13 = encode 12
          in [drop_bit 6 (push_bit 6 val1), drop_bit 6 (push_bit 12 val2) OR drop_bit 26 val1,
              drop_bit 6 (push_bit 18 val3) OR drop_bit 20 val2, drop_bit 6 (push_bit 24 val4) OR drop_bit 14 val3,
              drop_bit 6 (push_bit 30 val5) OR drop_bit 8 val4, drop_bit 6 (push_bit 4 val5),
              drop_bit 6 (push_bit 10 val6) OR drop_bit 28 val5, drop_bit 6 (push_bit 16 val7) OR drop_bit 22 val6,
              drop_bit 6 (push_bit 22 val8) OR drop_bit 16 val7, drop_bit 6 (push_bit 28 val9) OR drop_bit 10 val8,
              drop_bit 6 (push_bit 2 val9), drop_bit 6 (push_bit 8 val10) OR drop_bit 30 val9,
              drop_bit 6 (push_bit 14 val11) OR drop_bit 24 val10,
              drop_bit 6 (push_bit 20 val12) OR drop_bit 18 val11,
              drop_bit 6 (push_bit 26 val13) OR drop_bit 12 val12, drop_bit 6 val13])
       (\<lambda>encode rest. let val1 = encode 0; val2 = encode 1; val3 = encode 2; val4 = encode 3; val5 = encode 4; val6 = encode 5;
              val7 = encode 6; val8 = encode 7; val9 = encode 8; val10 = encode 9; val11 = encode 10;
              val12 = encode 11; val13 = encode 12
          in take rest [drop_bit 6 (push_bit 6 val1), drop_bit 6 (push_bit 12 val2) OR drop_bit 26 val1,
              drop_bit 6 (push_bit 18 val3) OR drop_bit 20 val2, drop_bit 6 (push_bit 24 val4) OR drop_bit 14 val3,
              drop_bit 6 (push_bit 30 val5) OR drop_bit 8 val4, drop_bit 6 (push_bit 4 val5),
              drop_bit 6 (push_bit 10 val6) OR drop_bit 28 val5, drop_bit 6 (push_bit 16 val7) OR drop_bit 22 val6,
              drop_bit 6 (push_bit 22 val8) OR drop_bit 16 val7, drop_bit 6 (push_bit 28 val9) OR drop_bit 10 val8,
              drop_bit 6 (push_bit 2 val9), drop_bit 6 (push_bit 8 val10) OR drop_bit 30 val9,
              drop_bit 6 (push_bit 14 val11) OR drop_bit 24 val10,
              drop_bit 6 (push_bit 20 val12) OR drop_bit 18 val11,
              drop_bit 6 (push_bit 26 val13) OR drop_bit 12 val12])"

definition unaligned_unpack_27 :: "(nat \<Rightarrow> u32) \<Rightarrow> nat \<Rightarrow> u32 list" where
  "unaligned_unpack_27 encode dataNum =
     (take dataNum [encode 0 AND 0x7FFFFFF, (drop_bit 27 (encode 0) OR push_bit 5 (encode 1)) AND 0x7FFFFFF,
          (drop_bit 22 (encode 1) OR push_bit 10 (encode 2)) AND 0x7FFFFFF,
          (drop_bit 17 (encode 2) OR push_bit 15 (encode 3)) AND 0x7FFFFFF,
          (drop_bit 12 (encode 3) OR push_bit 20 (encode 4)) AND 0x7FFFFFF,
          (drop_bit 7 (encode 4) OR push_bit 25 (encode 5)) AND 0x7FFFFFF, drop_bit 2 (encode 5) AND 0x7FFFFFF,
          (drop_bit 29 (encode 5) OR push_bit 3 (encode 6)) AND 0x7FFFFFF,
          (drop_bit 24 (encode 6) OR push_bit 8 (encode 7)) AND 0x7FFFFFF,
          (drop_bit 19 (encode 7) OR push_bit 13 (encode 8)) AND 0x7FFFFFF,
          (drop_bit 14 (encode 8) OR push_bit 18 (encode 9)) AND 0x7FFFFFF,
          (drop_bit 9 (encode 9) OR push_bit 23 (encode 10)) AND 0x7FFFFFF, drop_bit 4 (encode 10) AND 0x7FFFFFF,
          (drop_bit 31 (encode 10) OR push_bit 1 (encode 11)) AND 0x7FFFFFF,
          (drop_bit 26 (encode 11) OR push_bit 6 (encode 12)) AND 0x7FFFFFF,
          (drop_bit 21 (encode 12) OR push_bit 11 (encode 13)) AND 0x7FFFFFF,
          (drop_bit 16 (encode 13) OR push_bit 16 (encode 14)) AND 0x7FFFFFF,
          (drop_bit 11 (encode 14) OR push_bit 21 (encode 15)) AND 0x7FFFFFF,
          (drop_bit 6 (encode 15) OR push_bit 26 (encode 16)) AND 0x7FFFFFF, drop_bit 1 (encode 16) AND 0x7FFFFFF,
          (drop_bit 28 (encode 16) OR push_bit 4 (encode 17)) AND 0x7FFFFFF,
          (drop_bit 23 (encode 17) OR push_bit 9 (encode 18)) AND 0x7FFFFFF,
          (drop_bit 18 (encode 18) OR push_bit 14 (encode 19)) AND 0x7FFFFFF,
          (drop_bit 13 (encode 19) OR push_bit 19 (encode 20)) AND 0x7FFFFFF,
          (drop_bit 8 (encode 20) OR push_bit 24 (encode 21)) AND 0x7FFFFFF, drop_bit 3 (encode 21) AND 0x7FFFFFF,
          (drop_bit 30 (encode 21) OR push_bit 2 (encode 22)) AND 0x7FFFFFF,
          (drop_bit 25 (encode 22) OR push_bit 7 (encode 23)) AND 0x7FFFFFF,
          (drop_bit 20 (encode 23) OR push_bit 12 (encode 24)) AND 0x7FFFFFF,
          (drop_bit 15 (encode 24) OR push_bit 17 (encode 25)) AND 0x7FFFFFF,
          (drop_bit 10 (encode 25) OR push_bit 22 (encode 26)) AND 0x7FFFFFF])"

definition unaligned_unpack_28 :: "(nat \<Rightarrow> u32) \<Rightarrow> nat \<Rightarrow> u32 list" where
  "unaligned_unpack_28 =
     unaligned_blocks 8 7
       (\<lambda>encode. let val1 = encode 0; val2 = encode 1; val3 = encode 2; val4 = encode 3; val5 = encode 4; val6 = encode 5;
              val7 = encode 6
          in [drop_bit 4 (push_bit 4 val1), drop_bit 4 (push_bit 8 val2) OR drop_bit 28 val1,
              drop_bit 4 (push_bit 12 val3) OR drop_bit 24 val2, drop_bit 4 (push_bit 16 val4) OR drop_bit 20 val3,
              drop_bit 4 (push_bit 20 val5) OR drop_bit 16 val4, drop_bit 4 (push_bit 24 val6) OR drop_bit 12 val5,
              drop_bit 4 (push_bit 28 val7) OR drop_bit 8 val6, drop_bit 4 val7])
       (\<lambda>encode rest. let val1 = encode 0; val2 = encode 1; val3 = encode 2; val4 = encode 3; val5 = encode 4; val6 = encode 5;
              val7 = encode 6
          in take rest [drop_bit 4 (push_bit 4 val1), drop_bit 4 (push_bit 8 val2) OR drop_bit 28 val1,
              drop_bit 4 (push_bit 12 val3) OR drop_bit 24 val2, drop_bit 4 (push_bit 16 val4) OR drop_bit 20 val3,
              drop_bit 4 (push_bit 20 val5) OR drop_bit 16 val4, drop_bit 4 (push_bit 24 val6) OR drop_bit 12 val5,
              drop_bit 4 (push_bit 28 val7) OR drop_bit 8 val6])"

definition unaligned_unpack_29 :: "(nat \<Rightarrow> u32) \<Rightarrow> nat \<Rightarrow> u32 list" where
  "unaligned_unpack_29 encode dataNum =
     (let val1 = encode 0; val2 = encode 1; val3 = encode 2; val4 = encode 3; val5 = encode 4; val6 = encode 5;
          val7 = encode 6; val8 = encode 7; val9 = encode 8; val10 = encode 9; val11 = encode 10; val12 = encode 11;
          val13 = encode 12; val14 = encode 13; val15 = encode 14; val16 = encode 15; val17 = encode 16;
          val18 = encode 17; val19 = encode 18; val20 = encode 19; val21 = encode 20; val22 = encode 21;
          val23 = encode 22; val24 = encode 23; val25 = encode 24; val26 = encode 25; val27 = encode 26;
          val28 = encode 27; val29 = encode 28
      in take dataNum [drop_bit 3 (push_bit 3 val1), drop_bit 3 (push_bit 6 val2) OR drop_bit 29 val1,
          drop_bit 3 (push_bit 9 val3) OR drop_bit 26 val2, drop_bit 3 (push_bit 12 val4) OR drop_bit 23 val3,
          drop_bit 3 (push_bit 15 val5) OR drop_bit 20 val4, drop_bit 3 (push_bit 18 val6) OR drop_bit 17 val5,
          drop_bit 3 (push_bit 21 val7) OR drop_bit 14 val6, drop_bit 3 (push_bit 24 val8) OR drop_bit 11 val7,
          drop_bit 3 (push_bit 27 val9) OR drop_bit 8 val8, drop_bit 3 (push_bit 30 val10) OR drop_bit 5 val9,
          drop_bit 3 (push_bit 1 val10), drop_bit 3 (push_bit 4 val11) OR drop_bit 31 val10,
          drop_bit 3 (push_bit 7 val12) OR drop_bit 28 val11, drop_bit 3 (push_bit 10 val13) OR drop_bit 25 val12,
          drop_bit 3 (push_bit 13 val14) OR drop_bit 22 val13, drop_bit 3 (push_bit 16 val15) OR drop_bit 19 val14,
          drop_bit 3 (push_bit 19 val16) OR drop_bit 16 val15, drop_bit 3 (push_bit 22 val17) OR drop_bit 13 val16,
          drop_bit 3 (push_bit 25 val18) OR drop_bit 10 val17, drop_bit 3 (push_bit 28 val19) OR drop_bit 7 val18,
          drop_bit 3 (push_bit 31 val20) OR drop_bit 4 val19, drop_bit 3 (push_bit 2 val20),
          drop_bit 3 (push_bit 5 val21) OR drop_bit 30 val20, drop_bit 3 (push_bit 8 val22) OR drop_bit 27 val21,
          drop_bit 3 (push_bit 11 val23) OR drop_bit 24 val22, drop_bit 3 (push_bit 14 val24) OR drop_bit 21 val23,
          drop_bit 3 (push_bit 17 val25) OR drop_bit 18 val24, drop_bit 3 (push_bit 20 val26) OR drop_bit 15 val25,
          drop_bit 3 (push_bit 23 val27) OR drop_bit 12 val26, drop_bit 3 (push_bit 26 val28) OR drop_bit 9 val27,
          drop_bit 3 (push_bit 29 val29) OR drop_bit 6 val28])"

definition unaligned_unpack_30 :: "(nat \<Rightarrow> u32) \<Rightarrow> nat \<Rightarrow> u32 list" where
  "unaligned_unpack_30 =
     unaligned_blocks 16 15
       (\<lambda>encode. [encode 0 AND 0x3FFFFFFF, (drop_bit 30 (encode 0) OR push_bit 2 (encode 1)) AND 0x3FFFFFFF,
              (drop_bit 28 (encode 1) OR push_bit 4 (encode 2)) AND 0x3FFFFFFF,
              (drop_bit 26 (encode 2) OR push_bit 6 (encode 3)) AND 0x3FFFFFFF,
              (drop_bit 24 (encode 3) OR push_bit 8 (encode 4)) AND 0x3FFFFFFF,
              (drop_bit 22 (encode 4) OR push_bit 10 (encode 5)) AND 0x3FFFFFFF,
              (drop_bit 20 (encode 5) OR push_bit 12 (encode 6)) AND 0x3FFFFFFF,
              (drop_bit 18 (encode 6) OR push_bit 14 (encode 7)) AND 0x3FFFFFFF,
              (drop_bit 16 (encode 7) OR push_bit 16 (encode 8)) AND 0x3FFFFFFF,
              (drop_bit 14 (encode 8) OR push_bit 18 (encode 9)) AND 0x3FFFFFFF,
              (drop_bit 12 (encode 9) OR push_bit 20 (encode 10)) AND 0x3FFFFFFF,
              (drop_bit 10 (encode 10) OR push_bit 22 (encode 11)) AND 0x3FFFFFFF,
              (drop_bit 8 (encode 11) OR push_bit 24 (encode 12)) AND 0x3FFFFFFF,
              (drop_bit 6 (encode 12) OR push_bit 26 (encode 13)) AND 0x3FFFFFFF,
              (drop_bit 4 (encode 13) OR push_bit 28 (encode 14)) AND 0x3FFFFFFF,
              drop_bit 2 (encode 14) AND 0x3FFFFFFF])
       (\<lambda>encode rest. take rest [encode 0 AND 0x3FFFFFFF, (drop_bit 30 (encode 0) OR push_bit 2 (encode 1)) AND 0x3FFFFFFF,
              (drop_bit 28 (encode 1) OR push_bit 4 (encode 2)) AND 0x3FFFFFFF,
              (drop_bit 26 (encode 2) OR push_bit 6 (encode 3)) AND 0x3FFFFFFF,
              (drop_bit 24 (encode 3) OR push_bit 8 (encode 4)) AND 0x3FFFFFFF,
              (drop_bit 22 (encode 4) OR push_bit 10 (encode 5)) AND 0x3FFFFFFF,
              (drop_bit 20 (encode 5) OR push_bit 12 (encode 6)) AND 0x3FFFFFFF,
              (drop_bit 18 (encode 6) OR push_bit 14 (encode 7)) AND 0x3FFFFFFF,
              (drop_bit 16 (encode 7) OR push_bit 16 (encode 8)) AND 0x3FFFFFFF,
              (drop_bit 14 (encode 8) OR push_bit 18 (encode 9)) AND 0x3FFFFFFF,
              (drop_bit 12 (encode 9) OR push_bit 20 (encode 10)) AND 0x3FFFFFFF,
              (drop_bit 10 (encode 10) OR push_bit 22 (encode 11)) AND 0x3FFFFFFF,
              (drop_bit 8 (encode 11) OR push_bit 24 (encode 12)) AND 0x3FFFFFFF,
              (drop_bit 6 (encode 12) OR push_bit 26 (encode 13)) AND 0x3FFFFFFF,
              (drop_bit 4 (encode 13) OR push_bit 28 (encode 14)) AND 0x3FFFFFFF])"

definition unaligned_unpack_31 :: "(nat \<Rightarrow> u32) \<Rightarrow> nat \<Rightarrow> u32 list" where
  "unaligned_unpack_31 encode dataNum =
     (take dataNum [encode 0 AND 0x7FFFFFFF, (drop_bit 31 (encode 0) OR push_bit 1 (encode 1)) AND 0x7FFFFFFF,
          (drop_bit 30 (encode 1) OR push_bit 2 (encode 2)) AND 0x7FFFFFFF,
          (drop_bit 29 (encode 2) OR push_bit 3 (encode 3)) AND 0x7FFFFFFF,
          (drop_bit 28 (encode 3) OR push_bit 4 (encode 4)) AND 0x7FFFFFFF,
          (drop_bit 27 (encode 4) OR push_bit 5 (encode 5)) AND 0x7FFFFFFF,
          (drop_bit 26 (encode 5) OR push_bit 6 (encode 6)) AND 0x7FFFFFFF,
          (drop_bit 25 (encode 6) OR push_bit 7 (encode 7)) AND 0x7FFFFFFF,
          (drop_bit 24 (encode 7) OR push_bit 8 (encode 8)) AND 0x7FFFFFFF,
          (drop_bit 23 (encode 8) OR push_bit 9 (encode 9)) AND 0x7FFFFFFF,
          (drop_bit 22 (encode 9) OR push_bit 10 (encode 10)) AND 0x7FFFFFFF,
          (drop_bit 21 (encode 10) OR push_bit 11 (encode 11)) AND 0x7FFFFFFF,
          (drop_bit 20 (encode 11) OR push_bit 12 (encode 12)) AND 0x7FFFFFFF,
          (drop_bit 19 (encode 12) OR push_bit 13 (encode 13)) AND 0x7FFFFFFF,
          (drop_bit 18 (encode 13) OR push_bit 14 (encode 14)) AND 0x7FFFFFFF,
          (drop_bit 17 (encode 14) OR push_bit 15 (encode 15)) AND 0x7FFFFFFF,
          (drop_bit 16 (encode 15) OR push_bit 16 (encode 16)) AND 0x7FFFFFFF,
          (drop_bit 15 (encode 16) OR push_bit 17 (encode 17)) AND 0x7FFFFFFF,
          (drop_bit 14 (encode 17) OR push_bit 18 (encode 18)) AND 0x7FFFFFFF,
          (drop_bit 13 (encode 18) OR push_bit 19 (encode 19)) AND 0x7FFFFFFF,
          (drop_bit 12 (encode 19) OR push_bit 20 (encode 20)) AND 0x7FFFFFFF,
          (drop_bit 11 (encode 20) OR push_bit 21 (encode 21)) AND 0x7FFFFFFF,
          (drop_bit 10 (encode 21) OR push_bit 22 (encode 22)) AND 0x7FFFFFFF,
          (drop_bit 9 (encode 22) OR push_bit 23 (encode 23)) AND 0x7FFFFFFF,
          (drop_bit 8 (encode 23) OR push_bit 24 (encode 24)) AND 0x7FFFFFFF,
          (drop_bit 7 (encode 24) OR push_bit 25 (encode 25)) AND 0x7FFFFFFF,
          (drop_bit 6 (encode 25) OR push_bit 26 (encode 26)) AND 0x7FFFFFFF,
          (drop_bit 5 (encode 26) OR push_bit 27 (encode 27)) AND 0x7FFFFFFF,
          (drop_bit 4 (encode 27) OR push_bit 28 (encode 28)) AND 0x7FFFFFFF,
          (drop_bit 3 (encode 28) OR push_bit 29 (encode 29)) AND 0x7FFFFFFF,
          (drop_bit 2 (encode 29) OR push_bit 30 (encode 30)) AND 0x7FFFFFFF])"

section \<open>They read the reference fields\<close>

lemma take_fields: "vs = map f [0..<length vs] \<Longrightarrow> n \<le> length vs \<Longrightarrow> take n vs = map f [0..<n]"
  by (metis add_0 diff_zero length_upt take_map take_upt)

lemma unaligned_blocks_fields:
  assumes "b * step = 32 * per" "b \<le> 32" "0 < step"
    and blk: "\<And>w. block w = map (unpack_word b w) [0..<step]"
    and rest_of: "\<And>w n. n < step \<Longrightarrow> rest_of w n = map (unpack_word b w) [0..<n]"
  shows "unaligned_blocks step per block rest_of w n = map (unpack_word b w) [0..<n]"
proof -
  let ?q = "n div step" and ?r = "n mod step"
  have upt: "[0..<n] = [0..<step * ?q] @ [step * ?q..<step * ?q + ?r]"
    using upt_add_eq_append [of 0 "step * ?q" ?r] by (simp only: mult_div_mod_eq le0 add_0)
  have "unaligned_blocks step per block rest_of w n =
      map (unpack_word b w) [0..<step * ?q] @ map (\<lambda>i. unpack_word b w (step * ?q + i)) [0..<?r]"
    using assms(3) by (simp add: unaligned_blocks_def blk rest_of unpack_word_shift [OF assms(1,2)] concat_blocks [of "unpack_word b w"])
  then show ?thesis
    unfolding upt map_append map_shift_upt .
qed

text \<open>The routines without a loop, written with shifts or with masks.\<close>

lemma unaligned_shift_eqs:
  assumes "n \<le> 31"
  shows unaligned_unpack_1: "unaligned_unpack_1 w n = map (unpack_word 1 w) [0..<n]"
    and unaligned_unpack_3: "unaligned_unpack_3 w n = map (unpack_word 3 w) [0..<n]"
    and unaligned_unpack_5: "unaligned_unpack_5 w n = map (unpack_word 5 w) [0..<n]"
    and unaligned_unpack_7: "unaligned_unpack_7 w n = map (unpack_word 7 w) [0..<n]"
    and unaligned_unpack_9: "unaligned_unpack_9 w n = map (unpack_word 9 w) [0..<n]"
    and unaligned_unpack_11: "unaligned_unpack_11 w n = map (unpack_word 11 w) [0..<n]"
    and unaligned_unpack_13: "unaligned_unpack_13 w n = map (unpack_word 13 w) [0..<n]"
    and unaligned_unpack_15: "unaligned_unpack_15 w n = map (unpack_word 15 w) [0..<n]"
    and unaligned_unpack_17: "unaligned_unpack_17 w n = map (unpack_word 17 w) [0..<n]"
    and unaligned_unpack_21: "unaligned_unpack_21 w n = map (unpack_word 21 w) [0..<n]"
    and unaligned_unpack_29: "unaligned_unpack_29 w n = map (unpack_word 29 w) [0..<n]"
  unfolding Let_def
    unaligned_unpack_1_def unaligned_unpack_3_def unaligned_unpack_5_def unaligned_unpack_7_def
    unaligned_unpack_9_def unaligned_unpack_11_def unaligned_unpack_13_def unaligned_unpack_15_def
    unaligned_unpack_17_def unaligned_unpack_21_def unaligned_unpack_29_def
  unfolding shifted2_def [symmetric]
  unfolding shifted_def [symmetric]
  unfolding shifted_zero
  by (rule take_fields; simp add: assms le_trans [OF assms] unpack_word_shifted numeral_upt del: One_nat_def)+

lemma unaligned_mask_eqs:
  assumes "n \<le> 31"
  shows unaligned_unpack_19: "unaligned_unpack_19 w n = map (unpack_word 19 w) [0..<n]"
    and unaligned_unpack_23: "unaligned_unpack_23 w n = map (unpack_word 23 w) [0..<n]"
    and unaligned_unpack_25: "unaligned_unpack_25 w n = map (unpack_word 25 w) [0..<n]"
    and unaligned_unpack_27: "unaligned_unpack_27 w n = map (unpack_word 27 w) [0..<n]"
    and unaligned_unpack_31: "unaligned_unpack_31 w n = map (unpack_word 31 w) [0..<n]"
  unfolding mask_numerals
    unaligned_unpack_19_def unaligned_unpack_23_def unaligned_unpack_25_def unaligned_unpack_27_def
    unaligned_unpack_31_def
  unfolding field2_def [symmetric] field_def [symmetric]
  unfolding field_zero
  by (rule take_fields; simp add: assms le_trans [OF assms] unpack_word_def numeral_upt del: One_nat_def)+

text \<open>The routines with a loop.\<close>

lemma unaligned_loop_eqs:
  shows unaligned_unpack_2: "unaligned_unpack_2 w n = map (unpack_word 2 w) [0..<n]"
    and unaligned_unpack_4: "unaligned_unpack_4 w n = map (unpack_word 4 w) [0..<n]"
    and unaligned_unpack_6: "unaligned_unpack_6 w n = map (unpack_word 6 w) [0..<n]"
    and unaligned_unpack_8: "unaligned_unpack_8 w n = map (unpack_word 8 w) [0..<n]"
    and unaligned_unpack_10: "unaligned_unpack_10 w n = map (unpack_word 10 w) [0..<n]"
    and unaligned_unpack_12: "unaligned_unpack_12 w n = map (unpack_word 12 w) [0..<n]"
    and unaligned_unpack_14: "unaligned_unpack_14 w n = map (unpack_word 14 w) [0..<n]"
    and unaligned_unpack_16: "unaligned_unpack_16 w n = map (unpack_word 16 w) [0..<n]"
    and unaligned_unpack_18: "unaligned_unpack_18 w n = map (unpack_word 18 w) [0..<n]"
    and unaligned_unpack_20: "unaligned_unpack_20 w n = map (unpack_word 20 w) [0..<n]"
    and unaligned_unpack_22: "unaligned_unpack_22 w n = map (unpack_word 22 w) [0..<n]"
    and unaligned_unpack_26: "unaligned_unpack_26 w n = map (unpack_word 26 w) [0..<n]"
    and unaligned_unpack_28: "unaligned_unpack_28 w n = map (unpack_word 28 w) [0..<n]"
  unfolding Let_def
    unaligned_unpack_2_def unaligned_unpack_4_def unaligned_unpack_6_def unaligned_unpack_8_def
    unaligned_unpack_10_def unaligned_unpack_12_def unaligned_unpack_14_def unaligned_unpack_16_def
    unaligned_unpack_18_def unaligned_unpack_20_def unaligned_unpack_22_def unaligned_unpack_26_def
    unaligned_unpack_28_def
  unfolding shifted2_def [symmetric]
  unfolding shifted_def [symmetric]
  unfolding shifted_zero
  by (rule unaligned_blocks_fields; (rule take_fields)?; simp add: unpack_word_shifted numeral_upt del: One_nat_def)+

lemma unaligned_loop_mask_eqs:
  shows unaligned_unpack_24: "unaligned_unpack_24 w n = map (unpack_word 24 w) [0..<n]"
    and unaligned_unpack_30: "unaligned_unpack_30 w n = map (unpack_word 30 w) [0..<n]"
  unfolding Let_def mask_numerals
    unaligned_unpack_24_def unaligned_unpack_30_def
  unfolding field2_def [symmetric] field_def [symmetric]
  unfolding field_zero
  by (rule unaligned_blocks_fields; (rule take_fields)?; simp add: unpack_word_def numeral_upt del: One_nat_def)+

end
