(* ===== verification/UnpackBlocks.thy ===== *)
theory UnpackBlocks
  imports UnalignedBlocks "HOL-Library.Monad_Syntax"
begin

text \<open>
  The unpacking routines of \<^verbatim>\<open>indexlib/index/common/numeric_compress/Unpack.h\<close> at the element type \<^verbatim>\<open>uint32_t\<close>:
  32 values at a time with unrolled code, the rest by the routines of \<^verbatim>\<open>UnalignedUnpack.h\<close>.  \<open>unpack_6\<close> is the
  portable template, which the build with \<^verbatim>\<open>VALGRIND_CHECK\<close> uses for all element types.
\<close>

section \<open>Unrolled blocks of 32 values\<close>

text \<open>The values that one round of the unrolled loop stores.\<close>

definition unpack_0_block :: "(nat \<Rightarrow> u32) \<Rightarrow> u32 list" where
  "unpack_0_block encode =
     [0, 0, 0, 0, 0, 0, 0, 0, 0, 0, 0, 0, 0, 0, 0, 0, 0, 0, 0, 0, 0, 0, 0, 0, 0, 0, 0, 0, 0, 0, 0, 0]"

definition unpack_1_block :: "(nat \<Rightarrow> u32) \<Rightarrow> u32 list" where
  "unpack_1_block encode =
     [encode 0 AND 0x1, drop_bit 1 (encode 0) AND 0x1, drop_bit 2 (encode 0) AND 0x1, drop_bit 3 (encode 0) AND 0x1,
      drop_bit 4 (encode 0) AND 0x1, drop_bit 5 (encode 0) AND 0x1, drop_bit 6 (encode 0) AND 0x1,
      drop_bit 7 (encode 0) AND 0x1, drop_bit 8 (encode 0) AND 0x1, drop_bit 9 (encode 0) AND 0x1,
      drop_bit 10 (encode 0) AND 0x1, drop_bit 11 (encode 0) AND 0x1, drop_bit 12 (encode 0) AND 0x1,
      drop_bit 13 (encode 0) AND 0x1, drop_bit 14 (encode 0) AND 0x1, drop_bit 15 (encode 0) AND 0x1,
      drop_bit 16 (encode 0) AND 0x1, drop_bit 17 (encode 0) AND 0x1, drop_bit 18 (encode 0) AND 0x1,
      drop_bit 19 (encode 0) AND 0x1, drop_bit 20 (encode 0) AND 0x1, drop_bit 21 (encode 0) AND 0x1,
      drop_bit 22 (encode 0) AND 0x1, drop_bit 23 (encode 0) AND 0x1, drop_bit 24 (encode 0) AND 0x1,
      drop_bit 25 (encode 0) AND 0x1, drop_bit 26 (encode 0) AND 0x1, drop_bit 27 (encode 0) AND 0x1,
      drop_bit 28 (encode 0) AND 0x1, drop_bit 29 (encode 0) AND 0x1, drop_bit 30 (encode 0) AND 0x1,
      drop_bit 31 (encode 0) AND 0x1]"

definition unpack_2_block :: "(nat \<Rightarrow> u32) \<Rightarrow> u32 list" where
  "unpack_2_block encode =
     [encode 0 AND 0x3, drop_bit 2 (encode 0) AND 0x3, drop_bit 4 (encode 0) AND 0x3, drop_bit 6 (encode 0) AND 0x3,
      drop_bit 8 (encode 0) AND 0x3, drop_bit 10 (encode 0) AND 0x3, drop_bit 12 (encode 0) AND 0x3,
      drop_bit 14 (encode 0) AND 0x3, drop_bit 16 (encode 0) AND 0x3, drop_bit 18 (encode 0) AND 0x3,
      drop_bit 20 (encode 0) AND 0x3, drop_bit 22 (encode 0) AND 0x3, drop_bit 24 (encode 0) AND 0x3,
      drop_bit 26 (encode 0) AND 0x3, drop_bit 28 (encode 0) AND 0x3, drop_bit 30 (encode 0) AND 0x3,
      encode 1 AND 0x3, drop_bit 2 (encode 1) AND 0x3, drop_bit 4 (encode 1) AND 0x3, drop_bit 6 (encode 1) AND 0x3,
      drop_bit 8 (encode 1) AND 0x3, drop_bit 10 (encode 1) AND 0x3, drop_bit 12 (encode 1) AND 0x3,
      drop_bit 14 (encode 1) AND 0x3, drop_bit 16 (encode 1) AND 0x3, drop_bit 18 (encode 1) AND 0x3,
      drop_bit 20 (encode 1) AND 0x3, drop_bit 22 (encode 1) AND 0x3, drop_bit 24 (encode 1) AND 0x3,
      drop_bit 26 (encode 1) AND 0x3, drop_bit 28 (encode 1) AND 0x3, drop_bit 30 (encode 1) AND 0x3]"

definition unpack_3_block :: "(nat \<Rightarrow> u32) \<Rightarrow> u32 list" where
  "unpack_3_block encode =
     [encode 0 AND 0x7, drop_bit 3 (encode 0) AND 0x7, drop_bit 6 (encode 0) AND 0x7, drop_bit 9 (encode 0) AND 0x7,
      drop_bit 12 (encode 0) AND 0x7, drop_bit 15 (encode 0) AND 0x7, drop_bit 18 (encode 0) AND 0x7,
      drop_bit 21 (encode 0) AND 0x7, drop_bit 24 (encode 0) AND 0x7, drop_bit 27 (encode 0) AND 0x7,
      (drop_bit 30 (encode 0) OR push_bit 2 (encode 1)) AND 0x7, drop_bit 1 (encode 1) AND 0x7,
      drop_bit 4 (encode 1) AND 0x7, drop_bit 7 (encode 1) AND 0x7, drop_bit 10 (encode 1) AND 0x7,
      drop_bit 13 (encode 1) AND 0x7, drop_bit 16 (encode 1) AND 0x7, drop_bit 19 (encode 1) AND 0x7,
      drop_bit 22 (encode 1) AND 0x7, drop_bit 25 (encode 1) AND 0x7, drop_bit 28 (encode 1) AND 0x7,
      (drop_bit 31 (encode 1) OR push_bit 1 (encode 2)) AND 0x7, drop_bit 2 (encode 2) AND 0x7,
      drop_bit 5 (encode 2) AND 0x7, drop_bit 8 (encode 2) AND 0x7, drop_bit 11 (encode 2) AND 0x7,
      drop_bit 14 (encode 2) AND 0x7, drop_bit 17 (encode 2) AND 0x7, drop_bit 20 (encode 2) AND 0x7,
      drop_bit 23 (encode 2) AND 0x7, drop_bit 26 (encode 2) AND 0x7, drop_bit 29 (encode 2) AND 0x7]"

definition unpack_4_block :: "(nat \<Rightarrow> u32) \<Rightarrow> u32 list" where
  "unpack_4_block encode =
     [encode 0 AND 0xF, drop_bit 4 (encode 0) AND 0xF, drop_bit 8 (encode 0) AND 0xF, drop_bit 12 (encode 0) AND 0xF,
      drop_bit 16 (encode 0) AND 0xF, drop_bit 20 (encode 0) AND 0xF, drop_bit 24 (encode 0) AND 0xF,
      drop_bit 28 (encode 0) AND 0xF, encode 1 AND 0xF, drop_bit 4 (encode 1) AND 0xF, drop_bit 8 (encode 1) AND 0xF,
      drop_bit 12 (encode 1) AND 0xF, drop_bit 16 (encode 1) AND 0xF, drop_bit 20 (encode 1) AND 0xF,
      drop_bit 24 (encode 1) AND 0xF, drop_bit 28 (encode 1) AND 0xF, encode 2 AND 0xF,
      drop_bit 4 (encode 2) AND 0xF, drop_bit 8 (encode 2) AND 0xF, drop_bit 12 (encode 2) AND 0xF,
      drop_bit 16 (encode 2) AND 0xF, drop_bit 20 (encode 2) AND 0xF, drop_bit 24 (encode 2) AND 0xF,
      drop_bit 28 (encode 2) AND 0xF, encode 3 AND 0xF, drop_bit 4 (encode 3) AND 0xF, drop_bit 8 (encode 3) AND 0xF,
      drop_bit 12 (encode 3) AND 0xF, drop_bit 16 (encode 3) AND 0xF, drop_bit 20 (encode 3) AND 0xF,
      drop_bit 24 (encode 3) AND 0xF, drop_bit 28 (encode 3) AND 0xF]"

definition unpack_5_block :: "(nat \<Rightarrow> u32) \<Rightarrow> u32 list" where
  "unpack_5_block encode =
     [encode 0 AND 0x1F, drop_bit 5 (encode 0) AND 0x1F, drop_bit 10 (encode 0) AND 0x1F,
      drop_bit 15 (encode 0) AND 0x1F, drop_bit 20 (encode 0) AND 0x1F, drop_bit 25 (encode 0) AND 0x1F,
      (drop_bit 30 (encode 0) OR push_bit 2 (encode 1)) AND 0x1F, drop_bit 3 (encode 1) AND 0x1F,
      drop_bit 8 (encode 1) AND 0x1F, drop_bit 13 (encode 1) AND 0x1F, drop_bit 18 (encode 1) AND 0x1F,
      drop_bit 23 (encode 1) AND 0x1F, (drop_bit 28 (encode 1) OR push_bit 4 (encode 2)) AND 0x1F,
      drop_bit 1 (encode 2) AND 0x1F, drop_bit 6 (encode 2) AND 0x1F, drop_bit 11 (encode 2) AND 0x1F,
      drop_bit 16 (encode 2) AND 0x1F, drop_bit 21 (encode 2) AND 0x1F, drop_bit 26 (encode 2) AND 0x1F,
      (drop_bit 31 (encode 2) OR push_bit 1 (encode 3)) AND 0x1F, drop_bit 4 (encode 3) AND 0x1F,
      drop_bit 9 (encode 3) AND 0x1F, drop_bit 14 (encode 3) AND 0x1F, drop_bit 19 (encode 3) AND 0x1F,
      drop_bit 24 (encode 3) AND 0x1F, (drop_bit 29 (encode 3) OR push_bit 3 (encode 4)) AND 0x1F,
      drop_bit 2 (encode 4) AND 0x1F, drop_bit 7 (encode 4) AND 0x1F, drop_bit 12 (encode 4) AND 0x1F,
      drop_bit 17 (encode 4) AND 0x1F, drop_bit 22 (encode 4) AND 0x1F, drop_bit 27 (encode 4) AND 0x1F]"

definition unpack_6_block :: "(nat \<Rightarrow> u32) \<Rightarrow> u32 list" where
  "unpack_6_block encode =
     [encode 0 AND 0x3F, drop_bit 6 (encode 0) AND 0x3F, drop_bit 12 (encode 0) AND 0x3F,
      drop_bit 18 (encode 0) AND 0x3F, drop_bit 24 (encode 0) AND 0x3F,
      (drop_bit 30 (encode 0) OR push_bit 2 (encode 1)) AND 0x3F, drop_bit 4 (encode 1) AND 0x3F,
      drop_bit 10 (encode 1) AND 0x3F, drop_bit 16 (encode 1) AND 0x3F, drop_bit 22 (encode 1) AND 0x3F,
      (drop_bit 28 (encode 1) OR push_bit 4 (encode 2)) AND 0x3F, drop_bit 2 (encode 2) AND 0x3F,
      drop_bit 8 (encode 2) AND 0x3F, drop_bit 14 (encode 2) AND 0x3F, drop_bit 20 (encode 2) AND 0x3F,
      drop_bit 26 (encode 2) AND 0x3F, encode 3 AND 0x3F, drop_bit 6 (encode 3) AND 0x3F,
      drop_bit 12 (encode 3) AND 0x3F, drop_bit 18 (encode 3) AND 0x3F, drop_bit 24 (encode 3) AND 0x3F,
      (drop_bit 30 (encode 3) OR push_bit 2 (encode 4)) AND 0x3F, drop_bit 4 (encode 4) AND 0x3F,
      drop_bit 10 (encode 4) AND 0x3F, drop_bit 16 (encode 4) AND 0x3F, drop_bit 22 (encode 4) AND 0x3F,
      (drop_bit 28 (encode 4) OR push_bit 4 (encode 5)) AND 0x3F, drop_bit 2 (encode 5) AND 0x3F,
      drop_bit 8 (encode 5) AND 0x3F, drop_bit 14 (encode 5) AND 0x3F, drop_bit 20 (encode 5) AND 0x3F,
      drop_bit 26 (encode 5) AND 0x3F]"

definition unpack_7_block :: "(nat \<Rightarrow> u32) \<Rightarrow> u32 list" where
  "unpack_7_block encode =
     [encode 0 AND 0x7F, drop_bit 7 (encode 0) AND 0x7F, drop_bit 14 (encode 0) AND 0x7F,
      drop_bit 21 (encode 0) AND 0x7F, (drop_bit 28 (encode 0) OR push_bit 4 (encode 1)) AND 0x7F,
      drop_bit 3 (encode 1) AND 0x7F, drop_bit 10 (encode 1) AND 0x7F, drop_bit 17 (encode 1) AND 0x7F,
      drop_bit 24 (encode 1) AND 0x7F, (drop_bit 31 (encode 1) OR push_bit 1 (encode 2)) AND 0x7F,
      drop_bit 6 (encode 2) AND 0x7F, drop_bit 13 (encode 2) AND 0x7F, drop_bit 20 (encode 2) AND 0x7F,
      (drop_bit 27 (encode 2) OR push_bit 5 (encode 3)) AND 0x7F, drop_bit 2 (encode 3) AND 0x7F,
      drop_bit 9 (encode 3) AND 0x7F, drop_bit 16 (encode 3) AND 0x7F, drop_bit 23 (encode 3) AND 0x7F,
      (drop_bit 30 (encode 3) OR push_bit 2 (encode 4)) AND 0x7F, drop_bit 5 (encode 4) AND 0x7F,
      drop_bit 12 (encode 4) AND 0x7F, drop_bit 19 (encode 4) AND 0x7F,
      (drop_bit 26 (encode 4) OR push_bit 6 (encode 5)) AND 0x7F, drop_bit 1 (encode 5) AND 0x7F,
      drop_bit 8 (encode 5) AND 0x7F, drop_bit 15 (encode 5) AND 0x7F, drop_bit 22 (encode 5) AND 0x7F,
      (drop_bit 29 (encode 5) OR push_bit 3 (encode 6)) AND 0x7F, drop_bit 4 (encode 6) AND 0x7F,
      drop_bit 11 (encode 6) AND 0x7F, drop_bit 18 (encode 6) AND 0x7F, drop_bit 25 (encode 6) AND 0x7F]"

definition unpack_8_block :: "(nat \<Rightarrow> u32) \<Rightarrow> u32 list" where
  "unpack_8_block encode =
     [encode 0 AND 0xFF, drop_bit 8 (encode 0) AND 0xFF, drop_bit 16 (encode 0) AND 0xFF,
      drop_bit 24 (encode 0) AND 0xFF, encode 1 AND 0xFF, drop_bit 8 (encode 1) AND 0xFF,
      drop_bit 16 (encode 1) AND 0xFF, drop_bit 24 (encode 1) AND 0xFF, encode 2 AND 0xFF,
      drop_bit 8 (encode 2) AND 0xFF, drop_bit 16 (encode 2) AND 0xFF, drop_bit 24 (encode 2) AND 0xFF,
      encode 3 AND 0xFF, drop_bit 8 (encode 3) AND 0xFF, drop_bit 16 (encode 3) AND 0xFF,
      drop_bit 24 (encode 3) AND 0xFF, encode 4 AND 0xFF, drop_bit 8 (encode 4) AND 0xFF,
      drop_bit 16 (encode 4) AND 0xFF, drop_bit 24 (encode 4) AND 0xFF, encode 5 AND 0xFF,
      drop_bit 8 (encode 5) AND 0xFF, drop_bit 16 (encode 5) AND 0xFF, drop_bit 24 (encode 5) AND 0xFF,
      encode 6 AND 0xFF, drop_bit 8 (encode 6) AND 0xFF, drop_bit 16 (encode 6) AND 0xFF,
      drop_bit 24 (encode 6) AND 0xFF, encode 7 AND 0xFF, drop_bit 8 (encode 7) AND 0xFF,
      drop_bit 16 (encode 7) AND 0xFF, drop_bit 24 (encode 7) AND 0xFF]"

definition unpack_9_block :: "(nat \<Rightarrow> u32) \<Rightarrow> u32 list" where
  "unpack_9_block encode =
     [encode 0 AND 0x1FF, drop_bit 9 (encode 0) AND 0x1FF, drop_bit 18 (encode 0) AND 0x1FF,
      (drop_bit 27 (encode 0) OR push_bit 5 (encode 1)) AND 0x1FF, drop_bit 4 (encode 1) AND 0x1FF,
      drop_bit 13 (encode 1) AND 0x1FF, drop_bit 22 (encode 1) AND 0x1FF,
      (drop_bit 31 (encode 1) OR push_bit 1 (encode 2)) AND 0x1FF, drop_bit 8 (encode 2) AND 0x1FF,
      drop_bit 17 (encode 2) AND 0x1FF, (drop_bit 26 (encode 2) OR push_bit 6 (encode 3)) AND 0x1FF,
      drop_bit 3 (encode 3) AND 0x1FF, drop_bit 12 (encode 3) AND 0x1FF, drop_bit 21 (encode 3) AND 0x1FF,
      (drop_bit 30 (encode 3) OR push_bit 2 (encode 4)) AND 0x1FF, drop_bit 7 (encode 4) AND 0x1FF,
      drop_bit 16 (encode 4) AND 0x1FF, (drop_bit 25 (encode 4) OR push_bit 7 (encode 5)) AND 0x1FF,
      drop_bit 2 (encode 5) AND 0x1FF, drop_bit 11 (encode 5) AND 0x1FF, drop_bit 20 (encode 5) AND 0x1FF,
      (drop_bit 29 (encode 5) OR push_bit 3 (encode 6)) AND 0x1FF, drop_bit 6 (encode 6) AND 0x1FF,
      drop_bit 15 (encode 6) AND 0x1FF, (drop_bit 24 (encode 6) OR push_bit 8 (encode 7)) AND 0x1FF,
      drop_bit 1 (encode 7) AND 0x1FF, drop_bit 10 (encode 7) AND 0x1FF, drop_bit 19 (encode 7) AND 0x1FF,
      (drop_bit 28 (encode 7) OR push_bit 4 (encode 8)) AND 0x1FF, drop_bit 5 (encode 8) AND 0x1FF,
      drop_bit 14 (encode 8) AND 0x1FF, drop_bit 23 (encode 8) AND 0x1FF]"

definition unpack_10_block :: "(nat \<Rightarrow> u32) \<Rightarrow> u32 list" where
  "unpack_10_block encode =
     [encode 0 AND 0x3FF, drop_bit 10 (encode 0) AND 0x3FF, drop_bit 20 (encode 0) AND 0x3FF,
      (drop_bit 30 (encode 0) OR push_bit 2 (encode 1)) AND 0x3FF, drop_bit 8 (encode 1) AND 0x3FF,
      drop_bit 18 (encode 1) AND 0x3FF, (drop_bit 28 (encode 1) OR push_bit 4 (encode 2)) AND 0x3FF,
      drop_bit 6 (encode 2) AND 0x3FF, drop_bit 16 (encode 2) AND 0x3FF,
      (drop_bit 26 (encode 2) OR push_bit 6 (encode 3)) AND 0x3FF, drop_bit 4 (encode 3) AND 0x3FF,
      drop_bit 14 (encode 3) AND 0x3FF, (drop_bit 24 (encode 3) OR push_bit 8 (encode 4)) AND 0x3FF,
      drop_bit 2 (encode 4) AND 0x3FF, drop_bit 12 (encode 4) AND 0x3FF, drop_bit 22 (encode 4) AND 0x3FF,
      encode 5 AND 0x3FF, drop_bit 10 (encode 5) AND 0x3FF, drop_bit 20 (encode 5) AND 0x3FF,
      (drop_bit 30 (encode 5) OR push_bit 2 (encode 6)) AND 0x3FF, drop_bit 8 (encode 6) AND 0x3FF,
      drop_bit 18 (encode 6) AND 0x3FF, (drop_bit 28 (encode 6) OR push_bit 4 (encode 7)) AND 0x3FF,
      drop_bit 6 (encode 7) AND 0x3FF, drop_bit 16 (encode 7) AND 0x3FF,
      (drop_bit 26 (encode 7) OR push_bit 6 (encode 8)) AND 0x3FF, drop_bit 4 (encode 8) AND 0x3FF,
      drop_bit 14 (encode 8) AND 0x3FF, (drop_bit 24 (encode 8) OR push_bit 8 (encode 9)) AND 0x3FF,
      drop_bit 2 (encode 9) AND 0x3FF, drop_bit 12 (encode 9) AND 0x3FF, drop_bit 22 (encode 9) AND 0x3FF]"

definition unpack_11_block :: "(nat \<Rightarrow> u32) \<Rightarrow> u32 list" where
  "unpack_11_block encode =
     [encode 0 AND 0x7FF, drop_bit 11 (encode 0) AND 0x7FF,
      (drop_bit 22 (encode 0) OR push_bit 10 (encode 1)) AND 0x7FF, drop_bit 1 (encode 1) AND 0x7FF,
      drop_bit 12 (encode 1) AND 0x7FF, (drop_bit 23 (encode 1) OR push_bit 9 (encode 2)) AND 0x7FF,
      drop_bit 2 (encode 2) AND 0x7FF, drop_bit 13 (encode 2) AND 0x7FF,
      (drop_bit 24 (encode 2) OR push_bit 8 (encode 3)) AND 0x7FF, drop_bit 3 (encode 3) AND 0x7FF,
      drop_bit 14 (encode 3) AND 0x7FF, (drop_bit 25 (encode 3) OR push_bit 7 (encode 4)) AND 0x7FF,
      drop_bit 4 (encode 4) AND 0x7FF, drop_bit 15 (encode 4) AND 0x7FF,
      (drop_bit 26 (encode 4) OR push_bit 6 (encode 5)) AND 0x7FF, drop_bit 5 (encode 5) AND 0x7FF,
      drop_bit 16 (encode 5) AND 0x7FF, (drop_bit 27 (encode 5) OR push_bit 5 (encode 6)) AND 0x7FF,
      drop_bit 6 (encode 6) AND 0x7FF, drop_bit 17 (encode 6) AND 0x7FF,
      (drop_bit 28 (encode 6) OR push_bit 4 (encode 7)) AND 0x7FF, drop_bit 7 (encode 7) AND 0x7FF,
      drop_bit 18 (encode 7) AND 0x7FF, (drop_bit 29 (encode 7) OR push_bit 3 (encode 8)) AND 0x7FF,
      drop_bit 8 (encode 8) AND 0x7FF, drop_bit 19 (encode 8) AND 0x7FF,
      (drop_bit 30 (encode 8) OR push_bit 2 (encode 9)) AND 0x7FF, drop_bit 9 (encode 9) AND 0x7FF,
      drop_bit 20 (encode 9) AND 0x7FF, (drop_bit 31 (encode 9) OR push_bit 1 (encode 10)) AND 0x7FF,
      drop_bit 10 (encode 10) AND 0x7FF, drop_bit 21 (encode 10) AND 0x7FF]"

definition unpack_12_block :: "(nat \<Rightarrow> u32) \<Rightarrow> u32 list" where
  "unpack_12_block encode =
     [encode 0 AND 0xFFF, drop_bit 12 (encode 0) AND 0xFFF,
      (drop_bit 24 (encode 0) OR push_bit 8 (encode 1)) AND 0xFFF, drop_bit 4 (encode 1) AND 0xFFF,
      drop_bit 16 (encode 1) AND 0xFFF, (drop_bit 28 (encode 1) OR push_bit 4 (encode 2)) AND 0xFFF,
      drop_bit 8 (encode 2) AND 0xFFF, drop_bit 20 (encode 2) AND 0xFFF, encode 3 AND 0xFFF,
      drop_bit 12 (encode 3) AND 0xFFF, (drop_bit 24 (encode 3) OR push_bit 8 (encode 4)) AND 0xFFF,
      drop_bit 4 (encode 4) AND 0xFFF, drop_bit 16 (encode 4) AND 0xFFF,
      (drop_bit 28 (encode 4) OR push_bit 4 (encode 5)) AND 0xFFF, drop_bit 8 (encode 5) AND 0xFFF,
      drop_bit 20 (encode 5) AND 0xFFF, encode 6 AND 0xFFF, drop_bit 12 (encode 6) AND 0xFFF,
      (drop_bit 24 (encode 6) OR push_bit 8 (encode 7)) AND 0xFFF, drop_bit 4 (encode 7) AND 0xFFF,
      drop_bit 16 (encode 7) AND 0xFFF, (drop_bit 28 (encode 7) OR push_bit 4 (encode 8)) AND 0xFFF,
      drop_bit 8 (encode 8) AND 0xFFF, drop_bit 20 (encode 8) AND 0xFFF, encode 9 AND 0xFFF,
      drop_bit 12 (encode 9) AND 0xFFF, (drop_bit 24 (encode 9) OR push_bit 8 (encode 10)) AND 0xFFF,
      drop_bit 4 (encode 10) AND 0xFFF, drop_bit 16 (encode 10) AND 0xFFF,
      (drop_bit 28 (encode 10) OR push_bit 4 (encode 11)) AND 0xFFF, drop_bit 8 (encode 11) AND 0xFFF,
      drop_bit 20 (encode 11) AND 0xFFF]"

definition unpack_13_block :: "(nat \<Rightarrow> u32) \<Rightarrow> u32 list" where
  "unpack_13_block encode =
     [encode 0 AND 0x1FFF, drop_bit 13 (encode 0) AND 0x1FFF,
      (drop_bit 26 (encode 0) OR push_bit 6 (encode 1)) AND 0x1FFF, drop_bit 7 (encode 1) AND 0x1FFF,
      (drop_bit 20 (encode 1) OR push_bit 12 (encode 2)) AND 0x1FFF, drop_bit 1 (encode 2) AND 0x1FFF,
      drop_bit 14 (encode 2) AND 0x1FFF, (drop_bit 27 (encode 2) OR push_bit 5 (encode 3)) AND 0x1FFF,
      drop_bit 8 (encode 3) AND 0x1FFF, (drop_bit 21 (encode 3) OR push_bit 11 (encode 4)) AND 0x1FFF,
      drop_bit 2 (encode 4) AND 0x1FFF, drop_bit 15 (encode 4) AND 0x1FFF,
      (drop_bit 28 (encode 4) OR push_bit 4 (encode 5)) AND 0x1FFF, drop_bit 9 (encode 5) AND 0x1FFF,
      (drop_bit 22 (encode 5) OR push_bit 10 (encode 6)) AND 0x1FFF, drop_bit 3 (encode 6) AND 0x1FFF,
      drop_bit 16 (encode 6) AND 0x1FFF, (drop_bit 29 (encode 6) OR push_bit 3 (encode 7)) AND 0x1FFF,
      drop_bit 10 (encode 7) AND 0x1FFF, (drop_bit 23 (encode 7) OR push_bit 9 (encode 8)) AND 0x1FFF,
      drop_bit 4 (encode 8) AND 0x1FFF, drop_bit 17 (encode 8) AND 0x1FFF,
      (drop_bit 30 (encode 8) OR push_bit 2 (encode 9)) AND 0x1FFF, drop_bit 11 (encode 9) AND 0x1FFF,
      (drop_bit 24 (encode 9) OR push_bit 8 (encode 10)) AND 0x1FFF, drop_bit 5 (encode 10) AND 0x1FFF,
      drop_bit 18 (encode 10) AND 0x1FFF, (drop_bit 31 (encode 10) OR push_bit 1 (encode 11)) AND 0x1FFF,
      drop_bit 12 (encode 11) AND 0x1FFF, (drop_bit 25 (encode 11) OR push_bit 7 (encode 12)) AND 0x1FFF,
      drop_bit 6 (encode 12) AND 0x1FFF, drop_bit 19 (encode 12) AND 0x1FFF]"

definition unpack_14_block :: "(nat \<Rightarrow> u32) \<Rightarrow> u32 list" where
  "unpack_14_block encode =
     [encode 0 AND 0x3FFF, drop_bit 14 (encode 0) AND 0x3FFF,
      (drop_bit 28 (encode 0) OR push_bit 4 (encode 1)) AND 0x3FFF, drop_bit 10 (encode 1) AND 0x3FFF,
      (drop_bit 24 (encode 1) OR push_bit 8 (encode 2)) AND 0x3FFF, drop_bit 6 (encode 2) AND 0x3FFF,
      (drop_bit 20 (encode 2) OR push_bit 12 (encode 3)) AND 0x3FFF, drop_bit 2 (encode 3) AND 0x3FFF,
      drop_bit 16 (encode 3) AND 0x3FFF, (drop_bit 30 (encode 3) OR push_bit 2 (encode 4)) AND 0x3FFF,
      drop_bit 12 (encode 4) AND 0x3FFF, (drop_bit 26 (encode 4) OR push_bit 6 (encode 5)) AND 0x3FFF,
      drop_bit 8 (encode 5) AND 0x3FFF, (drop_bit 22 (encode 5) OR push_bit 10 (encode 6)) AND 0x3FFF,
      drop_bit 4 (encode 6) AND 0x3FFF, drop_bit 18 (encode 6) AND 0x3FFF, encode 7 AND 0x3FFF,
      drop_bit 14 (encode 7) AND 0x3FFF, (drop_bit 28 (encode 7) OR push_bit 4 (encode 8)) AND 0x3FFF,
      drop_bit 10 (encode 8) AND 0x3FFF, (drop_bit 24 (encode 8) OR push_bit 8 (encode 9)) AND 0x3FFF,
      drop_bit 6 (encode 9) AND 0x3FFF, (drop_bit 20 (encode 9) OR push_bit 12 (encode 10)) AND 0x3FFF,
      drop_bit 2 (encode 10) AND 0x3FFF, drop_bit 16 (encode 10) AND 0x3FFF,
      (drop_bit 30 (encode 10) OR push_bit 2 (encode 11)) AND 0x3FFF, drop_bit 12 (encode 11) AND 0x3FFF,
      (drop_bit 26 (encode 11) OR push_bit 6 (encode 12)) AND 0x3FFF, drop_bit 8 (encode 12) AND 0x3FFF,
      (drop_bit 22 (encode 12) OR push_bit 10 (encode 13)) AND 0x3FFF, drop_bit 4 (encode 13) AND 0x3FFF,
      drop_bit 18 (encode 13) AND 0x3FFF]"

definition unpack_15_block :: "(nat \<Rightarrow> u32) \<Rightarrow> u32 list" where
  "unpack_15_block encode =
     [encode 0 AND 0x7FFF, drop_bit 15 (encode 0) AND 0x7FFF,
      (drop_bit 30 (encode 0) OR push_bit 2 (encode 1)) AND 0x7FFF, drop_bit 13 (encode 1) AND 0x7FFF,
      (drop_bit 28 (encode 1) OR push_bit 4 (encode 2)) AND 0x7FFF, drop_bit 11 (encode 2) AND 0x7FFF,
      (drop_bit 26 (encode 2) OR push_bit 6 (encode 3)) AND 0x7FFF, drop_bit 9 (encode 3) AND 0x7FFF,
      (drop_bit 24 (encode 3) OR push_bit 8 (encode 4)) AND 0x7FFF, drop_bit 7 (encode 4) AND 0x7FFF,
      (drop_bit 22 (encode 4) OR push_bit 10 (encode 5)) AND 0x7FFF, drop_bit 5 (encode 5) AND 0x7FFF,
      (drop_bit 20 (encode 5) OR push_bit 12 (encode 6)) AND 0x7FFF, drop_bit 3 (encode 6) AND 0x7FFF,
      (drop_bit 18 (encode 6) OR push_bit 14 (encode 7)) AND 0x7FFF, drop_bit 1 (encode 7) AND 0x7FFF,
      drop_bit 16 (encode 7) AND 0x7FFF, (drop_bit 31 (encode 7) OR push_bit 1 (encode 8)) AND 0x7FFF,
      drop_bit 14 (encode 8) AND 0x7FFF, (drop_bit 29 (encode 8) OR push_bit 3 (encode 9)) AND 0x7FFF,
      drop_bit 12 (encode 9) AND 0x7FFF, (drop_bit 27 (encode 9) OR push_bit 5 (encode 10)) AND 0x7FFF,
      drop_bit 10 (encode 10) AND 0x7FFF, (drop_bit 25 (encode 10) OR push_bit 7 (encode 11)) AND 0x7FFF,
      drop_bit 8 (encode 11) AND 0x7FFF, (drop_bit 23 (encode 11) OR push_bit 9 (encode 12)) AND 0x7FFF,
      drop_bit 6 (encode 12) AND 0x7FFF, (drop_bit 21 (encode 12) OR push_bit 11 (encode 13)) AND 0x7FFF,
      drop_bit 4 (encode 13) AND 0x7FFF, (drop_bit 19 (encode 13) OR push_bit 13 (encode 14)) AND 0x7FFF,
      drop_bit 2 (encode 14) AND 0x7FFF, drop_bit 17 (encode 14) AND 0x7FFF]"

definition unpack_16_block :: "(nat \<Rightarrow> u32) \<Rightarrow> u32 list" where
  "unpack_16_block encode =
     [encode 0 AND 0xFFFF, drop_bit 16 (encode 0) AND 0xFFFF, encode 1 AND 0xFFFF, drop_bit 16 (encode 1) AND 0xFFFF,
      encode 2 AND 0xFFFF, drop_bit 16 (encode 2) AND 0xFFFF, encode 3 AND 0xFFFF, drop_bit 16 (encode 3) AND 0xFFFF,
      encode 4 AND 0xFFFF, drop_bit 16 (encode 4) AND 0xFFFF, encode 5 AND 0xFFFF, drop_bit 16 (encode 5) AND 0xFFFF,
      encode 6 AND 0xFFFF, drop_bit 16 (encode 6) AND 0xFFFF, encode 7 AND 0xFFFF, drop_bit 16 (encode 7) AND 0xFFFF,
      encode 8 AND 0xFFFF, drop_bit 16 (encode 8) AND 0xFFFF, encode 9 AND 0xFFFF, drop_bit 16 (encode 9) AND 0xFFFF,
      encode 10 AND 0xFFFF, drop_bit 16 (encode 10) AND 0xFFFF, encode 11 AND 0xFFFF,
      drop_bit 16 (encode 11) AND 0xFFFF, encode 12 AND 0xFFFF, drop_bit 16 (encode 12) AND 0xFFFF,
      encode 13 AND 0xFFFF, drop_bit 16 (encode 13) AND 0xFFFF, encode 14 AND 0xFFFF,
      drop_bit 16 (encode 14) AND 0xFFFF, encode 15 AND 0xFFFF, drop_bit 16 (encode 15) AND 0xFFFF]"

definition unpack_17_block :: "(nat \<Rightarrow> u32) \<Rightarrow> u32 list" where
  "unpack_17_block encode =
     [encode 0 AND 0x1FFFF, (drop_bit 17 (encode 0) OR push_bit 15 (encode 1)) AND 0x1FFFF,
      drop_bit 2 (encode 1) AND 0x1FFFF, (drop_bit 19 (encode 1) OR push_bit 13 (encode 2)) AND 0x1FFFF,
      drop_bit 4 (encode 2) AND 0x1FFFF, (drop_bit 21 (encode 2) OR push_bit 11 (encode 3)) AND 0x1FFFF,
      drop_bit 6 (encode 3) AND 0x1FFFF, (drop_bit 23 (encode 3) OR push_bit 9 (encode 4)) AND 0x1FFFF,
      drop_bit 8 (encode 4) AND 0x1FFFF, (drop_bit 25 (encode 4) OR push_bit 7 (encode 5)) AND 0x1FFFF,
      drop_bit 10 (encode 5) AND 0x1FFFF, (drop_bit 27 (encode 5) OR push_bit 5 (encode 6)) AND 0x1FFFF,
      drop_bit 12 (encode 6) AND 0x1FFFF, (drop_bit 29 (encode 6) OR push_bit 3 (encode 7)) AND 0x1FFFF,
      drop_bit 14 (encode 7) AND 0x1FFFF, (drop_bit 31 (encode 7) OR push_bit 1 (encode 8)) AND 0x1FFFF,
      (drop_bit 16 (encode 8) OR push_bit 16 (encode 9)) AND 0x1FFFF, drop_bit 1 (encode 9) AND 0x1FFFF,
      (drop_bit 18 (encode 9) OR push_bit 14 (encode 10)) AND 0x1FFFF, drop_bit 3 (encode 10) AND 0x1FFFF,
      (drop_bit 20 (encode 10) OR push_bit 12 (encode 11)) AND 0x1FFFF, drop_bit 5 (encode 11) AND 0x1FFFF,
      (drop_bit 22 (encode 11) OR push_bit 10 (encode 12)) AND 0x1FFFF, drop_bit 7 (encode 12) AND 0x1FFFF,
      (drop_bit 24 (encode 12) OR push_bit 8 (encode 13)) AND 0x1FFFF, drop_bit 9 (encode 13) AND 0x1FFFF,
      (drop_bit 26 (encode 13) OR push_bit 6 (encode 14)) AND 0x1FFFF, drop_bit 11 (encode 14) AND 0x1FFFF,
      (drop_bit 28 (encode 14) OR push_bit 4 (encode 15)) AND 0x1FFFF, drop_bit 13 (encode 15) AND 0x1FFFF,
      (drop_bit 30 (encode 15) OR push_bit 2 (encode 16)) AND 0x1FFFF, drop_bit 15 (encode 16) AND 0x1FFFF]"

definition unpack_18_block :: "(nat \<Rightarrow> u32) \<Rightarrow> u32 list" where
  "unpack_18_block encode =
     [encode 0 AND 0x3FFFF, (drop_bit 18 (encode 0) OR push_bit 14 (encode 1)) AND 0x3FFFF,
      drop_bit 4 (encode 1) AND 0x3FFFF, (drop_bit 22 (encode 1) OR push_bit 10 (encode 2)) AND 0x3FFFF,
      drop_bit 8 (encode 2) AND 0x3FFFF, (drop_bit 26 (encode 2) OR push_bit 6 (encode 3)) AND 0x3FFFF,
      drop_bit 12 (encode 3) AND 0x3FFFF, (drop_bit 30 (encode 3) OR push_bit 2 (encode 4)) AND 0x3FFFF,
      (drop_bit 16 (encode 4) OR push_bit 16 (encode 5)) AND 0x3FFFF, drop_bit 2 (encode 5) AND 0x3FFFF,
      (drop_bit 20 (encode 5) OR push_bit 12 (encode 6)) AND 0x3FFFF, drop_bit 6 (encode 6) AND 0x3FFFF,
      (drop_bit 24 (encode 6) OR push_bit 8 (encode 7)) AND 0x3FFFF, drop_bit 10 (encode 7) AND 0x3FFFF,
      (drop_bit 28 (encode 7) OR push_bit 4 (encode 8)) AND 0x3FFFF, drop_bit 14 (encode 8) AND 0x3FFFF,
      encode 9 AND 0x3FFFF, (drop_bit 18 (encode 9) OR push_bit 14 (encode 10)) AND 0x3FFFF,
      drop_bit 4 (encode 10) AND 0x3FFFF, (drop_bit 22 (encode 10) OR push_bit 10 (encode 11)) AND 0x3FFFF,
      drop_bit 8 (encode 11) AND 0x3FFFF, (drop_bit 26 (encode 11) OR push_bit 6 (encode 12)) AND 0x3FFFF,
      drop_bit 12 (encode 12) AND 0x3FFFF, (drop_bit 30 (encode 12) OR push_bit 2 (encode 13)) AND 0x3FFFF,
      (drop_bit 16 (encode 13) OR push_bit 16 (encode 14)) AND 0x3FFFF, drop_bit 2 (encode 14) AND 0x3FFFF,
      (drop_bit 20 (encode 14) OR push_bit 12 (encode 15)) AND 0x3FFFF, drop_bit 6 (encode 15) AND 0x3FFFF,
      (drop_bit 24 (encode 15) OR push_bit 8 (encode 16)) AND 0x3FFFF, drop_bit 10 (encode 16) AND 0x3FFFF,
      (drop_bit 28 (encode 16) OR push_bit 4 (encode 17)) AND 0x3FFFF, drop_bit 14 (encode 17) AND 0x3FFFF]"

definition unpack_19_block :: "(nat \<Rightarrow> u32) \<Rightarrow> u32 list" where
  "unpack_19_block encode =
     [encode 0 AND 0x7FFFF, (drop_bit 19 (encode 0) OR push_bit 13 (encode 1)) AND 0x7FFFF,
      drop_bit 6 (encode 1) AND 0x7FFFF, (drop_bit 25 (encode 1) OR push_bit 7 (encode 2)) AND 0x7FFFF,
      drop_bit 12 (encode 2) AND 0x7FFFF, (drop_bit 31 (encode 2) OR push_bit 1 (encode 3)) AND 0x7FFFF,
      (drop_bit 18 (encode 3) OR push_bit 14 (encode 4)) AND 0x7FFFF, drop_bit 5 (encode 4) AND 0x7FFFF,
      (drop_bit 24 (encode 4) OR push_bit 8 (encode 5)) AND 0x7FFFF, drop_bit 11 (encode 5) AND 0x7FFFF,
      (drop_bit 30 (encode 5) OR push_bit 2 (encode 6)) AND 0x7FFFF,
      (drop_bit 17 (encode 6) OR push_bit 15 (encode 7)) AND 0x7FFFF, drop_bit 4 (encode 7) AND 0x7FFFF,
      (drop_bit 23 (encode 7) OR push_bit 9 (encode 8)) AND 0x7FFFF, drop_bit 10 (encode 8) AND 0x7FFFF,
      (drop_bit 29 (encode 8) OR push_bit 3 (encode 9)) AND 0x7FFFF,
      (drop_bit 16 (encode 9) OR push_bit 16 (encode 10)) AND 0x7FFFF, drop_bit 3 (encode 10) AND 0x7FFFF,
      (drop_bit 22 (encode 10) OR push_bit 10 (encode 11)) AND 0x7FFFF, drop_bit 9 (encode 11) AND 0x7FFFF,
      (drop_bit 28 (encode 11) OR push_bit 4 (encode 12)) AND 0x7FFFF,
      (drop_bit 15 (encode 12) OR push_bit 17 (encode 13)) AND 0x7FFFF, drop_bit 2 (encode 13) AND 0x7FFFF,
      (drop_bit 21 (encode 13) OR push_bit 11 (encode 14)) AND 0x7FFFF, drop_bit 8 (encode 14) AND 0x7FFFF,
      (drop_bit 27 (encode 14) OR push_bit 5 (encode 15)) AND 0x7FFFF,
      (drop_bit 14 (encode 15) OR push_bit 18 (encode 16)) AND 0x7FFFF, drop_bit 1 (encode 16) AND 0x7FFFF,
      (drop_bit 20 (encode 16) OR push_bit 12 (encode 17)) AND 0x7FFFF, drop_bit 7 (encode 17) AND 0x7FFFF,
      (drop_bit 26 (encode 17) OR push_bit 6 (encode 18)) AND 0x7FFFF, drop_bit 13 (encode 18) AND 0x7FFFF]"

definition unpack_20_block :: "(nat \<Rightarrow> u32) \<Rightarrow> u32 list" where
  "unpack_20_block encode =
     [encode 0 AND 0xFFFFF, (drop_bit 20 (encode 0) OR push_bit 12 (encode 1)) AND 0xFFFFF,
      drop_bit 8 (encode 1) AND 0xFFFFF, (drop_bit 28 (encode 1) OR push_bit 4 (encode 2)) AND 0xFFFFF,
      (drop_bit 16 (encode 2) OR push_bit 16 (encode 3)) AND 0xFFFFF, drop_bit 4 (encode 3) AND 0xFFFFF,
      (drop_bit 24 (encode 3) OR push_bit 8 (encode 4)) AND 0xFFFFF, drop_bit 12 (encode 4) AND 0xFFFFF,
      encode 5 AND 0xFFFFF, (drop_bit 20 (encode 5) OR push_bit 12 (encode 6)) AND 0xFFFFF,
      drop_bit 8 (encode 6) AND 0xFFFFF, (drop_bit 28 (encode 6) OR push_bit 4 (encode 7)) AND 0xFFFFF,
      (drop_bit 16 (encode 7) OR push_bit 16 (encode 8)) AND 0xFFFFF, drop_bit 4 (encode 8) AND 0xFFFFF,
      (drop_bit 24 (encode 8) OR push_bit 8 (encode 9)) AND 0xFFFFF, drop_bit 12 (encode 9) AND 0xFFFFF,
      encode 10 AND 0xFFFFF, (drop_bit 20 (encode 10) OR push_bit 12 (encode 11)) AND 0xFFFFF,
      drop_bit 8 (encode 11) AND 0xFFFFF, (drop_bit 28 (encode 11) OR push_bit 4 (encode 12)) AND 0xFFFFF,
      (drop_bit 16 (encode 12) OR push_bit 16 (encode 13)) AND 0xFFFFF, drop_bit 4 (encode 13) AND 0xFFFFF,
      (drop_bit 24 (encode 13) OR push_bit 8 (encode 14)) AND 0xFFFFF, drop_bit 12 (encode 14) AND 0xFFFFF,
      encode 15 AND 0xFFFFF, (drop_bit 20 (encode 15) OR push_bit 12 (encode 16)) AND 0xFFFFF,
      drop_bit 8 (encode 16) AND 0xFFFFF, (drop_bit 28 (encode 16) OR push_bit 4 (encode 17)) AND 0xFFFFF,
      (drop_bit 16 (encode 17) OR push_bit 16 (encode 18)) AND 0xFFFFF, drop_bit 4 (encode 18) AND 0xFFFFF,
      (drop_bit 24 (encode 18) OR push_bit 8 (encode 19)) AND 0xFFFFF, drop_bit 12 (encode 19) AND 0xFFFFF]"

definition unpack_21_block :: "(nat \<Rightarrow> u32) \<Rightarrow> u32 list" where
  "unpack_21_block encode =
     [encode 0 AND 0x1FFFFF, (drop_bit 21 (encode 0) OR push_bit 11 (encode 1)) AND 0x1FFFFF,
      drop_bit 10 (encode 1) AND 0x1FFFFF, (drop_bit 31 (encode 1) OR push_bit 1 (encode 2)) AND 0x1FFFFF,
      (drop_bit 20 (encode 2) OR push_bit 12 (encode 3)) AND 0x1FFFFF, drop_bit 9 (encode 3) AND 0x1FFFFF,
      (drop_bit 30 (encode 3) OR push_bit 2 (encode 4)) AND 0x1FFFFF,
      (drop_bit 19 (encode 4) OR push_bit 13 (encode 5)) AND 0x1FFFFF, drop_bit 8 (encode 5) AND 0x1FFFFF,
      (drop_bit 29 (encode 5) OR push_bit 3 (encode 6)) AND 0x1FFFFF,
      (drop_bit 18 (encode 6) OR push_bit 14 (encode 7)) AND 0x1FFFFF, drop_bit 7 (encode 7) AND 0x1FFFFF,
      (drop_bit 28 (encode 7) OR push_bit 4 (encode 8)) AND 0x1FFFFF,
      (drop_bit 17 (encode 8) OR push_bit 15 (encode 9)) AND 0x1FFFFF, drop_bit 6 (encode 9) AND 0x1FFFFF,
      (drop_bit 27 (encode 9) OR push_bit 5 (encode 10)) AND 0x1FFFFF,
      (drop_bit 16 (encode 10) OR push_bit 16 (encode 11)) AND 0x1FFFFF, drop_bit 5 (encode 11) AND 0x1FFFFF,
      (drop_bit 26 (encode 11) OR push_bit 6 (encode 12)) AND 0x1FFFFF,
      (drop_bit 15 (encode 12) OR push_bit 17 (encode 13)) AND 0x1FFFFF, drop_bit 4 (encode 13) AND 0x1FFFFF,
      (drop_bit 25 (encode 13) OR push_bit 7 (encode 14)) AND 0x1FFFFF,
      (drop_bit 14 (encode 14) OR push_bit 18 (encode 15)) AND 0x1FFFFF, drop_bit 3 (encode 15) AND 0x1FFFFF,
      (drop_bit 24 (encode 15) OR push_bit 8 (encode 16)) AND 0x1FFFFF,
      (drop_bit 13 (encode 16) OR push_bit 19 (encode 17)) AND 0x1FFFFF, drop_bit 2 (encode 17) AND 0x1FFFFF,
      (drop_bit 23 (encode 17) OR push_bit 9 (encode 18)) AND 0x1FFFFF,
      (drop_bit 12 (encode 18) OR push_bit 20 (encode 19)) AND 0x1FFFFF, drop_bit 1 (encode 19) AND 0x1FFFFF,
      (drop_bit 22 (encode 19) OR push_bit 10 (encode 20)) AND 0x1FFFFF, drop_bit 11 (encode 20) AND 0x1FFFFF]"

definition unpack_22_block :: "(nat \<Rightarrow> u32) \<Rightarrow> u32 list" where
  "unpack_22_block encode =
     [encode 0 AND 0x3FFFFF, (drop_bit 22 (encode 0) OR push_bit 10 (encode 1)) AND 0x3FFFFF,
      (drop_bit 12 (encode 1) OR push_bit 20 (encode 2)) AND 0x3FFFFF, drop_bit 2 (encode 2) AND 0x3FFFFF,
      (drop_bit 24 (encode 2) OR push_bit 8 (encode 3)) AND 0x3FFFFF,
      (drop_bit 14 (encode 3) OR push_bit 18 (encode 4)) AND 0x3FFFFF, drop_bit 4 (encode 4) AND 0x3FFFFF,
      (drop_bit 26 (encode 4) OR push_bit 6 (encode 5)) AND 0x3FFFFF,
      (drop_bit 16 (encode 5) OR push_bit 16 (encode 6)) AND 0x3FFFFF, drop_bit 6 (encode 6) AND 0x3FFFFF,
      (drop_bit 28 (encode 6) OR push_bit 4 (encode 7)) AND 0x3FFFFF,
      (drop_bit 18 (encode 7) OR push_bit 14 (encode 8)) AND 0x3FFFFF, drop_bit 8 (encode 8) AND 0x3FFFFF,
      (drop_bit 30 (encode 8) OR push_bit 2 (encode 9)) AND 0x3FFFFF,
      (drop_bit 20 (encode 9) OR push_bit 12 (encode 10)) AND 0x3FFFFF, drop_bit 10 (encode 10) AND 0x3FFFFF,
      encode 11 AND 0x3FFFFF, (drop_bit 22 (encode 11) OR push_bit 10 (encode 12)) AND 0x3FFFFF,
      (drop_bit 12 (encode 12) OR push_bit 20 (encode 13)) AND 0x3FFFFF, drop_bit 2 (encode 13) AND 0x3FFFFF,
      (drop_bit 24 (encode 13) OR push_bit 8 (encode 14)) AND 0x3FFFFF,
      (drop_bit 14 (encode 14) OR push_bit 18 (encode 15)) AND 0x3FFFFF, drop_bit 4 (encode 15) AND 0x3FFFFF,
      (drop_bit 26 (encode 15) OR push_bit 6 (encode 16)) AND 0x3FFFFF,
      (drop_bit 16 (encode 16) OR push_bit 16 (encode 17)) AND 0x3FFFFF, drop_bit 6 (encode 17) AND 0x3FFFFF,
      (drop_bit 28 (encode 17) OR push_bit 4 (encode 18)) AND 0x3FFFFF,
      (drop_bit 18 (encode 18) OR push_bit 14 (encode 19)) AND 0x3FFFFF, drop_bit 8 (encode 19) AND 0x3FFFFF,
      (drop_bit 30 (encode 19) OR push_bit 2 (encode 20)) AND 0x3FFFFF,
      (drop_bit 20 (encode 20) OR push_bit 12 (encode 21)) AND 0x3FFFFF, drop_bit 10 (encode 21) AND 0x3FFFFF]"

definition unpack_23_block :: "(nat \<Rightarrow> u32) \<Rightarrow> u32 list" where
  "unpack_23_block encode =
     [encode 0 AND 0x7FFFFF, (drop_bit 23 (encode 0) OR push_bit 9 (encode 1)) AND 0x7FFFFF,
      (drop_bit 14 (encode 1) OR push_bit 18 (encode 2)) AND 0x7FFFFF, drop_bit 5 (encode 2) AND 0x7FFFFF,
      (drop_bit 28 (encode 2) OR push_bit 4 (encode 3)) AND 0x7FFFFF,
      (drop_bit 19 (encode 3) OR push_bit 13 (encode 4)) AND 0x7FFFFF,
      (drop_bit 10 (encode 4) OR push_bit 22 (encode 5)) AND 0x7FFFFF, drop_bit 1 (encode 5) AND 0x7FFFFF,
      (drop_bit 24 (encode 5) OR push_bit 8 (encode 6)) AND 0x7FFFFF,
      (drop_bit 15 (encode 6) OR push_bit 17 (encode 7)) AND 0x7FFFFF, drop_bit 6 (encode 7) AND 0x7FFFFF,
      (drop_bit 29 (encode 7) OR push_bit 3 (encode 8)) AND 0x7FFFFF,
      (drop_bit 20 (encode 8) OR push_bit 12 (encode 9)) AND 0x7FFFFF,
      (drop_bit 11 (encode 9) OR push_bit 21 (encode 10)) AND 0x7FFFFF, drop_bit 2 (encode 10) AND 0x7FFFFF,
      (drop_bit 25 (encode 10) OR push_bit 7 (encode 11)) AND 0x7FFFFF,
      (drop_bit 16 (encode 11) OR push_bit 16 (encode 12)) AND 0x7FFFFF, drop_bit 7 (encode 12) AND 0x7FFFFF,
      (drop_bit 30 (encode 12) OR push_bit 2 (encode 13)) AND 0x7FFFFF,
      (drop_bit 21 (encode 13) OR push_bit 11 (encode 14)) AND 0x7FFFFF,
      (drop_bit 12 (encode 14) OR push_bit 20 (encode 15)) AND 0x7FFFFF, drop_bit 3 (encode 15) AND 0x7FFFFF,
      (drop_bit 26 (encode 15) OR push_bit 6 (encode 16)) AND 0x7FFFFF,
      (drop_bit 17 (encode 16) OR push_bit 15 (encode 17)) AND 0x7FFFFF, drop_bit 8 (encode 17) AND 0x7FFFFF,
      (drop_bit 31 (encode 17) OR push_bit 1 (encode 18)) AND 0x7FFFFF,
      (drop_bit 22 (encode 18) OR push_bit 10 (encode 19)) AND 0x7FFFFF,
      (drop_bit 13 (encode 19) OR push_bit 19 (encode 20)) AND 0x7FFFFF, drop_bit 4 (encode 20) AND 0x7FFFFF,
      (drop_bit 27 (encode 20) OR push_bit 5 (encode 21)) AND 0x7FFFFF,
      (drop_bit 18 (encode 21) OR push_bit 14 (encode 22)) AND 0x7FFFFF, drop_bit 9 (encode 22) AND 0x7FFFFF]"

definition unpack_24_block :: "(nat \<Rightarrow> u32) \<Rightarrow> u32 list" where
  "unpack_24_block encode =
     [encode 0 AND 0xFFFFFF, (drop_bit 24 (encode 0) OR push_bit 8 (encode 1)) AND 0xFFFFFF,
      (drop_bit 16 (encode 1) OR push_bit 16 (encode 2)) AND 0xFFFFFF, drop_bit 8 (encode 2) AND 0xFFFFFF,
      encode 3 AND 0xFFFFFF, (drop_bit 24 (encode 3) OR push_bit 8 (encode 4)) AND 0xFFFFFF,
      (drop_bit 16 (encode 4) OR push_bit 16 (encode 5)) AND 0xFFFFFF, drop_bit 8 (encode 5) AND 0xFFFFFF,
      encode 6 AND 0xFFFFFF, (drop_bit 24 (encode 6) OR push_bit 8 (encode 7)) AND 0xFFFFFF,
      (drop_bit 16 (encode 7) OR push_bit 16 (encode 8)) AND 0xFFFFFF, drop_bit 8 (encode 8) AND 0xFFFFFF,
      encode 9 AND 0xFFFFFF, (drop_bit 24 (encode 9) OR push_bit 8 (encode 10)) AND 0xFFFFFF,
      (drop_bit 16 (encode 10) OR push_bit 16 (encode 11)) AND 0xFFFFFF, drop_bit 8 (encode 11) AND 0xFFFFFF,
      encode 12 AND 0xFFFFFF, (drop_bit 24 (encode 12) OR push_bit 8 (encode 13)) AND 0xFFFFFF,
      (drop_bit 16 (encode 13) OR push_bit 16 (encode 14)) AND 0xFFFFFF, drop_bit 8 (encode 14) AND 0xFFFFFF,
      encode 15 AND 0xFFFFFF, (drop_bit 24 (encode 15) OR push_bit 8 (encode 16)) AND 0xFFFFFF,
      (drop_bit 16 (encode 16) OR push_bit 16 (encode 17)) AND 0xFFFFFF, drop_bit 8 (encode 17) AND 0xFFFFFF,
      encode 18 AND 0xFFFFFF, (drop_bit 24 (encode 18) OR push_bit 8 (encode 19)) AND 0xFFFFFF,
      (drop_bit 16 (encode 19) OR push_bit 16 (encode 20)) AND 0xFFFFFF, drop_bit 8 (encode 20) AND 0xFFFFFF,
      encode 21 AND 0xFFFFFF, (drop_bit 24 (encode 21) OR push_bit 8 (encode 22)) AND 0xFFFFFF,
      (drop_bit 16 (encode 22) OR push_bit 16 (encode 23)) AND 0xFFFFFF, drop_bit 8 (encode 23) AND 0xFFFFFF]"

definition unpack_25_block :: "(nat \<Rightarrow> u32) \<Rightarrow> u32 list" where
  "unpack_25_block encode =
     [encode 0 AND 0x1FFFFFF, (drop_bit 25 (encode 0) OR push_bit 7 (encode 1)) AND 0x1FFFFFF,
      (drop_bit 18 (encode 1) OR push_bit 14 (encode 2)) AND 0x1FFFFFF,
      (drop_bit 11 (encode 2) OR push_bit 21 (encode 3)) AND 0x1FFFFFF, drop_bit 4 (encode 3) AND 0x1FFFFFF,
      (drop_bit 29 (encode 3) OR push_bit 3 (encode 4)) AND 0x1FFFFFF,
      (drop_bit 22 (encode 4) OR push_bit 10 (encode 5)) AND 0x1FFFFFF,
      (drop_bit 15 (encode 5) OR push_bit 17 (encode 6)) AND 0x1FFFFFF,
      (drop_bit 8 (encode 6) OR push_bit 24 (encode 7)) AND 0x1FFFFFF, drop_bit 1 (encode 7) AND 0x1FFFFFF,
      (drop_bit 26 (encode 7) OR push_bit 6 (encode 8)) AND 0x1FFFFFF,
      (drop_bit 19 (encode 8) OR push_bit 13 (encode 9)) AND 0x1FFFFFF,
      (drop_bit 12 (encode 9) OR push_bit 20 (encode 10)) AND 0x1FFFFFF, drop_bit 5 (encode 10) AND 0x1FFFFFF,
      (drop_bit 30 (encode 10) OR push_bit 2 (encode 11)) AND 0x1FFFFFF,
      (drop_bit 23 (encode 11) OR push_bit 9 (encode 12)) AND 0x1FFFFFF,
      (drop_bit 16 (encode 12) OR push_bit 16 (encode 13)) AND 0x1FFFFFF,
      (drop_bit 9 (encode 13) OR push_bit 23 (encode 14)) AND 0x1FFFFFF, drop_bit 2 (encode 14) AND 0x1FFFFFF,
      (drop_bit 27 (encode 14) OR push_bit 5 (encode 15)) AND 0x1FFFFFF,
      (drop_bit 20 (encode 15) OR push_bit 12 (encode 16)) AND 0x1FFFFFF,
      (drop_bit 13 (encode 16) OR push_bit 19 (encode 17)) AND 0x1FFFFFF, drop_bit 6 (encode 17) AND 0x1FFFFFF,
      (drop_bit 31 (encode 17) OR push_bit 1 (encode 18)) AND 0x1FFFFFF,
      (drop_bit 24 (encode 18) OR push_bit 8 (encode 19)) AND 0x1FFFFFF,
      (drop_bit 17 (encode 19) OR push_bit 15 (encode 20)) AND 0x1FFFFFF,
      (drop_bit 10 (encode 20) OR push_bit 22 (encode 21)) AND 0x1FFFFFF, drop_bit 3 (encode 21) AND 0x1FFFFFF,
      (drop_bit 28 (encode 21) OR push_bit 4 (encode 22)) AND 0x1FFFFFF,
      (drop_bit 21 (encode 22) OR push_bit 11 (encode 23)) AND 0x1FFFFFF,
      (drop_bit 14 (encode 23) OR push_bit 18 (encode 24)) AND 0x1FFFFFF, drop_bit 7 (encode 24) AND 0x1FFFFFF]"

definition unpack_26_block :: "(nat \<Rightarrow> u32) \<Rightarrow> u32 list" where
  "unpack_26_block encode =
     [encode 0 AND 0x3FFFFFF, (drop_bit 26 (encode 0) OR push_bit 6 (encode 1)) AND 0x3FFFFFF,
      (drop_bit 20 (encode 1) OR push_bit 12 (encode 2)) AND 0x3FFFFFF,
      (drop_bit 14 (encode 2) OR push_bit 18 (encode 3)) AND 0x3FFFFFF,
      (drop_bit 8 (encode 3) OR push_bit 24 (encode 4)) AND 0x3FFFFFF, drop_bit 2 (encode 4) AND 0x3FFFFFF,
      (drop_bit 28 (encode 4) OR push_bit 4 (encode 5)) AND 0x3FFFFFF,
      (drop_bit 22 (encode 5) OR push_bit 10 (encode 6)) AND 0x3FFFFFF,
      (drop_bit 16 (encode 6) OR push_bit 16 (encode 7)) AND 0x3FFFFFF,
      (drop_bit 10 (encode 7) OR push_bit 22 (encode 8)) AND 0x3FFFFFF, drop_bit 4 (encode 8) AND 0x3FFFFFF,
      (drop_bit 30 (encode 8) OR push_bit 2 (encode 9)) AND 0x3FFFFFF,
      (drop_bit 24 (encode 9) OR push_bit 8 (encode 10)) AND 0x3FFFFFF,
      (drop_bit 18 (encode 10) OR push_bit 14 (encode 11)) AND 0x3FFFFFF,
      (drop_bit 12 (encode 11) OR push_bit 20 (encode 12)) AND 0x3FFFFFF, drop_bit 6 (encode 12) AND 0x3FFFFFF,
      encode 13 AND 0x3FFFFFF, (drop_bit 26 (encode 13) OR push_bit 6 (encode 14)) AND 0x3FFFFFF,
      (drop_bit 20 (encode 14) OR push_bit 12 (encode 15)) AND 0x3FFFFFF,
      (drop_bit 14 (encode 15) OR push_bit 18 (encode 16)) AND 0x3FFFFFF,
      (drop_bit 8 (encode 16) OR push_bit 24 (encode 17)) AND 0x3FFFFFF, drop_bit 2 (encode 17) AND 0x3FFFFFF,
      (drop_bit 28 (encode 17) OR push_bit 4 (encode 18)) AND 0x3FFFFFF,
      (drop_bit 22 (encode 18) OR push_bit 10 (encode 19)) AND 0x3FFFFFF,
      (drop_bit 16 (encode 19) OR push_bit 16 (encode 20)) AND 0x3FFFFFF,
      (drop_bit 10 (encode 20) OR push_bit 22 (encode 21)) AND 0x3FFFFFF, drop_bit 4 (encode 21) AND 0x3FFFFFF,
      (drop_bit 30 (encode 21) OR push_bit 2 (encode 22)) AND 0x3FFFFFF,
      (drop_bit 24 (encode 22) OR push_bit 8 (encode 23)) AND 0x3FFFFFF,
      (drop_bit 18 (encode 23) OR push_bit 14 (encode 24)) AND 0x3FFFFFF,
      (drop_bit 12 (encode 24) OR push_bit 20 (encode 25)) AND 0x3FFFFFF, drop_bit 6 (encode 25) AND 0x3FFFFFF]"

definition unpack_27_block :: "(nat \<Rightarrow> u32) \<Rightarrow> u32 list" where
  "unpack_27_block encode =
     [encode 0 AND 0x7FFFFFF, (drop_bit 27 (encode 0) OR push_bit 5 (encode 1)) AND 0x7FFFFFF,
      (drop_bit 22 (encode 1) OR push_bit 10 (encode 2)) AND 0x7FFFFFF,
      (drop_bit 17 (encode 2) OR push_bit 15 (encode 3)) AND 0x7FFFFFF,
      (drop_bit 12 (encode 3) OR push_bit 20 (encode 4)) AND 0x7FFFFFF,
      (drop_bit 7 (encode 4) OR push_bit 25 (encode 5)) AND 0x7FFFFFF, drop_bit 2 (encode 5) AND 0x7FFFFFF,
      (drop_bit 29 (encode 5) OR push_bit 3 (encode 6)) AND 0x7FFFFFF,
      (drop_bit 24 (encode 6) OR push_bit 8 (encode 7)) AND 0x7FFFFFF,
      (drop_bit 19 (encode 7) OR push_bit 13 (encode 8)) AND 0x7FFFFFF,
      (drop_bit 14 (encode 8) OR push_bit 18 (encode 9)) AND 0x7FFFFFF,
      (drop_bit 9 (encode 9) OR push_bit 23 (encode 10)) AND 0x7FFFFFF, drop_bit 4 (encode 10) AND 0x7FFFFFF,
      (drop_bit 31 (encode 10) OR push_bit 1 (encode 11)) AND 0x7FFFFFF,
      (drop_bit 26 (encode 11) OR push_bit 6 (encode 12)) AND 0x7FFFFFF,
      (drop_bit 21 (encode 12) OR push_bit 11 (encode 13)) AND 0x7FFFFFF,
      (drop_bit 16 (encode 13) OR push_bit 16 (encode 14)) AND 0x7FFFFFF,
      (drop_bit 11 (encode 14) OR push_bit 21 (encode 15)) AND 0x7FFFFFF,
      (drop_bit 6 (encode 15) OR push_bit 26 (encode 16)) AND 0x7FFFFFF, drop_bit 1 (encode 16) AND 0x7FFFFFF,
      (drop_bit 28 (encode 16) OR push_bit 4 (encode 17)) AND 0x7FFFFFF,
      (drop_bit 23 (encode 17) OR push_bit 9 (encode 18)) AND 0x7FFFFFF,
      (drop_bit 18 (encode 18) OR push_bit 14 (encode 19)) AND 0x7FFFFFF,
      (drop_bit 13 (encode 19) OR push_bit 19 (encode 20)) AND 0x7FFFFFF,
      (drop_bit 8 (encode 20) OR push_bit 24 (encode 21)) AND 0x7FFFFFF, drop_bit 3 (encode 21) AND 0x7FFFFFF,
      (drop_bit 30 (encode 21) OR push_bit 2 (encode 22)) AND 0x7FFFFFF,
      (drop_bit 25 (encode 22) OR push_bit 7 (encode 23)) AND 0x7FFFFFF,
      (drop_bit 20 (encode 23) OR push_bit 12 (encode 24)) AND 0x7FFFFFF,
      (drop_bit 15 (encode 24) OR push_bit 17 (encode 25)) AND 0x7FFFFFF,
      (drop_bit 10 (encode 25) OR push_bit 22 (encode 26)) AND 0x7FFFFFF, drop_bit 5 (encode 26) AND 0x7FFFFFF]"

definition unpack_28_block :: "(nat \<Rightarrow> u32) \<Rightarrow> u32 list" where
  "unpack_28_block encode =
     [encode 0 AND 0xFFFFFFF, (drop_bit 28 (encode 0) OR push_bit 4 (encode 1)) AND 0xFFFFFFF,
      (drop_bit 24 (encode 1) OR push_bit 8 (encode 2)) AND 0xFFFFFFF,
      (drop_bit 20 (encode 2) OR push_bit 12 (encode 3)) AND 0xFFFFFFF,
      (drop_bit 16 (encode 3) OR push_bit 16 (encode 4)) AND 0xFFFFFFF,
      (drop_bit 12 (encode 4) OR push_bit 20 (encode 5)) AND 0xFFFFFFF,
      (drop_bit 8 (encode 5) OR push_bit 24 (encode 6)) AND 0xFFFFFFF, drop_bit 4 (encode 6) AND 0xFFFFFFF,
      encode 7 AND 0xFFFFFFF, (drop_bit 28 (encode 7) OR push_bit 4 (encode 8)) AND 0xFFFFFFF,
      (drop_bit 24 (encode 8) OR push_bit 8 (encode 9)) AND 0xFFFFFFF,
      (drop_bit 20 (encode 9) OR push_bit 12 (encode 10)) AND 0xFFFFFFF,
      (drop_bit 16 (encode 10) OR push_bit 16 (encode 11)) AND 0xFFFFFFF,
      (drop_bit 12 (encode 11) OR push_bit 20 (encode 12)) AND 0xFFFFFFF,
      (drop_bit 8 (encode 12) OR push_bit 24 (encode 13)) AND 0xFFFFFFF, drop_bit 4 (encode 13) AND 0xFFFFFFF,
      encode 14 AND 0xFFFFFFF, (drop_bit 28 (encode 14) OR push_bit 4 (encode 15)) AND 0xFFFFFFF,
      (drop_bit 24 (encode 15) OR push_bit 8 (encode 16)) AND 0xFFFFFFF,
      (drop_bit 20 (encode 16) OR push_bit 12 (encode 17)) AND 0xFFFFFFF,
      (drop_bit 16 (encode 17) OR push_bit 16 (encode 18)) AND 0xFFFFFFF,
      (drop_bit 12 (encode 18) OR push_bit 20 (encode 19)) AND 0xFFFFFFF,
      (drop_bit 8 (encode 19) OR push_bit 24 (encode 20)) AND 0xFFFFFFF, drop_bit 4 (encode 20) AND 0xFFFFFFF,
      encode 21 AND 0xFFFFFFF, (drop_bit 28 (encode 21) OR push_bit 4 (encode 22)) AND 0xFFFFFFF,
      (drop_bit 24 (encode 22) OR push_bit 8 (encode 23)) AND 0xFFFFFFF,
      (drop_bit 20 (encode 23) OR push_bit 12 (encode 24)) AND 0xFFFFFFF,
      (drop_bit 16 (encode 24) OR push_bit 16 (encode 25)) AND 0xFFFFFFF,
      (drop_bit 12 (encode 25) OR push_bit 20 (encode 26)) AND 0xFFFFFFF,
      (drop_bit 8 (encode 26) OR push_bit 24 (encode 27)) AND 0xFFFFFFF, drop_bit 4 (encode 27) AND 0xFFFFFFF]"

definition unpack_29_block :: "(nat \<Rightarrow> u32) \<Rightarrow> u32 list" where
  "unpack_29_block encode =
     [encode 0 AND 0x1FFFFFFF, (drop_bit 29 (encode 0) OR push_bit 3 (encode 1)) AND 0x1FFFFFFF,
      (drop_bit 26 (encode 1) OR push_bit 6 (encode 2)) AND 0x1FFFFFFF,
      (drop_bit 23 (encode 2) OR push_bit 9 (encode 3)) AND 0x1FFFFFFF,
      (drop_bit 20 (encode 3) OR push_bit 12 (encode 4)) AND 0x1FFFFFFF,
      (drop_bit 17 (encode 4) OR push_bit 15 (encode 5)) AND 0x1FFFFFFF,
      (drop_bit 14 (encode 5) OR push_bit 18 (encode 6)) AND 0x1FFFFFFF,
      (drop_bit 11 (encode 6) OR push_bit 21 (encode 7)) AND 0x1FFFFFFF,
      (drop_bit 8 (encode 7) OR push_bit 24 (encode 8)) AND 0x1FFFFFFF,
      (drop_bit 5 (encode 8) OR push_bit 27 (encode 9)) AND 0x1FFFFFFF, drop_bit 2 (encode 9) AND 0x1FFFFFFF,
      (drop_bit 31 (encode 9) OR push_bit 1 (encode 10)) AND 0x1FFFFFFF,
      (drop_bit 28 (encode 10) OR push_bit 4 (encode 11)) AND 0x1FFFFFFF,
      (drop_bit 25 (encode 11) OR push_bit 7 (encode 12)) AND 0x1FFFFFFF,
      (drop_bit 22 (encode 12) OR push_bit 10 (encode 13)) AND 0x1FFFFFFF,
      (drop_bit 19 (encode 13) OR push_bit 13 (encode 14)) AND 0x1FFFFFFF,
      (drop_bit 16 (encode 14) OR push_bit 16 (encode 15)) AND 0x1FFFFFFF,
      (drop_bit 13 (encode 15) OR push_bit 19 (encode 16)) AND 0x1FFFFFFF,
      (drop_bit 10 (encode 16) OR push_bit 22 (encode 17)) AND 0x1FFFFFFF,
      (drop_bit 7 (encode 17) OR push_bit 25 (encode 18)) AND 0x1FFFFFFF,
      (drop_bit 4 (encode 18) OR push_bit 28 (encode 19)) AND 0x1FFFFFFF, drop_bit 1 (encode 19) AND 0x1FFFFFFF,
      (drop_bit 30 (encode 19) OR push_bit 2 (encode 20)) AND 0x1FFFFFFF,
      (drop_bit 27 (encode 20) OR push_bit 5 (encode 21)) AND 0x1FFFFFFF,
      (drop_bit 24 (encode 21) OR push_bit 8 (encode 22)) AND 0x1FFFFFFF,
      (drop_bit 21 (encode 22) OR push_bit 11 (encode 23)) AND 0x1FFFFFFF,
      (drop_bit 18 (encode 23) OR push_bit 14 (encode 24)) AND 0x1FFFFFFF,
      (drop_bit 15 (encode 24) OR push_bit 17 (encode 25)) AND 0x1FFFFFFF,
      (drop_bit 12 (encode 25) OR push_bit 20 (encode 26)) AND 0x1FFFFFFF,
      (drop_bit 9 (encode 26) OR push_bit 23 (encode 27)) AND 0x1FFFFFFF,
      (drop_bit 6 (encode 27) OR push_bit 26 (encode 28)) AND 0x1FFFFFFF, drop_bit 3 (encode 28) AND 0x1FFFFFFF]"

definition unpack_30_block :: "(nat \<Rightarrow> u32) \<Rightarrow> u32 list" where
  "unpack_30_block encode =
     [encode 0 AND 0x3FFFFFFF, (drop_bit 30 (encode 0) OR push_bit 2 (encode 1)) AND 0x3FFFFFFF,
      (drop_bit 28 (encode 1) OR push_bit 4 (encode 2)) AND 0x3FFFFFFF,
      (drop_bit 26 (encode 2) OR push_bit 6 (encode 3)) AND 0x3FFFFFFF,
      (drop_bit 24 (encode 3) OR push_bit 8 (encode 4)) AND 0x3FFFFFFF,
      (drop_bit 22 (encode 4) OR push_bit 10 (encode 5)) AND 0x3FFFFFFF,
      (drop_bit 20 (encode 5) OR push_bit 12 (encode 6)) AND 0x3FFFFFFF,
      (drop_bit 18 (encode 6) OR push_bit 14 (encode 7)) AND 0x3FFFFFFF,
      (drop_bit 16 (encode 7) OR push_bit 16 (encode 8)) AND 0x3FFFFFFF,
      (drop_bit 14 (encode 8) OR push_bit 18 (encode 9)) AND 0x3FFFFFFF,
      (drop_bit 12 (encode 9) OR push_bit 20 (encode 10)) AND 0x3FFFFFFF,
      (drop_bit 10 (encode 10) OR push_bit 22 (encode 11)) AND 0x3FFFFFFF,
      (drop_bit 8 (encode 11) OR push_bit 24 (encode 12)) AND 0x3FFFFFFF,
      (drop_bit 6 (encode 12) OR push_bit 26 (encode 13)) AND 0x3FFFFFFF,
      (drop_bit 4 (encode 13) OR push_bit 28 (encode 14)) AND 0x3FFFFFFF, drop_bit 2 (encode 14) AND 0x3FFFFFFF,
      encode 15 AND 0x3FFFFFFF, (drop_bit 30 (encode 15) OR push_bit 2 (encode 16)) AND 0x3FFFFFFF,
      (drop_bit 28 (encode 16) OR push_bit 4 (encode 17)) AND 0x3FFFFFFF,
      (drop_bit 26 (encode 17) OR push_bit 6 (encode 18)) AND 0x3FFFFFFF,
      (drop_bit 24 (encode 18) OR push_bit 8 (encode 19)) AND 0x3FFFFFFF,
      (drop_bit 22 (encode 19) OR push_bit 10 (encode 20)) AND 0x3FFFFFFF,
      (drop_bit 20 (encode 20) OR push_bit 12 (encode 21)) AND 0x3FFFFFFF,
      (drop_bit 18 (encode 21) OR push_bit 14 (encode 22)) AND 0x3FFFFFFF,
      (drop_bit 16 (encode 22) OR push_bit 16 (encode 23)) AND 0x3FFFFFFF,
      (drop_bit 14 (encode 23) OR push_bit 18 (encode 24)) AND 0x3FFFFFFF,
      (drop_bit 12 (encode 24) OR push_bit 20 (encode 25)) AND 0x3FFFFFFF,
      (drop_bit 10 (encode 25) OR push_bit 22 (encode 26)) AND 0x3FFFFFFF,
      (drop_bit 8 (encode 26) OR push_bit 24 (encode 27)) AND 0x3FFFFFFF,
      (drop_bit 6 (encode 27) OR push_bit 26 (encode 28)) AND 0x3FFFFFFF,
      (drop_bit 4 (encode 28) OR push_bit 28 (encode 29)) AND 0x3FFFFFFF, drop_bit 2 (encode 29) AND 0x3FFFFFFF]"

definition unpack_31_block :: "(nat \<Rightarrow> u32) \<Rightarrow> u32 list" where
  "unpack_31_block encode =
     [encode 0 AND 0x7FFFFFFF, (drop_bit 31 (encode 0) OR push_bit 1 (encode 1)) AND 0x7FFFFFFF,
      (drop_bit 30 (encode 1) OR push_bit 2 (encode 2)) AND 0x7FFFFFFF,
      (drop_bit 29 (encode 2) OR push_bit 3 (encode 3)) AND 0x7FFFFFFF,
      (drop_bit 28 (encode 3) OR push_bit 4 (encode 4)) AND 0x7FFFFFFF,
      (drop_bit 27 (encode 4) OR push_bit 5 (encode 5)) AND 0x7FFFFFFF,
      (drop_bit 26 (encode 5) OR push_bit 6 (encode 6)) AND 0x7FFFFFFF,
      (drop_bit 25 (encode 6) OR push_bit 7 (encode 7)) AND 0x7FFFFFFF,
      (drop_bit 24 (encode 7) OR push_bit 8 (encode 8)) AND 0x7FFFFFFF,
      (drop_bit 23 (encode 8) OR push_bit 9 (encode 9)) AND 0x7FFFFFFF,
      (drop_bit 22 (encode 9) OR push_bit 10 (encode 10)) AND 0x7FFFFFFF,
      (drop_bit 21 (encode 10) OR push_bit 11 (encode 11)) AND 0x7FFFFFFF,
      (drop_bit 20 (encode 11) OR push_bit 12 (encode 12)) AND 0x7FFFFFFF,
      (drop_bit 19 (encode 12) OR push_bit 13 (encode 13)) AND 0x7FFFFFFF,
      (drop_bit 18 (encode 13) OR push_bit 14 (encode 14)) AND 0x7FFFFFFF,
      (drop_bit 17 (encode 14) OR push_bit 15 (encode 15)) AND 0x7FFFFFFF,
      (drop_bit 16 (encode 15) OR push_bit 16 (encode 16)) AND 0x7FFFFFFF,
      (drop_bit 15 (encode 16) OR push_bit 17 (encode 17)) AND 0x7FFFFFFF,
      (drop_bit 14 (encode 17) OR push_bit 18 (encode 18)) AND 0x7FFFFFFF,
      (drop_bit 13 (encode 18) OR push_bit 19 (encode 19)) AND 0x7FFFFFFF,
      (drop_bit 12 (encode 19) OR push_bit 20 (encode 20)) AND 0x7FFFFFFF,
      (drop_bit 11 (encode 20) OR push_bit 21 (encode 21)) AND 0x7FFFFFFF,
      (drop_bit 10 (encode 21) OR push_bit 22 (encode 22)) AND 0x7FFFFFFF,
      (drop_bit 9 (encode 22) OR push_bit 23 (encode 23)) AND 0x7FFFFFFF,
      (drop_bit 8 (encode 23) OR push_bit 24 (encode 24)) AND 0x7FFFFFFF,
      (drop_bit 7 (encode 24) OR push_bit 25 (encode 25)) AND 0x7FFFFFFF,
      (drop_bit 6 (encode 25) OR push_bit 26 (encode 26)) AND 0x7FFFFFFF,
      (drop_bit 5 (encode 26) OR push_bit 27 (encode 27)) AND 0x7FFFFFFF,
      (drop_bit 4 (encode 27) OR push_bit 28 (encode 28)) AND 0x7FFFFFFF,
      (drop_bit 3 (encode 28) OR push_bit 29 (encode 29)) AND 0x7FFFFFFF,
      (drop_bit 2 (encode 29) OR push_bit 30 (encode 30)) AND 0x7FFFFFFF, drop_bit 1 (encode 30) AND 0x7FFFFFFF]"

definition unpack_32_block :: "(nat \<Rightarrow> u32) \<Rightarrow> u32 list" where
  "unpack_32_block encode =
     [encode 0 AND 0xFFFFFFFF, encode 1 AND 0xFFFFFFFF, encode 2 AND 0xFFFFFFFF, encode 3 AND 0xFFFFFFFF,
      encode 4 AND 0xFFFFFFFF, encode 5 AND 0xFFFFFFFF, encode 6 AND 0xFFFFFFFF, encode 7 AND 0xFFFFFFFF,
      encode 8 AND 0xFFFFFFFF, encode 9 AND 0xFFFFFFFF, encode 10 AND 0xFFFFFFFF, encode 11 AND 0xFFFFFFFF,
      encode 12 AND 0xFFFFFFFF, encode 13 AND 0xFFFFFFFF, encode 14 AND 0xFFFFFFFF, encode 15 AND 0xFFFFFFFF,
      encode 16 AND 0xFFFFFFFF, encode 17 AND 0xFFFFFFFF, encode 18 AND 0xFFFFFFFF, encode 19 AND 0xFFFFFFFF,
      encode 20 AND 0xFFFFFFFF, encode 21 AND 0xFFFFFFFF, encode 22 AND 0xFFFFFFFF, encode 23 AND 0xFFFFFFFF,
      encode 24 AND 0xFFFFFFFF, encode 25 AND 0xFFFFFFFF, encode 26 AND 0xFFFFFFFF, encode 27 AND 0xFFFFFFFF,
      encode 28 AND 0xFFFFFFFF, encode 29 AND 0xFFFFFFFF, encode 30 AND 0xFFFFFFFF, encode 31 AND 0xFFFFFFFF]"

section \<open>The routines\<close>

text \<open>
  The loop that they share: rounds of 32 values, which read the words below \<open>need\<close> and advance by \<open>step\<close> words, and the
  routine for the remaining values, which reads the words that hold bits of these values.
\<close>

definition unaligned :: "((nat \<Rightarrow> u32) \<Rightarrow> nat \<Rightarrow> u32 list) \<Rightarrow> nat \<Rightarrow> u32 list \<Rightarrow> u32 list \<Rightarrow> nat \<Rightarrow> u32 list option" where
  "unaligned routine b decode encode dataNum =
     (if length decode < dataNum \<or> 32 * length encode < b * dataNum then None
      else Some (routine (nth encode) dataNum @ drop dataNum decode))"

function unpack_blocks :: "((nat \<Rightarrow> u32) \<Rightarrow> u32 list) \<Rightarrow> nat \<Rightarrow> nat \<Rightarrow>
    (u32 list \<Rightarrow> u32 list \<Rightarrow> nat \<Rightarrow> u32 list option) \<Rightarrow> u32 list \<Rightarrow> u32 list \<Rightarrow> nat \<Rightarrow> u32 list option" where
  "unpack_blocks block need step tail_of dest encode n =
     (if n < 32 then if n > 0 then tail_of dest encode n else Some dest
      else if length dest < 32 \<or> length encode < need then None
      else do {
        rest \<leftarrow> unpack_blocks block need step tail_of (drop 32 dest) (drop step encode) (n - 32);
        Some (block (nth encode) @ rest)
      })"
  by pat_completeness auto
termination
  by (relation "measure (\<lambda>(block, need, step, tail_of, dest, encode, n). n)") auto

declare unpack_blocks.simps [simp del]

definition unpack_0 :: "u32 list \<Rightarrow> u32 list \<Rightarrow> nat \<Rightarrow> u32 list option" where
  "unpack_0 = unpack_blocks unpack_0_block 0 1 (unaligned unaligned_unpack_0 0)"

definition unpack_1 :: "u32 list \<Rightarrow> u32 list \<Rightarrow> nat \<Rightarrow> u32 list option" where
  "unpack_1 = unpack_blocks unpack_1_block 1 1 (unaligned unaligned_unpack_1 1)"

definition unpack_2 :: "u32 list \<Rightarrow> u32 list \<Rightarrow> nat \<Rightarrow> u32 list option" where
  "unpack_2 = unpack_blocks unpack_2_block 2 2 (unaligned unaligned_unpack_2 2)"

definition unpack_3 :: "u32 list \<Rightarrow> u32 list \<Rightarrow> nat \<Rightarrow> u32 list option" where
  "unpack_3 = unpack_blocks unpack_3_block 3 3 (unaligned unaligned_unpack_3 3)"

definition unpack_4 :: "u32 list \<Rightarrow> u32 list \<Rightarrow> nat \<Rightarrow> u32 list option" where
  "unpack_4 = unpack_blocks unpack_4_block 4 4 (unaligned unaligned_unpack_4 4)"

definition unpack_5 :: "u32 list \<Rightarrow> u32 list \<Rightarrow> nat \<Rightarrow> u32 list option" where
  "unpack_5 = unpack_blocks unpack_5_block 5 5 (unaligned unaligned_unpack_5 5)"

definition unpack_6 :: "u32 list \<Rightarrow> u32 list \<Rightarrow> nat \<Rightarrow> u32 list option" where
  "unpack_6 = unpack_blocks unpack_6_block 6 6 (unaligned unaligned_unpack_6 6)"

definition unpack_7 :: "u32 list \<Rightarrow> u32 list \<Rightarrow> nat \<Rightarrow> u32 list option" where
  "unpack_7 = unpack_blocks unpack_7_block 7 7 (unaligned unaligned_unpack_7 7)"

definition unpack_8 :: "u32 list \<Rightarrow> u32 list \<Rightarrow> nat \<Rightarrow> u32 list option" where
  "unpack_8 = unpack_blocks unpack_8_block 8 8 (unaligned unaligned_unpack_8 8)"

definition unpack_9 :: "u32 list \<Rightarrow> u32 list \<Rightarrow> nat \<Rightarrow> u32 list option" where
  "unpack_9 = unpack_blocks unpack_9_block 9 9 (unaligned unaligned_unpack_9 9)"

definition unpack_10 :: "u32 list \<Rightarrow> u32 list \<Rightarrow> nat \<Rightarrow> u32 list option" where
  "unpack_10 = unpack_blocks unpack_10_block 10 10 (unaligned unaligned_unpack_10 10)"

definition unpack_11 :: "u32 list \<Rightarrow> u32 list \<Rightarrow> nat \<Rightarrow> u32 list option" where
  "unpack_11 = unpack_blocks unpack_11_block 11 11 (unaligned unaligned_unpack_11 11)"

definition unpack_12 :: "u32 list \<Rightarrow> u32 list \<Rightarrow> nat \<Rightarrow> u32 list option" where
  "unpack_12 = unpack_blocks unpack_12_block 12 12 (unaligned unaligned_unpack_12 12)"

definition unpack_13 :: "u32 list \<Rightarrow> u32 list \<Rightarrow> nat \<Rightarrow> u32 list option" where
  "unpack_13 = unpack_blocks unpack_13_block 13 13 (unaligned unaligned_unpack_13 13)"

definition unpack_14 :: "u32 list \<Rightarrow> u32 list \<Rightarrow> nat \<Rightarrow> u32 list option" where
  "unpack_14 = unpack_blocks unpack_14_block 14 14 (unaligned unaligned_unpack_14 14)"

definition unpack_15 :: "u32 list \<Rightarrow> u32 list \<Rightarrow> nat \<Rightarrow> u32 list option" where
  "unpack_15 = unpack_blocks unpack_15_block 15 15 (unaligned unaligned_unpack_15 15)"

definition unpack_16 :: "u32 list \<Rightarrow> u32 list \<Rightarrow> nat \<Rightarrow> u32 list option" where
  "unpack_16 = unpack_blocks unpack_16_block 16 16 (unaligned unaligned_unpack_16 16)"

definition unpack_17 :: "u32 list \<Rightarrow> u32 list \<Rightarrow> nat \<Rightarrow> u32 list option" where
  "unpack_17 = unpack_blocks unpack_17_block 17 17 (unaligned unaligned_unpack_17 17)"

definition unpack_18 :: "u32 list \<Rightarrow> u32 list \<Rightarrow> nat \<Rightarrow> u32 list option" where
  "unpack_18 = unpack_blocks unpack_18_block 18 18 (unaligned unaligned_unpack_18 18)"

definition unpack_19 :: "u32 list \<Rightarrow> u32 list \<Rightarrow> nat \<Rightarrow> u32 list option" where
  "unpack_19 = unpack_blocks unpack_19_block 19 19 (unaligned unaligned_unpack_19 19)"

definition unpack_20 :: "u32 list \<Rightarrow> u32 list \<Rightarrow> nat \<Rightarrow> u32 list option" where
  "unpack_20 = unpack_blocks unpack_20_block 20 20 (unaligned unaligned_unpack_20 20)"

definition unpack_21 :: "u32 list \<Rightarrow> u32 list \<Rightarrow> nat \<Rightarrow> u32 list option" where
  "unpack_21 = unpack_blocks unpack_21_block 21 21 (unaligned unaligned_unpack_21 21)"

definition unpack_22 :: "u32 list \<Rightarrow> u32 list \<Rightarrow> nat \<Rightarrow> u32 list option" where
  "unpack_22 = unpack_blocks unpack_22_block 22 22 (unaligned unaligned_unpack_22 22)"

definition unpack_23 :: "u32 list \<Rightarrow> u32 list \<Rightarrow> nat \<Rightarrow> u32 list option" where
  "unpack_23 = unpack_blocks unpack_23_block 23 23 (unaligned unaligned_unpack_23 23)"

definition unpack_24 :: "u32 list \<Rightarrow> u32 list \<Rightarrow> nat \<Rightarrow> u32 list option" where
  "unpack_24 = unpack_blocks unpack_24_block 24 24 (unaligned unaligned_unpack_24 24)"

definition unpack_25 :: "u32 list \<Rightarrow> u32 list \<Rightarrow> nat \<Rightarrow> u32 list option" where
  "unpack_25 = unpack_blocks unpack_25_block 25 25 (unaligned unaligned_unpack_25 25)"

definition unpack_26 :: "u32 list \<Rightarrow> u32 list \<Rightarrow> nat \<Rightarrow> u32 list option" where
  "unpack_26 = unpack_blocks unpack_26_block 26 26 (unaligned unaligned_unpack_26 26)"

definition unpack_27 :: "u32 list \<Rightarrow> u32 list \<Rightarrow> nat \<Rightarrow> u32 list option" where
  "unpack_27 = unpack_blocks unpack_27_block 27 27 (unaligned unaligned_unpack_27 27)"

definition unpack_28 :: "u32 list \<Rightarrow> u32 list \<Rightarrow> nat \<Rightarrow> u32 list option" where
  "unpack_28 = unpack_blocks unpack_28_block 28 28 (unaligned unaligned_unpack_28 28)"

definition unpack_29 :: "u32 list \<Rightarrow> u32 list \<Rightarrow> nat \<Rightarrow> u32 list option" where
  "unpack_29 = unpack_blocks unpack_29_block 29 29 (unaligned unaligned_unpack_29 29)"

definition unpack_30 :: "u32 list \<Rightarrow> u32 list \<Rightarrow> nat \<Rightarrow> u32 list option" where
  "unpack_30 = unpack_blocks unpack_30_block 30 30 (unaligned unaligned_unpack_30 30)"

definition unpack_31 :: "u32 list \<Rightarrow> u32 list \<Rightarrow> nat \<Rightarrow> u32 list option" where
  "unpack_31 = unpack_blocks unpack_31_block 31 31 (unaligned unaligned_unpack_31 31)"

text \<open>\<open>unpack_32\<close> copies the remaining words in a loop of its own.\<close>

fun copy_words :: "u32 list \<Rightarrow> u32 list \<Rightarrow> nat \<Rightarrow> u32 list option" where
  "copy_words dest encode 0 = Some dest"
| "copy_words (d # dest) (e # encode) (Suc n) = do {
     rest \<leftarrow> copy_words dest encode n;
     Some ((e AND 0xFFFFFFFF) # rest)
   }"
| "copy_words dest encode (Suc n) = None"

definition unpack_32 :: "u32 list \<Rightarrow> u32 list \<Rightarrow> nat \<Rightarrow> u32 list option" where
  "unpack_32 = unpack_blocks unpack_32_block 32 32 copy_words"

section \<open>The blocks are the reference fields\<close>

lemma unpack_0_block: "unpack_0_block w = map (unpack_word 0 w) [0..<32]"
  by (simp add: unpack_0_block_def unpack_word_0 numeral_upt del: One_nat_def)

lemma unpack_block_eqs:
  shows unpack_1_block: "unpack_1_block w = map (unpack_word 1 w) [0..<32]"
    and unpack_2_block: "unpack_2_block w = map (unpack_word 2 w) [0..<32]"
    and unpack_3_block: "unpack_3_block w = map (unpack_word 3 w) [0..<32]"
    and unpack_4_block: "unpack_4_block w = map (unpack_word 4 w) [0..<32]"
    and unpack_5_block: "unpack_5_block w = map (unpack_word 5 w) [0..<32]"
    and unpack_6_block: "unpack_6_block w = map (unpack_word 6 w) [0..<32]"
    and unpack_7_block: "unpack_7_block w = map (unpack_word 7 w) [0..<32]"
    and unpack_8_block: "unpack_8_block w = map (unpack_word 8 w) [0..<32]"
    and unpack_9_block: "unpack_9_block w = map (unpack_word 9 w) [0..<32]"
    and unpack_10_block: "unpack_10_block w = map (unpack_word 10 w) [0..<32]"
    and unpack_11_block: "unpack_11_block w = map (unpack_word 11 w) [0..<32]"
    and unpack_12_block: "unpack_12_block w = map (unpack_word 12 w) [0..<32]"
    and unpack_13_block: "unpack_13_block w = map (unpack_word 13 w) [0..<32]"
    and unpack_14_block: "unpack_14_block w = map (unpack_word 14 w) [0..<32]"
    and unpack_15_block: "unpack_15_block w = map (unpack_word 15 w) [0..<32]"
    and unpack_16_block: "unpack_16_block w = map (unpack_word 16 w) [0..<32]"
    and unpack_17_block: "unpack_17_block w = map (unpack_word 17 w) [0..<32]"
    and unpack_18_block: "unpack_18_block w = map (unpack_word 18 w) [0..<32]"
    and unpack_19_block: "unpack_19_block w = map (unpack_word 19 w) [0..<32]"
    and unpack_20_block: "unpack_20_block w = map (unpack_word 20 w) [0..<32]"
    and unpack_21_block: "unpack_21_block w = map (unpack_word 21 w) [0..<32]"
    and unpack_22_block: "unpack_22_block w = map (unpack_word 22 w) [0..<32]"
    and unpack_23_block: "unpack_23_block w = map (unpack_word 23 w) [0..<32]"
    and unpack_24_block: "unpack_24_block w = map (unpack_word 24 w) [0..<32]"
    and unpack_25_block: "unpack_25_block w = map (unpack_word 25 w) [0..<32]"
    and unpack_26_block: "unpack_26_block w = map (unpack_word 26 w) [0..<32]"
    and unpack_27_block: "unpack_27_block w = map (unpack_word 27 w) [0..<32]"
    and unpack_28_block: "unpack_28_block w = map (unpack_word 28 w) [0..<32]"
    and unpack_29_block: "unpack_29_block w = map (unpack_word 29 w) [0..<32]"
    and unpack_30_block: "unpack_30_block w = map (unpack_word 30 w) [0..<32]"
    and unpack_31_block: "unpack_31_block w = map (unpack_word 31 w) [0..<32]"
    and unpack_32_block: "unpack_32_block w = map (unpack_word 32 w) [0..<32]"
  unfolding mask_numerals
    unpack_1_block_def unpack_2_block_def unpack_3_block_def unpack_4_block_def unpack_5_block_def unpack_6_block_def
    unpack_7_block_def unpack_8_block_def unpack_9_block_def unpack_10_block_def unpack_11_block_def
    unpack_12_block_def unpack_13_block_def unpack_14_block_def unpack_15_block_def unpack_16_block_def
    unpack_17_block_def unpack_18_block_def unpack_19_block_def unpack_20_block_def unpack_21_block_def
    unpack_22_block_def unpack_23_block_def unpack_24_block_def unpack_25_block_def unpack_26_block_def
    unpack_27_block_def unpack_28_block_def unpack_29_block_def unpack_30_block_def unpack_31_block_def
    unpack_32_block_def
  unfolding field2_def [symmetric] field_def [symmetric]
  unfolding field_zero
  by (simp_all add: unpack_word_def numeral_upt del: One_nat_def)

end
