(* ===== verification/FramePacking.thy ===== *)
theory FramePacking
  imports PackBlocks UnpackBlocks
begin

text \<open>
  The tables of packing and unpacking routines by which the compressor of \<^verbatim>\<open>NosseNewPfordeltaCompressor.h\<close> selects a
  routine for a frame width, and the proof that all of them store and read the reference packing.
\<close>

section \<open>The tables\<close>

definition pack_func :: "(u32 list \<Rightarrow> u32 list \<Rightarrow> nat \<Rightarrow> u32 list option) list" where
  "pack_func =
    [pack_0, pack_1, pack_2, pack_3, pack_4, pack_5, pack_6, pack_7, pack_8, pack_9, pack_10, pack_11, pack_12,
     pack_13, pack_14, pack_15, pack_16, pack_17, pack_18, pack_19, pack_20, pack_21, pack_22, pack_23, pack_24,
     pack_25, pack_26, pack_27, pack_28, pack_29, pack_30, pack_31, pack_32]"

definition Pack :: "u32 list \<Rightarrow> u32 list \<Rightarrow> nat \<Rightarrow> nat \<Rightarrow> u32 list option" where
  "Pack dest src srcLen frameBits = (if frameBits < length pack_func then (pack_func ! frameBits) dest src srcLen else None)"

definition unpack_func :: "(u32 list \<Rightarrow> u32 list \<Rightarrow> nat \<Rightarrow> u32 list option) list" where
  "unpack_func =
    [unpack_0, unpack_1, unpack_2, unpack_3, unpack_4, unpack_5, unpack_6, unpack_7, unpack_8, unpack_9, unpack_10,
     unpack_11, unpack_12, unpack_13, unpack_14, unpack_15, unpack_16, unpack_17, unpack_18, unpack_19, unpack_20,
     unpack_21, unpack_22, unpack_23, unpack_24, unpack_25, unpack_26, unpack_27, unpack_28, unpack_29, unpack_30,
     unpack_31, unpack_32]"

definition Unpack :: "u32 list \<Rightarrow> u32 list \<Rightarrow> nat \<Rightarrow> nat \<Rightarrow> u32 list option" where
  "Unpack dest src dataNum frameBits =
     (if frameBits < length unpack_func then (unpack_func ! frameBits) dest src dataNum else None)"

section \<open>The generic packing loop\<close>

text \<open>The values that are packed, followed by zeros, and the number of words that they take.\<close>

definition padded :: "u32 list \<Rightarrow> nat \<Rightarrow> nat \<Rightarrow> u32" where
  "padded src n i = (if i < n then src ! i else 0)"

definition frame_words :: "nat \<Rightarrow> nat \<Rightarrow> nat" where
  "frame_words b n = (b * n + 31) div 32"

lemma frame_words_le: "32 * frame_words b n < b * n + 32" "b * n \<le> 32 * frame_words b n"
  unfolding frame_words_def by linarith+

lemma fits_bit: "take_bit b v = v \<Longrightarrow> bit v t \<Longrightarrow> t < b" for v :: u32
  by (metis bit_take_bit_iff)

lemma stream_bit_word: "t < 32 \<Longrightarrow> stream_bit w (32 * j + t) = bit (w j) t"
  by (simp add: stream_bit_def)

lemma words_eqI:
  assumes "length xs = length ys" "\<And>p. p < 32 * length xs \<Longrightarrow> stream_bit (nth xs) p = stream_bit (nth ys) p"
  shows "xs = ys"
proof (rule nth_equalityI [OF assms(1)])
  fix j assume j: "j < length xs"
  show "xs ! j = ys ! j"
  proof (rule bit_word_eqI)
    fix t assume "t < LENGTH(32)"
    then show "bit (xs ! j) t = bit (ys ! j) t"
      using assms(2) [of "32 * j + t"] j by (simp add: stream_bit_word)
  qed
qed

lemma or_at_bit:
  assumes "i < length dest" "p < 32 * length dest"
  shows "stream_bit (nth (dest[i := dest ! i OR v])) p \<longleftrightarrow> stream_bit (nth dest) p \<or> p div 32 = i \<and> bit v (p mod 32)"
  using assms by (auto simp: stream_bit_def nth_list_update bit_simps)

text \<open>The bits that the two assignments of a round set.\<close>

lemma word_pos: "p div 32 = j \<Longrightarrow> 32 * j \<le> p \<and> p < 32 * j + 32 \<and> p mod 32 = p - 32 * j" for p :: nat
  using minus_mult_div_eq_mod [of p 32] by auto

lemma low_bits:
  fixes v :: u32
  assumes "p div 32 = j"
  shows "bit (push_bit offset v) (p mod 32) \<longleftrightarrow> 32 * j + offset \<le> p \<and> bit v (p - (32 * j + offset))"
proof -
  have p: "32 * j \<le> p" "p - 32 * j < 32" "p mod 32 = p - 32 * j"
    using word_pos [OF assms] by auto
  then have "offset \<le> p - 32 * j \<longleftrightarrow> 32 * j + offset \<le> p"
    by linarith
  then show ?thesis
    unfolding p(3) using p(2) by (simp add: bit_simps)
qed

lemma high_bits:
  fixes v :: u32
  assumes "p div 32 = j + 1" "offset < 32"
  shows "bit (drop_bit (32 - offset) v) (p mod 32) \<longleftrightarrow> 32 * j + offset \<le> p \<and> bit v (p - (32 * j + offset))"
proof -
  have "32 - offset + p mod 32 = p - (32 * j + offset)" "32 * j + offset \<le> p"
    using word_pos [OF assms(1)] assms(2) by simp_all
  then show ?thesis
    by (simp add: bit_drop_bit_eq)
qed

lemma bits_words:
  fixes v :: u32
  assumes "take_bit b v = v" "bit v (p - (32 * j + offset))" "32 * j + offset \<le> p" "offset < 32" "b \<le> 32"
  shows "p div 32 = j \<or> p div 32 = j + 1 \<and> 32 < offset + b"
proof -
  have "p < 32 * j + offset + b"
    using fits_bit [OF assms(1,2)] assms(3) by linarith
  then show ?thesis
    using assms(3-5) by linarith
qed

text \<open>One round sets the bits of its value from position \<open>32 * destLoc + offset\<close> on.\<close>

definition pack_round :: "u32 list \<Rightarrow> u32 \<Rightarrow> nat \<Rightarrow> nat \<Rightarrow> nat \<Rightarrow> u32 list option" where
  "pack_round dest v b offset destLoc = do {
     dest \<leftarrow> or_at dest destLoc (push_bit offset v);
     (if offset + b - 1 > 31 then or_at dest (destLoc + 1) (drop_bit (32 - offset) v) else Some dest)
   }"

lemma pack_round_bits:
  assumes "offset < 32" "0 < b" "b \<le> 32" "take_bit b v = v" "32 * destLoc + offset + b \<le> 32 * length dest"
  shows "\<exists>d. pack_round dest v b offset destLoc = Some d \<and> length d = length dest \<and> (\<forall>p < 32 * length dest.
      stream_bit (nth d) p \<longleftrightarrow> stream_bit (nth dest) p \<or> 32 * destLoc + offset \<le> p \<and> bit v (p - (32 * destLoc + offset)))"
proof -
  let ?on = "\<lambda>p. 32 * destLoc + offset \<le> p \<and> bit v (p - (32 * destLoc + offset))"
  let ?d = "dest[destLoc := dest ! destLoc OR push_bit offset v]"
  have len: "destLoc < length dest"
    using assms(1,2,5) by linarith
  have first: "stream_bit (nth ?d) p \<longleftrightarrow> stream_bit (nth dest) p \<or> p div 32 = destLoc \<and> ?on p" if "p < 32 * length dest" for p
    using or_at_bit [OF len that] low_bits [of p destLoc] by blast
  have words: "p div 32 = destLoc \<or> p div 32 = destLoc + 1 \<and> 32 < offset + b" if "?on p" for p
    using bits_words [OF assms(4)] that assms(1,3) by blast
  show ?thesis
  proof (cases "offset + b - 1 > 31")
    case True
    let ?e = "?d[destLoc + 1 := ?d ! (destLoc + 1) OR drop_bit (32 - offset) v]"
    have len2: "destLoc + 1 < length ?d"
      using True assms(5) by simp
    have "stream_bit (nth ?e) p \<longleftrightarrow> stream_bit (nth dest) p \<or> ?on p" if p: "p < 32 * length dest" for p
      using or_at_bit [OF len2, of p] first [OF p] high_bits [OF _ assms(1), of p destLoc] words [of p] p by auto
    moreover have "pack_round dest v b offset destLoc = Some ?e"
      using True len len2 by (simp add: pack_round_def or_at_def)
    ultimately show ?thesis
      by simp
  next
    case False
    then have "stream_bit (nth ?d) p \<longleftrightarrow> stream_bit (nth dest) p \<or> ?on p" if "p < 32 * length dest" for p
      using first [OF that] words [of p] by auto
    moreover have "pack_round dest v b offset destLoc = Some ?d"
      using False len by (simp add: pack_round_def or_at_def)
    ultimately show ?thesis
      by simp
  qed
qed

lemma pack_values_round:
  "pack_values dest (v # src) b offset destLoc = do {
     dest \<leftarrow> pack_round dest v b offset destLoc;
     pack_values dest src b ((offset + b) mod 32) (destLoc + (offset + b) div 32)
   }"
proof -
  have "(offset + b) AND 31 = (offset + b) mod 32"
    using take_bit_eq_mask [of 5 "offset + b"] by (simp add: take_bit_eq_mod mask_eq_exp_minus_1)
  then show ?thesis
    by (simp add: pack_round_def drop_bit_eq_div bind_assoc)
qed

text \<open>The loop sets the bits of all values.\<close>

definition packed_bit :: "u32 list \<Rightarrow> nat \<Rightarrow> nat \<Rightarrow> bool" where
  "packed_bit src b p \<longleftrightarrow> p < b * length src \<and> bit (src ! (p div b)) (p mod b)"

lemma packed_bit_Cons:
  assumes "0 < b" "take_bit b v = v"
  shows "packed_bit (v # src) b p \<longleftrightarrow> bit v p \<or> b \<le> p \<and> packed_bit src b (p - b)"
proof (cases "p < b")
  case False
  then have "\<not> bit v p" "p div b = Suc ((p - b) div b)" "p mod b = (p - b) mod b"
    using fits_bit [OF assms(2)] assms(1) by (auto simp: le_div_geq le_mod_geq)
  then show ?thesis
    using False assms(1) by (auto simp: packed_bit_def less_diff_conv2)
qed (use assms(1) in \<open>auto simp: packed_bit_def\<close>)

lemma pack_values_bits:
  assumes "offset < 32" "0 < b" "b \<le> 32" "\<forall>v \<in> set src. take_bit b v = v"
    and "32 * destLoc + offset + b * length src \<le> 32 * length dest"
  shows "\<exists>d. pack_values dest src b offset destLoc = Some d \<and> length d = length dest \<and> (\<forall>p < 32 * length dest.
      stream_bit (nth d) p \<longleftrightarrow> stream_bit (nth dest) p \<or>
        32 * destLoc + offset \<le> p \<and> packed_bit src b (p - (32 * destLoc + offset)))"
  using assms
proof (induction src arbitrary: dest offset destLoc)
  case Nil
  then show ?case
    by (simp add: packed_bit_def)
next
  case (Cons v src)
  let ?P = "32 * destLoc + offset"
  have v: "take_bit b v = v"
    using Cons.prems by simp
  obtain d where d: "pack_round dest v b offset destLoc = Some d" "length d = length dest"
    "\<And>p. p < 32 * length dest \<Longrightarrow> stream_bit (nth d) p \<longleftrightarrow> stream_bit (nth dest) p \<or> ?P \<le> p \<and> bit v (p - ?P)"
    using pack_round_bits [of offset b v destLoc dest] Cons.prems by auto
  let ?o = "(offset + b) mod 32" and ?l = "destLoc + (offset + b) div 32"
  have P: "32 * ?l + ?o = ?P + b"
    by (simp add: distrib_left)
  obtain e where e: "pack_values d src b ?o ?l = Some e" "length e = length dest"
    "\<And>p. p < 32 * length dest \<Longrightarrow> stream_bit (nth e) p \<longleftrightarrow> stream_bit (nth d) p \<or> ?P + b \<le> p \<and> packed_bit src b (p - (?P + b))"
    using Cons.IH [of ?o ?l d] Cons.prems d(2) unfolding P by auto
  have "stream_bit (nth e) p \<longleftrightarrow> stream_bit (nth dest) p \<or> ?P \<le> p \<and> packed_bit (v # src) b (p - ?P)" if p: "p < 32 * length dest" for p
    unfolding e(3) [OF p] d(3) [OF p] packed_bit_Cons [OF Cons.prems(2) v] by (auto simp: le_diff_conv2)
  then show ?case
    using d(1) e(1,2) by (simp add: pack_values_round del: pack_values.simps)
qed

section \<open>Packing stores the reference words\<close>

text \<open>What packing is to give: the words of the values, in place of the first words of the destination.\<close>

definition packed :: "nat \<Rightarrow> u32 list \<Rightarrow> nat \<Rightarrow> u32 list \<Rightarrow> u32 list" where
  "packed b src n dest = map (pack_word b (padded src n)) [0..<frame_words b n] @ drop (frame_words b n) dest"

text \<open>The destination has room, and the words that are written to are zero.\<close>

definition cleared :: "nat \<Rightarrow> nat \<Rightarrow> u32 list \<Rightarrow> bool" where
  "cleared b n dest \<longleftrightarrow> frame_words b n \<le> length dest \<and> (\<forall>w \<in> set (take (frame_words b n) dest). w = 0)"

definition fits :: "nat \<Rightarrow> u32 list \<Rightarrow> nat \<Rightarrow> bool" where
  "fits b src n \<longleftrightarrow> n \<le> length src \<and> (\<forall>v \<in> set (take n src). take_bit b v = v)"

lemma cleared_nth: "cleared b n dest \<Longrightarrow> j < frame_words b n \<Longrightarrow> dest ! j = 0"
  unfolding cleared_def by (metis in_set_conv_nth length_take min.absorb2 nth_take)

lemma packed_bits:
  assumes "0 < b" "b \<le> 32" "p < 32 * frame_words b n" "n \<le> length src"
  shows "stream_bit (pack_word b (padded src n)) p \<longleftrightarrow> packed_bit (take n src) b p"
proof -
  have "p div b < n \<longleftrightarrow> p < b * n"
    using assms(1) by (simp add: div_less_iff_less_mult mult.commute)
  moreover have "32 * (p div 32) + p mod 32 = p"
    by simp
  ultimately show ?thesis
    using assms(4) bit_pack_word [OF assms(1,2), of "p mod 32" "padded src n" "p div 32"]
    by (auto simp: stream_bit_def packed_bit_def padded_def)
qed

lemma pack_packed:
  assumes "0 < b" "b \<le> 32" "fits b src n" "cleared b n dest"
  shows "pack dest src n b = Some (packed b src n dest)"
proof -
  let ?k = "frame_words b n"
  have k: "?k \<le> length dest" and n: "n \<le> length src"
    using assms(3,4) by (simp_all add: cleared_def fits_def)
  have room: "b * length (take n src) \<le> 32 * length dest"
    using frame_words_le(2) [of b n] k n by simp
  obtain d where d: "pack_values dest (take n src) b 0 0 = Some d" "length d = length dest"
    "\<And>p. p < 32 * length dest \<Longrightarrow> stream_bit (nth d) p \<longleftrightarrow> stream_bit (nth dest) p \<or> packed_bit (take n src) b p"
    using pack_values_bits [of 0 b "take n src" 0 dest] assms(1-3) room by (auto simp: fits_def)
  have "d = packed b src n dest"
  proof (rule words_eqI)
    show "length d = length (packed b src n dest)"
      using d(2) k by (simp add: packed_def)
    fix p assume "p < 32 * length d"
    then have p: "p < 32 * length dest" "p div 32 < length dest"
      using d(2) by simp_all
    show "stream_bit (nth d) p = stream_bit (nth (packed b src n dest)) p"
    proof (cases "p div 32 < ?k")
      case True
      then have "stream_bit (nth dest) p = False" "p < 32 * ?k"
        using cleared_nth [OF assms(4)] by (simp_all add: stream_bit_def)
      moreover have "packed b src n dest ! (p div 32) = pack_word b (padded src n) (p div 32)"
        using True by (simp add: packed_def nth_append)
      ultimately show ?thesis
        using d(3) [OF p(1)] packed_bits [OF assms(1,2) _ n] by (simp add: stream_bit_def)
    next
      case False
      then have "b * n \<le> p"
        using frame_words_le(2) [of b n] by linarith
      then show ?thesis
        using d(3) [OF p(1)] False k p(2) n by (simp add: stream_bit_def packed_def nth_append packed_bit_def)
    qed
  qed
  then show ?thesis
    using d(1) n by (simp add: pack_def)
qed

lemma frame_words_step: "32 \<le> n \<Longrightarrow> frame_words b n = b + frame_words b (n - 32)"
proof -
  assume "32 \<le> n"
  then obtain m where "n = 32 + m"
    using le_Suc_ex by blast
  then have "b * n + 31 = 32 * b + (b * (n - 32) + 31)"
    by (simp add: distrib_left)
  then show ?thesis
    by (simp add: frame_words_def)
qed

lemma pack_word_cong:
  assumes "0 < b" "b \<le> 32" "\<And>t. t < 32 \<Longrightarrow> x ((32 * j + t) div b) = y ((32 * i + t) div b)" "32 * j mod b = 32 * i mod b"
  shows "pack_word b x j = pack_word b y i"
proof (rule bit_word_eqI)
  fix t assume "t < LENGTH(32)"
  then have t: "t < 32"
    by simp
  have "(32 * j + t) mod b = (32 * i + t) mod b"
    using assms(4) by (metis mod_add_left_eq)
  then show "bit (pack_word b x j) t = bit (pack_word b y i) t"
    using assms(3) [OF t] by (simp add: bit_pack_word [OF assms(1,2) t])
qed

text \<open>A round of 32 values fills \<open>b\<close> words.\<close>

lemma packed_step:
  assumes "0 < b" "b \<le> 32" "32 \<le> n" "n \<le> length src"
  shows "packed b src n dest = map (pack_word b (nth src)) [0..<b] @ packed b (drop 32 src) (n - 32) (drop b dest)"
proof -
  have first: "pack_word b (padded src n) j = pack_word b (nth src) j" if "j < b" for j
  proof (rule pack_word_cong [OF assms(1,2)])
    fix t :: nat assume "t < 32"
    then have "32 * j + t < 32 * b"
      using that by linarith
    then have "(32 * j + t) div b < 32"
      using assms(1) by (simp add: div_less_iff_less_mult)
    then show "padded src n ((32 * j + t) div b) = src ! ((32 * j + t) div b)"
      using assms(3) by (simp add: padded_def)
  qed simp
  have second: "pack_word b (padded src n) (b + j) = pack_word b (padded (drop 32 src) (n - 32)) j" for j
  proof (rule pack_word_cong [OF assms(1,2)])
    fix t :: nat
    have "(32 * (b + j) + t) div b = 32 + (32 * j + t) div b"
      using assms(1) by (simp add: distrib_left add.assoc)
    then show "padded src n ((32 * (b + j) + t) div b) = padded (drop 32 src) (n - 32) ((32 * j + t) div b)"
      using assms(3,4) by (auto simp: padded_def)
  qed (simp add: distrib_left)
  have "[0..<frame_words b n] = [0..<b] @ map (\<lambda>j. b + j) [0..<frame_words b (n - 32)]"
    unfolding frame_words_step [OF assms(3)] using upt_add_eq_append [of 0 b] map_shift_upt [of id b] by simp
  then show ?thesis
    by (simp add: packed_def first second frame_words_step [OF assms(3)] o_def drop_drop add.commute [of b "frame_words b (n - 32)"])
qed

lemma pack_blocks_packed:
  assumes "0 < b" "b \<le> 32" "\<And>x. block x = map (pack_word b x) [0..<b]" "fits b src n" "cleared b n dest"
  shows "pack_blocks block b b dest src n = Some (packed b src n dest)"
  using assms(4,5)
proof (induction n arbitrary: src dest rule: less_induct)
  case (less n)
  show ?case
  proof (cases "n < 32")
    case True
    have "packed b src 0 dest = dest"
      by (simp add: packed_def frame_words_def)
    then show ?thesis
      using True pack_packed [OF assms(1,2) less.prems] by (auto simp: pack_blocks.simps [of block b b dest src n])
  next
    case False
    then have n: "32 \<le> n" "n \<le> length src" "b \<le> length dest"
      using less.prems frame_words_step [of n b] by (auto simp: fits_def cleared_def)
    have "fits b (drop 32 src) (n - 32)"
      using less.prems(1) n unfolding fits_def drop_take [symmetric] by (auto dest: in_set_dropD)
    moreover have "cleared b (n - 32) (drop b dest)"
      using less.prems(2) unfolding cleared_def frame_words_step [OF n(1)] take_drop by (auto simp: add.commute dest: in_set_dropD)
    ultimately have "pack_blocks block b b (drop b dest) (drop 32 src) (n - 32) = Some (packed b (drop 32 src) (n - 32) (drop b dest))"
      using less.IH [of "n - 32"] n(1) by simp
    then show ?thesis
      using n by (simp add: pack_blocks.simps [of block b b dest src n] packed_step [OF assms(1,2) n(1,2)] assms(3) [of "nth src"])
  qed
qed

section \<open>Unpacking reads the reference fields\<close>

definition unpacked :: "nat \<Rightarrow> u32 list \<Rightarrow> nat \<Rightarrow> u32 list \<Rightarrow> u32 list" where
  "unpacked b src n dest = map (unpack_word b (nth src)) [0..<n] @ drop n dest"

lemma unpacked_step:
  assumes "32 \<le> n" "\<And>i. unpack_word b (nth (drop step src)) i = unpack_word b (nth src) (32 + i)"
  shows "unpacked b src n dest = map (unpack_word b (nth src)) [0..<32] @ unpacked b (drop step src) (n - 32) (drop 32 dest)"
proof -
  have "[0..<n] = [0..<32] @ map (\<lambda>i. 32 + i) [0..<n - 32]"
    using assms(1) upt_add_eq_append [of 0 32 "n - 32"] map_shift_upt [of id 32 "n - 32"] by simp
  then show ?thesis
    using assms by (simp add: unpacked_def o_def del: upt_conv_Cons)
qed

text \<open>The words that are read are there: \<open>n\<close> values of \<open>b\<close> bits.\<close>

lemma unpack_blocks_unpacked:
  assumes "b \<le> 32" "step = b \<or> b = 0" "\<And>w. block w = map (unpack_word b w) [0..<32]"
    and "\<And>dest src n. n < 32 \<Longrightarrow> n \<le> length dest \<Longrightarrow> b * n \<le> 32 * length src \<Longrightarrow>
      tail_of dest src n = Some (unpacked b src n dest)"
    and "n \<le> length dest" "b * n \<le> 32 * length src"
  shows "unpack_blocks block b step tail_of dest src n = Some (unpacked b src n dest)"
  using assms(5,6)
proof (induction n arbitrary: src dest rule: less_induct)
  case (less n)
  show ?case
  proof (cases "n < 32")
    case True
    have "unpacked b src 0 dest = dest"
      by (simp add: unpacked_def)
    then show ?thesis
      using True assms(4) [OF True less.prems] by (auto simp: unpack_blocks.simps [of block b step tail_of dest src n])
  next
    case False
    then obtain m where m: "n = 32 + m"
      by (metis le_Suc_ex not_less)
    have b: "b \<le> length src" "b * m \<le> 32 * length (drop step src)"
      using less.prems(2) assms(2) by (auto simp: m distrib_left)
    have shift: "unpack_word b (nth (drop step src)) i = unpack_word b (nth src) (32 + i)" for i
    proof (cases "b = 0")
      case False
      then have "nth (drop step src) = (\<lambda>j. src ! (b * 1 + j))"
        using assms(2) b(1) by (simp add: fun_eq_iff)
      then show ?thesis
        using fun_cong [OF unpack_word_shift [of b 32 b "nth src" 1], of i] assms(1) by simp
    qed (simp add: unpack_word_0)
    have "unpack_blocks block b step tail_of (drop 32 dest) (drop step src) (n - 32) = Some (unpacked b (drop step src) (n - 32) (drop 32 dest))"
      using less.IH [of "n - 32" "drop 32 dest" "drop step src"] less.prems(1) b(2) by (simp add: m)
    then show ?thesis
      using less.prems(1) b(1) unfolding m
      by (simp add: unpack_blocks.simps [of block b step tail_of dest src "32 + m"] unpacked_step [OF _ shift] assms(3) [of "nth src"])
  qed
qed

lemma unaligned_unpacked:
  assumes "\<And>w n. n \<le> 31 \<Longrightarrow> routine w n = map (unpack_word b w) [0..<n]" "n < 32" "n \<le> length dest" "b * n \<le> 32 * length src"
  shows "unaligned routine b dest src n = Some (unpacked b src n dest)"
  using assms by (simp add: unaligned_def unpacked_def)

lemma and_mask_32: "v AND mask 32 = v" "v AND 0xFFFFFFFF = v" for v :: u32
  using take_bit_word_eq_self [of 32 v] by (simp_all add: take_bit_eq_mask mask_numerals(32) del: mask_eq_exp_minus_1)

lemma copy_words_unpacked: "n \<le> length dest \<Longrightarrow> n \<le> length src \<Longrightarrow> copy_words dest src n = Some (unpacked 32 src n dest)"
proof (induction dest src n rule: copy_words.induct)
  case (2 d dest e src n)
  have "map (unpack_word 32 (nth (e # src))) [0..<Suc n] = e # map (unpack_word 32 (nth src)) [0..<n]"
    unfolding upt_rec [of 0 "Suc n"] map_Suc_upt [symmetric] by (simp add: unpack_word_def field_def and_mask_32)
  then show ?case
    using 2 by (simp add: unpacked_def and_mask_32 del: upt_Suc)
qed (simp_all add: unpacked_def)

section \<open>Every routine of the tables\<close>

definition packs :: "nat \<Rightarrow> (u32 list \<Rightarrow> u32 list \<Rightarrow> nat \<Rightarrow> u32 list option) \<Rightarrow> bool" where
  "packs b f \<longleftrightarrow> (\<forall>dest src n. fits b src n \<longrightarrow> cleared b n dest \<longrightarrow> f dest src n = Some (packed b src n dest))"

definition unpacks :: "nat \<Rightarrow> (u32 list \<Rightarrow> u32 list \<Rightarrow> nat \<Rightarrow> u32 list option) \<Rightarrow> bool" where
  "unpacks b f \<longleftrightarrow> (\<forall>dest src n. n \<le> length dest \<longrightarrow> b * n \<le> 32 * length src \<longrightarrow> f dest src n = Some (unpacked b src n dest))"

lemma packs_blocks:
  "0 < b \<Longrightarrow> b \<le> 32 \<Longrightarrow> (\<And>x. block x = map (pack_word b x) [0..<b]) \<Longrightarrow> packs b (pack_blocks block b b)"
  by (simp add: packs_def pack_blocks_packed)

lemma unpacks_blocks:
  assumes "b < 32" "\<And>w. block w = map (unpack_word b w) [0..<32]" "\<And>w n. n \<le> 31 \<Longrightarrow> routine w n = map (unpack_word b w) [0..<n]"
  shows "unpacks b (unpack_blocks block b b (unaligned routine b))"
  using assms by (simp add: unpacks_def unpack_blocks_unpacked unaligned_unpacked)

lemma pack_table: "list_all2 packs [0..<33] pack_func"
proof -
  have "packs 0 pack_0"
    by (simp add: packs_def pack_0_def packed_def frame_words_def)
  moreover have "packs 1 pack_1"
    "packs 2 pack_2"
    "packs 3 pack_3"
    "packs 4 pack_4"
    "packs 5 pack_5"
    "packs 6 pack_6"
    "packs 7 pack_7"
    "packs 8 pack_8"
    "packs 9 pack_9"
    "packs 10 pack_10"
    "packs 11 pack_11"
    "packs 12 pack_12"
    "packs 13 pack_13"
    "packs 14 pack_14"
    "packs 15 pack_15"
    "packs 16 pack_16"
    "packs 17 pack_17"
    "packs 18 pack_18"
    "packs 19 pack_19"
    "packs 20 pack_20"
    "packs 21 pack_21"
    "packs 22 pack_22"
    "packs 23 pack_23"
    "packs 24 pack_24"
    "packs 25 pack_25"
    "packs 26 pack_26"
    "packs 27 pack_27"
    "packs 28 pack_28"
    "packs 29 pack_29"
    "packs 30 pack_30"
    "packs 31 pack_31"
    "packs 32 pack_32"
    unfolding
      pack_1_def pack_2_def pack_3_def pack_4_def pack_5_def pack_6_def pack_7_def pack_8_def pack_9_def pack_10_def
      pack_11_def pack_12_def pack_13_def pack_14_def pack_15_def pack_16_def pack_17_def pack_18_def pack_19_def
      pack_20_def pack_21_def pack_22_def pack_23_def pack_24_def pack_25_def pack_26_def pack_27_def pack_28_def
      pack_29_def pack_30_def pack_31_def pack_32_def
    by (rule packs_blocks; simp add: pack_block_eqs pack_32_block)+
  ultimately show ?thesis
    by (simp add: pack_func_def numeral_upt del: One_nat_def)
qed

lemmas unaligned_eqs = unaligned_shift_eqs unaligned_mask_eqs unaligned_loop_eqs unaligned_loop_mask_eqs

lemma unpack_table: "list_all2 unpacks [0..<33] unpack_func"
proof -
  have "unaligned_unpack_0 w n = map (unpack_word 0 w) [0..<n]" for w n
    by (simp add: unaligned_unpack_0_def list_eq_iff_nth_eq unpack_word_0)
  then have "unpacks 0 unpack_0"
    by (simp add: unpacks_def unpack_0_def unpack_blocks_unpacked [where b = 0] unpack_0_block unaligned_unpacked)
  moreover have "unpacks 1 unpack_1"
    "unpacks 2 unpack_2"
    "unpacks 3 unpack_3"
    "unpacks 4 unpack_4"
    "unpacks 5 unpack_5"
    "unpacks 6 unpack_6"
    "unpacks 7 unpack_7"
    "unpacks 8 unpack_8"
    "unpacks 9 unpack_9"
    "unpacks 10 unpack_10"
    "unpacks 11 unpack_11"
    "unpacks 12 unpack_12"
    "unpacks 13 unpack_13"
    "unpacks 14 unpack_14"
    "unpacks 15 unpack_15"
    "unpacks 16 unpack_16"
    "unpacks 17 unpack_17"
    "unpacks 18 unpack_18"
    "unpacks 19 unpack_19"
    "unpacks 20 unpack_20"
    "unpacks 21 unpack_21"
    "unpacks 22 unpack_22"
    "unpacks 23 unpack_23"
    "unpacks 24 unpack_24"
    "unpacks 25 unpack_25"
    "unpacks 26 unpack_26"
    "unpacks 27 unpack_27"
    "unpacks 28 unpack_28"
    "unpacks 29 unpack_29"
    "unpacks 30 unpack_30"
    "unpacks 31 unpack_31"
    unfolding
      unpack_1_def unpack_2_def unpack_3_def unpack_4_def unpack_5_def unpack_6_def unpack_7_def unpack_8_def
      unpack_9_def unpack_10_def unpack_11_def unpack_12_def unpack_13_def unpack_14_def unpack_15_def unpack_16_def
      unpack_17_def unpack_18_def unpack_19_def unpack_20_def unpack_21_def unpack_22_def unpack_23_def
      unpack_24_def unpack_25_def unpack_26_def unpack_27_def unpack_28_def unpack_29_def unpack_30_def
      unpack_31_def
    by (rule unpacks_blocks; simp add: unpack_block_eqs unaligned_eqs)+
  moreover have "unpacks 32 unpack_32"
    by (simp add: unpacks_def unpack_32_def unpack_blocks_unpacked [where b = 32] unpack_block_eqs copy_words_unpacked)
  ultimately show ?thesis
    by (simp add: unpack_func_def numeral_upt del: One_nat_def)
qed

lemma Pack_packed:
  assumes "b \<le> 32" "fits b src n" "cleared b n dest"
  shows "Pack dest src n b = Some (packed b src n dest)"
proof -
  have "b < length pack_func" "packs b (pack_func ! b)"
    using pack_table assms(1) list_all2_nthD [OF pack_table, of b] by (auto dest: list_all2_lengthD)
  then show ?thesis
    using assms(2,3) by (simp add: Pack_def packs_def)
qed

lemma Unpack_unpacked:
  assumes "b \<le> 32" "n \<le> length dest" "b * n \<le> 32 * length src"
  shows "Unpack dest src n b = Some (unpacked b src n dest)"
proof -
  have "b < length unpack_func" "unpacks b (unpack_func ! b)"
    using unpack_table assms(1) list_all2_nthD [OF unpack_table, of b] by (auto dest: list_all2_lengthD)
  then show ?thesis
    using assms(2,3) by (simp add: Unpack_def unpacks_def)
qed

text \<open>Unpacking what was packed gives the values back.\<close>

lemma unpacked_packed:
  assumes "b \<le> 32" "fits b src n" "\<And>j. j < frame_words b n \<Longrightarrow> ws ! j = packed b src n dest ! j"
  shows "unpacked b ws n out = take n src @ drop n out"
proof -
  have n: "n \<le> length src"
    using assms(2) by (simp add: fits_def)
  have fit: "take_bit b (src ! i) = src ! i" if "i < n" for i
    using assms(2) that n by (metis fits_def in_set_conv_nth length_take min.absorb2 nth_take)
  have "unpack_word b (nth ws) i = src ! i" if i: "i < n" for i
  proof (cases "b = 0")
    case True
    then show ?thesis
      using fit [OF i] by (simp add: unpack_word_0)
  next
    case False
    have "ws ! j = pack_word b (padded src n) j" if "32 * j < b * i + b" for j
    proof -
      have "b * i + b \<le> b * n"
        using i by (metis Suc_leI add.commute mult_Suc_right mult_le_mono2)
      then have "j < frame_words b n"
        using that frame_words_le(2) [of b n] by linarith
      then show ?thesis
        using assms(3) [of j] by (simp add: packed_def nth_append)
    qed
    then show ?thesis
      using unpack_pack_word [of b i "nth ws" "padded src n"] False assms(1) fit [OF i] i by (simp add: padded_def)
  qed
  then have "map (unpack_word b (nth ws)) [0..<n] = take n src"
    using n by (simp add: list_eq_iff_nth_eq)
  then show ?thesis
    by (simp add: unpacked_def)
qed

section \<open>Frames of packed values\<close>

definition packed_words :: "nat \<Rightarrow> u32 list \<Rightarrow> nat \<Rightarrow> u32 list" where
  "packed_words b code n = map (pack_word b (padded code n)) [0..<frame_words b n]"

lemma length_packed_words [simp]: "length (packed_words b code n) = frame_words b n"
  by (simp add: packed_words_def)

lemma frame_words_bound: "b \<le> 32 \<Longrightarrow> frame_words b n \<le> n"
proof -
  assume "b \<le> 32"
  then have "b * n + 31 \<le> 32 * n + 31"
    by (simp add: mult_le_mono1)
  then have "(b * n + 31) div 32 \<le> (32 * n + 31) div 32"
    by (rule div_le_mono)
  then show ?thesis
    by (simp add: frame_words_def)
qed

text \<open>
  The interface of the routines to the block compressor: storing values in cleared memory and loading them.  A frame
  starts with a word for its header, which is cleared together with the words after it.
\<close>

locale value_store =
  fixes store load :: "u32 list \<Rightarrow> u32 list \<Rightarrow> nat \<Rightarrow> nat \<Rightarrow> u32 list option"
  assumes store_packed: "b \<le> 32 \<Longrightarrow> fits b src n \<Longrightarrow> cleared b n dest \<Longrightarrow> store dest src n b = Some (packed b src n dest)"
    and load_unpacked: "b \<le> 32 \<Longrightarrow> n \<le> length dest \<Longrightarrow> b * n \<le> 32 * length src \<Longrightarrow> load dest src n b = Some (unpacked b src n dest)"
begin

lemma store_after_header:
  assumes "b \<le> 32" "fits b code n" "frame_words b n + 1 \<le> length dest"
  shows "store (drop 1 (replicate (frame_words b n + 1) 0 @ drop (frame_words b n + 1) dest)) code n b =
    Some (packed_words b code n @ drop (frame_words b n + 1) dest)"
proof -
  let ?k = "frame_words b n"
  have "drop 1 (replicate (?k + 1) 0 @ drop (?k + 1) dest) = replicate ?k 0 @ drop (?k + 1) dest"
    by simp
  moreover have "cleared b n (replicate ?k 0 @ drop (?k + 1) dest)"
    by (simp add: cleared_def)
  ultimately show ?thesis
    using store_packed [OF assms(1,2)] by (simp add: packed_def packed_words_def)
qed

lemma load_words:
  assumes "b \<le> 32" "fits b code n" "n \<le> length out"
  shows "load out (packed_words b code n @ rest) n b = Some (take n code @ drop n out)"
proof -
  let ?body = "packed_words b code n @ rest"
  have "unpacked b ?body n out = take n code @ drop n out"
    by (rule unpacked_packed [OF assms(1,2), where dest = "[]"]) (simp add: packed_words_def packed_def nth_append)
  moreover have "b * n \<le> 32 * length ?body"
    using frame_words_le(2) [of b n] by simp
  ultimately show ?thesis
    using load_unpacked [OF assms(1,3)] by simp
qed

end

interpretation frames: value_store Pack Unpack
  by unfold_locales (rule Pack_packed Unpack_unpacked; assumption)+

end
