(* ===== verification/S9Compressor.thy ===== *)
theory S9Compressor
  imports BitPacking "HOL-Library.Monad_Syntax"
begin

text \<open>
  The Simple-9 coder of \<^verbatim>\<open>indexlib/index/common/numeric_compress/S9Compressor.h\<close> at the element type \<^verbatim>\<open>uint32_t\<close>:
  a word holds in its high four bits which of nine layouts it has, and in its low 28 bits as many values of the same
  width.  Encoding takes the layout with most values for which the next values are narrow enough.
\<close>

section \<open>Encoding\<close>

definition BIT_LENGTH :: "nat list" where
  "BIT_LENGTH = [1, 2, 3, 4, 5, 7, 9, 14, 28]"

definition CODE_NUM :: "nat list" where
  "CODE_NUM = [28, 14, 9, 7, 5, 4, 3, 2, 1]"

text \<open>
  The innermost loop for \<open>i\<close> from the number of values left to accumulate: \<open>None\<close> if it stops at a value that is
  too wide.
\<close>

fun accumulate :: "nat \<Rightarrow> nat \<Rightarrow> u32 list \<Rightarrow> u32 \<Rightarrow> u32 option" where
  "accumulate b 0 src res = Some res"
| "accumulate b (Suc n) [] res = None"
| "accumulate b (Suc n) (v # src) res = (if v < push_bit b 1 then accumulate b n src (push_bit b res + v) else None)"

text \<open>
  The loop over \<open>k\<close>: the word for the next values and their number.  \<open>None\<close> is the branch for \<open>k \<ge> 8\<close>, in which
  even the layout with one value does not fit.
\<close>

fun encode_word :: "nat list \<Rightarrow> u32 list \<Rightarrow> (u32 \<times> nat) option" where
  "encode_word [] src = None"
| "encode_word (k # ks) src =
     (let curSize = CODE_NUM ! k
      in if length src \<le> curSize - 1 then encode_word ks src
         else case accumulate (BIT_LENGTH ! k) curSize src 0 of
                Some res \<Rightarrow> Some (res OR push_bit 28 (of_nat k), curSize)
              | None \<Rightarrow> encode_word ks src)"

lemma CODE_NUM_pos: "k < 9 \<Longrightarrow> 0 < CODE_NUM ! k"
  by (auto simp: CODE_NUM_def less_Suc_eq numeral_eq_Suc)

lemma encode_word_size: "encode_word ks src = Some (res, n) \<Longrightarrow> \<exists>k \<in> set ks. n = CODE_NUM ! k"
  by (induction ks) (auto simp: Let_def split: if_splits option.splits)

text \<open>The loop over the source: \<open>src\<close> is what is left of it, and \<open>dest\<close> the destination with its first \<open>resNum\<close> words set.\<close>

function Encode :: "u32 list \<Rightarrow> u32 list \<Rightarrow> nat \<Rightarrow> (status \<times> u32 list \<times> nat) option" where
  "Encode dest src resNum =
     (if src = [] then Some (StatusOK, dest, resNum)
      else case encode_word [0..<9] src of
             None \<Rightarrow> Some (OutOfRange, dest, 0)
           | Some (res, curSize) \<Rightarrow>
               if resNum < length dest then Encode (dest[resNum := res]) (drop curSize src) (resNum + 1) else None)"
  by pat_completeness auto
termination
  by (relation "measure (\<lambda>(dest, src, resNum). length src)") (auto simp: CODE_NUM_pos dest!: encode_word_size)

declare Encode.simps [simp del]

section \<open>Decoding\<close>

text \<open>The values of a word, by the layout in its high bits.\<close>

definition decode_word :: "u32 \<Rightarrow> u32 list option" where
  "decode_word val =
     (let header = unat (drop_bit 28 val)
      in if header = 0 then Some
        [drop_bit 31 (push_bit 4 val), drop_bit 31 (push_bit 5 val), drop_bit 31 (push_bit 6 val),
         drop_bit 31 (push_bit 7 val), drop_bit 31 (push_bit 8 val), drop_bit 31 (push_bit 9 val),
         drop_bit 31 (push_bit 10 val), drop_bit 31 (push_bit 11 val), drop_bit 31 (push_bit 12 val),
         drop_bit 31 (push_bit 13 val), drop_bit 31 (push_bit 14 val), drop_bit 31 (push_bit 15 val),
         drop_bit 31 (push_bit 16 val), drop_bit 31 (push_bit 17 val), drop_bit 31 (push_bit 18 val),
         drop_bit 31 (push_bit 19 val), drop_bit 31 (push_bit 20 val), drop_bit 31 (push_bit 21 val),
         drop_bit 31 (push_bit 22 val), drop_bit 31 (push_bit 23 val), drop_bit 31 (push_bit 24 val),
         drop_bit 31 (push_bit 25 val), drop_bit 31 (push_bit 26 val), drop_bit 31 (push_bit 27 val),
         drop_bit 31 (push_bit 28 val), drop_bit 31 (push_bit 29 val), drop_bit 31 (push_bit 30 val),
         drop_bit 31 (push_bit 31 val)]
         else if header = 1 then Some
        [drop_bit 30 (push_bit 4 val), drop_bit 30 (push_bit 6 val), drop_bit 30 (push_bit 8 val),
         drop_bit 30 (push_bit 10 val), drop_bit 30 (push_bit 12 val), drop_bit 30 (push_bit 14 val),
         drop_bit 30 (push_bit 16 val), drop_bit 30 (push_bit 18 val), drop_bit 30 (push_bit 20 val),
         drop_bit 30 (push_bit 22 val), drop_bit 30 (push_bit 24 val), drop_bit 30 (push_bit 26 val),
         drop_bit 30 (push_bit 28 val), drop_bit 30 (push_bit 30 val)]
         else if header = 2 then Some
        [drop_bit 29 (push_bit 5 val), drop_bit 29 (push_bit 8 val), drop_bit 29 (push_bit 11 val),
         drop_bit 29 (push_bit 14 val), drop_bit 29 (push_bit 17 val), drop_bit 29 (push_bit 20 val),
         drop_bit 29 (push_bit 23 val), drop_bit 29 (push_bit 26 val), drop_bit 29 (push_bit 29 val)]
         else if header = 3 then Some
        [drop_bit 28 (push_bit 4 val), drop_bit 28 (push_bit 8 val), drop_bit 28 (push_bit 12 val),
         drop_bit 28 (push_bit 16 val), drop_bit 28 (push_bit 20 val), drop_bit 28 (push_bit 24 val),
         drop_bit 28 (push_bit 28 val)]
         else if header = 4 then Some
        [drop_bit 27 (push_bit 7 val), drop_bit 27 (push_bit 12 val), drop_bit 27 (push_bit 17 val),
         drop_bit 27 (push_bit 22 val), drop_bit 27 (push_bit 27 val)]
         else if header = 5 then Some
        [drop_bit 25 (push_bit 4 val), drop_bit 25 (push_bit 11 val), drop_bit 25 (push_bit 18 val),
         drop_bit 25 (push_bit 25 val)]
         else if header = 6 then Some
        [drop_bit 23 (push_bit 5 val), drop_bit 23 (push_bit 14 val), drop_bit 23 (push_bit 23 val)]
         else if header = 7 then Some
        [drop_bit 18 (push_bit 4 val), drop_bit 18 (push_bit 18 val)]
         else if header = 8 then Some
        [drop_bit 4 (push_bit 4 val)]
         else None)"

fun Decode :: "u32 list \<Rightarrow> u32 list option" where
  "Decode [] = Some []"
| "Decode (val # src) = do { vs \<leftarrow> decode_word val; rest \<leftarrow> Decode src; Some (vs @ rest) }"

section \<open>The size of an encoding\<close>

text \<open>\<open>CalculateBytes\<close> runs the same choice on the widths of the values; \<open>None\<close> is a failed assertion.
  The number of bytes is taken without wrap-around, which differs from the product in 32 bits of the code only from
  \<open>2 ^ 30\<close> words on.\<close>

fun choose_size :: "nat list \<Rightarrow> nat list \<Rightarrow> nat option" where
  "choose_size [] bits = None"
| "choose_size (k # ks) bits =
     (let curSize = CODE_NUM ! k
      in if length bits \<le> curSize - 1 then choose_size ks bits
         else if \<forall>w \<in> set (take curSize bits). w \<le> BIT_LENGTH ! k then Some curSize
         else choose_size ks bits)"

lemma choose_size_size: "choose_size ks bits = Some n \<Longrightarrow> \<exists>k \<in> set ks. n = CODE_NUM ! k"
  by (induction ks) (auto simp: Let_def split: if_splits)

function count_words :: "nat list \<Rightarrow> nat \<Rightarrow> nat option" where
  "count_words bits resNum =
     (if bits = [] then Some resNum
      else case choose_size [0..<9] bits of
             None \<Rightarrow> None
           | Some curSize \<Rightarrow> count_words (drop curSize bits) (resNum + 1))"
  by pat_completeness auto
termination
  by (relation "measure (\<lambda>(bits, resNum). length bits)") (auto simp: CODE_NUM_pos dest!: choose_size_size)

declare count_words.simps [simp del]

definition CalculateBytes :: "nat list \<Rightarrow> nat option" where
  "CalculateBytes bits = map_option (\<lambda>resNum. resNum * 4) (count_words bits 0)"

section \<open>A word decodes to the values it was made from\<close>

lemma less_exp_iff: "b < 32 \<Longrightarrow> v < push_bit b 1 \<longleftrightarrow> take_bit b v = v" for v :: u32
proof -
  assume b: "b < 32"
  have "unat (of_nat (2 ^ b) :: u32) = 2 ^ b"
    unfolding unsigned_of_nat take_bit_nat_eq_self_iff using b by simp
  then have "unat (push_bit b 1 :: u32) = 2 ^ b"
    by simp
  then have "v < push_bit b 1 \<longleftrightarrow> unat v < 2 ^ b"
    by (simp add: word_less_nat_alt)
  also have "\<dots> \<longleftrightarrow> take_bit b v = v"
    by (metis take_bit_nat_eq_self_iff unsigned_take_bit_eq unsigned_word_eqI)
  finally show ?thesis .
qed

lemma less_power_iff: "b < 32 \<Longrightarrow> v < 2 ^ b \<longleftrightarrow> take_bit b v = v" for v :: u32
  using less_exp_iff [of b v] by simp

lemma bit_shift_add:
  fixes v r :: u32
  assumes "take_bit b v = v" "t < 32"
  shows "bit (push_bit b r + v) t \<longleftrightarrow> (if t < b then bit v t else bit r (t - b))"
proof -
  have v: "bit v s \<Longrightarrow> s < b" for s
    using assms(1) by (metis bit_take_bit_iff)
  have "push_bit b r AND v = 0"
    by (intro bit_eqI) (auto simp: bit_simps dest!: v)
  then have "push_bit b r + v = push_bit b r OR v"
    by (rule disjunctive_add_eq_or)
  then show ?thesis
    using v assms(2) by (auto simp: bit_simps)
qed

lemma accumulate_bits:
  assumes "b < 32" "0 < b" "accumulate b n src res = Some r"
  shows "n \<le> length src \<and> (\<forall>i < n. take_bit b (src ! i) = src ! i) \<and>
    (\<forall>t < 32. bit r t \<longleftrightarrow> (if t < b * n then bit (src ! (n - 1 - t div b)) (t mod b) else bit res (t - b * n)))"
  using assms(3)
proof (induction n arbitrary: src res)
  case (Suc n)
  then obtain v vs where src: "src = v # vs" and v: "take_bit b v = v" and acc: "accumulate b n vs (push_bit b res + v) = Some r"
    using less_exp_iff [OF assms(1)] by (cases src) (auto split: if_splits)
  note IH = Suc.IH [OF acc]
  have "bit r t \<longleftrightarrow> (if t < b * Suc n then bit (src ! (Suc n - 1 - t div b)) (t mod b) else bit res (t - b * Suc n))" if t: "t < 32" for t
  proof (cases "t < b * n")
    case True
    then have "t div b < n"
      using assms(2) by (simp add: div_less_iff_less_mult mult.commute)
    then have "n - t div b = Suc (n - 1 - t div b)"
      by simp
    then show ?thesis
      using IH t True by (simp add: src)
  next
    case False
    then have r: "bit r t \<longleftrightarrow> (if t - b * n < b then bit v (t - b * n) else bit res (t - b * n - b))"
      using IH t bit_shift_add [OF v] by simp
    have "t div b = n" "t mod b = t - b * n" if "t < b * Suc n"
    proof -
      show n: "t div b = n"
        using False that by (intro div_nat_eqI) (simp_all add: mult.commute)
      show "t mod b = t - b * n"
        using minus_mult_div_eq_mod [of t b] n by simp
    qed
    then show ?thesis
      using r False by (auto simp: src add.commute)
  qed
  then show ?case
    using IH v by (auto simp: src less_Suc_eq_0_disj)
qed simp

text \<open>The layouts: the value \<open>i\<close> of \<open>n\<close> is the field above the values after it.\<close>

lemma decode_word_fields:
  assumes "k < 9" "drop_bit 28 val = of_nat k"
  shows "decode_word val = Some (map (\<lambda>i. field (BIT_LENGTH ! k * (CODE_NUM ! k - 1 - i)) (BIT_LENGTH ! k) val) [0..<CODE_NUM ! k])"
proof -
  have header: "unat (drop_bit 28 val) = k"
    using assms by (simp add: unsigned_of_nat take_bit_nat_eq_self)
  have "k = 0 \<or> k = 1 \<or> k = 2 \<or> k = 3 \<or> k = 4 \<or> k = 5 \<or> k = 6 \<or> k = 7 \<or> k = 8"
    using assms(1) by linarith
  then show ?thesis
    using header unfolding decode_word_def Let_def shifted_def [symmetric]
    by (elim disjE; simp add: BIT_LENGTH_def CODE_NUM_def field_shifted numeral_upt del: One_nat_def)
qed

lemma nine_cases:
  "k < 9 \<Longrightarrow> k = 0 \<or> k = 1 \<or> k = 2 \<or> k = 3 \<or> k = 4 \<or> k = 5 \<or> k = 6 \<or> k = 7 \<or> k = (8 :: nat)"
  by linarith

lemma layout:
  assumes "k < 9"
  shows "0 < BIT_LENGTH ! k" "BIT_LENGTH ! k \<le> 28" "BIT_LENGTH ! k * CODE_NUM ! k \<le> 28"
    "drop_bit 28 (push_bit 28 (of_nat k :: u32)) = of_nat k"
  using nine_cases [OF assms] by (elim disjE; simp add: BIT_LENGTH_def CODE_NUM_def)+

lemma decode_accumulated:
  assumes k: "k < 9" and r: "accumulate (BIT_LENGTH ! k) (CODE_NUM ! k) src 0 = Some r"
  shows "decode_word (r OR push_bit 28 (of_nat k)) = Some (take (CODE_NUM ! k) src)"
proof -
  let ?b = "BIT_LENGTH ! k" and ?n = "CODE_NUM ! k" and ?val = "r OR push_bit 28 (of_nat k)"
  note b = layout [OF k]
  have acc: "?n \<le> length src" "\<And>i. i < ?n \<Longrightarrow> take_bit ?b (src ! i) = src ! i"
    "\<And>t. t < 32 \<Longrightarrow> bit r t \<longleftrightarrow> t < ?b * ?n \<and> bit (src ! (?n - 1 - t div ?b)) (t mod ?b)"
    using accumulate_bits [OF _ b(1) r] b(2) by auto
  have "drop_bit 28 r = 0"
  proof (rule bit_eqI)
    show "bit (drop_bit 28 r) t \<longleftrightarrow> bit 0 t" for t
      using acc(3) [of "28 + t"] b(3) bit_imp_le_length [of r "28 + t"] by (auto simp: bit_simps)
  qed
  then have "drop_bit 28 ?val = of_nat k"
    using b(4) by (simp add: drop_bit_or)
  moreover have "field (?b * (?n - 1 - i)) ?b ?val = src ! i" if i: "i < ?n" for i
  proof (rule bit_eqI)
    fix t
    let ?s = "?b * (?n - 1 - i)"
    show "bit (field ?s ?b ?val) t \<longleftrightarrow> bit (src ! i) t"
    proof (cases "t < ?b")
      case True
      have "Suc (?n - 1 - i) \<le> ?n"
        using i by simp
      then have "?b * Suc (?n - 1 - i) \<le> ?b * ?n"
        by (rule mult_le_mono2)
      then have "?s + t < ?b * ?n"
        using True by simp
      moreover have "(?s + t) div ?b = ?n - 1 - i" "(?s + t) mod ?b = t"
        using True by simp_all
      ultimately show ?thesis
        using True acc(3) [of "?s + t"] b(3) i by (simp add: bit_field bit_simps)
    next
      case False
      then show ?thesis
        using acc(2) [OF i] by (metis bit_field bit_take_bit_iff)
    qed
  qed
  ultimately show ?thesis
    using decode_word_fields [OF k] acc(1) by (simp add: list_eq_iff_nth_eq)
qed

lemma encode_word_decode:
  "encode_word ks src = Some (res, n) \<Longrightarrow> \<forall>k \<in> set ks. k < 9 \<Longrightarrow> decode_word res = Some (take n src) \<and> 0 < n \<and> n \<le> length src"
  by (induction ks) (auto simp: Let_def decode_accumulated CODE_NUM_pos split: if_splits option.splits)

section \<open>Which values a layout takes\<close>

lemma accumulate_iff:
  "b < 32 \<Longrightarrow> (\<exists>r. accumulate b n src res = Some r) \<longleftrightarrow> n \<le> length src \<and> (\<forall>v \<in> set (take n src). take_bit b v = v)"
  by (induction b n src res rule: accumulate.induct) (auto simp: less_power_iff)

lemma encode_word_narrow:
  "encode_word ks src = Some (res, n) \<Longrightarrow> \<forall>k \<in> set ks. k < 9 \<Longrightarrow> v \<in> set (take n src) \<Longrightarrow> take_bit 28 v = v"
proof (induction ks)
  case (Cons k ks)
  have "take_bit 28 v = v" if "accumulate (BIT_LENGTH ! k) (CODE_NUM ! k) src 0 = Some r" "n = CODE_NUM ! k" for r
  proof -
    have b: "BIT_LENGTH ! k \<le> 28"
      using layout(2) [of k] Cons.prems(2) by simp
    have "take_bit (BIT_LENGTH ! k) v = v"
      using accumulate_iff [of "BIT_LENGTH ! k" "CODE_NUM ! k" src 0] that b Cons.prems(3) by auto
    then show ?thesis
      using b by (metis min.absorb2 take_bit_take_bit)
  qed
  then show ?case
    using Cons by (auto simp: Let_def split: if_splits option.splits)
qed simp

lemma encode_word_None:
  assumes "encode_word ks src = None" "8 \<in> set ks" "src \<noteq> []"
  shows "take_bit 28 (hd src) \<noteq> hd src"
  using assms
proof (induction ks)
  case (Cons k ks)
  show ?case
  proof (cases "k = 8")
    case True
    obtain v vs where "src = v # vs"
      using Cons.prems(3) by (cases src) auto
    then show ?thesis
      using Cons.prems(1) True less_exp_iff [of 28 v] by (auto simp: CODE_NUM_def BIT_LENGTH_def split: if_splits option.splits)
  qed (use Cons in \<open>auto simp: Let_def split: if_splits option.splits\<close>)
qed simp

section \<open>Encoding and decoding\<close>

lemma Encode_Decode:
  assumes "\<forall>v \<in> set src. take_bit 28 v = v" "resNum + length src \<le> length dest"
  shows "\<exists>words. Encode dest src resNum = Some (StatusOK, take resNum dest @ words @ drop (resNum + length words) dest, resNum + length words)
    \<and> Decode words = Some src \<and> length words \<le> length src"
  using assms
proof (induction "length src" arbitrary: src dest resNum rule: less_induct)
  case less
  show ?case
  proof (cases "src = []")
    case True
    then show ?thesis
      by (intro exI [of _ "[]"]) (simp add: Encode.simps [of dest "[]"])
  next
    case False
    then have "take_bit 28 (hd src) = hd src"
      using less.prems(1) by simp
    then obtain res n where e: "encode_word [0..<9] src = Some (res, n)"
      using encode_word_None [of "[0..<9]" src] False by (cases "encode_word [0..<9] src") auto
    note d = encode_word_decode [OF e]
    have n: "decode_word res = Some (take n src)" "0 < n" "n \<le> length src"
      using d by auto
    let ?dest = "dest[resNum := res]"
    have room: "resNum < length dest" "resNum + 1 + length (drop n src) \<le> length ?dest"
      using less.prems(2) False n by (auto simp: Suc_le_eq)
    have "\<forall>v \<in> set (drop n src). take_bit 28 v = v"
      using less.prems(1) by (auto dest: in_set_dropD)
    then obtain words where w: "Encode ?dest (drop n src) (resNum + 1) =
        Some (StatusOK, take (resNum + 1) ?dest @ words @ drop (resNum + 1 + length words) ?dest, resNum + 1 + length words)"
      "Decode words = Some (drop n src)" "length words \<le> length (drop n src)"
      using less.hyps [of "drop n src" "resNum + 1" ?dest] room(2) n(2,3) False by auto
    have "Encode dest src resNum = Encode ?dest (drop n src) (resNum + 1)"
      using False e room(1) by (simp add: Encode.simps [of dest src])
    moreover have "take (resNum + 1) ?dest = take resNum dest @ [res]"
      using room(1) by (simp add: take_Suc_conv_app_nth)
    ultimately show ?thesis
      using w n by (intro exI [of _ "res # words"]) (auto simp: Suc_le_eq)
  qed
qed

text \<open>A value of more than 28 bits is reported.\<close>

lemma Encode_OutOfRange:
  assumes "\<exists>v \<in> set src. take_bit 28 v \<noteq> v" "resNum + length src \<le> length dest"
  shows "\<exists>d. Encode dest src resNum = Some (OutOfRange, d, 0)"
  using assms
proof (induction "length src" arbitrary: src dest resNum rule: less_induct)
  case less
  then have src: "src \<noteq> []"
    by auto
  show ?case
  proof (cases "encode_word [0..<9] src")
    case None
    then show ?thesis
      using src by (simp add: Encode.simps [of dest src])
  next
    case (Some p)
    then obtain res n where e: "encode_word [0..<9] src = Some (res, n)"
      by (cases p) auto
    have n: "0 < n" "n \<le> length src"
      using encode_word_decode [OF e] by auto
    have "\<forall>v \<in> set (take n src). take_bit 28 v = v"
      using encode_word_narrow [OF e] by auto
    then have "\<exists>v \<in> set (drop n src). take_bit 28 v \<noteq> v"
      using less.prems(1) append_take_drop_id [of n src] by (metis Un_iff set_append)
    moreover have room: "resNum < length dest" "resNum + 1 + length (drop n src) \<le> length (dest[resNum := res])"
      using less.prems(2) src n by (auto simp: Suc_le_eq)
    ultimately obtain d where "Encode (dest[resNum := res]) (drop n src) (resNum + 1) = Some (OutOfRange, d, 0)"
      using less.hyps [of "drop n src" "resNum + 1" "dest[resNum := res]"] n src by auto
    then show ?thesis
      using e src room(1) by (simp add: Encode.simps [of dest src])
  qed
qed

text \<open>\<open>CalculateBytes\<close> on the widths of the values counts the words of the encoding.\<close>

lemma choose_size_encode_word:
  assumes "\<And>v b. v \<in> set src \<Longrightarrow> b < 32 \<Longrightarrow> w v \<le> b \<longleftrightarrow> take_bit b v = v" "\<forall>k \<in> set ks. k < 9"
  shows "choose_size ks (map w src) = map_option snd (encode_word ks src)"
  using assms(2)
proof (induction ks)
  case (Cons k ks)
  let ?b = "BIT_LENGTH ! k" and ?n = "CODE_NUM ! k"
  have b: "?b < 32"
    using layout(2) [of k] Cons.prems by simp
  have "(\<forall>x \<in> set (take ?n (map w src)). x \<le> ?b) \<longleftrightarrow> (\<forall>v \<in> set (take ?n src). take_bit ?b v = v)"
    using assms(1) [OF _ b] by (auto simp: take_map dest: in_set_takeD)
  then have "(\<forall>x \<in> set (take ?n (map w src)). x \<le> ?b) \<longleftrightarrow> (\<exists>r. accumulate ?b ?n src 0 = Some r)" if "?n \<le> length src"
    using accumulate_iff [OF b, of ?n src 0] that by simp
  moreover have "length src \<le> ?n - 1 \<longleftrightarrow> \<not> ?n \<le> length src"
    using CODE_NUM_pos [of k] Cons.prems by auto
  ultimately show ?case
    using Cons by (auto simp: Let_def split: option.split)
qed simp

lemma count_words_Encode:
  assumes "\<And>v b. v \<in> set src \<Longrightarrow> b < 32 \<Longrightarrow> w v \<le> b \<longleftrightarrow> take_bit b v = v" "Encode dest src resNum = Some (StatusOK, d, m)"
  shows "count_words (map w src) resNum = Some m"
  using assms
proof (induction "length src" arbitrary: src dest resNum rule: less_induct)
  case less
  show ?case
  proof (cases "src = []")
    case True
    then show ?thesis
      using less.prems(2) by (simp add: Encode.simps [of dest "[]"] count_words.simps [of "[]"])
  next
    case False
    then obtain res n where e: "encode_word [0..<9] src = Some (res, n)"
      and rest: "Encode (dest[resNum := res]) (drop n src) (resNum + 1) = Some (StatusOK, d, m)"
      using less.prems(2) by (auto simp: Encode.simps [of dest src] split: option.splits if_splits)
    have "count_words (map w (drop n src)) (resNum + 1) = Some m"
      using less.hyps [OF _ _ rest] less.prems(1) encode_word_decode [OF e] False by (auto dest: in_set_dropD)
    moreover have "choose_size [0..<9] (map w src) = Some n"
      using choose_size_encode_word [of src w "[0..<9]"] less.prems(1) e by simp
    ultimately show ?thesis
      using False by (simp add: count_words.simps [of "map w src"] drop_map)
  qed
qed

end
