(* ===== verification/PForDelta.thy ===== *)
theory PForDelta
  imports FramePacking S9Compressor
begin

text \<open>
  The block compressor of \<^verbatim>\<open>indexlib/index/common/numeric_compress/NosseNewPfordeltaCompressor.h\<close> at the element type
  \<^verbatim>\<open>uint32_t\<close>.  Values are compressed in blocks of 128: most of a block is packed at a width at which almost all values
  fit, and the high bits of the others, the exceptions, are appended as a Simple-9 encoding.  A destination is the list
  of words from its pointer on; \<open>None\<close> is a failed assertion or an access outside of a buffer.
\<close>

section \<open>Constants and headers\<close>

definition BLOCK_SIZE :: nat where
  "BLOCK_SIZE = 128"

definition HEADER_INT_SIZE :: nat where
  "HEADER_INT_SIZE = 1"

definition EXCEPTION_THRESHOLD_RATE :: nat where
  "EXCEPTION_THRESHOLD_RATE = 10"

definition SAME_VALUE_INLINE :: nat where
  "SAME_VALUE_INLINE = 255"

definition SAME_VALUE_ALONE :: nat where
  "SAME_VALUE_ALONE = 254"

definition INCREASE_VALUE_INLINE :: nat where
  "INCREASE_VALUE_INLINE = 253"

definition INCREASE_VALUE_ALONE :: nat where
  "INCREASE_VALUE_ALONE = 252"

definition DECREASE_VALUE_INLINE :: nat where
  "DECREASE_VALUE_INLINE = 251"

definition DECREASE_VALUE_ALONE :: nat where
  "DECREASE_VALUE_ALONE = 250"

lemmas special_defs = SAME_VALUE_INLINE_def SAME_VALUE_ALONE_def INCREASE_VALUE_INLINE_def INCREASE_VALUE_ALONE_def
  DECREASE_VALUE_INLINE_def DECREASE_VALUE_ALONE_def

lemmas size_defs = BLOCK_SIZE_def HEADER_INT_SIZE_def EXCEPTION_THRESHOLD_RATE_def

definition store_alone :: "nat \<Rightarrow> bool" where
  "store_alone pos \<longleftrightarrow> pos = SAME_VALUE_ALONE \<or> pos = INCREASE_VALUE_ALONE \<or> pos = DECREASE_VALUE_ALONE"

definition store_inline :: "nat \<Rightarrow> bool" where
  "store_inline pos \<longleftrightarrow> pos = SAME_VALUE_INLINE \<or> pos = INCREASE_VALUE_INLINE \<or> pos = DECREASE_VALUE_INLINE"

definition BASIC_MASK :: "u32 list" where
  "BASIC_MASK = [0, 1, 2 ^ 2 - 1, 2 ^ 3 - 1, 2 ^ 4 - 1, 2 ^ 5 - 1, 2 ^ 6 - 1, 2 ^ 7 - 1, 2 ^ 8 - 1, 2 ^ 9 - 1, 2 ^ 10 - 1,
     2 ^ 11 - 1, 2 ^ 12 - 1, 2 ^ 13 - 1, 2 ^ 14 - 1, 2 ^ 15 - 1, 2 ^ 16 - 1, 2 ^ 17 - 1, 2 ^ 18 - 1, 2 ^ 19 - 1,
     2 ^ 20 - 1, 2 ^ 21 - 1, 2 ^ 22 - 1, 2 ^ 23 - 1, 2 ^ 24 - 1, 2 ^ 25 - 1, 2 ^ 26 - 1, 2 ^ 27 - 1, 2 ^ 28 - 1,
     2 ^ 29 - 1, 2 ^ 30 - 1, 2 ^ 31 - 1, 2 ^ 32 - 1]"

definition FRAME_BIT_MAP :: "nat list" where
  "FRAME_BIT_MAP =
    [0, 1, 2, 3, 4, 5, 6, 7, 8, 9, 10, 11, 12, 13, 14, 15, 16, 17, 18, 19, 20, 21, 22, 23, 24, 25, 26, 27, 28, 29, 30,
     32,
     32]"

text \<open>The header word: bit fields, the first one in the lowest bits.\<close>

record header =
  h_isLastBlock :: u32
  h_exceptionIntRange :: u32
  h_frameBits :: u32
  h_firstExceptionPos :: u32
  h_dataNum :: u32

definition of_uint32 :: "u32 \<Rightarrow> header" where
  "of_uint32 x = \<lparr>h_isLastBlock = take_bit 1 x, h_exceptionIntRange = take_bit 11 (drop_bit 1 x),
     h_frameBits = take_bit 5 (drop_bit 12 x), h_firstExceptionPos = take_bit 8 (drop_bit 17 x), h_dataNum = take_bit 7 (drop_bit 25 x)\<rparr>"

definition ToUint32 :: "header \<Rightarrow> u32" where
  "ToUint32 h = take_bit 1 (h_isLastBlock h) OR push_bit 1 (take_bit 11 (h_exceptionIntRange h)) OR
     push_bit 12 (take_bit 5 (h_frameBits h)) OR push_bit 17 (take_bit 8 (h_firstExceptionPos h)) OR push_bit 25 (take_bit 7 (h_dataNum h))"

definition MakeHeader :: "nat \<Rightarrow> nat \<Rightarrow> nat \<Rightarrow> nat \<Rightarrow> u32 \<Rightarrow> bool \<Rightarrow> u32 option" where
  "MakeHeader frameBits firstExceptionPos codeLen numExceptions exceptionIntRange lastFlag =
     (if firstExceptionPos \<le> 128 \<or> store_alone firstExceptionPos \<or> store_inline firstExceptionPos
      then Some (ToUint32 \<lparr>h_isLastBlock = (if lastFlag then 1 else 0), h_exceptionIntRange = exceptionIntRange,
        h_frameBits = of_nat (if frameBits \<ge> 32 then 31 else frameBits), h_firstExceptionPos = of_nat firstExceptionPos,
        h_dataNum = of_nat codeLen - 1\<rparr>)
      else None)"

definition frame_width :: "header \<Rightarrow> nat" where
  "frame_width h = (if h_frameBits h = 31 then 32 else unat (h_frameBits h))"

definition GetCompressedLength :: "u32 \<Rightarrow> nat" where
  "GetCompressedLength header =
     (let h = of_uint32 header; n = unat (h_dataNum h) + 1; frameBits = frame_width h; pos = unat (h_firstExceptionPos h)
      in if store_inline pos then HEADER_INT_SIZE
         else if store_alone pos then HEADER_INT_SIZE + 1
         else HEADER_INT_SIZE + (n * frameBits + 31) div 32 + unat (h_exceptionIntRange h))"

definition IsLastBlock :: "u32 \<Rightarrow> bool" where
  "IsLastBlock header \<longleftrightarrow> h_isLastBlock (of_uint32 header) \<noteq> 0"

section \<open>Choosing the width of a block\<close>

text \<open>The position of the highest bit, from 1, or 0 if there is none (the instruction \<^verbatim>\<open>bsrl\<close>).\<close>

fun high_bit :: "nat \<Rightarrow> nat" where
  "high_bit v = (if v = 0 then 0 else high_bit (v div 2) + 1)"

declare high_bit.simps [simp del]

definition HighBitIdx :: "u32 \<Rightarrow> nat" where
  "HighBitIdx value = high_bit (unat value)"

definition IsUniqValueStoreInline :: "u32 \<Rightarrow> bool" where
  "IsUniqValueStoreInline value \<longleftrightarrow> value < 2047"

text \<open>The local variables of \<open>SelectCompressBits\<close> in its loop over the block.\<close>

record scan =
  firstValue :: u32
  isAllSame :: bool
  isIncrease :: bool
  isDecrease :: bool
  maxBits :: nat
  numBitArray :: "nat list"

definition scan_init :: scan where
  "scan_init = \<lparr>firstValue = 0, isAllSame = True, isIncrease = True, isDecrease = True, maxBits = 0,
     numBitArray = replicate 33 0\<rparr>"

definition scan_value :: "nat \<Rightarrow> u32 \<Rightarrow> scan \<Rightarrow> scan" where
  "scan_value i v s =
     (let first = (if i = 0 then v else firstValue s); highBit = HighBitIdx v
      in \<lparr>firstValue = first,
          isAllSame = (isAllSame s \<and> v = first),
          isIncrease = (isIncrease s \<and> v = first + of_nat i),
          isDecrease = (isDecrease s \<and> v = first - of_nat i),
          maxBits = (if highBit > maxBits s then highBit else maxBits s),
          numBitArray = (numBitArray s)[highBit := numBitArray s ! highBit + 1]\<rparr>)"

fun scan_block :: "nat \<Rightarrow> u32 list \<Rightarrow> scan \<Rightarrow> scan" where
  "scan_block i [] s = s"
| "scan_block i (v # block) s = scan_block (i + 1) block (scan_value i v s)"

text \<open>The running sums of the counters.\<close>

fun sum_counts :: "nat list \<Rightarrow> nat list \<Rightarrow> nat list" where
  "sum_counts [] a = a"
| "sum_counts (j # js) a = sum_counts js (a[j := a ! j + a ! (j - 1)])"

definition bytes_per_exception :: "nat \<Rightarrow> nat" where
  "bytes_per_exception exceptionBits =
     (if exceptionBits \<le> 7 then 2 else if exceptionBits \<le> 9 then 3 else if exceptionBits \<le> 14 then 4 else 8)"

text \<open>
  The loop from the widest candidate down: \<open>best\<close> holds \<open>bestTotalBytes\<close>, \<open>bestFrameBits\<close> and \<open>numExceptions\<close>.
\<close>

primrec choose_width :: "nat list \<Rightarrow> nat \<Rightarrow> nat \<Rightarrow> nat list \<Rightarrow> nat \<times> nat \<times> nat \<Rightarrow> nat \<times> nat \<times> nat" where
  "choose_width [] blkLen mx counts best = best"
| "choose_width (i # is) blkLen mx counts best =
     (if FRAME_BIT_MAP ! i \<noteq> i then choose_width is blkLen mx counts best
      else let exceptionNum = blkLen - counts ! i
           in if exceptionNum > blkLen * EXCEPTION_THRESHOLD_RATE div 100 \<or> mx > i + 28 then best
              else let bytesForFrame = (blkLen * i + 31) div 32 * 4;
                       bytesForException = (exceptionNum * bytes_per_exception (mx - i) + 3) div 4 * 4;
                       totalBytes = bytesForException + bytesForFrame
                   in choose_width is blkLen mx counts
                        (if totalBytes < fst best then (totalBytes, i, exceptionNum) else best))"

text \<open>The width of the frame and the number of exceptions, which is also where a special frame is announced.\<close>

definition SelectCompressBits :: "u32 list \<Rightarrow> bool \<Rightarrow> nat \<times> nat" where
  "SelectCompressBits block enableBlockOpt =
     (let blkLen = length block; s = scan_block 0 block scan_init
      in if maxBits s = 0 then (0, 0)
         else if enableBlockOpt \<and> isAllSame s then
           (0, if IsUniqValueStoreInline (firstValue s) then SAME_VALUE_INLINE else SAME_VALUE_ALONE)
         else if enableBlockOpt \<and> isIncrease s then
           (0, if IsUniqValueStoreInline (firstValue s) then INCREASE_VALUE_INLINE else INCREASE_VALUE_ALONE)
         else if enableBlockOpt \<and> isDecrease s then
           let baseValue = (if blkLen > 0 then block ! (blkLen - 1) else firstValue s)
           in (0, if IsUniqValueStoreInline baseValue then DECREASE_VALUE_INLINE else DECREASE_VALUE_ALONE)
         else snd (choose_width (rev [0..<FRAME_BIT_MAP ! maxBits s + 1]) blkLen (maxBits s)
                     (sum_counts [1..<33] (numBitArray s)) (4 * blkLen, 32, 0)))"

section \<open>Filling memory\<close>

fun store_all :: "(nat \<times> u32) list \<Rightarrow> u32 list \<Rightarrow> u32 list option" where
  "store_all [] dest = Some dest"
| "store_all ((i, v) # stores) dest = (if i < length dest then store_all stores (dest[i := v]) else None)"

function FastMemSet :: "u32 list \<Rightarrow> nat \<Rightarrow> u32 \<Rightarrow> u32 list option" where
  "FastMemSet dest destLen value =
     (if destLen < 16 then store_all (map (\<lambda>i. (i, value)) [0..<destLen]) dest
      else if length dest < 16 then None
      else do {
        rest \<leftarrow> FastMemSet (drop 16 dest) (destLen - 16) value;
        Some ([value, value, value, value, value, value, value, value,
               value, value, value, value, value, value, value, value] @ rest)
      })"
  by pat_completeness auto
termination
  by (relation "measure (\<lambda>(dest, destLen, value). destLen)") auto

declare FastMemSet.simps [simp del]

definition FastMemZero :: "u32 list \<Rightarrow> nat \<Rightarrow> u32 list option" where
  "FastMemZero dest destLen = FastMemSet dest destLen 0"

section \<open>Compressing a block\<close>

definition TransformToSpecialFrame :: "u32 list \<Rightarrow> u32 list \<Rightarrow> nat \<Rightarrow> bool \<Rightarrow> (u32 list \<times> nat) option" where
  "TransformToSpecialFrame dest code numExceptions lastFlag =
     (if \<not> (store_inline numExceptions \<or> store_alone numExceptions) \<or> code = [] then None
      else let exceptionOffsetIntSize = (if store_alone numExceptions then HEADER_INT_SIZE + 1 else HEADER_INT_SIZE);
               value = (if numExceptions = DECREASE_VALUE_ALONE \<or> numExceptions = DECREASE_VALUE_INLINE
                        then code ! (length code - 1) else code ! 0)
           in do {
             dest \<leftarrow> FastMemZero dest exceptionOffsetIntSize;
             h \<leftarrow> MakeHeader 0 numExceptions (length code) numExceptions (if store_alone numExceptions then 0 else value) lastFlag;
             dest \<leftarrow> store_all [(0, h)] dest;
             dest \<leftarrow> (if store_alone numExceptions then store_all [(1, value)] dest else Some dest);
             Some (dest, exceptionOffsetIntSize)
           })"

text \<open>The exceptions and the distances between them, one after the other.\<close>

fun interleave :: "u32 list \<Rightarrow> u32 list \<Rightarrow> u32 list" where
  "interleave (e # es) (d # ds) = e # d # interleave es ds"
| "interleave es ds = es"

text \<open>
  A frame is the header, the packed values, and the encoding of the exceptions, which is written first, to where it
  belongs.  \<open>destLen\<close> is the length of the destination.
\<close>

definition TransformToFrame :: "u32 list \<Rightarrow> nat \<Rightarrow> nat \<Rightarrow> u32 list \<Rightarrow> nat \<Rightarrow> u32 list \<Rightarrow> u32 list \<Rightarrow> nat \<Rightarrow> bool \<Rightarrow>
    (status \<times> u32 list \<times> nat) option" where
  "TransformToFrame dest frameBits firstExceptionPos code codeLen exception exceptionOffset numExceptions lastFlag =
     (let exceptionOffsetIntSize = HEADER_INT_SIZE + (codeLen * frameBits + 31) div 32
      in if firstExceptionPos = 0 then
           if length dest < exceptionOffsetIntSize then None
           else do {
             dest \<leftarrow> FastMemZero dest exceptionOffsetIntSize;
             h \<leftarrow> MakeHeader frameBits firstExceptionPos codeLen 0 0 lastFlag;
             body \<leftarrow> Pack (drop 1 dest) code codeLen frameBits;
             Some (StatusOK, h # body, exceptionOffsetIntSize)
           }
         else let exceptionOffsetNum = numExceptions - 1
              in if BLOCK_SIZE < exceptionOffsetNum + numExceptions \<or> length dest < exceptionOffsetIntSize then None
                 else do {
                   (status, region, exceptionRange) \<leftarrow> Encode (drop exceptionOffsetIntSize dest)
                      (interleave (take numExceptions exception) (take exceptionOffsetNum exceptionOffset)) 0;
                   let dest = take exceptionOffsetIntSize dest @ region;
                   if status \<noteq> StatusOK then Some (status, dest, 0)
                   else do {
                     let intDataSize = exceptionOffsetIntSize + exceptionRange;
                     dest \<leftarrow> (if length dest < intDataSize then None else FastMemZero dest exceptionOffsetIntSize);
                     h \<leftarrow> MakeHeader frameBits firstExceptionPos codeLen numExceptions (of_nat exceptionRange) lastFlag;
                     body \<leftarrow> Pack (drop 1 dest) code codeLen frameBits;
                     Some (StatusOK, h # body, intDataSize)
                   }
                 })"

text \<open>The first loop of \<open>CompressBlock\<close>: the positions of the values of at least \<open>mx\<close>, in \<open>miss\<close> up to \<open>j\<close>.\<close>

fun find_exceptions :: "nat \<Rightarrow> u32 \<Rightarrow> u32 list \<Rightarrow> nat \<Rightarrow> nat list \<Rightarrow> nat \<times> nat list" where
  "find_exceptions i mx [] j miss = (j, miss)"
| "find_exceptions i mx (v # src) j miss =
     (let miss = miss[j := i] in find_exceptions (i + 1) mx src (if mx \<le> v then j + 1 else j) miss)"

text \<open>The second loop: cut the exceptions down to the frame and collect their high bits and distances.\<close>

fun cut_exceptions :: "nat \<Rightarrow> nat list \<Rightarrow> nat \<Rightarrow> u32 list \<Rightarrow> u32 list \<times> u32 list \<times> u32 list" where
  "cut_exceptions frameBits [] pre code = (code, [], [])"
| "cut_exceptions frameBits (cur # miss) pre code =
     (let (code', exceptions, offsets) = cut_exceptions frameBits miss cur (code[cur := code ! cur AND BASIC_MASK ! frameBits])
      in (code', drop_bit frameBits (code ! cur) # exceptions, of_nat (cur - pre - 1) # offsets))"

text \<open>
  The bound \<^verbatim>\<open>1 << frameBits\<close> is computed where it is used.  The code computes it first, also for the width 32, where the
  shift is undefined in C++ and its value is not used, as there are no exceptions.
\<close>

definition CompressBlock :: "u32 list \<Rightarrow> u32 list \<Rightarrow> nat \<Rightarrow> nat \<Rightarrow> bool \<Rightarrow> (status \<times> u32 list \<times> nat) option" where
  "CompressBlock dest src frameBits numExceptions lastFlag =
     (if numExceptions = 0 then TransformToFrame dest frameBits 0 src (length src) [] [] 0 lastFlag
      else if store_alone numExceptions \<or> store_inline numExceptions then
        map_option (\<lambda>(dest, size). (StatusOK, dest, size)) (TransformToSpecialFrame dest src numExceptions lastFlag)
      else if length src > BLOCK_SIZE then None
      else let code = src @ replicate (BLOCK_SIZE - length src) 0;
               (j, miss) = find_exceptions 0 (push_bit frameBits 1) src 0 (replicate BLOCK_SIZE 0)
           in if j \<noteq> numExceptions then None
              else let cur = miss ! 0;
                       exception0 = drop_bit frameBits (code ! cur);
                       (code, exceptions, offsets) =
                         cut_exceptions frameBits (take (j - 1) (drop 1 miss)) cur (code[cur := code ! cur AND BASIC_MASK ! frameBits])
                   in TransformToFrame dest frameBits (miss ! 0 + 1) code (length src) (exception0 # exceptions) offsets
                        numExceptions lastFlag)"

text \<open>\<open>Compress\<close>: one block of 128 values after the other.\<close>

function Compress :: "u32 list \<Rightarrow> u32 list \<Rightarrow> bool \<Rightarrow> (status \<times> u32 list \<times> nat) option" where
  "Compress dest src enableBlockOpt =
     (if src = [] then Some (StatusOK, dest, 0)
      else let block = take BLOCK_SIZE src; (bestFrameBits, bestExceptions) = SelectCompressBits block enableBlockOpt
           in do {
             (status, dest, blkCompSize) \<leftarrow> CompressBlock dest block bestFrameBits bestExceptions (length src \<le> BLOCK_SIZE);
             if status \<noteq> StatusOK then Some (status, dest, 0)
             else do {
               (status, rest, size) \<leftarrow> Compress (drop blkCompSize dest) (drop BLOCK_SIZE src) enableBlockOpt;
               Some (status, take blkCompSize dest @ rest, if status = StatusOK then blkCompSize + size else 0)
             }
           })"
  by pat_completeness auto
termination
  by (relation "measure (\<lambda>(dest, src, opt). length src)") (auto simp: BLOCK_SIZE_def)

declare Compress.simps [simp del]

section \<open>The exceptions of a frame\<close>

text \<open>
  \<open>S9Decode\<close> decodes the exceptions and applies them at once.  The decoded numbers are alternately the high bits of a
  value, which are patched into the values at \<open>currentPos\<close>, and a distance to the next position; \<open>head\<close> is 16 if a
  word starts with a distance.
\<close>

definition patch :: "nat \<Rightarrow> u32 \<Rightarrow> u32 list \<times> nat \<Rightarrow> (u32 list \<times> nat) option" where
  "patch frameBits v = (\<lambda>(dest, currentPos).
     if currentPos < length dest \<and> frameBits < 32
     then Some (dest[currentPos := dest ! currentPos OR push_bit frameBits v], currentPos) else None)"

definition skip :: "u32 \<Rightarrow> u32 list \<times> nat \<Rightarrow> (u32 list \<times> nat) option" where
  "skip v = (\<lambda>(dest, currentPos). Some (dest, currentPos + unat (v + 1)))"

definition S9Decode_0 :: "nat \<Rightarrow> u32 \<Rightarrow> u32 list \<times> nat \<Rightarrow> (nat \<times> u32 list \<times> nat) option" where
  "S9Decode_0 frameBits val st = do {
     st \<leftarrow> patch frameBits (drop_bit 31 (push_bit 4 val)) st;
     st \<leftarrow> skip (drop_bit 31 (push_bit 5 val)) st;
     st \<leftarrow> patch frameBits (drop_bit 31 (push_bit 6 val)) st;
     st \<leftarrow> skip (drop_bit 31 (push_bit 7 val)) st;
     st \<leftarrow> patch frameBits (drop_bit 31 (push_bit 8 val)) st;
     st \<leftarrow> skip (drop_bit 31 (push_bit 9 val)) st;
     st \<leftarrow> patch frameBits (drop_bit 31 (push_bit 10 val)) st;
     st \<leftarrow> skip (drop_bit 31 (push_bit 11 val)) st;
     st \<leftarrow> patch frameBits (drop_bit 31 (push_bit 12 val)) st;
     st \<leftarrow> skip (drop_bit 31 (push_bit 13 val)) st;
     st \<leftarrow> patch frameBits (drop_bit 31 (push_bit 14 val)) st;
     st \<leftarrow> skip (drop_bit 31 (push_bit 15 val)) st;
     st \<leftarrow> patch frameBits (drop_bit 31 (push_bit 16 val)) st;
     st \<leftarrow> skip (drop_bit 31 (push_bit 17 val)) st;
     st \<leftarrow> patch frameBits (drop_bit 31 (push_bit 18 val)) st;
     st \<leftarrow> skip (drop_bit 31 (push_bit 19 val)) st;
     st \<leftarrow> patch frameBits (drop_bit 31 (push_bit 20 val)) st;
     st \<leftarrow> skip (drop_bit 31 (push_bit 21 val)) st;
     st \<leftarrow> patch frameBits (drop_bit 31 (push_bit 22 val)) st;
     st \<leftarrow> skip (drop_bit 31 (push_bit 23 val)) st;
     st \<leftarrow> patch frameBits (drop_bit 31 (push_bit 24 val)) st;
     st \<leftarrow> skip (drop_bit 31 (push_bit 25 val)) st;
     st \<leftarrow> patch frameBits (drop_bit 31 (push_bit 26 val)) st;
     st \<leftarrow> skip (drop_bit 31 (push_bit 27 val)) st;
     st \<leftarrow> patch frameBits (drop_bit 31 (push_bit 28 val)) st;
     st \<leftarrow> skip (drop_bit 31 (push_bit 29 val)) st;
     st \<leftarrow> patch frameBits (drop_bit 31 (push_bit 30 val)) st;
     st \<leftarrow> skip (drop_bit 31 (push_bit 31 val)) st; Some (0, st)
   }"

definition S9Decode_1 :: "nat \<Rightarrow> u32 \<Rightarrow> u32 list \<times> nat \<Rightarrow> (nat \<times> u32 list \<times> nat) option" where
  "S9Decode_1 frameBits val st = do {
     st \<leftarrow> patch frameBits (drop_bit 30 (push_bit 4 val)) st;
     st \<leftarrow> skip (drop_bit 30 (push_bit 6 val)) st;
     st \<leftarrow> patch frameBits (drop_bit 30 (push_bit 8 val)) st;
     st \<leftarrow> skip (drop_bit 30 (push_bit 10 val)) st;
     st \<leftarrow> patch frameBits (drop_bit 30 (push_bit 12 val)) st;
     st \<leftarrow> skip (drop_bit 30 (push_bit 14 val)) st;
     st \<leftarrow> patch frameBits (drop_bit 30 (push_bit 16 val)) st;
     st \<leftarrow> skip (drop_bit 30 (push_bit 18 val)) st;
     st \<leftarrow> patch frameBits (drop_bit 30 (push_bit 20 val)) st;
     st \<leftarrow> skip (drop_bit 30 (push_bit 22 val)) st;
     st \<leftarrow> patch frameBits (drop_bit 30 (push_bit 24 val)) st;
     st \<leftarrow> skip (drop_bit 30 (push_bit 26 val)) st;
     st \<leftarrow> patch frameBits (drop_bit 30 (push_bit 28 val)) st;
     st \<leftarrow> skip (drop_bit 30 (push_bit 30 val)) st; Some (0, st)
   }"

definition S9Decode_2 :: "nat \<Rightarrow> u32 \<Rightarrow> u32 list \<times> nat \<Rightarrow> (nat \<times> u32 list \<times> nat) option" where
  "S9Decode_2 frameBits val st = do {
     st \<leftarrow> patch frameBits (drop_bit 29 (push_bit 5 val)) st;
     st \<leftarrow> skip (drop_bit 29 (push_bit 8 val)) st;
     st \<leftarrow> patch frameBits (drop_bit 29 (push_bit 11 val)) st;
     st \<leftarrow> skip (drop_bit 29 (push_bit 14 val)) st;
     st \<leftarrow> patch frameBits (drop_bit 29 (push_bit 17 val)) st;
     st \<leftarrow> skip (drop_bit 29 (push_bit 20 val)) st;
     st \<leftarrow> patch frameBits (drop_bit 29 (push_bit 23 val)) st;
     st \<leftarrow> skip (drop_bit 29 (push_bit 26 val)) st;
     st \<leftarrow> patch frameBits (drop_bit 29 (push_bit 29 val)) st; Some (16, st)
   }"

definition S9Decode_3 :: "nat \<Rightarrow> u32 \<Rightarrow> u32 list \<times> nat \<Rightarrow> (nat \<times> u32 list \<times> nat) option" where
  "S9Decode_3 frameBits val st = do {
     st \<leftarrow> patch frameBits (drop_bit 28 (push_bit 4 val)) st;
     st \<leftarrow> skip (drop_bit 28 (push_bit 8 val)) st;
     st \<leftarrow> patch frameBits (drop_bit 28 (push_bit 12 val)) st;
     st \<leftarrow> skip (drop_bit 28 (push_bit 16 val)) st;
     st \<leftarrow> patch frameBits (drop_bit 28 (push_bit 20 val)) st;
     st \<leftarrow> skip (drop_bit 28 (push_bit 24 val)) st;
     st \<leftarrow> patch frameBits (drop_bit 28 (push_bit 28 val)) st; Some (16, st)
   }"

definition S9Decode_4 :: "nat \<Rightarrow> u32 \<Rightarrow> u32 list \<times> nat \<Rightarrow> (nat \<times> u32 list \<times> nat) option" where
  "S9Decode_4 frameBits val st = do {
     st \<leftarrow> patch frameBits (drop_bit 27 (push_bit 7 val)) st;
     st \<leftarrow> skip (drop_bit 27 (push_bit 12 val)) st;
     st \<leftarrow> patch frameBits (drop_bit 27 (push_bit 17 val)) st;
     st \<leftarrow> skip (drop_bit 27 (push_bit 22 val)) st;
     st \<leftarrow> patch frameBits (drop_bit 27 (push_bit 27 val)) st; Some (16, st)
   }"

definition S9Decode_5 :: "nat \<Rightarrow> u32 \<Rightarrow> u32 list \<times> nat \<Rightarrow> (nat \<times> u32 list \<times> nat) option" where
  "S9Decode_5 frameBits val st = do {
     st \<leftarrow> patch frameBits (drop_bit 25 (push_bit 4 val)) st;
     st \<leftarrow> skip (drop_bit 25 (push_bit 11 val)) st;
     st \<leftarrow> patch frameBits (drop_bit 25 (push_bit 18 val)) st;
     st \<leftarrow> skip (drop_bit 25 (push_bit 25 val)) st; Some (0, st)
   }"

definition S9Decode_6 :: "nat \<Rightarrow> u32 \<Rightarrow> u32 list \<times> nat \<Rightarrow> (nat \<times> u32 list \<times> nat) option" where
  "S9Decode_6 frameBits val st = do {
     st \<leftarrow> patch frameBits (drop_bit 23 (push_bit 5 val)) st;
     st \<leftarrow> skip (drop_bit 23 (push_bit 14 val)) st;
     st \<leftarrow> patch frameBits (drop_bit 23 (push_bit 23 val)) st; Some (16, st)
   }"

definition S9Decode_7 :: "nat \<Rightarrow> u32 \<Rightarrow> u32 list \<times> nat \<Rightarrow> (nat \<times> u32 list \<times> nat) option" where
  "S9Decode_7 frameBits val st = do {
     st \<leftarrow> patch frameBits (drop_bit 18 (push_bit 4 val)) st;
     st \<leftarrow> skip (drop_bit 18 (push_bit 18 val)) st; Some (0, st)
   }"

definition S9Decode_8 :: "nat \<Rightarrow> u32 \<Rightarrow> u32 list \<times> nat \<Rightarrow> (nat \<times> u32 list \<times> nat) option" where
  "S9Decode_8 frameBits val st = do {
     st \<leftarrow> patch frameBits (drop_bit 4 (push_bit 4 val)) st; Some (16, st)
   }"

definition S9Decode_16 :: "nat \<Rightarrow> u32 \<Rightarrow> u32 list \<times> nat \<Rightarrow> (nat \<times> u32 list \<times> nat) option" where
  "S9Decode_16 frameBits val st = do {
     st \<leftarrow> skip (drop_bit 31 (push_bit 4 val)) st;
     st \<leftarrow> patch frameBits (drop_bit 31 (push_bit 5 val)) st;
     st \<leftarrow> skip (drop_bit 31 (push_bit 6 val)) st;
     st \<leftarrow> patch frameBits (drop_bit 31 (push_bit 7 val)) st;
     st \<leftarrow> skip (drop_bit 31 (push_bit 8 val)) st;
     st \<leftarrow> patch frameBits (drop_bit 31 (push_bit 9 val)) st;
     st \<leftarrow> skip (drop_bit 31 (push_bit 10 val)) st;
     st \<leftarrow> patch frameBits (drop_bit 31 (push_bit 11 val)) st;
     st \<leftarrow> skip (drop_bit 31 (push_bit 12 val)) st;
     st \<leftarrow> patch frameBits (drop_bit 31 (push_bit 13 val)) st;
     st \<leftarrow> skip (drop_bit 31 (push_bit 14 val)) st;
     st \<leftarrow> patch frameBits (drop_bit 31 (push_bit 15 val)) st;
     st \<leftarrow> skip (drop_bit 31 (push_bit 16 val)) st;
     st \<leftarrow> patch frameBits (drop_bit 31 (push_bit 17 val)) st;
     st \<leftarrow> skip (drop_bit 31 (push_bit 18 val)) st;
     st \<leftarrow> patch frameBits (drop_bit 31 (push_bit 19 val)) st;
     st \<leftarrow> skip (drop_bit 31 (push_bit 20 val)) st;
     st \<leftarrow> patch frameBits (drop_bit 31 (push_bit 21 val)) st;
     st \<leftarrow> skip (drop_bit 31 (push_bit 22 val)) st;
     st \<leftarrow> patch frameBits (drop_bit 31 (push_bit 23 val)) st;
     st \<leftarrow> skip (drop_bit 31 (push_bit 24 val)) st;
     st \<leftarrow> patch frameBits (drop_bit 31 (push_bit 25 val)) st;
     st \<leftarrow> skip (drop_bit 31 (push_bit 26 val)) st;
     st \<leftarrow> patch frameBits (drop_bit 31 (push_bit 27 val)) st;
     st \<leftarrow> skip (drop_bit 31 (push_bit 28 val)) st;
     st \<leftarrow> patch frameBits (drop_bit 31 (push_bit 29 val)) st;
     st \<leftarrow> skip (drop_bit 31 (push_bit 30 val)) st;
     st \<leftarrow> patch frameBits (drop_bit 31 (push_bit 31 val)) st; Some (16, st)
   }"

definition S9Decode_17 :: "nat \<Rightarrow> u32 \<Rightarrow> u32 list \<times> nat \<Rightarrow> (nat \<times> u32 list \<times> nat) option" where
  "S9Decode_17 frameBits val st = do {
     st \<leftarrow> skip (drop_bit 30 (push_bit 4 val)) st;
     st \<leftarrow> patch frameBits (drop_bit 30 (push_bit 6 val)) st;
     st \<leftarrow> skip (drop_bit 30 (push_bit 8 val)) st;
     st \<leftarrow> patch frameBits (drop_bit 30 (push_bit 10 val)) st;
     st \<leftarrow> skip (drop_bit 30 (push_bit 12 val)) st;
     st \<leftarrow> patch frameBits (drop_bit 30 (push_bit 14 val)) st;
     st \<leftarrow> skip (drop_bit 30 (push_bit 16 val)) st;
     st \<leftarrow> patch frameBits (drop_bit 30 (push_bit 18 val)) st;
     st \<leftarrow> skip (drop_bit 30 (push_bit 20 val)) st;
     st \<leftarrow> patch frameBits (drop_bit 30 (push_bit 22 val)) st;
     st \<leftarrow> skip (drop_bit 30 (push_bit 24 val)) st;
     st \<leftarrow> patch frameBits (drop_bit 30 (push_bit 26 val)) st;
     st \<leftarrow> skip (drop_bit 30 (push_bit 28 val)) st;
     st \<leftarrow> patch frameBits (drop_bit 30 (push_bit 30 val)) st; Some (16, st)
   }"

definition S9Decode_18 :: "nat \<Rightarrow> u32 \<Rightarrow> u32 list \<times> nat \<Rightarrow> (nat \<times> u32 list \<times> nat) option" where
  "S9Decode_18 frameBits val st = do {
     st \<leftarrow> skip (drop_bit 29 (push_bit 5 val)) st;
     st \<leftarrow> patch frameBits (drop_bit 29 (push_bit 8 val)) st;
     st \<leftarrow> skip (drop_bit 29 (push_bit 11 val)) st;
     st \<leftarrow> patch frameBits (drop_bit 29 (push_bit 14 val)) st;
     st \<leftarrow> skip (drop_bit 29 (push_bit 17 val)) st;
     st \<leftarrow> patch frameBits (drop_bit 29 (push_bit 20 val)) st;
     st \<leftarrow> skip (drop_bit 29 (push_bit 23 val)) st;
     st \<leftarrow> patch frameBits (drop_bit 29 (push_bit 26 val)) st;
     st \<leftarrow> skip (drop_bit 29 (push_bit 29 val)) st; Some (0, st)
   }"

definition S9Decode_19 :: "nat \<Rightarrow> u32 \<Rightarrow> u32 list \<times> nat \<Rightarrow> (nat \<times> u32 list \<times> nat) option" where
  "S9Decode_19 frameBits val st = do {
     st \<leftarrow> skip (drop_bit 28 (push_bit 4 val)) st;
     st \<leftarrow> patch frameBits (drop_bit 28 (push_bit 8 val)) st;
     st \<leftarrow> skip (drop_bit 28 (push_bit 12 val)) st;
     st \<leftarrow> patch frameBits (drop_bit 28 (push_bit 16 val)) st;
     st \<leftarrow> skip (drop_bit 28 (push_bit 20 val)) st;
     st \<leftarrow> patch frameBits (drop_bit 28 (push_bit 24 val)) st;
     st \<leftarrow> skip (drop_bit 28 (push_bit 28 val)) st; Some (0, st)
   }"

definition S9Decode_20 :: "nat \<Rightarrow> u32 \<Rightarrow> u32 list \<times> nat \<Rightarrow> (nat \<times> u32 list \<times> nat) option" where
  "S9Decode_20 frameBits val st = do {
     st \<leftarrow> skip (drop_bit 27 (push_bit 7 val)) st;
     st \<leftarrow> patch frameBits (drop_bit 27 (push_bit 12 val)) st;
     st \<leftarrow> skip (drop_bit 27 (push_bit 17 val)) st;
     st \<leftarrow> patch frameBits (drop_bit 27 (push_bit 22 val)) st;
     st \<leftarrow> skip (drop_bit 27 (push_bit 27 val)) st; Some (0, st)
   }"

definition S9Decode_21 :: "nat \<Rightarrow> u32 \<Rightarrow> u32 list \<times> nat \<Rightarrow> (nat \<times> u32 list \<times> nat) option" where
  "S9Decode_21 frameBits val st = do {
     st \<leftarrow> skip (drop_bit 25 (push_bit 4 val)) st;
     st \<leftarrow> patch frameBits (drop_bit 25 (push_bit 11 val)) st;
     st \<leftarrow> skip (drop_bit 25 (push_bit 18 val)) st;
     st \<leftarrow> patch frameBits (drop_bit 25 (push_bit 25 val)) st; Some (16, st)
   }"

definition S9Decode_22 :: "nat \<Rightarrow> u32 \<Rightarrow> u32 list \<times> nat \<Rightarrow> (nat \<times> u32 list \<times> nat) option" where
  "S9Decode_22 frameBits val st = do {
     st \<leftarrow> skip (drop_bit 23 (push_bit 5 val)) st;
     st \<leftarrow> patch frameBits (drop_bit 23 (push_bit 14 val)) st;
     st \<leftarrow> skip (drop_bit 23 (push_bit 23 val)) st; Some (0, st)
   }"

definition S9Decode_23 :: "nat \<Rightarrow> u32 \<Rightarrow> u32 list \<times> nat \<Rightarrow> (nat \<times> u32 list \<times> nat) option" where
  "S9Decode_23 frameBits val st = do {
     st \<leftarrow> skip (drop_bit 18 (push_bit 4 val)) st;
     st \<leftarrow> patch frameBits (drop_bit 18 (push_bit 18 val)) st; Some (16, st)
   }"

definition S9Decode_24 :: "nat \<Rightarrow> u32 \<Rightarrow> u32 list \<times> nat \<Rightarrow> (nat \<times> u32 list \<times> nat) option" where
  "S9Decode_24 frameBits val st = do {
     st \<leftarrow> skip (drop_bit 4 (push_bit 4 val)) st; Some (0, st)
   }"

definition S9Decode_word :: "nat \<Rightarrow> u32 \<Rightarrow> nat \<Rightarrow> u32 list \<times> nat \<Rightarrow> (nat \<times> u32 list \<times> nat) option" where
  "S9Decode_word frameBits val head st =
     (let header = unat (drop_bit 28 val) + head
      in if header = 0 then S9Decode_0 frameBits val st
         else if header = 1 then S9Decode_1 frameBits val st
         else if header = 2 then S9Decode_2 frameBits val st
         else if header = 3 then S9Decode_3 frameBits val st
         else if header = 4 then S9Decode_4 frameBits val st
         else if header = 5 then S9Decode_5 frameBits val st
         else if header = 6 then S9Decode_6 frameBits val st
         else if header = 7 then S9Decode_7 frameBits val st
         else if header = 8 then S9Decode_8 frameBits val st
         else if header = 16 then S9Decode_16 frameBits val st
         else if header = 17 then S9Decode_17 frameBits val st
         else if header = 18 then S9Decode_18 frameBits val st
         else if header = 19 then S9Decode_19 frameBits val st
         else if header = 20 then S9Decode_20 frameBits val st
         else if header = 21 then S9Decode_21 frameBits val st
         else if header = 22 then S9Decode_22 frameBits val st
         else if header = 23 then S9Decode_23 frameBits val st
         else if header = 24 then S9Decode_24 frameBits val st
         else None)"

fun S9Decode_words :: "u32 list \<Rightarrow> nat \<Rightarrow> nat \<Rightarrow> u32 list \<times> nat \<Rightarrow> (u32 list \<times> nat) option" where
  "S9Decode_words [] frameBits head st = Some st"
| "S9Decode_words (val # src) frameBits head st = do {
     (head, st) \<leftarrow> S9Decode_word frameBits val head st;
     S9Decode_words src frameBits head st
   }"

definition S9Decode :: "u32 list \<Rightarrow> u32 list \<Rightarrow> nat \<Rightarrow> nat \<Rightarrow> nat \<Rightarrow> u32 list option" where
  "S9Decode dest src srcLen firstExceptionPos frameBits =
     (if srcLen \<le> length src then map_option fst (S9Decode_words (take srcLen src) frameBits 0 (dest, firstExceptionPos)) else None)"

section \<open>Decompressing\<close>

text \<open>
  Blocks that hold one value or a run of consecutive values: the result says whether the block is one, and the
  destination and the words left of the source then.
\<close>

definition TryDecompressSpecialBlock :: "u32 list \<Rightarrow> nat \<Rightarrow> nat \<Rightarrow> u32 \<Rightarrow> u32 list \<Rightarrow> (bool \<times> u32 list \<times> u32 list) option" where
  "TryDecompressSpecialBlock dest n firstExceptionPos exceptionIntRange src =
     (if firstExceptionPos = SAME_VALUE_INLINE then do {
        dest \<leftarrow> FastMemSet dest n exceptionIntRange;
        Some (True, dest, drop HEADER_INT_SIZE src)
      }
      else if firstExceptionPos = SAME_VALUE_ALONE then
        if length src \<le> HEADER_INT_SIZE then None
        else do {
          dest \<leftarrow> FastMemSet dest n (src ! HEADER_INT_SIZE);
          Some (True, dest, drop (HEADER_INT_SIZE + 1) src)
        }
      else if firstExceptionPos = INCREASE_VALUE_INLINE then do {
        dest \<leftarrow> store_all (map (\<lambda>i. (i, exceptionIntRange + of_nat i)) [0..<n]) dest;
        Some (True, dest, drop HEADER_INT_SIZE src)
      }
      else if firstExceptionPos = INCREASE_VALUE_ALONE then
        if length src \<le> HEADER_INT_SIZE then None
        else do {
          dest \<leftarrow> store_all (map (\<lambda>i. (i, src ! HEADER_INT_SIZE + of_nat i)) [0..<n]) dest;
          Some (True, dest, drop (HEADER_INT_SIZE + 1) src)
        }
      else if firstExceptionPos = DECREASE_VALUE_INLINE then do {
        dest \<leftarrow> store_all (map (\<lambda>i. (n - i - 1, exceptionIntRange + of_nat i)) [0..<n]) dest;
        Some (True, dest, drop HEADER_INT_SIZE src)
      }
      else if firstExceptionPos = DECREASE_VALUE_ALONE then
        if length src \<le> HEADER_INT_SIZE then None
        else do {
          dest \<leftarrow> store_all (map (\<lambda>i. (n - i - 1, src ! HEADER_INT_SIZE + of_nat i)) [0..<n]) dest;
          Some (True, dest, drop (HEADER_INT_SIZE + 1) src)
        }
      else Some (False, dest, src))"

text \<open>The result holds the destination, the number of values, the words left, and the flag of the last block.\<close>

definition DecompressBlock :: "u32 list \<Rightarrow> u32 list \<Rightarrow> (u32 list \<times> nat \<times> u32 list \<times> bool) option" where
  "DecompressBlock dest src =
     (case src of
        [] \<Rightarrow> None
      | word # body \<Rightarrow>
          let h = of_uint32 word; n = unat (h_dataNum h) + 1; firstExceptionPos = unat (h_firstExceptionPos h);
              frameBits = frame_width h; exceptionIntRange = h_exceptionIntRange h; lastFlag = (h_isLastBlock h \<noteq> 0)
          in do {
            (special, dest, rest) \<leftarrow> TryDecompressSpecialBlock dest n firstExceptionPos exceptionIntRange src;
            if special then Some (dest, n, rest, lastFlag)
            else do {
              dest \<leftarrow> Unpack dest body n frameBits;
              let intOffset = HEADER_INT_SIZE + (n * frameBits + 31) div 32;
              dest \<leftarrow> (if firstExceptionPos \<noteq> 0 then S9Decode dest (drop intOffset src) (unat exceptionIntRange) (firstExceptionPos - 1) frameBits else Some dest);
              Some (dest, n, drop (intOffset + unat exceptionIntRange) src, lastFlag)
            }
          })"

lemma special_block_shrinks:
  "TryDecompressSpecialBlock dest n firstExceptionPos exceptionIntRange src = Some (True, d, rest) \<Longrightarrow> src \<noteq> [] \<Longrightarrow> length rest < length src"
  by (auto simp: TryDecompressSpecialBlock_def HEADER_INT_SIZE_def split: if_splits Option.bind_splits)

lemma DecompressBlock_shrinks: "DecompressBlock dest src = Some (d, n, rest, lastFlag) \<Longrightarrow> length rest < length src"
  by (auto simp: DecompressBlock_def Let_def HEADER_INT_SIZE_def dest!: special_block_shrinks
      split: list.splits if_splits Option.bind_splits prod.splits)

text \<open>The loop until the last block: the destination and the number of values.\<close>

function Decompress :: "u32 list \<Rightarrow> u32 list \<Rightarrow> (u32 list \<times> nat) option" where
  "Decompress dest src =
     (case DecompressBlock dest src of
        None \<Rightarrow> None
      | Some (d, n, rest, lastFlag) \<Rightarrow>
          if lastFlag then Some (d, n)
          else map_option (\<lambda>(d', m). (take n d @ d', n + m)) (Decompress (drop n d) rest))"
  by pat_completeness auto
termination
  by (relation "measure (\<lambda>(dest, src). length src)") (auto dest: DecompressBlock_shrinks)

declare Decompress.simps [simp del]

end
