(* ===== verification/PForDeltaParts.thy ===== *)
theory PForDeltaParts
  imports PForDelta
begin

text \<open>
  The parts of the block compressor that its frames share: headers and what is read back from them, filling memory,
  and the widths of values.
\<close>

section \<open>Headers\<close>

lemma of_ToUint32:
  "h_isLastBlock (of_uint32 (ToUint32 h)) = take_bit 1 (h_isLastBlock h)"
  "h_exceptionIntRange (of_uint32 (ToUint32 h)) = take_bit 11 (h_exceptionIntRange h)"
  "h_frameBits (of_uint32 (ToUint32 h)) = take_bit 5 (h_frameBits h)"
  "h_firstExceptionPos (of_uint32 (ToUint32 h)) = take_bit 8 (h_firstExceptionPos h)"
  "h_dataNum (of_uint32 (ToUint32 h)) = take_bit 7 (h_dataNum h)"
  unfolding of_uint32_def ToUint32_def header.simps
  by (rule bit_eqI; simp only: bit_take_bit_iff bit_drop_bit_eq o_apply bit_or_iff bit_push_bit_iff; auto simp: possible_bit_def)+

lemma unat_of_nat_u32: "n < 2 ^ 32 \<Longrightarrow> unat (of_nat n :: u32) = n"
  by (simp add: unsigned_of_nat take_bit_nat_eq_self)

lemma take_bit_of_nat: "n < 2 ^ b \<Longrightarrow> b \<le> 32 \<Longrightarrow> take_bit b (of_nat n :: u32) = of_nat n"
  by (simp flip: of_nat_take_bit add: take_bit_nat_eq_self)

text \<open>What is read from the header of a block of \<open>n\<close> values.\<close>

lemma MakeHeader_fields:
  assumes "MakeHeader width pos n numExceptions rg lastFlag = Some w" "0 < n" "n \<le> 128" "pos < 256" "width \<le> 32" "width \<noteq> 31"
  shows "unat (h_dataNum (of_uint32 w)) + 1 = n" "unat (h_firstExceptionPos (of_uint32 w)) = pos"
    "frame_width (of_uint32 w) = width" "h_exceptionIntRange (of_uint32 w) = take_bit 11 rg"
    "h_isLastBlock (of_uint32 w) \<noteq> 0 \<longleftrightarrow> lastFlag"
proof -
  have w: "w = ToUint32 \<lparr>h_isLastBlock = (if lastFlag then 1 else 0), h_exceptionIntRange = rg,
      h_frameBits = of_nat (if width \<ge> 32 then 31 else width), h_firstExceptionPos = of_nat pos, h_dataNum = of_nat n - 1\<rparr>"
    using assms(1) by (simp add: MakeHeader_def split: if_splits)
  have "of_nat n - 1 = (of_nat (n - 1) :: u32)"
    using assms(2) by (simp add: of_nat_diff)
  then have "unat (take_bit 7 (of_nat n - 1 :: u32)) = n - 1"
    using assms(3) take_bit_of_nat [of "n - 1" 7] unat_of_nat_u32 [of "n - 1"] by simp
  then show "unat (h_dataNum (of_uint32 w)) + 1 = n"
    using assms(2) by (simp add: w of_ToUint32)
  show "unat (h_firstExceptionPos (of_uint32 w)) = pos"
    using assms(4) take_bit_of_nat [of pos 8] unat_of_nat_u32 [of pos] by (simp add: w of_ToUint32)
  have "take_bit 5 (of_nat m :: u32) = of_nat m" "unat (of_nat m :: u32) = m" if "m < 32" for m
    using that take_bit_of_nat [of m 5] unat_of_nat_u32 [of m] by simp_all
  moreover have "(of_nat m :: u32) = 31 \<longleftrightarrow> m = 31" if "m < 32" for m
    using that unat_of_nat_u32 [of m] by (auto dest!: arg_cong [where f = unat])
  ultimately show "frame_width (of_uint32 w) = width"
    using assms(5,6) by (auto simp: w of_ToUint32 frame_width_def)
  show "h_exceptionIntRange (of_uint32 w) = take_bit 11 rg"
    by (simp add: w of_ToUint32)
  show "h_isLastBlock (of_uint32 w) \<noteq> 0 \<longleftrightarrow> lastFlag"
    by (simp add: w of_ToUint32)
qed

section \<open>Memory\<close>

lemma store_all_length: "store_all stores dest = Some d \<Longrightarrow> length d = length dest"
  by (induction stores dest rule: store_all.induct) (auto split: if_splits)

text \<open>Stores to distinct places in range succeed, and each place holds what was stored there.\<close>

lemma store_all_distinct:
  assumes "distinct (map fst stores)" "\<forall>(i, v) \<in> set stores. i < length dest"
  shows "\<exists>d. store_all stores dest = Some d \<and> length d = length dest \<and>
    (\<forall>(i, v) \<in> set stores. d ! i = v) \<and> (\<forall>i. i \<notin> fst ` set stores \<longrightarrow> d ! i = dest ! i)"
  using assms
proof (induction stores dest rule: store_all.induct)
  case (2 i v stores dest)
  then obtain d where d: "store_all stores (dest[i := v]) = Some d" "length d = length dest"
    "\<forall>(i, v) \<in> set stores. d ! i = v" "\<forall>j. j \<notin> fst ` set stores \<longrightarrow> d ! j = dest[i := v] ! j"
    by auto
  then have "d ! i = v"
    using 2(2,3) by simp
  then show ?case
    using d 2(3) by (auto simp: nth_list_update)
qed simp

text \<open>Filling the first \<open>n\<close> words, in either order.\<close>

lemma store_all_fill:
  assumes "n \<le> length dest" "\<And>i. i < n \<Longrightarrow> g i < n" "inj_on g {0..<n}"
  shows "store_all (map (\<lambda>i. (g i, f i)) [0..<n]) dest = Some (map (\<lambda>j. f (inv_into {0..<n} g j)) [0..<n] @ drop n dest)"
proof -
  let ?stores = "map (\<lambda>i. (g i, f i)) [0..<n]"
  have "distinct (map fst ?stores)"
    using assms(3) by (simp add: o_def distinct_map)
  moreover have "\<forall>(i, v) \<in> set ?stores. i < length dest"
    using assms(1,2) by auto (meson less_le_trans)
  ultimately obtain d where d: "store_all ?stores dest = Some d" "length d = length dest"
    "\<forall>(i, v) \<in> set ?stores. d ! i = v" "\<forall>i. i \<notin> fst ` set ?stores \<longrightarrow> d ! i = dest ! i"
    using store_all_distinct by blast
  have onto: "g ` {0..<n} = {0..<n}"
    using assms(2,3) by (intro card_subset_eq) (auto simp: card_image)
  have "d ! j = f (inv_into {0..<n} g j)" if "j < n" for j
  proof -
    have j: "j \<in> g ` {0..<n}"
      using onto that by simp
    then have "inv_into {0..<n} g j \<in> {0..<n}" "g (inv_into {0..<n} g j) = j"
      using inv_into_into [OF j] f_inv_into_f [OF j] by simp_all
    moreover have "\<forall>x \<in> {0..<n}. d ! g x = f x"
      using d(3) by simp
    ultimately show ?thesis
      by metis
  qed
  moreover have "d ! j = dest ! j" if "n \<le> j" for j
  proof -
    have "j \<notin> fst ` set ?stores"
      using assms(2) that by fastforce
    then show ?thesis
      using d(4) by blast
  qed
  ultimately show ?thesis
    using d(1,2) assms(1) by (auto simp: list_eq_iff_nth_eq nth_append)
qed

lemma store_all_up:
  assumes "n \<le> length dest"
  shows "store_all (map (\<lambda>i. (i, f i)) [0..<n]) dest = Some (map f [0..<n] @ drop n dest)"
proof -
  have "inv_into {0..<n} (\<lambda>i. i) j = j" if "j < n" for j
    using that by (intro inv_into_f_eq) auto
  then show ?thesis
    using store_all_fill [OF assms, of "\<lambda>i. i" f] by simp
qed

lemma store_all_down:
  assumes "n \<le> length dest"
  shows "store_all (map (\<lambda>i. (n - i - 1, f i)) [0..<n]) dest = Some (map (\<lambda>j. f (n - 1 - j)) [0..<n] @ drop n dest)"
proof -
  have inj: "inj_on (\<lambda>i. n - i - 1) {0..<n}"
    by (rule inj_onI) auto
  then have "inv_into {0..<n} (\<lambda>i. n - i - 1) j = n - 1 - j" if "j < n" for j
    using that by (intro inv_into_f_eq) auto
  then show ?thesis
    using store_all_fill [OF assms _ inj, of f] by simp
qed

lemma FastMemSet_fill: "n \<le> length dest \<Longrightarrow> FastMemSet dest n v = Some (replicate n v @ drop n dest)"
proof (induction dest n v rule: FastMemSet.induct)
  case (1 dest n v)
  show ?case
  proof (cases "n < 16")
    case True
    then show ?thesis
      using store_all_up [OF 1(2), of "\<lambda>_. v"] by (simp add: FastMemSet.simps [of dest n v] map_replicate_const)
  next
    case False
    then have n: "replicate n v = replicate 16 v @ replicate (n - 16) v" "drop (n - 16) (drop 16 dest) = drop n dest"
      by (simp_all flip: replicate_add)
    have sixteen: "replicate 16 v = [v, v, v, v, v, v, v, v, v, v, v, v, v, v, v, v]"
      by (simp add: numeral_eq_Suc)
    have "FastMemSet (drop 16 dest) (n - 16) v = Some (replicate (n - 16) v @ drop n dest)"
      using 1 False n(2) by simp
    then show ?thesis
      using 1(2) False n(1) by (simp add: FastMemSet.simps [of dest n v] sixteen)
  qed
qed

lemma FastMemZero_fill: "n \<le> length dest \<Longrightarrow> FastMemZero dest n = Some (replicate n 0 @ drop n dest)"
  by (simp add: FastMemZero_def FastMemSet_fill)

section \<open>Widths\<close>

lemma high_bit_le: "high_bit n \<le> b \<longleftrightarrow> n < 2 ^ b"
proof (induction n arbitrary: b rule: high_bit.induct)
  case (1 n)
  show ?case
  proof (cases "n = 0")
    case False
    then show ?thesis
      using 1 [of "b - 1"] by (cases b) (auto simp: high_bit.simps [of n])
  qed (simp add: high_bit.simps)
qed

lemma take_bit_self_iff: "take_bit b v = v \<longleftrightarrow> unat v < 2 ^ b" for v :: u32
  by (metis take_bit_nat_eq_self_iff unsigned_take_bit_eq unsigned_word_eqI)

lemma HighBitIdx_le: "HighBitIdx v \<le> b \<longleftrightarrow> take_bit b v = v"
  by (simp add: HighBitIdx_def high_bit_le take_bit_self_iff)

lemma HighBitIdx_32: "HighBitIdx v \<le> 32"
  by (simp add: HighBitIdx_le take_bit_word_eq_self)

end
