(* ===== verification/PForDeltaSelect.thy ===== *)
theory PForDeltaSelect
  imports PForDeltaParts
begin

text \<open>
  What \<open>SelectCompressBits\<close> chooses: a width at which all values fit, or at which all but at most a tenth fit and the
  high bits of the others have at most 28 bits, or a special frame for a block of that shape.
\<close>

section \<open>Scanning the block\<close>

definition scan_inv :: "u32 list \<Rightarrow> scan \<Rightarrow> bool" where
  "scan_inv xs s \<longleftrightarrow> (xs \<noteq> [] \<longrightarrow> firstValue s = xs ! 0) \<and>
     (isAllSame s \<longrightarrow> (\<forall>i < length xs. xs ! i = xs ! 0)) \<and>
     (isIncrease s \<longrightarrow> (\<forall>i < length xs. xs ! i = xs ! 0 + of_nat i)) \<and>
     (isDecrease s \<longrightarrow> (\<forall>i < length xs. xs ! i = xs ! 0 - of_nat i)) \<and>
     maxBits s \<le> 32 \<and> (\<forall>v \<in> set xs. HighBitIdx v \<le> maxBits s) \<and>
     length (numBitArray s) = 33 \<and> (\<forall>k < 33. numBitArray s ! k = length (filter (\<lambda>v. HighBitIdx v = k) xs))"

lemma extend_shape:
  assumes "flag \<longrightarrow> (\<forall>i < length xs. xs ! i = f (xs ! 0) i)"
  shows "flag \<and> v = f ((xs @ [v]) ! 0) (length xs) \<longrightarrow> (\<forall>i < length (xs @ [v]). (xs @ [v]) ! i = f ((xs @ [v]) ! 0) i)"
proof (intro impI allI)
  fix i assume *: "flag \<and> v = f ((xs @ [v]) ! 0) (length xs)" "i < length (xs @ [v])"
  show "(xs @ [v]) ! i = f ((xs @ [v]) ! 0) i"
  proof (cases "i = length xs")
    case False
    then have "i < length xs" "(xs @ [v]) ! 0 = xs ! 0"
      using *(2) by (auto simp: nth_append)
    then show ?thesis
      using assms conjunct1 [OF *(1)] by (simp add: nth_append)
  next
    case True
    show ?thesis
      unfolding True nth_append_length by (rule conjunct2 [OF *(1)])
  qed
qed

lemma scan_value_inv:
  assumes "scan_inv xs s"
  shows "scan_inv (xs @ [v]) (scan_value (length xs) v s)"
proof -
  have s: "xs \<noteq> [] \<longrightarrow> firstValue s = xs ! 0"
    "isAllSame s \<longrightarrow> (\<forall>i < length xs. xs ! i = xs ! 0)"
    "isIncrease s \<longrightarrow> (\<forall>i < length xs. xs ! i = xs ! 0 + of_nat i)"
    "isDecrease s \<longrightarrow> (\<forall>i < length xs. xs ! i = xs ! 0 - of_nat i)"
    "maxBits s \<le> 32" "\<forall>v \<in> set xs. HighBitIdx v \<le> maxBits s" "length (numBitArray s) = 33"
    "\<forall>k < 33. numBitArray s ! k = length (filter (\<lambda>v. HighBitIdx v = k) xs)"
    using assms unfolding scan_inv_def by blast+
  let ?s = "scan_value (length xs) v s"
  have first: "(if length xs = 0 then v else firstValue s) = (xs @ [v]) ! 0"
    using s(1) by (cases xs) auto
  have fields: "firstValue ?s = (xs @ [v]) ! 0" "isAllSame ?s \<longleftrightarrow> isAllSame s \<and> v = (xs @ [v]) ! 0"
    "isIncrease ?s \<longleftrightarrow> isIncrease s \<and> v = (xs @ [v]) ! 0 + of_nat (length xs)"
    "isDecrease ?s \<longleftrightarrow> isDecrease s \<and> v = (xs @ [v]) ! 0 - of_nat (length xs)"
    "maxBits ?s = max (HighBitIdx v) (maxBits s)"
    "numBitArray ?s = (numBitArray s)[HighBitIdx v := numBitArray s ! HighBitIdx v + 1]"
    unfolding scan_value_def Let_def first by (simp_all add: max_def)
  show ?thesis
    unfolding scan_inv_def fields(1-5)
  proof (intro conjI)
    show "\<forall>k < 33. numBitArray ?s ! k = length (filter (\<lambda>v. HighBitIdx v = k) (xs @ [v]))"
      using s(7,8) HighBitIdx_32 [of v] by (simp add: fields(6) nth_list_update)
    show "length (numBitArray ?s) = 33"
      using s(7) by (simp add: fields(6))
    show "\<forall>w \<in> set (xs @ [v]). HighBitIdx w \<le> max (HighBitIdx v) (maxBits s)"
      using s(6) by (simp add: le_max_iff_disj)
    show "max (HighBitIdx v) (maxBits s) \<le> 32"
      using s(5) HighBitIdx_32 [of v] by simp
  qed (fact extend_shape [of "isAllSame s" xs "\<lambda>x i. x", OF s(2)]
      extend_shape [of "isIncrease s" xs "\<lambda>x i. x + of_nat i", OF s(3)]
      extend_shape [of "isDecrease s" xs "\<lambda>x i. x - of_nat i", OF s(4)] | simp)+
qed

lemma scan_block_inv: "scan_inv xs s \<Longrightarrow> scan_inv (xs @ block) (scan_block (length xs) block s)"
proof (induction block arbitrary: xs s)
  case (Cons v block)
  then show ?case
    using Cons.IH [OF scan_value_inv [OF Cons.prems, of v]] by simp
qed simp

lemma scan_init_inv: "scan_inv [] scan_init"
  by (simp add: scan_inv_def scan_init_def)

lemma scan_inv_block: "scan_inv block (scan_block 0 block scan_init)"
  using scan_block_inv [OF scan_init_inv, of block] by simp

section \<open>Running sums\<close>

lemma sum_counts_sum:
  assumes "j \<le> n" "0 < j" "length a = n" "\<forall>i < j. a ! i = (\<Sum>k\<le>i. c k)" "\<forall>i. j \<le> i \<and> i < n \<longrightarrow> a ! i = c i"
  shows "\<forall>i < n. sum_counts [j..<n] a ! i = (\<Sum>k\<le>i. c k)"
  using assms
proof (induction "n - j" arbitrary: j a)
  case (Suc d)
  then have j: "j < n"
    by simp
  let ?a = "a[j := a ! j + a ! (j - 1)]"
  have "a ! (j - 1) = (\<Sum>k\<le>j - 1. c k)"
    using Suc.prems by simp
  moreover have "(\<Sum>k\<le>j. c k) = c j + (\<Sum>k\<le>j - 1. c k)"
    using Suc.prems(2) by (cases j) auto
  ultimately have "\<forall>i < Suc j. ?a ! i = (\<Sum>k\<le>i. c k)"
    using Suc.prems j by (auto simp: less_Suc_eq nth_list_update)
  then have "\<forall>i < n. sum_counts [Suc j..<n] ?a ! i = (\<Sum>k\<le>i. c k)"
    using Suc.hyps(2) Suc.prems j by (intro Suc.hyps(1)) auto
  then show ?case
    using j by (simp add: upt_conv_Cons)
qed simp

lemma sum_length_filter: "(\<Sum>k\<le>i. length (filter (\<lambda>v. f v = k) xs)) = length (filter (\<lambda>v. f v \<le> i) xs)" for f :: "'a \<Rightarrow> nat"
proof (induction xs)
  case (Cons x xs)
  have "(\<Sum>k\<le>i. length (filter (\<lambda>v. f v = k) (x # xs))) =
      (\<Sum>k\<le>i. (if f x = k then 1 else 0) + length (filter (\<lambda>v. f v = k) xs))"
    by (intro sum.cong) auto
  also have "\<dots> = (if f x \<le> i then 1 else 0) + length (filter (\<lambda>v. f v \<le> i) xs)"
    using Cons by (simp add: sum.distrib)
  finally show ?case
    by simp
qed simp

lemma scan_counts:
  assumes "scan_inv block s" "i < 33"
  shows "sum_counts [1..<33] (numBitArray s) ! i = length (filter (\<lambda>v. take_bit i v = v) block)"
proof -
  have "\<forall>i < 33. sum_counts [1..<33] (numBitArray s) ! i = (\<Sum>k\<le>i. length (filter (\<lambda>v. HighBitIdx v = k) block))"
    using assms(1) by (intro sum_counts_sum) (auto simp: scan_inv_def)
  then show ?thesis
    using assms(2) by (simp add: sum_length_filter HighBitIdx_le)
qed

section \<open>The chosen width\<close>

definition good_width :: "nat \<Rightarrow> nat \<Rightarrow> nat list \<Rightarrow> nat \<times> nat \<Rightarrow> bool" where
  "good_width blkLen mx counts = (\<lambda>(width, exceptions). width \<le> 32 \<and> width \<noteq> 31 \<and> exceptions = blkLen - counts ! width \<and>
     exceptions \<le> blkLen div 10 \<and> mx \<le> width + 28)"

lemma FRAME_BIT_MAP_31: "FRAME_BIT_MAP ! i = i \<Longrightarrow> i \<le> 32 \<Longrightarrow> i \<noteq> 31"
  by (auto simp: FRAME_BIT_MAP_def)

lemma FRAME_BIT_MAP_le:
  assumes "i \<le> 32"
  shows "FRAME_BIT_MAP ! i \<le> 32"
proof -
  have "\<forall>x \<in> set FRAME_BIT_MAP. x \<le> 32" "length FRAME_BIT_MAP = 33"
    by (simp_all add: FRAME_BIT_MAP_def)
  then show ?thesis
    using assms by simp
qed

lemma choose_width_good:
  assumes "good_width blkLen mx counts (snd best)" "\<forall>i \<in> set is. i \<le> 32"
  shows "good_width blkLen mx counts (snd (choose_width is blkLen mx counts best))"
  using assms
proof (induction "is" arbitrary: best)
  case (Cons i "is")
  have "blkLen * EXCEPTION_THRESHOLD_RATE div 100 = blkLen div 10"
    by (simp add: EXCEPTION_THRESHOLD_RATE_def)
  then have "good_width blkLen mx counts (i, blkLen - counts ! i)"
    if "FRAME_BIT_MAP ! i = i" "\<not> (blkLen - counts ! i > blkLen * EXCEPTION_THRESHOLD_RATE div 100 \<or> mx > i + 28)"
    using that Cons.prems(2) FRAME_BIT_MAP_31 [of i] by (auto simp: good_width_def)
  then show ?case
    using Cons by (auto simp: Let_def)
qed simp

text \<open>The shapes of block for which a special frame is announced, by the position that announces it.\<close>

definition special_shape :: "u32 list \<Rightarrow> nat \<Rightarrow> bool" where
  "special_shape block pos \<longleftrightarrow>
     (pos = SAME_VALUE_INLINE \<and> block ! 0 < 2047 \<or> pos = SAME_VALUE_ALONE) \<and> (\<forall>i < length block. block ! i = block ! 0) \<or>
     (pos = INCREASE_VALUE_INLINE \<and> block ! 0 < 2047 \<or> pos = INCREASE_VALUE_ALONE) \<and>
       (\<forall>i < length block. block ! i = block ! 0 + of_nat i) \<or>
     (pos = DECREASE_VALUE_INLINE \<and> block ! (length block - 1) < 2047 \<or> pos = DECREASE_VALUE_ALONE) \<and>
       (\<forall>i < length block. block ! i = block ! 0 - of_nat i)"

definition exception_frame :: "u32 list \<Rightarrow> nat \<Rightarrow> nat \<Rightarrow> bool" where
  "exception_frame block width n \<longleftrightarrow> width < 31 \<and> 0 < n \<and> n \<le> length block div 10 \<and>
     n = length (filter (\<lambda>v. take_bit width v \<noteq> v) block) \<and> (\<forall>v \<in> set block. take_bit (width + 28) v = v)"

definition plain_frame :: "u32 list \<Rightarrow> nat \<Rightarrow> bool" where
  "plain_frame block width \<longleftrightarrow> width \<le> 32 \<and> width \<noteq> 31 \<and> (\<forall>v \<in> set block. take_bit width v = v)"

lemma filter_complement: "length xs - length (filter P xs) = length (filter (\<lambda>x. \<not> P x) xs)"
  using sum_length_filter_compl [of P xs] by simp

lemma chosen_width_frame:
  assumes "scan_inv block s" "good_width (length block) (maxBits s) (sum_counts [1..<33] (numBitArray s)) (width, n)"
  shows "n = 0 \<and> plain_frame block width \<or> exception_frame block width n"
proof -
  have w: "width \<le> 32" "width \<noteq> 31" "n \<le> length block div 10" "maxBits s \<le> width + 28"
    and n: "n = length (filter (\<lambda>v. take_bit width v \<noteq> v) block)"
    using assms(2) scan_counts [OF assms(1), of width] by (auto simp: good_width_def filter_complement)
  show ?thesis
  proof (cases "n = 0")
    case True
    then have "\<forall>v \<in> set block. take_bit width v = v"
      using n by (simp add: filter_empty_conv)
    then show ?thesis
      using True w(1,2) by (simp add: plain_frame_def)
  next
    case False
    have "take_bit 32 v = v" for v :: u32
      by (simp add: take_bit_word_eq_self)
    then have "width \<noteq> 32"
      using n False by auto
    moreover have "\<forall>v \<in> set block. take_bit (width + 28) v = v"
      using assms(1) order_trans [OF _ w(4)] unfolding scan_inv_def HighBitIdx_le [symmetric] by blast
    ultimately show ?thesis
      using False w(1-3) n by (simp add: exception_frame_def)
  qed
qed

lemma SelectCompressBits_frame:
  assumes "block \<noteq> []" "SelectCompressBits block enableBlockOpt = (width, n)"
  shows "n = 0 \<and> plain_frame block width \<or> exception_frame block width n \<or> width = 0 \<and> special_shape block n"
proof -
  let ?s = "scan_block 0 block scan_init"
  note inv = scan_inv_block [of block]
  have zero: "plain_frame block 0" if "maxBits ?s = 0"
  proof -
    have "HighBitIdx v \<le> 0" if "v \<in> set block" for v
      using inv that \<open>maxBits ?s = 0\<close> by (auto simp: scan_inv_def)
    then show ?thesis
      unfolding plain_frame_def HighBitIdx_le by simp
  qed
  have "maxBits ?s \<le> 32"
    using inv by (simp add: scan_inv_def)
  then have "FRAME_BIT_MAP ! maxBits ?s \<le> 32"
    by (rule FRAME_BIT_MAP_le)
  moreover have "good_width (length block) (maxBits ?s) (sum_counts [1..<33] (numBitArray ?s)) (32, 0)"
    using \<open>maxBits ?s \<le> 32\<close> scan_counts [OF inv, of 32] by (simp add: good_width_def take_bit_word_eq_self)
  ultimately have "good_width (length block) (maxBits ?s) (sum_counts [1..<33] (numBitArray ?s))
      (snd (choose_width (rev [0..<FRAME_BIT_MAP ! maxBits ?s + 1]) (length block) (maxBits ?s)
        (sum_counts [1..<33] (numBitArray ?s)) (4 * length block, 32, 0)))"
    by (intro choose_width_good) auto
  then have chosen: "n = 0 \<and> plain_frame block width \<or> exception_frame block width n"
    if "snd (choose_width (rev [0..<FRAME_BIT_MAP ! maxBits ?s + 1]) (length block) (maxBits ?s)
        (sum_counts [1..<33] (numBitArray ?s)) (4 * length block, 32, 0)) = (width, n)"
    using chosen_width_frame [OF inv] that by simp
  have shape: "firstValue ?s = block ! 0" "isAllSame ?s \<Longrightarrow> \<forall>i < length block. block ! i = block ! 0"
    "isIncrease ?s \<Longrightarrow> \<forall>i < length block. block ! i = block ! 0 + of_nat i"
    "isDecrease ?s \<Longrightarrow> \<forall>i < length block. block ! i = block ! 0 - of_nat i"
    using inv assms(1) unfolding scan_inv_def by blast+
  consider (zero) "maxBits ?s = 0" | (same) "maxBits ?s \<noteq> 0" "enableBlockOpt \<and> isAllSame ?s"
    | (increase) "maxBits ?s \<noteq> 0" "\<not> (enableBlockOpt \<and> isAllSame ?s)" "enableBlockOpt \<and> isIncrease ?s"
    | (decrease) "maxBits ?s \<noteq> 0" "\<not> (enableBlockOpt \<and> isAllSame ?s)" "\<not> (enableBlockOpt \<and> isIncrease ?s)" "enableBlockOpt \<and> isDecrease ?s"
    | (other) "maxBits ?s \<noteq> 0" "\<not> (enableBlockOpt \<and> isAllSame ?s)" "\<not> (enableBlockOpt \<and> isIncrease ?s)" "\<not> (enableBlockOpt \<and> isDecrease ?s)"
    by blast
  then show ?thesis
  proof cases
    case zero
    then have "SelectCompressBits block enableBlockOpt = (0, 0)"
      by (simp add: SelectCompressBits_def)
    then show ?thesis
      using assms(2) zero \<open>maxBits ?s = 0 \<Longrightarrow> plain_frame block 0\<close> by simp
  next
    case same
    then have "width = 0 \<and> n = (if block ! 0 < 2047 then SAME_VALUE_INLINE else SAME_VALUE_ALONE)"
      using assms(2) by (simp only: SelectCompressBits_def Let_def if_False if_True simp_thms shape(1) IsUniqValueStoreInline_def prod.inject eq_commute [of 0] eq_commute [of _ n])
    then show ?thesis
      using shape(2) same(2) by (simp add: special_shape_def)
  next
    case increase
    then have "width = 0 \<and> n = (if block ! 0 < 2047 then INCREASE_VALUE_INLINE else INCREASE_VALUE_ALONE)"
      using assms(2) by (simp only: SelectCompressBits_def Let_def if_False if_True simp_thms shape(1) IsUniqValueStoreInline_def prod.inject eq_commute [of 0] eq_commute [of _ n])
    then show ?thesis
      using shape(3) increase(3) unfolding special_shape_def by meson
  next
    case decrease
    have "width = 0 \<and> n = (if block ! (length block - 1) < 2047 then DECREASE_VALUE_INLINE else DECREASE_VALUE_ALONE)"
      using assms decrease by (simp only: SelectCompressBits_def Let_def if_False if_True simp_thms IsUniqValueStoreInline_def prod.inject length_greater_0_conv eq_commute [of 0] eq_commute [of _ n])
    then show ?thesis
      using shape(4) decrease(4) unfolding special_shape_def by meson
  next
    case other
    then show ?thesis
      using chosen assms(2) by (simp only: SelectCompressBits_def Let_def if_False if_True simp_thms) blast
  qed
qed

end
