(* ===== verification/PForDeltaExceptions.thy ===== *)
theory PForDeltaExceptions
  imports PForDeltaParts
begin

text \<open>
  The exceptions of a block: \<open>CompressBlock\<close> finds them, cuts their values down to the frame and lists their high bits
  and distances; \<open>S9Decode\<close> is patching in the numbers that the Simple-9 decoder gives, which restores the values.
\<close>

section \<open>Patching in a list of numbers\<close>

text \<open>The numbers are alternately high bits and distances; \<open>high\<close> says which one comes first.\<close>

fun patch_numbers :: "bool \<Rightarrow> nat \<Rightarrow> u32 list \<Rightarrow> u32 list \<times> nat \<Rightarrow> (u32 list \<times> nat) option" where
  "patch_numbers high frameBits [] st = Some st"
| "patch_numbers high frameBits (v # vs) st =
     Option.bind (if high then patch frameBits v st else skip v st) (patch_numbers (\<not> high) frameBits vs)"

lemma patch_numbers_append:
  "patch_numbers high frameBits (vs @ ws) st =
     Option.bind (patch_numbers high frameBits vs st) (patch_numbers (high = even (length vs)) frameBits ws)"
proof (induction vs arbitrary: high st)
  case (Cons v vs)
  have "((\<not> high) = even (length vs)) = (high = odd (length vs))"
    by auto
  then show ?case
    using Cons by (cases "if high then patch frameBits v st else skip v st") simp_all
qed simp

lemma patch_numbers_step:
  "patch_numbers True frameBits (v # vs) = (\<lambda>st. Option.bind (patch frameBits v st) (patch_numbers False frameBits vs))"
  "patch_numbers False frameBits (v # vs) = (\<lambda>st. Option.bind (skip v st) (patch_numbers True frameBits vs))"
  "patch_numbers high frameBits [] = Some"
  by (simp_all add: fun_eq_iff)

text \<open>The two cases for each layout of a word are the same but for where they start.\<close>

definition head_of :: "bool \<Rightarrow> nat" where
  "head_of high = (if high then 0 else 16)"

lemmas S9Decode_defs = S9Decode_0_def S9Decode_1_def S9Decode_2_def S9Decode_3_def S9Decode_4_def S9Decode_5_def
  S9Decode_6_def S9Decode_7_def S9Decode_8_def S9Decode_16_def S9Decode_17_def S9Decode_18_def S9Decode_19_def
  S9Decode_20_def S9Decode_21_def S9Decode_22_def S9Decode_23_def S9Decode_24_def

lemma decode_word_header: "decode_word val = Some vs \<Longrightarrow> unat (drop_bit 28 val) < 9"
  by (auto simp: decode_word_def Let_def split: if_splits)

lemma parity_length: "even (length (x # y # xs)) \<longleftrightarrow> even (length xs)" "even (length [x]) \<longleftrightarrow> False" "even (length []) \<longleftrightarrow> True"
  by simp_all

lemma S9Decode_word_eq:
  assumes "unat (drop_bit 28 val) < 9"
  shows "S9Decode_word frameBits val (head_of high) st = Option.bind (decode_word val) (\<lambda>vs.
    Option.bind (patch_numbers high frameBits vs st) (\<lambda>st. Some (head_of (high = even (length vs)), st)))"
  using nine_cases [OF assms]
  by (cases high; elim disjE;
      simp only: S9Decode_word_def decode_word_def head_of_def Let_def if_True if_False simp_thms rel_simps arith_simps add_0 add_0_right one_plus_numeral;
      simp only: S9Decode_defs Option.bind.simps; simp only: patch_numbers_step; simp only: Option.bind_assoc;
      simp only: Option.bind.simps parity_length if_True if_False simp_thms)

lemma S9Decode_word_numbers:
  "decode_word val = Some vs \<Longrightarrow> S9Decode_word frameBits val (head_of high) st =
    Option.bind (patch_numbers high frameBits vs st) (\<lambda>st. Some (head_of (high = even (length vs)), st))"
  using S9Decode_word_eq [OF decode_word_header] by simp

lemma S9Decode_words_numbers:
  "Decode src = Some vs \<Longrightarrow> S9Decode_words src frameBits (head_of high) st = patch_numbers high frameBits vs st"
proof (induction src arbitrary: vs high st)
  case (Cons val src)
  then obtain ws rest where w: "decode_word val = Some ws" "Decode src = Some rest" "vs = ws @ rest"
    by (auto split: Option.bind_splits)
  show ?case
    using Cons.IH [OF w(2)]
    by (cases "patch_numbers high frameBits ws st") (simp_all add: S9Decode_word_numbers [OF w(1)] patch_numbers_append w(3))
qed simp

lemma S9Decode_numbers:
  assumes "Decode words = Some vs"
  shows "S9Decode dest (words @ rest) (length words) pos frameBits = map_option fst (patch_numbers True frameBits vs (dest, pos))"
  using S9Decode_words_numbers [OF assms, of frameBits True] by (simp add: S9Decode_def head_of_def)

section \<open>Finding and cutting the exceptions\<close>

text \<open>The positions from \<open>i\<close> on of the values that do not fit.\<close>

fun positions :: "nat \<Rightarrow> nat \<Rightarrow> u32 list \<Rightarrow> nat list" where
  "positions b i [] = []"
| "positions b i (v # src) = (if take_bit b v = v then positions b (i + 1) src else i # positions b (i + 1) src)"

lemma length_positions: "length (positions b i src) = length (filter (\<lambda>v. take_bit b v \<noteq> v) src)"
  by (induction src arbitrary: i) auto

lemma positions_bounds: "p \<in> set (positions b i src) \<Longrightarrow> i \<le> p \<and> p < i + length src"
  by (induction src arbitrary: i) (fastforce split: if_splits)+

lemma positions_sorted: "sorted_wrt (<) (positions b i src)"
  by (induction src arbitrary: i) (auto dest: positions_bounds)

lemma positions_iff: "p < length src \<Longrightarrow> p \<in> set (positions b 0 src) \<longleftrightarrow> take_bit b (src ! p) \<noteq> src ! p"
proof -
  have "p < length src \<Longrightarrow> i + p \<in> set (positions b i src) \<longleftrightarrow> take_bit b (src ! p) \<noteq> src ! p" for i
  proof (induction src arbitrary: i p)
    case (Cons v src)
    show ?case
    proof (cases p)
      case 0
      then show ?thesis
        by (auto dest: positions_bounds)
    next
      case (Suc q)
      then show ?thesis
        using Cons.IH [of q "i + 1"] Cons.prems by auto
    qed
  qed simp
  then show "p < length src \<Longrightarrow> ?thesis"
    by (metis add_0)
qed

lemma find_exceptions_positions:
  assumes "b < 32" "j + length src \<le> length miss"
  shows "\<exists>miss'. find_exceptions i (push_bit b 1) src j miss = (j + length (positions b i src), miss') \<and>
    take (j + length (positions b i src)) miss' = take j miss @ positions b i src \<and> length miss' = length miss"
  using assms(2)
proof (induction src arbitrary: i j miss)
  case (Cons v src)
  show ?case
  proof (cases "take_bit b v = v")
    case True
    then have "\<not> push_bit b 1 \<le> v"
      using less_exp_iff [OF assms(1), of v] by simp
    then show ?thesis
      using Cons.IH [of j "miss[j := i]" "i + 1"] Cons.prems True by simp
  next
    case False
    then have "push_bit b 1 \<le> v"
      using less_exp_iff [OF assms(1), of v] by simp
    moreover have "take (Suc j) (miss[j := i]) = take j miss @ [i]"
      using Cons.prems by (simp add: take_Suc_conv_app_nth)
    ultimately show ?thesis
      using Cons.IH [of "j + 1" "miss[j := i]" "i + 1"] Cons.prems False by simp
  qed
qed simp

lemma BASIC_MASK_mask:
  assumes "b \<le> 32"
  shows "BASIC_MASK ! b = mask b"
proof -
  have "BASIC_MASK = map mask [0..<33]"
    by (simp add: BASIC_MASK_def mask_eq_exp_minus_1 numeral_upt del: One_nat_def)
  then have "BASIC_MASK ! b = map mask [0..<33] ! b"
    by (rule arg_cong)
  also have "\<dots> = mask b"
    using assms by (subst nth_map) auto
  finally show ?thesis .
qed

definition cut :: "nat \<Rightarrow> nat list \<Rightarrow> u32 list \<Rightarrow> u32 list" where
  "cut b ps code = map (\<lambda>i. if i \<in> set ps then take_bit b (code ! i) else code ! i) [0..<length code]"

fun distances :: "nat \<Rightarrow> nat list \<Rightarrow> u32 list" where
  "distances pre [] = []"
| "distances pre (p # ps) = of_nat (p - pre - 1) # distances p ps"

lemma cut_Cons: "p < length code \<Longrightarrow> p \<notin> set ps \<Longrightarrow> cut b ps (code[p := take_bit b (code ! p)]) = cut b (p # ps) code"
  by (auto simp: cut_def nth_list_update)

lemma cut_exceptions_cut:
  assumes "b \<le> 32" "distinct ps" "\<forall>p \<in> set ps. p < length code"
  shows "cut_exceptions b ps pre code = (cut b ps code, map (\<lambda>p. drop_bit b (code ! p)) ps, distances pre ps)"
  using assms(2,3)
proof (induction ps arbitrary: pre code)
  case Nil
  then show ?case
    by (simp add: cut_def map_nth)
next
  case (Cons p ps)
  let ?code = "code[p := take_bit b (code ! p)]"
  have "?code ! q = code ! q" if "q \<in> set ps" for q
    using that Cons.prems(1) by (cases "q = p") auto
  then have "map (\<lambda>q. drop_bit b (?code ! q)) ps = map (\<lambda>q. drop_bit b (code ! q)) ps"
    by simp
  then show ?case
    using Cons.IH [of ?code p] Cons.prems assms(1) cut_Cons [of p code ps b]
    by (simp add: BASIC_MASK_mask flip: take_bit_eq_mask)
qed

section \<open>Patching restores the values\<close>

text \<open>The numbers that are encoded for the exceptions at \<open>p\<close> and, after it, \<open>ps\<close>.\<close>

fun numbers :: "nat \<Rightarrow> u32 list \<Rightarrow> nat \<Rightarrow> nat list \<Rightarrow> u32 list" where
  "numbers b src p [] = [drop_bit b (src ! p)]"
| "numbers b src p (q # ps) = drop_bit b (src ! p) # of_nat (q - p - 1) # numbers b src q ps"

lemma interleave_numbers:
  "interleave (drop_bit b (src ! p) # map (\<lambda>p. drop_bit b (src ! p)) ps) (distances p ps) = numbers b src p ps"
  by (induction ps arbitrary: p) auto

lemma length_numbers: "length (numbers b src p ps) = 2 * length ps + 1"
  by (induction ps arbitrary: p) auto

lemma numbers_narrow:
  assumes "\<forall>p \<in> set (p # ps). take_bit (b + 28) (src ! p) = src ! p" "\<forall>p \<in> set ps. p < 128" "v \<in> set (numbers b src p ps)"
  shows "take_bit 28 v = v"
  using assms
proof (induction ps arbitrary: p)
  case Nil
  then show ?case
    by (auto simp: take_bit_drop_bit add.commute)
next
  case (Cons q ps)
  then show ?case
    using take_bit_of_nat [of "q - p - 1" 28] by (auto simp: take_bit_drop_bit add.commute)
qed

lemma restore_bits: "take_bit b v OR push_bit b (drop_bit b v) = v" for v :: u32
proof (rule bit_eqI)
  show "bit (take_bit b v OR push_bit b (drop_bit b v)) n = bit v n" for n
    by (cases "n < b") (auto simp: bit_simps dest: bit_imp_le_length)
qed

lemma patch_numbers_restore:
  assumes "b < 32" "sorted_wrt (<) (p # ps)" "\<forall>p \<in> set (p # ps). p < length dest \<and> p < 128 \<and> dest ! p = take_bit b (src ! p)"
  shows "\<exists>d pos. patch_numbers True b (numbers b src p ps) (dest, p) = Some (d, pos) \<and> length d = length dest \<and>
    (\<forall>i < length dest. d ! i = (if i \<in> set (p # ps) then src ! i else dest ! i))"
  using assms(2,3)
proof (induction ps arbitrary: p dest)
  case Nil
  then show ?case
    using assms(1) by (auto simp: patch_def restore_bits nth_list_update)
next
  case (Cons q ps)
  let ?dest = "dest[p := src ! p]"
  have pq: "p < q"
    using Cons.prems(1) by simp
  have notin: "p \<notin> set (q # ps)"
    using Cons.prems(1) by auto
  have "unat (of_nat (q - p - 1) + 1 :: u32) = q - p"
  proof -
    have "of_nat (q - p - 1) + 1 = (of_nat (Suc (q - p - 1)) :: u32)"
      by (simp only: of_nat_Suc add.commute)
    also have "Suc (q - p - 1) = q - p"
      using pq by simp
    finally have "unat (of_nat (q - p - 1) + 1 :: u32) = unat (of_nat (q - p) :: u32)"
      by (rule arg_cong)
    also have "\<dots> = q - p"
      using Cons.prems(2) by (intro unat_of_nat_u32) auto
    finally show ?thesis .
  qed
  then have step: "patch_numbers True b (numbers b src p (q # ps)) (dest, p) = patch_numbers True b (numbers b src q ps) (?dest, q)"
    using assms(1) pq Cons.prems(2) by (simp add: patch_def skip_def restore_bits)
  have "\<forall>r \<in> set (q # ps). ?dest ! r = dest ! r"
    using notin by (metis nth_list_update_neq)
  then obtain d pos where d: "patch_numbers True b (numbers b src q ps) (?dest, q) = Some (d, pos)" "length d = length dest"
    "\<forall>i < length dest. d ! i = (if i \<in> set (q # ps) then src ! i else ?dest ! i)"
    using Cons.IH [of q ?dest] Cons.prems by auto
  then show ?case
    using step notin Cons.prems(2) by (auto simp: nth_list_update)
qed

end
