(* ===== verification/PForDeltaRound.thy ===== *)
theory PForDeltaRound
  imports PForDeltaSelect PForDeltaExceptions
begin

text \<open>
  A compressed block decompresses to its values, whichever of the three kinds of frame it has, and a compressed list of
  values decompresses to the list.
\<close>

section \<open>Frames\<close>

text \<open>A frame of a block: its length is in its header, and it decompresses to the block.\<close>

definition block_frame :: "u32 list \<Rightarrow> bool \<Rightarrow> u32 list \<Rightarrow> bool" where
  "block_frame block lastFlag frame \<longleftrightarrow> frame \<noteq> [] \<and> length frame \<le> 152 \<and>
     GetCompressedLength (hd frame) = length frame \<and> IsLastBlock (hd frame) = lastFlag \<and>
     (\<forall>out rest. length block \<le> length out \<longrightarrow>
        DecompressBlock out (frame @ rest) = Some (block @ drop (length block) out, length block, rest, lastFlag))"

lemma not_special: "pos \<le> 128 \<Longrightarrow> \<not> store_inline pos \<and> \<not> store_alone pos"
  by (simp add: store_inline_def store_alone_def special_defs)

lemma no_special_block:
  "pos \<le> 128 \<Longrightarrow> TryDecompressSpecialBlock dest n pos r src = Some (False, dest, src)"
  by (simp add: TryDecompressSpecialBlock_def special_defs)

text \<open>Decompressing a frame of a header, packed values, and exceptions.\<close>

lemma DecompressBlock_words:
  assumes h: "MakeHeader b pos n e (of_nat (length exc)) lastFlag = Some h" "0 < n" "n \<le> 128" "pos \<le> 128" "b \<le> 32" "b \<noteq> 31"
    and code: "fits b code n" and exc: "length exc < 2 ^ 11" and out: "n \<le> length out"
  shows "DecompressBlock out (h # packed_words b code n @ exc @ rest) =
    map_option (\<lambda>d. (d, n, rest, lastFlag))
      (if pos = 0 then Some (take n code @ drop n out)
       else S9Decode (take n code @ drop n out) (exc @ rest) (length exc) (pos - 1) b)"
proof -
  let ?k = "frame_words b n" and ?body = "packed_words b code n @ exc @ rest"
  note f = MakeHeader_fields [OF h(1-3) _ h(5,6)]
  have pos: "pos < 256"
    using h(4) by simp
  have range: "unat (h_exceptionIntRange (of_uint32 h)) = length exc"
    using f(4) [OF pos] take_bit_of_nat [OF exc] exc unat_of_nat_u32 [of "length exc"] by simp
  have u: "Unpack out ?body n b = Some (take n code @ drop n out)"
    using frames.load_words [OF h(5) code out] .
  have k: "(n * b + 31) div 32 = ?k"
    by (simp add: frame_words_def mult.commute)
  show ?thesis
    unfolding DecompressBlock_def list.case Let_def f(1-3) [OF pos] f(5) [OF pos] range
    using no_special_block [OF h(4)] u by (auto simp: k HEADER_INT_SIZE_def map_option_case split: option.split)
qed

lemma words_frame:
  assumes h: "MakeHeader b pos (length block) e (of_nat (length exc)) lastFlag = Some h"
    and block: "block \<noteq> []" "length block \<le> 128" and b: "pos \<le> 128" "b \<le> 32" "b \<noteq> 31"
    and code: "fits b code (length block)" and exc: "length exc \<le> 23"
    and decoded: "\<And>out rest. length block \<le> length out \<Longrightarrow>
      (if pos = 0 then Some (take (length block) code @ drop (length block) out)
       else S9Decode (take (length block) code @ drop (length block) out) (exc @ rest) (length exc) (pos - 1) b) =
      Some (block @ drop (length block) out)"
  shows "block_frame block lastFlag (h # packed_words b code (length block) @ exc)"
proof -
  let ?n = "length block"
  have n: "0 < ?n" and pos: "pos < 256"
    using block(1) b(1) by simp_all
  note f = MakeHeader_fields [OF h n block(2) pos b(2,3)]
  have range: "unat (h_exceptionIntRange (of_uint32 h)) = length exc"
    using f(4) take_bit_of_nat [of "length exc" 11] exc unat_of_nat_u32 [of "length exc"] by simp
  have "GetCompressedLength h = 1 + frame_words b ?n + length exc"
    unfolding GetCompressedLength_def Let_def f(1-3) range using not_special [OF b(1)]
    by (simp add: HEADER_INT_SIZE_def frame_words_def mult.commute)
  moreover have "frame_words b ?n \<le> 128"
    using frame_words_bound [OF b(2), of ?n] block(2) by simp
  moreover have "DecompressBlock out (h # packed_words b code ?n @ exc @ rest) = Some (block @ drop ?n out, ?n, rest, lastFlag)"
    if "?n \<le> length out" for out rest
    using DecompressBlock_words [OF h n block(2) b code _ that] exc decoded [OF that] by simp
  ultimately show ?thesis
    using exc f(5) by (simp add: block_frame_def IsLastBlock_def)
qed

lemma MakeHeader_Some: "pos \<le> 128 \<Longrightarrow> \<exists>h. MakeHeader b pos n e r lastFlag = Some h"
  by (simp add: MakeHeader_def)

section \<open>Frames without exceptions\<close>

lemma fits_self: "\<forall>v \<in> set xs. take_bit b v = v \<Longrightarrow> fits b xs (length xs)"
  by (simp add: fits_def)

lemma plain_block:
  assumes "plain_frame block b" "block \<noteq> []" "length block \<le> 128" "152 \<le> length dest"
  shows "\<exists>frame. CompressBlock dest block b 0 lastFlag = Some (StatusOK, frame @ drop (length frame) dest, length frame) \<and>
    block_frame block lastFlag frame"
proof -
  let ?n = "length block" and ?k = "frame_words b (length block)"
  have b: "b \<le> 32" "b \<noteq> 31" and fit: "fits b block ?n"
    using assms(1) fits_self by (simp_all add: plain_frame_def)
  have k: "?k + 1 \<le> length dest"
    using frame_words_bound [OF b(1), of ?n] assms(3,4) by simp
  obtain h where h: "MakeHeader b 0 ?n 0 0 lastFlag = Some h"
    using MakeHeader_Some [of 0 b ?n 0 0 lastFlag] by auto
  have "CompressBlock dest block b 0 lastFlag = Some (StatusOK, h # packed_words b block ?n @ drop (?k + 1) dest, ?k + 1)"
    using k h frames.store_after_header [OF b(1) fit k] FastMemZero_fill [OF k]
    by (simp add: CompressBlock_def TransformToFrame_def HEADER_INT_SIZE_def frame_words_def mult.commute)
  moreover have "block_frame block lastFlag (h # packed_words b block ?n @ [])"
    using h assms(2,3) b fit by (intro words_frame [where pos = 0 and e = 0]) simp_all
  ultimately show ?thesis
    by (intro exI [of _ "h # packed_words b block ?n"]) simp
qed

section \<open>Frames with exceptions\<close>

text \<open>The block as \<open>CompressBlock\<close> copies it, and the positions of its exceptions.\<close>

definition padded_block :: "u32 list \<Rightarrow> u32 list" where
  "padded_block block = block @ replicate (BLOCK_SIZE - length block) 0"

lemma exception_positions:
  assumes "exception_frame block b n" "length block \<le> 128"
  shows "\<exists>p ps. positions b 0 block = p # ps \<and> length ps = n - 1 \<and> sorted_wrt (<) (p # ps) \<and>
    (\<forall>q \<in> set (p # ps). q < length block \<and> padded_block block ! q = block ! q)"
proof -
  have "length (positions b 0 block) = n" "0 < n"
    using assms(1) unfolding exception_frame_def length_positions by metis+
  then obtain p ps where p: "positions b 0 block = p # ps" "length ps = n - 1"
    by (cases "positions b 0 block") auto
  moreover have "q < length block \<and> padded_block block ! q = block ! q" if "q \<in> set (p # ps)" for q
    using positions_bounds [of q b 0 block] that p(1) by (simp add: padded_block_def nth_append)
  ultimately show ?thesis
    using positions_sorted [of b 0 block] by auto
qed

lemma CompressBlock_exceptions:
  assumes e: "exception_frame block b n" and len: "length block \<le> 128"
    and p: "positions b 0 block = p # ps" "length ps = n - 1" "sorted_wrt (<) (p # ps)" "\<forall>q \<in> set (p # ps). q < length block"
  shows "CompressBlock dest block b n lastFlag = TransformToFrame dest b (p + 1) (cut b (p # ps) (padded_block block)) (length block)
    (map (\<lambda>q. drop_bit b (padded_block block ! q)) (p # ps)) (distances p ps) n lastFlag"
proof -
  let ?code = "padded_block block"
  let ?cut = "?code[p := take_bit b (?code ! p)]"
  have b: "b < 32" "0 < n" "n \<le> 12"
    using e len by (auto simp: exception_frame_def)
  obtain miss where miss: "find_exceptions 0 (push_bit b 1) block 0 (replicate 128 0) = (n, miss)" "take n miss = p # ps"
    using find_exceptions_positions [OF b(1), of 0 block "replicate 128 0" 0] len p b(2) by auto
  have m: "miss ! 0 = p" "take (n - 1) (drop 1 miss) = ps"
    using miss(2) b(2) by (cases miss; cases n; simp)+
  have plen: "p < length ?code" "\<forall>q \<in> set ps. q < length ?cut" "length ?cut = length ?code"
    using p(4) by (auto simp: padded_block_def)
  have dist: "p \<notin> set ps" "distinct ps"
    using p(3) by (auto simp: strict_sorted_iff)
  have same: "map (\<lambda>q. drop_bit b (?cut ! q)) ps = map (\<lambda>q. drop_bit b (?code ! q)) ps"
    using dist(1) by (metis (mono_tags, lifting) map_cong nth_list_update_neq)
  have c: "cut_exceptions b ps p ?cut = (cut b (p # ps) ?code, map (\<lambda>q. drop_bit b (?code ! q)) ps, distances p ps)"
    using cut_exceptions_cut [OF _ dist(2) plen(2), of b p] b(1) same cut_Cons [OF plen(1) dist(1)] by simp
  have "\<not> store_alone n \<and> \<not> store_inline n" "\<not> length block > BLOCK_SIZE"
    using not_special [of n] b(3) len by (simp_all add: BLOCK_SIZE_def)
  moreover have "?code ! p AND BASIC_MASK ! b = take_bit b (?code ! p)"
    using b(1) by (simp add: BASIC_MASK_mask take_bit_eq_mask)
  ultimately show ?thesis
    using b(2) miss(1) m c unfolding CompressBlock_def Let_def padded_block_def by (simp add: BLOCK_SIZE_def)
qed

lemma nth_cut: "i < length code \<Longrightarrow> cut b ps code ! i = (if i \<in> set ps then take_bit b (code ! i) else code ! i)"
  by (simp add: cut_def)

lemma cut_block_nth:
  assumes "positions b 0 block = p # ps" "i < length block"
  shows "cut b (p # ps) (padded_block block) ! i = take_bit b (block ! i)"
proof -
  have "i \<in> set (p # ps) \<longleftrightarrow> take_bit b (block ! i) \<noteq> block ! i"
    using positions_iff [OF assms(2), of b] unfolding assms(1) .
  moreover have "i < length (padded_block block)" "padded_block block ! i = block ! i"
    using assms(2) by (simp_all add: padded_block_def nth_append)
  ultimately show ?thesis
    by (simp only: nth_cut) auto
qed

lemma cut_block:
  assumes "positions b 0 block = p # ps" "length block \<le> 128"
  shows "fits b (cut b (p # ps) (padded_block block)) (length block)"
    and "take (length block) (cut b (p # ps) (padded_block block)) = map (take_bit b) block"
proof -
  let ?code = "cut b (p # ps) (padded_block block)"
  have "length block \<le> length ?code"
    using assms(2) by (simp add: cut_def padded_block_def)
  then show take: "take (length block) ?code = map (take_bit b) block"
    using cut_block_nth [OF assms(1)] by (simp add: list_eq_iff_nth_eq)
  show "fits b ?code (length block)"
    unfolding fits_def take using \<open>length block \<le> length ?code\<close> by simp
qed

text \<open>The frame is built from these parts.\<close>

lemma TransformToFrame_exceptions:
  assumes b: "b \<le> 32" and code: "fits b code n" and pos: "0 < pos" "pos \<le> 128" and e: "0 < e" "2 * e - 1 \<le> 23"
    and nums: "interleave (take e exceptions) (take (e - 1) offsets) = nums" "length nums \<le> 23" "\<forall>v \<in> set nums. take_bit 28 v = v"
    and dest: "n \<le> 128" "152 \<le> length dest"
  shows "\<exists>h exc. TransformToFrame dest b pos code n exceptions offsets e lastFlag =
      Some (StatusOK, h # packed_words b code n @ exc @ drop (1 + frame_words b n + length exc) dest, 1 + frame_words b n + length exc) \<and>
    MakeHeader b pos n e (of_nat (length exc)) lastFlag = Some h \<and> Decode exc = Some nums \<and> length exc \<le> 23"
proof -
  let ?k = "frame_words b n + 1"
  have k: "?k \<le> 129" "?k \<le> length dest"
    using frame_words_bound [OF b, of n] dest by simp_all
  obtain exc where exc: "Encode (drop ?k dest) nums 0 = Some (StatusOK, exc @ drop (length exc) (drop ?k dest), length exc)"
    "Decode exc = Some nums" "length exc \<le> length nums"
  proof -
    have "0 + length nums \<le> length (drop ?k dest)"
      using nums(2) k(1) dest(2) by simp
    then show thesis
      using Encode_Decode [OF nums(3), of 0 "drop ?k dest"] that by auto
  qed
  obtain h where h: "MakeHeader b pos n e (of_nat (length exc)) lastFlag = Some h"
    using MakeHeader_Some [OF pos(2), of b n e "of_nat (length exc)" lastFlag] by auto
  let ?dest = "take ?k dest @ exc @ drop (length exc) (drop ?k dest)"
  have len: "length ?dest = length dest" "?k + length exc \<le> length dest"
    using k exc(3) nums(2) dest(2) by simp_all
  have drop: "drop ?k ?dest = exc @ drop (?k + length exc) dest"
    using k by (simp add: add.commute)
  have zero: "FastMemZero ?dest ?k = Some (replicate ?k 0 @ drop ?k ?dest)"
    using FastMemZero_fill [of ?k ?dest] k(2) len(1) by simp
  have pack: "Pack (drop 1 (replicate ?k 0 @ drop ?k ?dest)) code n b = Some (packed_words b code n @ drop ?k ?dest)"
    using frames.store_after_header [OF b code, of ?dest] k(2) len(1) by simp
  have size: "HEADER_INT_SIZE + (n * b + 31) div 32 = ?k"
    by (simp add: HEADER_INT_SIZE_def frame_words_def mult.commute)
  have "TransformToFrame dest b pos code n exceptions offsets e lastFlag =
      Some (StatusOK, h # packed_words b code n @ drop ?k ?dest, ?k + length exc)"
    unfolding TransformToFrame_def Let_def size nums(1)
    using pos(1) e k(2) exc(1) len h zero pack by (auto simp: BLOCK_SIZE_def simp del: take_append drop_append replicate.simps)
  then show ?thesis
    using h exc(2,3) nums(2) unfolding drop by (intro exI [of _ h] exI [of _ exc]) simp
qed

text \<open>Patching the decoded exceptions into the unpacked values restores the block.\<close>

lemma S9Decode_restores:
  assumes "b < 32" "length block \<le> 128" "positions b 0 block = p # ps" "sorted_wrt (<) (p # ps)"
    and "\<forall>q \<in> set (p # ps). q < length block \<and> padded_block block ! q = block ! q"
    and "Decode exc = Some (numbers b (padded_block block) p ps)" "length block \<le> length out"
  shows "S9Decode (map (take_bit b) block @ drop (length block) out) (exc @ rest) (length exc) p b = Some (block @ drop (length block) out)"
proof -
  let ?dest = "map (take_bit b) block @ drop (length block) out"
  have "\<forall>q \<in> set (p # ps). q < length ?dest \<and> q < 128 \<and> ?dest ! q = take_bit b (padded_block block ! q)"
    using assms(2,5) by (auto simp: nth_append)
  then obtain d pos where d: "patch_numbers True b (numbers b (padded_block block) p ps) (?dest, p) = Some (d, pos)"
    "length d = length ?dest" "\<forall>i < length ?dest. d ! i = (if i \<in> set (p # ps) then padded_block block ! i else ?dest ! i)"
    using patch_numbers_restore [OF assms(1,4)] by blast
  have "d = block @ drop (length block) out"
  proof (rule nth_equalityI)
    show "length d = length (block @ drop (length block) out)"
      using d(2) by simp
    fix i assume "i < length d"
    then have i: "i < length ?dest"
      using d(2) by simp
    show "d ! i = (block @ drop (length block) out) ! i"
    proof (cases "i < length block")
      case True
      then have "i \<in> set (p # ps) \<longleftrightarrow> take_bit b (block ! i) \<noteq> block ! i"
        using positions_iff [OF True, of b] unfolding assms(3) by simp
      then show ?thesis
        using d(3) i True assms(5) by (auto simp: nth_append)
    next
      case False
      then have "i \<notin> set (p # ps)"
        using assms(5) by auto
      then show ?thesis
        using d(3) i False by (simp add: nth_append)
    qed
  qed
  then show ?thesis
    using S9Decode_numbers [OF assms(6)] d(1) by simp
qed

lemma exception_block:
  assumes "exception_frame block b n" "block \<noteq> []" "length block \<le> 128" "152 \<le> length dest"
  shows "\<exists>frame. CompressBlock dest block b n lastFlag = Some (StatusOK, frame @ drop (length frame) dest, length frame) \<and>
    block_frame block lastFlag frame"
proof -
  let ?code = "padded_block block" and ?k = "frame_words b (length block)"
  obtain p ps where p: "positions b 0 block = p # ps" "length ps = n - 1" "sorted_wrt (<) (p # ps)"
    "\<forall>q \<in> set (p # ps). q < length block \<and> ?code ! q = block ! q"
    using exception_positions [OF assms(1,3)] by blast
  have b: "b < 31" "0 < n" "n \<le> 12"
    using assms(1,3) by (auto simp: exception_frame_def)
  have narrow: "\<forall>v \<in> set (numbers b ?code p ps). take_bit 28 v = v"
  proof
    fix v assume v: "v \<in> set (numbers b ?code p ps)"
    show "take_bit 28 v = v"
    proof (rule numbers_narrow [OF _ _ v])
      show "\<forall>q \<in> set (p # ps). take_bit (b + 28) (?code ! q) = ?code ! q"
        using assms(1) p(4) by (auto simp: exception_frame_def)
      show "\<forall>q \<in> set ps. q < 128"
        using p(4) assms(3) by auto
    qed
  qed
  have nums: "interleave (take n (map (\<lambda>q. drop_bit b (?code ! q)) (p # ps))) (take (n - 1) (distances p ps)) = numbers b ?code p ps"
  proof -
    have "length (distances p ps) = length ps"
      by (induction ps arbitrary: p) simp_all
    then show ?thesis
      using interleave_numbers [of b ?code p ps] p(2) b(2) by simp
  qed
  have lens: "2 * n - 1 \<le> 23" "length (numbers b ?code p ps) \<le> 23" "0 < p + 1" "p + 1 \<le> 128" "b \<le> 32" "b \<noteq> 31" "b < 32"
    using b p(2,4) assms(3) by (auto simp: length_numbers)
  obtain h exc where f: "CompressBlock dest block b n lastFlag =
      Some (StatusOK, h # packed_words b (cut b (p # ps) ?code) (length block) @ exc @ drop (1 + ?k + length exc) dest, 1 + ?k + length exc)"
    "MakeHeader b (p + 1) (length block) n (of_nat (length exc)) lastFlag = Some h" "Decode exc = Some (numbers b ?code p ps)" "length exc \<le> 23"
    using TransformToFrame_exceptions [OF lens(5) cut_block(1) [OF p(1) assms(3)] lens(3,4) b(2) lens(1) nums lens(2) narrow assms(3,4), of lastFlag]
      CompressBlock_exceptions [OF assms(1,3) p(1-3)] p(4) by auto
  have "block_frame block lastFlag (h # packed_words b (cut b (p # ps) ?code) (length block) @ exc)"
    using S9Decode_restores [OF lens(7) assms(3) p(1,3,4) f(3)] cut_block(2) [OF p(1) assms(3)]
    by (intro words_frame [OF f(2) assms(2,3) lens(4-6) cut_block(1) [OF p(1) assms(3)] f(4)]) simp
  then show ?thesis
    using f(1) by (intro exI [of _ "h # packed_words b (cut b (p # ps) ?code) (length block) @ exc"]) simp
qed

section \<open>Special frames\<close>

text \<open>The value that a special frame holds, and the values that it stands for.\<close>

definition special_value :: "u32 list \<Rightarrow> nat \<Rightarrow> u32" where
  "special_value block pos =
     (if pos = DECREASE_VALUE_ALONE \<or> pos = DECREASE_VALUE_INLINE then block ! (length block - 1) else block ! 0)"

definition special_values :: "nat \<Rightarrow> u32 \<Rightarrow> nat \<Rightarrow> u32 list" where
  "special_values pos v n =
     (if pos = SAME_VALUE_INLINE \<or> pos = SAME_VALUE_ALONE then replicate n v
      else if pos = INCREASE_VALUE_INLINE \<or> pos = INCREASE_VALUE_ALONE then map (\<lambda>i. v + of_nat i) [0..<n]
      else map (\<lambda>j. v + of_nat (n - 1 - j)) [0..<n])"

lemma special_shape_cases:
  "special_shape block pos \<Longrightarrow>
    pos = SAME_VALUE_INLINE \<and> block ! 0 < 2047 \<or> pos = SAME_VALUE_ALONE \<or>
    pos = INCREASE_VALUE_INLINE \<and> block ! 0 < 2047 \<or> pos = INCREASE_VALUE_ALONE \<or>
    pos = DECREASE_VALUE_INLINE \<and> block ! (length block - 1) < 2047 \<or> pos = DECREASE_VALUE_ALONE"
  unfolding special_shape_def by blast

lemma special_shape_pos:
  "special_shape block pos \<Longrightarrow> 128 < pos \<and> pos < 256 \<and> (store_alone pos \<or> store_inline pos)"
  using special_shape_cases [of block pos] by (auto simp: store_alone_def store_inline_def special_defs)

lemma inline_not_alone: "store_inline pos \<Longrightarrow> \<not> store_alone pos"
  by (auto simp: store_alone_def store_inline_def special_defs)

lemma special_shape_inline: "special_shape block pos \<Longrightarrow> store_inline pos \<Longrightarrow> special_value block pos < 2047"
  using special_shape_cases [of block pos] by (auto simp: store_inline_def special_value_def special_defs)

lemma special_values_block:
  assumes "special_shape block pos" "block \<noteq> []"
  shows "special_values pos (special_value block pos) (length block) = block"
proof -
  consider (same) "pos = SAME_VALUE_INLINE \<or> pos = SAME_VALUE_ALONE" "\<forall>i < length block. block ! i = block ! 0"
    | (increase) "pos = INCREASE_VALUE_INLINE \<or> pos = INCREASE_VALUE_ALONE" "\<forall>i < length block. block ! i = block ! 0 + of_nat i"
    | (decrease) "pos = DECREASE_VALUE_INLINE \<or> pos = DECREASE_VALUE_ALONE" "\<forall>i < length block. block ! i = block ! 0 - of_nat i"
    using assms(1) unfolding special_shape_def by blast
  then show ?thesis
  proof cases
    case same
    have "special_values pos (special_value block pos) (length block) = replicate (length block) (block ! 0)"
      using same(1) by (auto simp: special_values_def special_value_def special_defs)
    also have "\<dots> = block"
    proof (rule nth_equalityI)
      show "replicate (length block) (block ! 0) ! i = block ! i" if "i < length (replicate (length block) (block ! 0))" for i
        using same(2) [rule_format, of i] that by (simp only: length_replicate nth_replicate)
    qed simp
    finally show ?thesis .
  next
    case increase
    have "special_values pos (special_value block pos) (length block) = map (\<lambda>i. block ! 0 + of_nat i) [0..<length block]"
      using increase(1) by (auto simp: special_values_def special_value_def special_defs)
    also have "\<dots> = map (nth block) [0..<length block]"
      using increase(2) [rule_format, symmetric] by (intro map_cong) (simp_all only: atLeastLessThan_iff set_upt)
    finally show ?thesis
      by (simp only: map_nth)
  next
    case decrease
    have "special_values pos (special_value block pos) (length block) =
        map (\<lambda>j. block ! (length block - 1) + of_nat (length block - 1 - j)) [0..<length block]"
      using decrease(1) by (auto simp: special_values_def special_value_def special_defs)
    also have "\<dots> = map (nth block) [0..<length block]"
    proof (rule map_cong [OF refl])
      fix j assume "j \<in> set [0..<length block]"
      then have j: "j < length block" "length block - 1 < length block"
        by auto
      have "of_nat (length block - 1 - j) = (of_nat (length block - 1) - of_nat j :: u32)"
        using j by (intro of_nat_diff) simp
      then show "block ! (length block - 1) + of_nat (length block - 1 - j) = block ! j"
        unfolding decrease(2) [rule_format, OF j(1)] decrease(2) [rule_format, OF j(2)] by simp
    qed
    finally show ?thesis
      by (simp only: map_nth)
  qed
qed

lemma TryDecompressSpecialBlock_values:
  assumes "n \<le> length out"
  shows "store_inline pos \<Longrightarrow> TryDecompressSpecialBlock out n pos v (h # rest) = Some (True, special_values pos v n @ drop n out, rest)"
    and "store_alone pos \<Longrightarrow> TryDecompressSpecialBlock out n pos r (h # v # rest) = Some (True, special_values pos v n @ drop n out, rest)"
  using assms
  by (auto simp: store_inline_def store_alone_def TryDecompressSpecialBlock_def special_values_def special_defs HEADER_INT_SIZE_def
      FastMemSet_fill store_all_up store_all_down [of n out "\<lambda>i. v + of_nat i", simplified])

definition special_frame :: "u32 \<Rightarrow> u32 list \<Rightarrow> nat \<Rightarrow> u32 list" where
  "special_frame h block pos = (if store_alone pos then [h, special_value block pos] else [h])"

lemma special_frame_block:
  assumes "special_shape block pos" "block \<noteq> []" "length block \<le> 128"
    and h: "MakeHeader 0 pos (length block) pos (if store_alone pos then 0 else special_value block pos) lastFlag = Some h"
  shows "block_frame block lastFlag (special_frame h block pos)"
proof -
  let ?v = "special_value block pos" and ?n = "length block"
  have pos: "pos < 256" "store_alone pos \<or> store_inline pos"
    using special_shape_pos [OF assms(1)] by auto
  have n: "0 < ?n" "0 \<le> (32 :: nat)" "0 \<noteq> (31 :: nat)"
    using assms(2) by simp_all
  note f = MakeHeader_fields [OF h n(1) assms(3) pos(1) n(2,3)]
  have inline_range: "h_exceptionIntRange (of_uint32 h) = ?v" if "store_inline pos"
  proof -
    have "take_bit 11 ?v = ?v"
      using special_shape_inline [OF assms(1) that] less_power_iff [of 11 ?v] by (simp add: word_less_nat_alt)
    then show ?thesis
      using f(4) inline_not_alone [OF that] by simp
  qed
  have "DecompressBlock out (special_frame h block pos @ rest) = Some (block @ drop ?n out, ?n, rest, lastFlag)"
    if out: "?n \<le> length out" for out rest
  proof (cases "store_alone pos")
    case True
    have "DecompressBlock out (h # ?v # rest) = Some (block @ drop ?n out, ?n, rest, lastFlag)"
      unfolding DecompressBlock_def list.case Let_def f(1-3) f(5)
      using TryDecompressSpecialBlock_values(2) [OF out True] special_values_block [OF assms(1,2)] by simp
    then show ?thesis
      using True by (simp add: special_frame_def)
  next
    case False
    then have inline: "store_inline pos"
      using pos(2) by simp
    have "DecompressBlock out (h # rest) = Some (block @ drop ?n out, ?n, rest, lastFlag)"
      unfolding DecompressBlock_def list.case Let_def f(1-3) f(5) inline_range [OF inline]
      using TryDecompressSpecialBlock_values(1) [OF out inline] special_values_block [OF assms(1,2)] by simp
    then show ?thesis
      using False by (simp add: special_frame_def)
  qed
  moreover have "GetCompressedLength h = length (special_frame h block pos)"
    using pos(2) inline_not_alone [of pos] by (auto simp: special_frame_def GetCompressedLength_def Let_def f HEADER_INT_SIZE_def)
  ultimately show ?thesis
    by (simp add: special_frame_def block_frame_def IsLastBlock_def f)
qed

lemma special_block:
  assumes "special_shape block pos" "block \<noteq> []" "length block \<le> 128" "152 \<le> length dest"
  shows "\<exists>frame. CompressBlock dest block b pos lastFlag = Some (StatusOK, frame @ drop (length frame) dest, length frame) \<and>
    block_frame block lastFlag frame"
proof -
  have pos: "128 < pos" "store_alone pos \<or> store_inline pos"
    using special_shape_pos [OF assms(1)] by auto
  obtain h where h: "MakeHeader 0 pos (length block) pos (if store_alone pos then 0 else special_value block pos) lastFlag = Some h"
    using pos(2) by (auto simp: MakeHeader_def)
  have zero: "FastMemZero dest k = Some (replicate k 0 @ drop k dest)" if "k \<le> 2" for k
    using FastMemZero_fill [of k dest] that assms(4) by simp
  have "CompressBlock dest block b pos lastFlag =
      Some (StatusOK, special_frame h block pos @ drop (length (special_frame h block pos)) dest, length (special_frame h block pos))"
    using pos h zero [of 1] zero [of 2] assms(2) inline_not_alone [of pos]
    by (auto simp: special_frame_def CompressBlock_def TransformToSpecialFrame_def HEADER_INT_SIZE_def special_value_def numeral_2_eq_2)
  then show ?thesis
    using special_frame_block [OF assms(1-3) h] by blast
qed

section \<open>Whole lists\<close>

lemma CompressBlock_frame:
  assumes "block \<noteq> []" "length block \<le> 128" "152 \<le> length dest" "SelectCompressBits block opt = (b, n)"
  shows "\<exists>frame. CompressBlock dest block b n lastFlag = Some (StatusOK, frame @ drop (length frame) dest, length frame) \<and>
    block_frame block lastFlag frame"
  using SelectCompressBits_frame [OF assms(1,4)] plain_block [OF _ assms(1-3)] exception_block [OF _ assms(1-3)]
    special_block [OF _ assms(1-3)] by blast

text \<open>Room for every block: a header, 128 packed words, and 23 words of exceptions.\<close>

definition compress_bound :: "nat \<Rightarrow> nat" where
  "compress_bound n = 152 * ((n + 127) div 128)"

lemma compress_bound_step: "0 < n \<Longrightarrow> compress_bound n = 152 + compress_bound (n - 128)"
proof -
  assume n: "0 < n"
  have "(n + 127) div 128 = 1 + (n - 128 + 127) div 128"
  proof (cases "n \<le> 128")
    case True
    then have "(n + 127) div 128 = 1"
      using n by (intro div_nat_eqI) auto
    then show ?thesis
      using True by simp
  next
    case False
    then have "n + 127 = (n - 128 + 127) + 128"
      by simp
    then show ?thesis
      by (metis add.commute div_add_self2 zero_neq_numeral)
  qed
  then show ?thesis
    by (simp add: compress_bound_def)
qed

text \<open>Consecutive frames, the last one with the flag of the last block.\<close>

inductive compressed :: "u32 list \<Rightarrow> u32 list \<Rightarrow> bool" where
  last_frame: "block \<noteq> [] \<Longrightarrow> length block \<le> 128 \<Longrightarrow> block_frame block True frame \<Longrightarrow> compressed block frame"
| next_frame: "length block = 128 \<Longrightarrow> block_frame block False frame \<Longrightarrow> compressed src words \<Longrightarrow> compressed (block @ src) (frame @ words)"

lemma Compress_frames:
  assumes "src \<noteq> []" "compress_bound (length src) \<le> length dest"
  shows "\<exists>words. Compress dest src opt = Some (StatusOK, words @ drop (length words) dest, length words) \<and>
    compressed src words \<and> length words \<le> compress_bound (length src)"
  using assms
proof (induction "length src" arbitrary: src dest rule: less_induct)
  case less
  let ?block = "take 128 src" and ?last = "length src \<le> 128"
  have block: "?block \<noteq> []" "length ?block \<le> 128"
    using less.prems(1) by simp_all
  have bound: "compress_bound (length src) = 152 + compress_bound (length src - 128)"
    using less.prems(1) by (intro compress_bound_step) simp
  obtain b n where sel: "SelectCompressBits ?block opt = (b, n)"
    by (cases "SelectCompressBits ?block opt") auto
  obtain frame where frame: "CompressBlock dest ?block b n ?last = Some (StatusOK, frame @ drop (length frame) dest, length frame)"
    "block_frame ?block ?last frame"
    using CompressBlock_frame [OF block _ sel, of dest ?last] less.prems(2) bound by auto
  have len: "length frame \<le> 152"
    using frame(2) by (simp add: block_frame_def)
  have step: "Compress dest src opt = map_option (\<lambda>(status, rest, size). (status, frame @ rest, if status = StatusOK then length frame + size else 0))
      (Compress (drop (length frame) dest) (drop 128 src) opt)"
    using less.prems(1) sel frame(1) by (auto simp: Compress.simps [of dest src opt] BLOCK_SIZE_def map_option_case split: option.split)
  show ?case
  proof (cases ?last)
    case True
    then have "compressed src frame"
      using frame(2) less.prems(1) by (intro last_frame) simp_all
    then show ?thesis
      using step True len bound by (intro exI [of _ frame]) (simp add: Compress.simps [of _ "[]"])
  next
    case False
    then have drop: "drop 128 src \<noteq> []" "length (drop 128 src) < length src"
      by auto
    moreover have "compress_bound (length (drop 128 src)) \<le> length (drop (length frame) dest)"
      using less.prems(2) bound len by simp
    ultimately obtain words where w: "Compress (drop (length frame) dest) (drop 128 src) opt =
        Some (StatusOK, words @ drop (length words) (drop (length frame) dest), length words)" "compressed (drop 128 src) words"
      "length words \<le> compress_bound (length (drop 128 src))"
      using less.hyps [of "drop 128 src" "drop (length frame) dest"] by auto
    have "compressed (?block @ drop 128 src) (frame @ words)"
      using frame(2) False w(2) by (intro next_frame) simp_all
    then show ?thesis
      using step w(1,3) len bound by (intro exI [of _ "frame @ words"]) (simp add: add.commute)
  qed
qed

lemma Decompress_frames:
  "compressed src words \<Longrightarrow> length src \<le> length out \<Longrightarrow>
    Decompress out (words @ rest) = Some (src @ drop (length src) out, length src)"
proof (induction src words arbitrary: out rest rule: compressed.induct)
  case (last_frame block frame)
  then show ?case
    by (simp add: block_frame_def Decompress.simps [of out])
next
  case (next_frame block frame src words)
  then have "DecompressBlock out (frame @ words @ rest) = Some (block @ drop (length block) out, length block, words @ rest, False)"
    by (simp add: block_frame_def)
  then show ?case
    using next_frame.IH [of "drop (length block) out" rest] next_frame.prems
    by (simp add: Decompress.simps [of out] add.commute)
qed

end
