(* ===== verification/CompressProps.thy ===== *)
theory CompressProps
  imports PForDeltaRound
begin

text \<open>
  The properties of the integer compression: the block compressor and its decompressor are inverse, headers give the
  length of a block, the unrolled packing and unpacking routines are bit streams, and the Simple-9 coder is exact.
\<close>

section \<open>The block compressor\<close>

text \<open>
  C2. Compressing any nonempty list of 32-bit values into a destination with room for 152 words per block of 128 values
  succeeds, with or without the special frames, leaves the words after the compressed ones as they were, and
  decompressing the compressed words gives the list back.
\<close>

theorem decompress_compress:
  assumes "src \<noteq> []" "compress_bound (length src) \<le> length dest" "length src \<le> length out"
  shows "\<exists>words. Compress dest src enableBlockOpt = Some (StatusOK, words @ drop (length words) dest, length words) \<and>
    length words \<le> compress_bound (length src) \<and>
    Decompress out words = Some (src @ drop (length src) out, length src)"
proof -
  obtain words where w: "Compress dest src enableBlockOpt = Some (StatusOK, words @ drop (length words) dest, length words)"
    "compressed src words" "length words \<le> compress_bound (length src)"
    using Compress_frames [OF assms(1,2)] by blast
  then show ?thesis
    using Decompress_frames [OF w(2) assms(3), of "[]"] by auto
qed

lemma decompress_compress_witness:
  "\<exists>words. Compress (replicate 152 0) [3, 70000, 5] True = Some (StatusOK, words @ drop (length words) (replicate 152 0), length words) \<and>
    length words \<le> compress_bound 3 \<and> Decompress [0, 0, 0, 9] words = Some ([3, 70000, 5, 9], 3)"
  using decompress_compress [of "[3, 70000, 5]" "replicate 152 0" "[0, 0, 0, 9]" True] by (simp add: compress_bound_def numeral_3_eq_3)

text \<open>
  C38. A block of at most 128 values, compressed at the width that was selected for it, starts with a header from which
  the length of the block in words and the flag of the last block are read back, so that blocks can be skipped
  without decompressing them.
\<close>

theorem header_gives_block_length:
  assumes "block \<noteq> []" "length block \<le> BLOCK_SIZE" "152 \<le> length dest"
  shows "\<exists>d size. CompressBlock dest block (fst (SelectCompressBits block enableBlockOpt))
      (snd (SelectCompressBits block enableBlockOpt)) lastFlag = Some (StatusOK, d, size) \<and>
    0 < size \<and> size \<le> 152 \<and> GetCompressedLength (d ! 0) = size \<and> IsLastBlock (d ! 0) = lastFlag \<and> drop size d = drop size dest"
proof -
  have len: "length block \<le> 128"
    using assms(2) by (simp add: BLOCK_SIZE_def)
  obtain frame where f: "CompressBlock dest block (fst (SelectCompressBits block enableBlockOpt))
      (snd (SelectCompressBits block enableBlockOpt)) lastFlag = Some (StatusOK, frame @ drop (length frame) dest, length frame)"
    "block_frame block lastFlag frame"
    using CompressBlock_frame [OF assms(1) len assms(3), of enableBlockOpt] by (metis prod.collapse)
  then show ?thesis
    by (cases frame) (auto simp: block_frame_def)
qed

lemma header_gives_block_length_witness:
  "\<exists>d size. CompressBlock (replicate 152 0) [3, 70000, 5] (fst (SelectCompressBits [3, 70000, 5] False))
      (snd (SelectCompressBits [3, 70000, 5] False)) True = Some (StatusOK, d, size) \<and>
    0 < size \<and> size \<le> 152 \<and> GetCompressedLength (d ! 0) = size \<and> IsLastBlock (d ! 0) = True \<and> drop size d = drop size (replicate 152 0)"
  using header_gives_block_length [of "[3, 70000, 5]" "replicate 152 0" False True] by (simp add: BLOCK_SIZE_def)

text \<open>
  C39. What is selected for a block is well formed: the width is one that the five bits of a header can hold, and the
  number of exceptions is either the number of values that do not fit the width, at most a tenth of the block,
  whose high bits the Simple-9 coder can encode, or the mark of a special frame.
\<close>

theorem selected_width_fits_header:
  assumes "block \<noteq> []" "SelectCompressBits block enableBlockOpt = (width, n)"
  shows "width \<le> 32 \<and> width \<noteq> 31 \<and>
    (store_inline n \<or> store_alone n \<or>
     n = length (filter (\<lambda>v. \<not> unat v < 2 ^ width) block) \<and> n \<le> length block div 10 \<and>
     (n = 0 \<or> (\<forall>v \<in> set block. unat v < 2 ^ (width + 28))))"
proof -
  have "n = 0 \<and> plain_frame block width \<or> exception_frame block width n \<or> width = 0 \<and> special_shape block n"
    by (rule SelectCompressBits_frame [OF assms])
  then show ?thesis
    using special_shape_pos [of block n] by (auto simp: plain_frame_def exception_frame_def take_bit_self_iff)
qed

lemma selected_width_fits_header_witness:
  "\<exists>width n. SelectCompressBits [3, 70000, 5] True = (width, n) \<and> width \<le> 32 \<and> width \<noteq> 31"
  using selected_width_fits_header [of "[3, 70000, 5]" True] by (cases "SelectCompressBits [3, 70000, 5] True") auto

section \<open>Packing and unpacking\<close>

text \<open>
  C8. For every width up to 32 the packing routine of that width, unrolled blocks and generic loop together, writes a
  bit stream: the bit \<open>t\<close> of the value \<open>i\<close> becomes the bit \<open>b * i + t\<close> of the words, the rest of the last word stays zero,
  and the words after it are unchanged.  The words written to have to be zero before, and the values to fit the width.
\<close>

theorem pack_writes_bit_stream:
  assumes "b \<le> 32" "n \<le> length src" "\<forall>v \<in> set (take n src). unat v < 2 ^ b"
    and "frame_words b n \<le> length dest" "\<forall>w \<in> set (take (frame_words b n) dest). w = 0"
  shows "\<exists>d. Pack dest src n b = Some d \<and> length d = length dest \<and> drop (frame_words b n) d = drop (frame_words b n) dest \<and>
    (\<forall>p < 32 * frame_words b n. stream_bit (nth d) p \<longleftrightarrow> p < b * n \<and> bit (src ! (p div b)) (p mod b))"
proof -
  let ?k = "frame_words b n" and ?d = "packed b src n dest"
  have "fits b src n" "cleared b n dest"
    using assms by (simp_all add: fits_def cleared_def take_bit_self_iff)
  then have "Pack dest src n b = Some ?d"
    by (rule Pack_packed [OF assms(1)])
  moreover have "stream_bit (nth ?d) p \<longleftrightarrow> p < b * n \<and> bit (src ! (p div b)) (p mod b)" if p: "p < 32 * ?k" for p
  proof -
    have b: "0 < b"
      using p by (cases b) (simp_all add: frame_words_def)
    have "p div 32 < ?k"
      using p by linarith
    then have "?d ! (p div 32) = pack_word b (padded src n) (p div 32)"
      by (simp add: packed_def nth_append)
    moreover have "p div b < n \<longleftrightarrow> p < b * n"
      using b by (simp add: div_less_iff_less_mult mult.commute)
    ultimately show ?thesis
      using packed_bits [OF b assms(1) p assms(2)] assms(2) by (auto simp: stream_bit_def packed_bit_def)
  qed
  ultimately show ?thesis
    using assms(4) by (auto simp: packed_def)
qed

lemma pack_writes_bit_stream_witness:
  "\<exists>d. Pack [0, 9] [5, 6] 2 3 = Some d \<and> length d = 2 \<and> drop 1 d = [9] \<and> stream_bit (nth d) 3 = bit (6 :: u32) 0"
proof -
  obtain d where d: "Pack [0, 9] [5, 6] 2 3 = Some d \<and> length d = length [0 :: u32, 9] \<and> drop (frame_words 3 2) d = drop (frame_words 3 2) [0, 9]"
    "\<forall>p < 32 * frame_words 3 2. stream_bit (nth d) p \<longleftrightarrow> p < 3 * 2 \<and> bit ([5, 6 :: u32] ! (p div 3)) (p mod 3)"
    using pack_writes_bit_stream [of 3 2 "[5, 6]" "[0, 9]"] by (auto simp: frame_words_def)
  then show ?thesis
    by (intro exI [of _ d]) (simp add: frame_words_def)
qed

text \<open>
  C9. For every width up to 32 the unpacking routine of that width, unrolled blocks and the routine for the rest
  together, reads the bit stream: the bit \<open>t\<close> of the value \<open>i\<close> is the bit \<open>b * i + t\<close> of the words, and the words of the
  destination after the values are unchanged.  Only words that hold bits of the values have to be there.
\<close>

theorem unpack_reads_bit_stream:
  assumes "b \<le> 32" "n \<le> length dest" "b * n \<le> 32 * length src"
  shows "\<exists>d. Unpack dest src n b = Some d \<and> length d = length dest \<and> drop n d = drop n dest \<and>
    (\<forall>i < n. \<forall>t. bit (d ! i) t \<longleftrightarrow> t < b \<and> stream_bit (nth src) (b * i + t))"
  using Unpack_unpacked [OF assms] assms(2) by (auto simp: unpacked_def nth_append bit_unpack_word [OF assms(1)])

lemma unpack_reads_bit_stream_witness:
  "\<exists>d. Unpack [0, 0, 9] [53] 2 3 = Some d \<and> length d = 3 \<and> drop 2 d = [9] \<and> bit (d ! 1) 2 = stream_bit (nth [53]) 5"
proof -
  obtain d where d: "Unpack [0, 0, 9] [53] 2 3 = Some d \<and> length d = length [0 :: u32, 0, 9] \<and> drop 2 d = drop 2 [0, 0, 9]"
    "\<forall>i < 2. \<forall>t. bit (d ! i) t \<longleftrightarrow> t < 3 \<and> stream_bit (nth [53]) (3 * i + t)"
    using unpack_reads_bit_stream [of 3 2 "[0, 0, 9]" "[53]"] by auto
  then show ?thesis
    by (intro exI [of _ d]) simp
qed

section \<open>The Simple-9 coder\<close>

text \<open>
  C14. The Simple-9 coder is exact: if all values have at most 28 bits, then encoding succeeds with at most as many words
  as there are values and decoding gives the values back; otherwise encoding reports \<^verbatim>\<open>OutOfRange\<close>.
\<close>

theorem s9_encode_exact:
  assumes "length src \<le> length dest"
  shows "if \<forall>v \<in> set src. unat v < 2 ^ 28
    then \<exists>words. Encode dest src 0 = Some (StatusOK, words @ drop (length words) dest, length words) \<and>
      length words \<le> length src \<and> Decode words = Some src
    else \<exists>d. Encode dest src 0 = Some (OutOfRange, d, 0)"
proof (cases "\<forall>v \<in> set src. unat v < 2 ^ 28")
  case True
  then show ?thesis
    using Encode_Decode [of src 0 dest] assms by (auto simp: take_bit_self_iff)
next
  case False
  then show ?thesis
    using Encode_OutOfRange [of src 0 dest] assms by (auto simp: take_bit_self_iff)
qed

lemma s9_encode_exact_witness:
  "\<exists>words. Encode [0, 0, 0] [1, 300, 7] 0 = Some (StatusOK, words @ drop (length words) [0, 0, 0], length words) \<and>
    length words \<le> 3 \<and> Decode words = Some [1, 300, 7]"
  using s9_encode_exact [of "[1, 300, 7]" "[0, 0, 0]"] by (simp add: numeral_3_eq_3)

text \<open>
  C40. \<^verbatim>\<open>CalculateBytes\<close>, which sees only the widths of the values, predicts the size of the encoding: four bytes for
  each word that \<^verbatim>\<open>Encode\<close> writes.
\<close>

theorem calculate_bytes_is_encoded_size:
  assumes "length src \<le> length dest" "\<forall>v \<in> set src. unat v < 2 ^ 28"
  shows "\<exists>d resNum. Encode dest src 0 = Some (StatusOK, d, resNum) \<and> CalculateBytes (map HighBitIdx src) = Some (4 * resNum)"
proof -
  obtain d resNum where e: "Encode dest src 0 = Some (StatusOK, d, resNum)"
    using Encode_Decode [of src 0 dest] assms by (auto simp: take_bit_self_iff)
  then have "count_words (map HighBitIdx src) 0 = Some resNum"
    by (intro count_words_Encode [OF _ e]) (simp add: HighBitIdx_le)
  then show ?thesis
    using e by (simp add: CalculateBytes_def)
qed

lemma calculate_bytes_is_encoded_size_witness:
  "\<exists>d resNum. Encode [0, 0, 0] [1, 300, 7] 0 = Some (StatusOK, d, resNum) \<and>
    CalculateBytes (map HighBitIdx [1, 300, 7]) = Some (4 * resNum)"
  using calculate_bytes_is_encoded_size [of "[1, 300, 7]" "[0, 0, 0]"] by simp

text \<open>
  C15. \<^verbatim>\<open>S9Decode\<close>, which decodes the exceptions of a frame and patches them into the values in one pass with its own
  case for every layout and every phase, refines the plain decoder: it does what patching in the list of decoded
  numbers, alternately high bits and distances, would do.
\<close>

theorem s9_patching_refines_decoding:
  assumes "Decode words = Some nums"
  shows "S9Decode dest (words @ rest) (length words) pos width = map_option fst (patch_numbers True width nums (dest, pos))"
  by (rule S9Decode_numbers [OF assms])

lemma s9_patching_refines_decoding_witness:
  "S9Decode [1, 2, 3] [0x80000005] 1 1 4 = map_option fst (patch_numbers True 4 [5] ([1, 2, 3], 1))"
  using s9_patching_refines_decoding [of "[0x80000005]" "[5]" "[1, 2, 3]" "[]" 1 4] by (simp add: decode_word_def)

end
