(* ===== verification/GroupVarintTables.thy ===== *)
theory GroupVarintTables
  imports Prelude
begin

text \<open>
  The tables of \<^verbatim>\<open>indexlib/index/common/numeric_compress/GroupVarint\<close>, row by row: the widths in bits of the four fields of each
  packed \<^verbatim>\<open>struct GROUP_VARINT_TYPE_n\<close>, and the offsets of \<^verbatim>\<open>GROUP_VARINT_IDX_ARR\<close>.  Both are proved to be what the two bits
  for each field in the number of the row say.
\<close>

section \<open>The widths of the fields\<close>

definition GROUP_VARINT_TYPES_0 :: "nat list list" where
  "GROUP_VARINT_TYPES_0 =
    [[8, 8, 8, 8], [8, 8, 8, 16], [8, 8, 8, 24], [8, 8, 8, 32],
     [8, 8, 16, 8], [8, 8, 16, 16], [8, 8, 16, 24], [8, 8, 16, 32],
     [8, 8, 24, 8], [8, 8, 24, 16], [8, 8, 24, 24], [8, 8, 24, 32],
     [8, 8, 32, 8], [8, 8, 32, 16], [8, 8, 32, 24], [8, 8, 32, 32]]"

definition GROUP_VARINT_TYPES_16 :: "nat list list" where
  "GROUP_VARINT_TYPES_16 =
    [[8, 16, 8, 8], [8, 16, 8, 16], [8, 16, 8, 24], [8, 16, 8, 32],
     [8, 16, 16, 8], [8, 16, 16, 16], [8, 16, 16, 24], [8, 16, 16, 32],
     [8, 16, 24, 8], [8, 16, 24, 16], [8, 16, 24, 24], [8, 16, 24, 32],
     [8, 16, 32, 8], [8, 16, 32, 16], [8, 16, 32, 24], [8, 16, 32, 32]]"

definition GROUP_VARINT_TYPES_32 :: "nat list list" where
  "GROUP_VARINT_TYPES_32 =
    [[8, 24, 8, 8], [8, 24, 8, 16], [8, 24, 8, 24], [8, 24, 8, 32],
     [8, 24, 16, 8], [8, 24, 16, 16], [8, 24, 16, 24], [8, 24, 16, 32],
     [8, 24, 24, 8], [8, 24, 24, 16], [8, 24, 24, 24], [8, 24, 24, 32],
     [8, 24, 32, 8], [8, 24, 32, 16], [8, 24, 32, 24], [8, 24, 32, 32]]"

definition GROUP_VARINT_TYPES_48 :: "nat list list" where
  "GROUP_VARINT_TYPES_48 =
    [[8, 32, 8, 8], [8, 32, 8, 16], [8, 32, 8, 24], [8, 32, 8, 32],
     [8, 32, 16, 8], [8, 32, 16, 16], [8, 32, 16, 24], [8, 32, 16, 32],
     [8, 32, 24, 8], [8, 32, 24, 16], [8, 32, 24, 24], [8, 32, 24, 32],
     [8, 32, 32, 8], [8, 32, 32, 16], [8, 32, 32, 24], [8, 32, 32, 32]]"

definition GROUP_VARINT_TYPES_64 :: "nat list list" where
  "GROUP_VARINT_TYPES_64 =
    [[16, 8, 8, 8], [16, 8, 8, 16], [16, 8, 8, 24], [16, 8, 8, 32],
     [16, 8, 16, 8], [16, 8, 16, 16], [16, 8, 16, 24], [16, 8, 16, 32],
     [16, 8, 24, 8], [16, 8, 24, 16], [16, 8, 24, 24], [16, 8, 24, 32],
     [16, 8, 32, 8], [16, 8, 32, 16], [16, 8, 32, 24], [16, 8, 32, 32]]"

definition GROUP_VARINT_TYPES_80 :: "nat list list" where
  "GROUP_VARINT_TYPES_80 =
    [[16, 16, 8, 8], [16, 16, 8, 16], [16, 16, 8, 24], [16, 16, 8, 32],
     [16, 16, 16, 8], [16, 16, 16, 16], [16, 16, 16, 24], [16, 16, 16, 32],
     [16, 16, 24, 8], [16, 16, 24, 16], [16, 16, 24, 24], [16, 16, 24, 32],
     [16, 16, 32, 8], [16, 16, 32, 16], [16, 16, 32, 24], [16, 16, 32, 32]]"

definition GROUP_VARINT_TYPES_96 :: "nat list list" where
  "GROUP_VARINT_TYPES_96 =
    [[16, 24, 8, 8], [16, 24, 8, 16], [16, 24, 8, 24], [16, 24, 8, 32],
     [16, 24, 16, 8], [16, 24, 16, 16], [16, 24, 16, 24], [16, 24, 16, 32],
     [16, 24, 24, 8], [16, 24, 24, 16], [16, 24, 24, 24], [16, 24, 24, 32],
     [16, 24, 32, 8], [16, 24, 32, 16], [16, 24, 32, 24], [16, 24, 32, 32]]"

definition GROUP_VARINT_TYPES_112 :: "nat list list" where
  "GROUP_VARINT_TYPES_112 =
    [[16, 32, 8, 8], [16, 32, 8, 16], [16, 32, 8, 24], [16, 32, 8, 32],
     [16, 32, 16, 8], [16, 32, 16, 16], [16, 32, 16, 24], [16, 32, 16, 32],
     [16, 32, 24, 8], [16, 32, 24, 16], [16, 32, 24, 24], [16, 32, 24, 32],
     [16, 32, 32, 8], [16, 32, 32, 16], [16, 32, 32, 24], [16, 32, 32, 32]]"

definition GROUP_VARINT_TYPES_128 :: "nat list list" where
  "GROUP_VARINT_TYPES_128 =
    [[24, 8, 8, 8], [24, 8, 8, 16], [24, 8, 8, 24], [24, 8, 8, 32],
     [24, 8, 16, 8], [24, 8, 16, 16], [24, 8, 16, 24], [24, 8, 16, 32],
     [24, 8, 24, 8], [24, 8, 24, 16], [24, 8, 24, 24], [24, 8, 24, 32],
     [24, 8, 32, 8], [24, 8, 32, 16], [24, 8, 32, 24], [24, 8, 32, 32]]"

definition GROUP_VARINT_TYPES_144 :: "nat list list" where
  "GROUP_VARINT_TYPES_144 =
    [[24, 16, 8, 8], [24, 16, 8, 16], [24, 16, 8, 24], [24, 16, 8, 32],
     [24, 16, 16, 8], [24, 16, 16, 16], [24, 16, 16, 24], [24, 16, 16, 32],
     [24, 16, 24, 8], [24, 16, 24, 16], [24, 16, 24, 24], [24, 16, 24, 32],
     [24, 16, 32, 8], [24, 16, 32, 16], [24, 16, 32, 24], [24, 16, 32, 32]]"

definition GROUP_VARINT_TYPES_160 :: "nat list list" where
  "GROUP_VARINT_TYPES_160 =
    [[24, 24, 8, 8], [24, 24, 8, 16], [24, 24, 8, 24], [24, 24, 8, 32],
     [24, 24, 16, 8], [24, 24, 16, 16], [24, 24, 16, 24], [24, 24, 16, 32],
     [24, 24, 24, 8], [24, 24, 24, 16], [24, 24, 24, 24], [24, 24, 24, 32],
     [24, 24, 32, 8], [24, 24, 32, 16], [24, 24, 32, 24], [24, 24, 32, 32]]"

definition GROUP_VARINT_TYPES_176 :: "nat list list" where
  "GROUP_VARINT_TYPES_176 =
    [[24, 32, 8, 8], [24, 32, 8, 16], [24, 32, 8, 24], [24, 32, 8, 32],
     [24, 32, 16, 8], [24, 32, 16, 16], [24, 32, 16, 24], [24, 32, 16, 32],
     [24, 32, 24, 8], [24, 32, 24, 16], [24, 32, 24, 24], [24, 32, 24, 32],
     [24, 32, 32, 8], [24, 32, 32, 16], [24, 32, 32, 24], [24, 32, 32, 32]]"

definition GROUP_VARINT_TYPES_192 :: "nat list list" where
  "GROUP_VARINT_TYPES_192 =
    [[32, 8, 8, 8], [32, 8, 8, 16], [32, 8, 8, 24], [32, 8, 8, 32],
     [32, 8, 16, 8], [32, 8, 16, 16], [32, 8, 16, 24], [32, 8, 16, 32],
     [32, 8, 24, 8], [32, 8, 24, 16], [32, 8, 24, 24], [32, 8, 24, 32],
     [32, 8, 32, 8], [32, 8, 32, 16], [32, 8, 32, 24], [32, 8, 32, 32]]"

definition GROUP_VARINT_TYPES_208 :: "nat list list" where
  "GROUP_VARINT_TYPES_208 =
    [[32, 16, 8, 8], [32, 16, 8, 16], [32, 16, 8, 24], [32, 16, 8, 32],
     [32, 16, 16, 8], [32, 16, 16, 16], [32, 16, 16, 24], [32, 16, 16, 32],
     [32, 16, 24, 8], [32, 16, 24, 16], [32, 16, 24, 24], [32, 16, 24, 32],
     [32, 16, 32, 8], [32, 16, 32, 16], [32, 16, 32, 24], [32, 16, 32, 32]]"

definition GROUP_VARINT_TYPES_224 :: "nat list list" where
  "GROUP_VARINT_TYPES_224 =
    [[32, 24, 8, 8], [32, 24, 8, 16], [32, 24, 8, 24], [32, 24, 8, 32],
     [32, 24, 16, 8], [32, 24, 16, 16], [32, 24, 16, 24], [32, 24, 16, 32],
     [32, 24, 24, 8], [32, 24, 24, 16], [32, 24, 24, 24], [32, 24, 24, 32],
     [32, 24, 32, 8], [32, 24, 32, 16], [32, 24, 32, 24], [32, 24, 32, 32]]"

definition GROUP_VARINT_TYPES_240 :: "nat list list" where
  "GROUP_VARINT_TYPES_240 =
    [[32, 32, 8, 8], [32, 32, 8, 16], [32, 32, 8, 24], [32, 32, 8, 32],
     [32, 32, 16, 8], [32, 32, 16, 16], [32, 32, 16, 24], [32, 32, 16, 32],
     [32, 32, 24, 8], [32, 32, 24, 16], [32, 32, 24, 24], [32, 32, 24, 32],
     [32, 32, 32, 8], [32, 32, 32, 16], [32, 32, 32, 24], [32, 32, 32, 32]]"

definition GROUP_VARINT_TYPES :: "nat list list" where
  "GROUP_VARINT_TYPES = GROUP_VARINT_TYPES_0 @
     GROUP_VARINT_TYPES_16 @
     GROUP_VARINT_TYPES_32 @
     GROUP_VARINT_TYPES_48 @
     GROUP_VARINT_TYPES_64 @
     GROUP_VARINT_TYPES_80 @
     GROUP_VARINT_TYPES_96 @
     GROUP_VARINT_TYPES_112 @
     GROUP_VARINT_TYPES_128 @
     GROUP_VARINT_TYPES_144 @
     GROUP_VARINT_TYPES_160 @
     GROUP_VARINT_TYPES_176 @
     GROUP_VARINT_TYPES_192 @
     GROUP_VARINT_TYPES_208 @
     GROUP_VARINT_TYPES_224 @
     GROUP_VARINT_TYPES_240"

section \<open>The offsets\<close>

definition GROUP_VARINT_IDX_ARR_0 :: "nat list list" where
  "GROUP_VARINT_IDX_ARR_0 =
    [[1, 2, 3, 4, 5], [1, 2, 3, 4, 6], [1, 2, 3, 4, 7], [1, 2, 3, 4, 8],
     [1, 2, 3, 5, 6], [1, 2, 3, 5, 7], [1, 2, 3, 5, 8], [1, 2, 3, 5, 9],
     [1, 2, 3, 6, 7], [1, 2, 3, 6, 8], [1, 2, 3, 6, 9], [1, 2, 3, 6, 10],
     [1, 2, 3, 7, 8], [1, 2, 3, 7, 9], [1, 2, 3, 7, 10], [1, 2, 3, 7, 11],
     [1, 2, 4, 5, 6], [1, 2, 4, 5, 7], [1, 2, 4, 5, 8], [1, 2, 4, 5, 9],
     [1, 2, 4, 6, 7], [1, 2, 4, 6, 8], [1, 2, 4, 6, 9], [1, 2, 4, 6, 10],
     [1, 2, 4, 7, 8], [1, 2, 4, 7, 9], [1, 2, 4, 7, 10], [1, 2, 4, 7, 11],
     [1, 2, 4, 8, 9], [1, 2, 4, 8, 10], [1, 2, 4, 8, 11], [1, 2, 4, 8, 12],
     [1, 2, 5, 6, 7], [1, 2, 5, 6, 8], [1, 2, 5, 6, 9], [1, 2, 5, 6, 10],
     [1, 2, 5, 7, 8], [1, 2, 5, 7, 9], [1, 2, 5, 7, 10], [1, 2, 5, 7, 11],
     [1, 2, 5, 8, 9], [1, 2, 5, 8, 10], [1, 2, 5, 8, 11], [1, 2, 5, 8, 12],
     [1, 2, 5, 9, 10], [1, 2, 5, 9, 11], [1, 2, 5, 9, 12], [1, 2, 5, 9, 13],
     [1, 2, 6, 7, 8], [1, 2, 6, 7, 9], [1, 2, 6, 7, 10], [1, 2, 6, 7, 11],
     [1, 2, 6, 8, 9], [1, 2, 6, 8, 10], [1, 2, 6, 8, 11], [1, 2, 6, 8, 12],
     [1, 2, 6, 9, 10], [1, 2, 6, 9, 11], [1, 2, 6, 9, 12], [1, 2, 6, 9, 13],
     [1, 2, 6, 10, 11], [1, 2, 6, 10, 12], [1, 2, 6, 10, 13], [1, 2, 6, 10, 14]]"

definition GROUP_VARINT_IDX_ARR_64 :: "nat list list" where
  "GROUP_VARINT_IDX_ARR_64 =
    [[1, 3, 4, 5, 6], [1, 3, 4, 5, 7], [1, 3, 4, 5, 8], [1, 3, 4, 5, 9],
     [1, 3, 4, 6, 7], [1, 3, 4, 6, 8], [1, 3, 4, 6, 9], [1, 3, 4, 6, 10],
     [1, 3, 4, 7, 8], [1, 3, 4, 7, 9], [1, 3, 4, 7, 10], [1, 3, 4, 7, 11],
     [1, 3, 4, 8, 9], [1, 3, 4, 8, 10], [1, 3, 4, 8, 11], [1, 3, 4, 8, 12],
     [1, 3, 5, 6, 7], [1, 3, 5, 6, 8], [1, 3, 5, 6, 9], [1, 3, 5, 6, 10],
     [1, 3, 5, 7, 8], [1, 3, 5, 7, 9], [1, 3, 5, 7, 10], [1, 3, 5, 7, 11],
     [1, 3, 5, 8, 9], [1, 3, 5, 8, 10], [1, 3, 5, 8, 11], [1, 3, 5, 8, 12],
     [1, 3, 5, 9, 10], [1, 3, 5, 9, 11], [1, 3, 5, 9, 12], [1, 3, 5, 9, 13],
     [1, 3, 6, 7, 8], [1, 3, 6, 7, 9], [1, 3, 6, 7, 10], [1, 3, 6, 7, 11],
     [1, 3, 6, 8, 9], [1, 3, 6, 8, 10], [1, 3, 6, 8, 11], [1, 3, 6, 8, 12],
     [1, 3, 6, 9, 10], [1, 3, 6, 9, 11], [1, 3, 6, 9, 12], [1, 3, 6, 9, 13],
     [1, 3, 6, 10, 11], [1, 3, 6, 10, 12], [1, 3, 6, 10, 13], [1, 3, 6, 10, 14],
     [1, 3, 7, 8, 9], [1, 3, 7, 8, 10], [1, 3, 7, 8, 11], [1, 3, 7, 8, 12],
     [1, 3, 7, 9, 10], [1, 3, 7, 9, 11], [1, 3, 7, 9, 12], [1, 3, 7, 9, 13],
     [1, 3, 7, 10, 11], [1, 3, 7, 10, 12], [1, 3, 7, 10, 13], [1, 3, 7, 10, 14],
     [1, 3, 7, 11, 12], [1, 3, 7, 11, 13], [1, 3, 7, 11, 14], [1, 3, 7, 11, 15]]"

definition GROUP_VARINT_IDX_ARR_128 :: "nat list list" where
  "GROUP_VARINT_IDX_ARR_128 =
    [[1, 4, 5, 6, 7], [1, 4, 5, 6, 8], [1, 4, 5, 6, 9], [1, 4, 5, 6, 10],
     [1, 4, 5, 7, 8], [1, 4, 5, 7, 9], [1, 4, 5, 7, 10], [1, 4, 5, 7, 11],
     [1, 4, 5, 8, 9], [1, 4, 5, 8, 10], [1, 4, 5, 8, 11], [1, 4, 5, 8, 12],
     [1, 4, 5, 9, 10], [1, 4, 5, 9, 11], [1, 4, 5, 9, 12], [1, 4, 5, 9, 13],
     [1, 4, 6, 7, 8], [1, 4, 6, 7, 9], [1, 4, 6, 7, 10], [1, 4, 6, 7, 11],
     [1, 4, 6, 8, 9], [1, 4, 6, 8, 10], [1, 4, 6, 8, 11], [1, 4, 6, 8, 12],
     [1, 4, 6, 9, 10], [1, 4, 6, 9, 11], [1, 4, 6, 9, 12], [1, 4, 6, 9, 13],
     [1, 4, 6, 10, 11], [1, 4, 6, 10, 12], [1, 4, 6, 10, 13], [1, 4, 6, 10, 14],
     [1, 4, 7, 8, 9], [1, 4, 7, 8, 10], [1, 4, 7, 8, 11], [1, 4, 7, 8, 12],
     [1, 4, 7, 9, 10], [1, 4, 7, 9, 11], [1, 4, 7, 9, 12], [1, 4, 7, 9, 13],
     [1, 4, 7, 10, 11], [1, 4, 7, 10, 12], [1, 4, 7, 10, 13], [1, 4, 7, 10, 14],
     [1, 4, 7, 11, 12], [1, 4, 7, 11, 13], [1, 4, 7, 11, 14], [1, 4, 7, 11, 15],
     [1, 4, 8, 9, 10], [1, 4, 8, 9, 11], [1, 4, 8, 9, 12], [1, 4, 8, 9, 13],
     [1, 4, 8, 10, 11], [1, 4, 8, 10, 12], [1, 4, 8, 10, 13], [1, 4, 8, 10, 14],
     [1, 4, 8, 11, 12], [1, 4, 8, 11, 13], [1, 4, 8, 11, 14], [1, 4, 8, 11, 15],
     [1, 4, 8, 12, 13], [1, 4, 8, 12, 14], [1, 4, 8, 12, 15], [1, 4, 8, 12, 16]]"

definition GROUP_VARINT_IDX_ARR_192 :: "nat list list" where
  "GROUP_VARINT_IDX_ARR_192 =
    [[1, 5, 6, 7, 8], [1, 5, 6, 7, 9], [1, 5, 6, 7, 10], [1, 5, 6, 7, 11],
     [1, 5, 6, 8, 9], [1, 5, 6, 8, 10], [1, 5, 6, 8, 11], [1, 5, 6, 8, 12],
     [1, 5, 6, 9, 10], [1, 5, 6, 9, 11], [1, 5, 6, 9, 12], [1, 5, 6, 9, 13],
     [1, 5, 6, 10, 11], [1, 5, 6, 10, 12], [1, 5, 6, 10, 13], [1, 5, 6, 10, 14],
     [1, 5, 7, 8, 9], [1, 5, 7, 8, 10], [1, 5, 7, 8, 11], [1, 5, 7, 8, 12],
     [1, 5, 7, 9, 10], [1, 5, 7, 9, 11], [1, 5, 7, 9, 12], [1, 5, 7, 9, 13],
     [1, 5, 7, 10, 11], [1, 5, 7, 10, 12], [1, 5, 7, 10, 13], [1, 5, 7, 10, 14],
     [1, 5, 7, 11, 12], [1, 5, 7, 11, 13], [1, 5, 7, 11, 14], [1, 5, 7, 11, 15],
     [1, 5, 8, 9, 10], [1, 5, 8, 9, 11], [1, 5, 8, 9, 12], [1, 5, 8, 9, 13],
     [1, 5, 8, 10, 11], [1, 5, 8, 10, 12], [1, 5, 8, 10, 13], [1, 5, 8, 10, 14],
     [1, 5, 8, 11, 12], [1, 5, 8, 11, 13], [1, 5, 8, 11, 14], [1, 5, 8, 11, 15],
     [1, 5, 8, 12, 13], [1, 5, 8, 12, 14], [1, 5, 8, 12, 15], [1, 5, 8, 12, 16],
     [1, 5, 9, 10, 11], [1, 5, 9, 10, 12], [1, 5, 9, 10, 13], [1, 5, 9, 10, 14],
     [1, 5, 9, 11, 12], [1, 5, 9, 11, 13], [1, 5, 9, 11, 14], [1, 5, 9, 11, 15],
     [1, 5, 9, 12, 13], [1, 5, 9, 12, 14], [1, 5, 9, 12, 15], [1, 5, 9, 12, 16],
     [1, 5, 9, 13, 14], [1, 5, 9, 13, 15], [1, 5, 9, 13, 16], [1, 5, 9, 13, 17]]"

definition GROUP_VARINT_IDX_ARR :: "nat list list" where
  "GROUP_VARINT_IDX_ARR = GROUP_VARINT_IDX_ARR_0 @ GROUP_VARINT_IDX_ARR_64 @ GROUP_VARINT_IDX_ARR_128 @ GROUP_VARINT_IDX_ARR_192"

section \<open>What the tables hold\<close>

text \<open>The number of bytes of a field, less one, is two bits of the number of the row.\<close>

definition field_lengths :: "nat \<Rightarrow> nat list" where
  "field_lengths p = [p div 64 mod 4 + 1, p div 16 mod 4 + 1, p div 4 mod 4 + 1, p mod 4 + 1]"

lemmas type_tables = GROUP_VARINT_TYPES_def GROUP_VARINT_TYPES_0_def GROUP_VARINT_TYPES_16_def GROUP_VARINT_TYPES_32_def GROUP_VARINT_TYPES_48_def GROUP_VARINT_TYPES_64_def GROUP_VARINT_TYPES_80_def GROUP_VARINT_TYPES_96_def GROUP_VARINT_TYPES_112_def GROUP_VARINT_TYPES_128_def GROUP_VARINT_TYPES_144_def GROUP_VARINT_TYPES_160_def GROUP_VARINT_TYPES_176_def GROUP_VARINT_TYPES_192_def GROUP_VARINT_TYPES_208_def GROUP_VARINT_TYPES_224_def GROUP_VARINT_TYPES_240_def

lemmas offset_tables = GROUP_VARINT_IDX_ARR_def GROUP_VARINT_IDX_ARR_0_def GROUP_VARINT_IDX_ARR_64_def GROUP_VARINT_IDX_ARR_128_def GROUP_VARINT_IDX_ARR_192_def

lemma types_table: "GROUP_VARINT_TYPES = map (\<lambda>p. map (\<lambda>l. 8 * l) (field_lengths p)) [0..<256]"
  by (simp add: type_tables field_lengths_def numeral_upt del: One_nat_def)

lemma offsets_table: "map (\<lambda>r. r ! 4) GROUP_VARINT_IDX_ARR = map (\<lambda>p. 1 + sum_list (field_lengths p)) [0..<256]"
  by (simp add: offset_tables field_lengths_def numeral_upt del: One_nat_def)

lemma GROUP_VARINT_TYPES_nth: "p < 256 \<Longrightarrow> GROUP_VARINT_TYPES ! p = map (\<lambda>l. 8 * l) (field_lengths p)"
  unfolding types_table by simp

lemma GROUP_VARINT_IDX_ARR_nth: "p < 256 \<Longrightarrow> GROUP_VARINT_IDX_ARR ! p ! 4 = 1 + sum_list (field_lengths p)"
proof -
  assume p: "p < 256"
  have "length GROUP_VARINT_IDX_ARR = 256"
    using arg_cong [OF offsets_table, of length] by simp
  then have "GROUP_VARINT_IDX_ARR ! p ! 4 = map (\<lambda>r. r ! 4) GROUP_VARINT_IDX_ARR ! p"
    using p by simp
  then show ?thesis
    unfolding offsets_table using p by simp
qed

end
