(* ===== verification/VByte.thy ===== *)
theory VByte
  imports Prelude "HOL-Library.Monad_Syntax"
begin

text \<open>
  Variable length integers: \<^verbatim>\<open>indexlib/index/common/numeric_compress/VbyteCompressor.h\<close>.  A value is written in groups of seven
  bits, the low ones first, with the high bit of a byte set when another one follows.

  Memory is the list of the bytes from the pointer on; an access past its end, or a shift by the width of the operand or
  more, gives \<open>None\<close>.  The limit that the checked routines get is a number of its own, as in the code.
\<close>

section \<open>The routines\<close>

definition ReadByte :: "bytes \<Rightarrow> nat \<Rightarrow> nat \<Rightarrow> (status \<times> u8 \<times> nat) option" where
  "ReadByte inputByte pos maxInputByte =
     (if pos \<ge> maxInputByte then Some (OutOfRange, 0, pos)
      else if pos < length inputByte then Some (StatusOK, inputByte ! pos, pos + 1) else None)"

definition WriteByte :: "bytes \<Rightarrow> nat \<Rightarrow> nat \<Rightarrow> u8 \<Rightarrow> (status \<times> bytes \<times> nat) option" where
  "WriteByte outputByte pos maxOutputByte v =
     (if pos \<ge> maxOutputByte then Some (OutOfRange, outputByte, pos)
      else if pos < length outputByte then Some (StatusOK, outputByte[pos := v], pos + 1) else None)"

lemma drop_group_less: "ui AND NOT 0x7F \<noteq> (0 :: u32) \<Longrightarrow> unat (drop_bit 7 ui) < unat ui"
proof -
  assume "ui AND NOT 0x7F \<noteq> 0"
  then have "0 < unat ui"
    by (cases "ui = 0") (auto simp: unat_gt_0)
  then show ?thesis
    by (simp add: drop_bit_eq_div unat_div)
qed

function length_loop :: "nat \<Rightarrow> u32 \<Rightarrow> nat" where
  "length_loop l ui = (if ui AND NOT 0x7F \<noteq> 0 then length_loop (l + 1) (drop_bit 7 ui) else l)"
  by pat_completeness auto
termination
  by (relation "measure (\<lambda>(l, ui). unat ui)") (simp_all add: drop_group_less)

declare length_loop.simps [simp del]

definition GetVInt32Length :: "u32 \<Rightarrow> nat" where
  "GetVInt32Length v = length_loop 1 v"

text \<open>\<^verbatim>\<open>EncodeVInt32\<close>: the status, the memory, and the number of bytes.\<close>

function encode_loop :: "bytes \<Rightarrow> nat \<Rightarrow> nat \<Rightarrow> u32 \<Rightarrow> (status \<times> bytes \<times> nat) option" where
  "encode_loop outputByte maxOutputByte l ui =
     (if ui AND NOT 0x7F \<noteq> 0 then
        do { (st, outputByte, l) \<leftarrow> WriteByte outputByte l maxOutputByte (ucast (ui AND 0x7F) OR 0x80);
             if st \<noteq> StatusOK then Some (st, outputByte, 0)
             else encode_loop outputByte maxOutputByte l (drop_bit 7 ui) }
      else WriteByte outputByte l maxOutputByte (ucast ui))"
  by pat_completeness auto
termination
  by (relation "measure (\<lambda>(outputByte, maxOutputByte, l, ui). unat ui)") (simp_all add: drop_group_less)

declare encode_loop.simps [simp del]

definition EncodeVInt32 :: "bytes \<Rightarrow> nat \<Rightarrow> u32 \<Rightarrow> (status \<times> bytes \<times> nat) option" where
  "EncodeVInt32 outputByte maxOutputByte v = encode_loop outputByte maxOutputByte 0 v"

text \<open>
  \<^verbatim>\<open>DecodeVInt32\<close>: the status, the value, the memory from the moved pointer on, and the reduced limit.  The groups are shifted
  as 64-bit integers and then cut to 32 bits.
\<close>

partial_function (option) decode_loop :: "bytes \<Rightarrow> nat \<Rightarrow> nat \<Rightarrow> nat \<Rightarrow> u8 \<Rightarrow> u32 \<Rightarrow> (status \<times> u32 \<times> nat) option" where
  "decode_loop inputByte inputByteLength l shift b i =
     (if b AND 0x80 \<noteq> 0 then
        do { (st, b, l) \<leftarrow> ReadByte inputByte l inputByteLength;
             if st \<noteq> StatusOK then Some (st, 0, l)
             else if shift < 64 then
               decode_loop inputByte inputByteLength l (shift + 7) b (i OR push_bit shift (ucast (b AND 0x7F)))
             else None }
      else Some (StatusOK, i, l))"

definition DecodeVInt32 :: "bytes \<Rightarrow> nat \<Rightarrow> (status \<times> u32 \<times> bytes \<times> nat) option" where
  "DecodeVInt32 inputByte inputByteLength =
     do { (st, b, l) \<leftarrow> ReadByte inputByte 0 inputByteLength;
          if st \<noteq> StatusOK then Some (st, 0, inputByte, inputByteLength)
          else do { (st, i, l) \<leftarrow> decode_loop inputByte inputByteLength l 7 b (ucast (b AND 0x7F));
                    if st \<noteq> StatusOK then Some (st, 0, inputByte, inputByteLength)
                    else Some (StatusOK, i, drop l inputByte, inputByteLength - l) } }"

text \<open>The unchecked routines, on the memory from the cursor on.\<close>

function WriteVUInt32 :: "u32 \<Rightarrow> bytes \<Rightarrow> nat \<Rightarrow> (bytes \<times> nat) option" where
  "WriteVUInt32 v mem cursor =
     (if cursor < length mem then
        if v > 0x7F then WriteVUInt32 (drop_bit 7 v) (mem[cursor := 0x80 OR ucast (v AND 0x7F)]) (cursor + 1)
        else Some (mem[cursor := ucast (v AND 0x7F)], cursor + 1)
      else None)"
  by pat_completeness auto
termination
  by (relation "measure (\<lambda>(v, mem, cursor). length mem - cursor)") auto

declare WriteVUInt32.simps [simp del]

fun read_groups :: "bytes \<Rightarrow> nat \<Rightarrow> u32 \<Rightarrow> (u32 \<times> bytes) option" where
  "read_groups [] shift v = None"
| "read_groups (b # bs) shift v =
     (if shift < 32 then
        let v = v OR push_bit shift (ucast (b AND 0x7F)) in if b AND 0x80 \<noteq> 0 then read_groups bs (shift + 7) v else Some (v, bs)
      else None)"

definition ReadVUInt32 :: "bytes \<Rightarrow> (u32 \<times> bytes) option" where
  "ReadVUInt32 bs =
     (case bs of
        [] \<Rightarrow> None
      | b # bs \<Rightarrow> if b AND 0x80 \<noteq> 0 then read_groups bs 7 (ucast (b AND 0x7F)) else Some (ucast (b AND 0x7F), bs))"

text \<open>
  \<^verbatim>\<open>VbyteInt32Encoder::Encode\<close> into a buffer, with the largest limit.  The first byte is set to the number of values, and then
  the values are written from the same position on.
\<close>

fun encode_values :: "bytes \<Rightarrow> nat \<Rightarrow> u32 list \<Rightarrow> (status \<times> bytes \<times> nat) option" where
  "encode_values dest destLen [] = Some (StatusOK, dest, destLen)"
| "encode_values dest destLen (v # vs) =
     (if destLen \<le> length dest then
        do { (st, d, len) \<leftarrow> EncodeVInt32 (drop destLen dest) 0xFFFFFFFF v;
             if st \<noteq> StatusOK then Some (st, take destLen dest @ d, 0) else encode_values (take destLen dest @ d) (destLen + len) vs }
      else None)"

definition VbyteInt32Encoder_Encode :: "bytes \<Rightarrow> u32 list \<Rightarrow> (status \<times> bytes \<times> nat) option" where
  "VbyteInt32Encoder_Encode dest src =
     (if dest = [] then None else encode_values (dest[0 := of_nat (length src)]) 0 src)"

section \<open>The reference encoding\<close>

function vbytes :: "u32 \<Rightarrow> bytes" where
  "vbytes v = (if v AND NOT 0x7F \<noteq> 0 then (ucast (v AND 0x7F) OR 0x80) # vbytes (drop_bit 7 v) else [ucast v])"
  by pat_completeness auto
termination
  by (relation "measure unat") (simp_all add: drop_group_less)

declare vbytes.simps [simp del]

lemma vbytes_nonempty [simp]: "vbytes v \<noteq> []"
  by (subst vbytes.simps) simp

lemma vbytes_length: "v AND NOT (mask (7 * k)) = 0 \<Longrightarrow> 0 < k \<Longrightarrow> length (vbytes v) \<le> k"
proof (induction k arbitrary: v)
  case (Suc k)
  show ?case
  proof (cases "v AND NOT 0x7F = 0")
    case True
    then show ?thesis
      by (subst vbytes.simps) simp
  next
    case False
    have "k \<noteq> 0"
    proof
      assume "k = 0"
      then have "v AND NOT 0x7F = 0"
        using Suc.prems(1) by (simp add: mask_eq_exp_minus_1)
      then show False
        using False by simp
    qed
    moreover have "drop_bit 7 v AND NOT (mask (7 * k)) = 0"
    proof (rule bit_word_eqI)
      fix i
      assume "i < LENGTH(32)"
      have "\<not> bit (v AND NOT (mask (7 * Suc k))) (7 + i)"
        using Suc.prems(1) by simp
      then show "bit (drop_bit 7 v AND NOT (mask (7 * k))) i = bit (0 :: u32) i"
        by (auto simp: bit_simps dest: bit_imp_le_length)
    qed
    ultimately show ?thesis
      using Suc.IH [of "drop_bit 7 v"] False by (subst vbytes.simps) simp
  qed
qed simp

lemma vbytes_le_5: "length (vbytes v) \<le> 5"
proof (rule vbytes_length)
  show "v AND NOT (mask (7 * 5)) = 0"
    by (rule bit_word_eqI) (auto simp: bit_simps)
qed simp

lemma GetVInt32Length_vbytes: "GetVInt32Length v = length (vbytes v)"
proof -
  have "length_loop l v + 1 = l + length (vbytes v)" for l
  proof (induction v arbitrary: l rule: vbytes.induct)
    case (1 v)
    then show ?case
      by (subst length_loop.simps, subst vbytes.simps) auto
  qed
  from this [of 1] show ?thesis
    by (simp add: GetVInt32Length_def)
qed

section \<open>Encoding\<close>

lemma encode_loop_vbytes:
  assumes "l + length (vbytes v) \<le> maxOut" "l + length (vbytes v) \<le> length mem"
  shows "encode_loop mem maxOut l v = Some (StatusOK, take l mem @ vbytes v @ drop (l + length (vbytes v)) mem, l + length (vbytes v))"
  using assms
proof (induction v arbitrary: mem l rule: vbytes.induct)
  case (1 v)
  show ?case
  proof (cases "v AND NOT 0x7F = 0")
    case True
    then have "vbytes v = [ucast v]"
      by (subst vbytes.simps) simp
    then show ?thesis
      using True 1 by (subst encode_loop.simps) (simp add: WriteByte_def upd_conv_take_nth_drop)
  next
    case False
    let ?b = "ucast (v AND 0x7F) OR 0x80"
    have v: "vbytes v = ?b # vbytes (drop_bit 7 v)"
      using False by (subst vbytes.simps) simp
    have "encode_loop mem maxOut l v = encode_loop (mem[l := ?b]) maxOut (l + 1) (drop_bit 7 v)"
      using False 1(2,3) v by (subst encode_loop.simps) (simp add: WriteByte_def)
    then show ?thesis
      using 1(1) [OF False, of "l + 1" "mem[l := ?b]"] 1(2,3) v by (simp add: take_Suc_conv_app_nth)
  qed
qed

lemma EncodeVInt32_vbytes:
  "length (vbytes v) \<le> maxOut \<Longrightarrow> length (vbytes v) \<le> length mem \<Longrightarrow>
   EncodeVInt32 mem maxOut v = Some (StatusOK, vbytes v @ drop (length (vbytes v)) mem, length (vbytes v))"
  using encode_loop_vbytes [of 0 v] by (simp add: EncodeVInt32_def)

text \<open>Where the limit is too small, no byte past it is written and the status says so.\<close>

lemma encode_loop_limit:
  assumes "l \<le> maxOut" "maxOut < l + length (vbytes v)" "maxOut \<le> length mem"
  shows "\<exists>mem' n. encode_loop mem maxOut l v = Some (OutOfRange, mem', n) \<and> drop maxOut mem' = drop maxOut mem \<and> length mem' = length mem"
  using assms
proof (induction v arbitrary: mem l rule: vbytes.induct)
  case (1 v)
  show ?case
  proof (cases "v AND NOT 0x7F = 0")
    case True
    then have "vbytes v = [ucast v]"
      by (subst vbytes.simps) simp
    then show ?thesis
      using True 1 by (subst encode_loop.simps) (simp add: WriteByte_def)
  next
    case False
    let ?b = "ucast (v AND 0x7F) OR 0x80"
    have v: "vbytes v = ?b # vbytes (drop_bit 7 v)"
      using False by (subst vbytes.simps) simp
    show ?thesis
    proof (cases "l < maxOut")
      case True
      then have "encode_loop mem maxOut l v = encode_loop (mem[l := ?b]) maxOut (l + 1) (drop_bit 7 v)"
        using False 1(4) by (subst encode_loop.simps) (simp add: WriteByte_def)
      then show ?thesis
        using 1(1) [OF False, of "l + 1" "mem[l := ?b]"] 1(3,4) v True by simp
    next
      case full: False
      then show ?thesis
        using False by (subst encode_loop.simps) (simp add: WriteByte_def)
    qed
  qed
qed

section \<open>Decoding\<close>

lemma bit_0x80: "bit (0x80 :: int) n \<longleftrightarrow> n = 7"
  using bit_exp_iff [of 7 n, where ?'a = int] by auto

text \<open>A byte of the encoding gives seven bits and says whether another one follows.\<close>

lemma group_byte:
  "(ucast (((ucast (v AND 0x7F) :: u8) OR 0x80) AND 0x7F) :: u32) = v AND 0x7F"
  "((ucast (v AND 0x7F) :: u8) OR 0x80) AND 0x80 \<noteq> 0"
proof -
  have m: "(0x7F :: u32) = mask 7" "(0x7F :: u8) = mask 7"
    by (simp_all add: mask_eq_exp_minus_1)
  show "(ucast (((ucast (v AND 0x7F) :: u8) OR 0x80) AND 0x7F) :: u32) = v AND 0x7F"
    unfolding m by (rule bit_word_eqI) (auto simp: bit_simps bit_0x80)
  have "bit (((ucast (v AND 0x7F) :: u8) OR 0x80) AND 0x80) 7"
    unfolding m by (simp add: bit_simps bit_0x80)
  then show "((ucast (v AND 0x7F) :: u8) OR 0x80) AND 0x80 \<noteq> 0"
    by auto
qed

lemma last_byte:
  assumes "v AND NOT 0x7F = (0 :: u32)"
  shows "(ucast ((ucast v :: u8) AND 0x7F) :: u32) = v" "(ucast v :: u8) AND 0x80 = 0"
proof -
  have m: "(0x7F :: u32) = mask 7" "(0x7F :: u8) = mask 7"
    by (simp_all add: mask_eq_exp_minus_1)
  have low: "i < 7" if "bit v i" for i
  proof (rule ccontr)
    assume "\<not> i < 7"
    then have "bit (v AND NOT (mask 7)) i"
      using that by (auto simp: bit_simps dest: bit_imp_le_length)
    then show False
      using assms unfolding m by simp
  qed
  show "(ucast ((ucast v :: u8) AND 0x7F) :: u32) = v"
    unfolding m by (rule bit_word_eqI) (use low in \<open>fastforce simp: bit_simps\<close>)
  show "(ucast v :: u8) AND 0x80 = 0"
    unfolding m by (rule bit_word_eqI) (use low [of 7] in \<open>auto simp: bit_simps bit_0x80\<close>)
qed

lemma split_group: "push_bit s (v AND 0x7F) OR push_bit (s + 7) (drop_bit 7 v) = push_bit s (v :: u32)"
proof -
  have m: "(0x7F :: u32) = mask 7"
    by (simp add: mask_eq_exp_minus_1)
  show ?thesis
    unfolding m
  proof (rule bit_word_eqI)
    fix i
    assume "i < LENGTH(32)"
    then show "bit (push_bit s (v AND mask 7) OR push_bit (s + 7) (drop_bit 7 v)) i = bit (push_bit s v) i"
      by (cases "i < s + 7") (auto simp: bit_simps)
  qed
qed

text \<open>
  Reading the groups of \<open>v\<close> from position \<open>l\<close> on, where the byte before says that another one follows.
\<close>

lemma decode_loop_vbytes:
  assumes "b AND 0x80 \<noteq> 0" "drop l mem = vbytes v @ rest" "l + length (vbytes v) \<le> limit" "s + 7 * length (vbytes v) \<le> 70"
  shows "decode_loop mem limit l s b i = Some (StatusOK, i OR push_bit s v, l + length (vbytes v))"
  using assms
proof (induction v arbitrary: l s b i rule: vbytes.induct)
  case (1 v)
  have mem: "l < length mem"
    using 1(3) by (metis drop_all leI append_is_Nil_conv vbytes_nonempty)
  then have hd: "mem ! l = hd (vbytes v)" "drop (l + 1) mem = tl (vbytes v) @ rest"
    using 1(3) by (metis hd_append2 hd_drop_conv_nth vbytes_nonempty) (metis 1(3) Suc_eq_plus1 drop_Suc drop_tl tl_append2 tl_drop vbytes_nonempty)
  show ?case
  proof (cases "v AND NOT 0x7F = 0")
    case True
    then have v: "vbytes v = [ucast v]"
      by (subst vbytes.simps) simp
    have "decode_loop mem limit l s b i = decode_loop mem limit (l + 1) (s + 7) (ucast v) (i OR push_bit s v)"
      using 1(2,4,5) v mem hd last_byte(1) [OF True] by (subst decode_loop.simps) (simp add: ReadByte_def)
    then show ?thesis
      using v last_byte(2) [OF True] by (simp add: decode_loop.simps [of _ _ "Suc l"])
  next
    case False
    let ?b = "ucast (v AND 0x7F) OR 0x80"
    have v: "vbytes v = ?b # vbytes (drop_bit 7 v)"
      using False by (subst vbytes.simps) simp
    have "decode_loop mem limit l s b i = decode_loop mem limit (l + 1) (s + 7) ?b (i OR push_bit s (v AND 0x7F))"
      using 1(2,4,5) v mem hd group_byte(1) [of v] vbytes_nonempty [of "drop_bit 7 v"]
      by (subst decode_loop.simps) (simp add: ReadByte_def)
    also have "\<dots> = Some (StatusOK, (i OR push_bit s (v AND 0x7F)) OR push_bit (s + 7) (drop_bit 7 v), l + 1 + length (vbytes (drop_bit 7 v)))"
      using 1(4,5) v hd(2) by (intro 1(1) [OF False group_byte(2)]) simp_all
    finally show ?thesis
      unfolding or.assoc split_group using v by simp
  qed
qed

lemma DecodeVInt32_vbytes:
  assumes "length (vbytes v) \<le> limit"
  shows "DecodeVInt32 (vbytes v @ rest) limit = Some (StatusOK, v, rest, limit - length (vbytes v))"
proof (cases "v AND NOT 0x7F = 0")
  case True
  then have "vbytes v = [ucast v]"
    by (subst vbytes.simps) simp
  then show ?thesis
    using assms last_byte [OF True] by (simp add: DecodeVInt32_def ReadByte_def decode_loop.simps)
next
  case False
  let ?b = "ucast (v AND 0x7F) OR 0x80"
  have v: "vbytes v = ?b # vbytes (drop_bit 7 v)"
    using False by (subst vbytes.simps) simp
  have "decode_loop (vbytes v @ rest) limit 1 7 ?b (v AND 0x7F) =
      Some (StatusOK, (v AND 0x7F) OR push_bit 7 (drop_bit 7 v), 1 + length (vbytes (drop_bit 7 v)))"
    using assms v vbytes_le_5 [of v] by (intro decode_loop_vbytes [OF group_byte(2)]) simp_all
  moreover have "(v AND 0x7F) OR push_bit 7 (drop_bit 7 v) = v"
    using split_group [of 0 v] by simp
  ultimately show ?thesis
    using assms v group_byte(1) [of v] by (simp add: DecodeVInt32_def ReadByte_def)
qed

section \<open>The unchecked routines\<close>

lemma above_0x7F: "v > 0x7F \<longleftrightarrow> v AND NOT 0x7F \<noteq> (0 :: u32)"
proof -
  have "v AND NOT 0x7F = push_bit 7 (drop_bit 7 v)"
  proof -
    have m: "(0x7F :: u32) = mask 7"
      by (simp add: mask_eq_exp_minus_1)
    show ?thesis
      unfolding m by (rule bit_word_eqI) (auto simp: bit_simps)
  qed
  moreover have "push_bit 7 (drop_bit 7 v) = 0 \<longleftrightarrow> drop_bit 7 v = 0"
  proof
    assume "push_bit 7 (drop_bit 7 v) = 0"
    then have "drop_bit 7 (push_bit 7 (drop_bit 7 v)) = 0"
      by simp
    moreover have "drop_bit 7 (push_bit 7 (drop_bit 7 v)) = drop_bit 7 v"
      by (rule bit_word_eqI) (auto simp: bit_simps dest: bit_imp_le_length)
    ultimately show "drop_bit 7 v = 0"
      by simp
  qed simp
  moreover have "drop_bit 7 v = 0 \<longleftrightarrow> unat v div 128 = 0"
    by (simp add: drop_bit_eq_div unat_eq_0 [symmetric] unat_div del: unat_eq_0)
  ultimately show ?thesis
    by (simp add: word_less_nat_alt div_eq_0_iff) linarith
qed

lemma and_or_not: "(v AND x) OR (v AND NOT x) = (v :: u32)"
  by (rule bit_word_eqI) (auto simp: bit_simps)

lemma WriteVUInt32_vbytes:
  assumes "cursor + length (vbytes v) \<le> length mem"
  shows "WriteVUInt32 v mem cursor =
    Some (take cursor mem @ vbytes v @ drop (cursor + length (vbytes v)) mem, cursor + length (vbytes v))"
  using assms
proof (induction v arbitrary: mem cursor rule: vbytes.induct)
  case (1 v)
  show ?case
  proof (cases "v AND NOT 0x7F = 0")
    case True
    then have "vbytes v = [ucast v]"
      by (subst vbytes.simps) simp
    moreover have "v AND 0x7F = v"
      using and_or_not [of v "0x7F"] unfolding True by simp
    ultimately show ?thesis
      using True 1(2) above_0x7F [of v] by (subst WriteVUInt32.simps) (simp add: upd_conv_take_nth_drop)
  next
    case False
    let ?b = "ucast (v AND 0x7F) OR 0x80"
    have v: "vbytes v = ?b # vbytes (drop_bit 7 v)"
      using False by (subst vbytes.simps) simp
    have "WriteVUInt32 v mem cursor = WriteVUInt32 (drop_bit 7 v) (mem[cursor := ?b]) (cursor + 1)"
      using False 1(2) v above_0x7F [of v] by (subst WriteVUInt32.simps) (simp add: or.commute)
    then show ?thesis
      using 1(1) [OF False, of "cursor + 1" "mem[cursor := ?b]"] 1(2) v by (simp add: take_Suc_conv_app_nth)
  qed
qed

lemma read_groups_vbytes:
  "s + 7 * length (vbytes v) \<le> 38 \<Longrightarrow> read_groups (vbytes v @ rest) s i = Some (i OR push_bit s v, rest)"
proof (induction v arbitrary: s i rule: vbytes.induct)
  case (1 v)
  show ?case
  proof (cases "v AND NOT 0x7F = 0")
    case True
    then have v: "vbytes v = [ucast v]"
      by (subst vbytes.simps) simp
    then show ?thesis
      using 1(2) last_byte [OF True] by simp
  next
    case False
    let ?b = "ucast (v AND 0x7F) OR 0x80"
    have v: "vbytes v = ?b # vbytes (drop_bit 7 v)"
      using False by (subst vbytes.simps) simp
    have "read_groups (vbytes v @ rest) s i = read_groups (vbytes (drop_bit 7 v) @ rest) (s + 7) (i OR push_bit s (v AND 0x7F))"
      using 1(2) v group_byte [of v] vbytes_nonempty [of "drop_bit 7 v"] by simp
    also have "\<dots> = Some ((i OR push_bit s (v AND 0x7F)) OR push_bit (s + 7) (drop_bit 7 v), rest)"
      using 1(2) v by (intro 1(1) [OF False]) simp
    finally show ?thesis
      unfolding or.assoc split_group .
  qed
qed

lemma ReadVUInt32_vbytes: "ReadVUInt32 (vbytes v @ rest) = Some (v, rest)"
proof -
  obtain b bs where b: "vbytes v = b # bs"
    by (cases "vbytes v") simp_all
  have "ReadVUInt32 (vbytes v @ rest) = read_groups (vbytes v @ rest) 0 0"
    using b by (simp add: ReadVUInt32_def)
  then show ?thesis
    using read_groups_vbytes [of 0 v rest 0] vbytes_le_5 [of v] by simp
qed

section \<open>Encoding into a buffer\<close>

text \<open>The number of values that the first byte is set to is overwritten by the first value.\<close>

lemma encode_values_vbytes:
  assumes "off + length (concat (map vbytes vs)) \<le> length dest"
  shows "encode_values dest off vs =
    Some (StatusOK, take off dest @ concat (map vbytes vs) @ drop (off + length (concat (map vbytes vs))) dest,
      off + length (concat (map vbytes vs)))"
  using assms
proof (induction vs arbitrary: dest off)
  case (Cons v vs)
  let ?c = "vbytes v" and ?cs = "concat (map vbytes vs)"
  let ?d = "take off dest @ ?c @ drop (off + length ?c) dest"
  have "EncodeVInt32 (drop off dest) 0xFFFFFFFF v = Some (StatusOK, ?c @ drop (length ?c) (drop off dest), length ?c)"
    using Cons.prems vbytes_le_5 [of v] by (intro EncodeVInt32_vbytes) simp_all
  then have "encode_values dest off (v # vs) = encode_values ?d (off + length ?c) vs"
    using Cons.prems by (simp add: add.commute)
  also have "\<dots> = Some (StatusOK, take (off + length ?c) ?d @ ?cs @ drop (off + length ?c + length ?cs) ?d, off + length ?c + length ?cs)"
    using Cons.prems by (intro Cons.IH) simp
  also have "take (off + length ?c) ?d = take off dest @ ?c"
    using Cons.prems by simp
  also have "drop (off + length ?c + length ?cs) ?d = drop (off + length ?c + length ?cs) dest"
    using Cons.prems by (simp add: ac_simps)
  finally show ?case
    by (simp add: add.assoc)
qed simp

lemma VbyteInt32Encoder_Encode_overwrites:
  assumes "length (concat (map vbytes (v # vs))) \<le> length dest"
  shows "VbyteInt32Encoder_Encode dest (v # vs) =
    Some (StatusOK, concat (map vbytes (v # vs)) @ drop (length (concat (map vbytes (v # vs)))) dest, length (concat (map vbytes (v # vs))))"
proof -
  have pos: "0 < length (concat (map vbytes (v # vs)))"
    by simp
  then have "drop (length (concat (map vbytes (v # vs)))) (dest[0 := x]) = drop (length (concat (map vbytes (v # vs)))) dest" for x
    by (simp only: drop_update_cancel)
  moreover have "dest \<noteq> []"
    using assms pos by auto
  ultimately show ?thesis
    using encode_values_vbytes [of 0 "v # vs" "dest[0 := of_nat (length (v # vs))]"] assms
    unfolding VbyteInt32Encoder_Encode_def by (simp only: add_0 take_0 append_Nil length_list_update if_False)
qed

end
