(* ===== verification/GroupVarint.thy ===== *)
theory GroupVarint
  imports GroupVarintTables VByte
begin

text \<open>
  The group coder of \<^verbatim>\<open>indexlib/index/common/numeric_compress/GroupVarint.h\<close>: four values are written as a byte that holds
  two bits for the length of each, and then one to four bytes for each value; the up to three values that are left are
  written as variable length integers.

  Memory is the list of the bytes from the pointer on.  The length of the destination is a 64-bit number that the code
  reduces without a check, and that is cut to 32 bits as the limit of a variable length integer.
\<close>

section \<open>Compressing\<close>

definition BytesOffset :: "nat list" where "BytesOffset = [6, 4, 2, 0]"

definition GroupVarint_BLOCK_SIZE :: nat where "GroupVarint_BLOCK_SIZE = 128"

text \<open>A store of several bytes through a pointer.\<close>

definition store_bytes :: "bytes \<Rightarrow> nat \<Rightarrow> bytes \<Rightarrow> bytes option" where
  "store_bytes mem off bs =
     (if off + length bs \<le> length mem then Some (take off mem @ bs @ drop (off + length bs) mem) else None)"

text \<open>The number of bytes that a value takes, and the bytes that are stored for it: four, where it takes three.\<close>

definition item_length :: "u32 \<Rightarrow> nat" where
  "item_length v = (if v < 0x100 then 1 else if v < 0x10000 then 2 else if v < 0x1000000 then 3 else 4)"

definition item_bytes :: "u32 \<Rightarrow> bytes" where
  "item_bytes v = (if v < 0x100 then bytes_of 1 v else if v < 0x10000 then bytes_of 2 v else bytes_of 4 v)"

fun item_loop :: "bytes \<Rightarrow> u32 list \<Rightarrow> nat list \<Rightarrow> nat \<Rightarrow> u8 \<Rightarrow> (bytes \<times> nat \<times> u8) option" where
  "item_loop dest (v # vs) (o1 # os) len pos =
     do { dest \<leftarrow> store_bytes dest (1 + len) (item_bytes v);
          item_loop dest vs os (len + item_length v) (pos OR push_bit o1 (of_nat (item_length v - 1))) }"
| "item_loop dest vs os len pos = Some (dest, len, pos)"

definition CompressItem :: "bytes \<Rightarrow> u32 list \<Rightarrow> (bytes \<times> nat) option" where
  "CompressItem dest src =
     do { (dest, len, pos) \<leftarrow> item_loop dest (take 4 src) BytesOffset 0 0;
          dest \<leftarrow> store_bytes dest 0 [pos];
          Some (dest, len + 1) }"

text \<open>
  The two loops of \<^verbatim>\<open>CompressBlock\<close>, over the groups and over the values that are left.  They return the memory, the number
  of bytes written, and the length that is left.
\<close>

definition at_offset :: "nat \<Rightarrow> bytes \<Rightarrow> bytes \<Rightarrow> bytes" where
  "at_offset off mem d = take off mem @ d"

primrec compress_items :: "nat \<Rightarrow> bytes \<Rightarrow> nat \<Rightarrow> u64 \<Rightarrow> u32 list \<Rightarrow> (bytes \<times> nat \<times> u64) option" where
  "compress_items 0 dest off destLen src = Some (dest, off, destLen)"
| "compress_items (Suc n) dest off destLen src =
     (if off \<le> length dest \<and> 4 \<le> length src then
        do { (d, num) \<leftarrow> CompressItem (drop off dest) src;
             compress_items n (at_offset off dest d) (off + num) (destLen - of_nat num) (drop 4 src) }
      else None)"

fun compress_left :: "bytes \<Rightarrow> nat \<Rightarrow> u64 \<Rightarrow> u32 list \<Rightarrow> (status \<times> bytes \<times> nat) option" where
  "compress_left dest off destLen [] = Some (StatusOK, dest, off)"
| "compress_left dest off destLen (v # vs) =
     (if off \<le> length dest then
        do { (st, d, num) \<leftarrow> EncodeVInt32 (drop off dest) (unat (ucast destLen :: u32)) v;
             if st \<noteq> StatusOK then Some (st, at_offset off dest d, 0)
             else compress_left (at_offset off dest d) (off + num) (destLen - of_nat num) vs }
      else None)"

definition GroupVarint_CompressBlock :: "bytes \<Rightarrow> u64 \<Rightarrow> u32 list \<Rightarrow> (status \<times> bytes \<times> nat) option" where
  "GroupVarint_CompressBlock dest destLen src =
     do { (dest, off, destLen) \<leftarrow> compress_items (length src div 4) dest 0 destLen src;
          compress_left dest off destLen (drop (4 * (length src div 4)) src) }"

text \<open>
  \<^verbatim>\<open>Compress\<close>: the loop over the blocks.  For an empty source the number of blocks wraps around, and after the first block
  the code reads past the source.
\<close>

definition size_minus :: "nat \<Rightarrow> nat \<Rightarrow> nat" where
  "size_minus a b = unat (of_nat a - of_nat b :: u64)"

primrec compress_blocks :: "nat \<Rightarrow> bytes \<Rightarrow> nat \<Rightarrow> u64 \<Rightarrow> u32 list \<Rightarrow> nat \<Rightarrow> (status \<times> bytes \<times> nat) option" where
  "compress_blocks 0 dest off destLen src offset = Some (StatusOK, dest, off)"
| "compress_blocks (Suc n) dest off destLen src offset =
     (let left = size_minus (length src) offset;
          len = (if left \<le> GroupVarint_BLOCK_SIZE then left else GroupVarint_BLOCK_SIZE)
      in if offset + len \<le> length src \<and> off \<le> length dest then
           do { (st, d, num) \<leftarrow> GroupVarint_CompressBlock (drop off dest) destLen (take len (drop offset src));
                if st \<noteq> StatusOK then Some (st, at_offset off dest d, 0)
                else compress_blocks n (at_offset off dest d) (off + num) (destLen - of_nat num) src
                       (offset + GroupVarint_BLOCK_SIZE) }
         else None)"

definition GroupVarint_Compress :: "bytes \<Rightarrow> u64 \<Rightarrow> u32 list \<Rightarrow> (status \<times> bytes \<times> nat) option" where
  "GroupVarint_Compress dest destLen src =
     compress_blocks (size_minus (length src) 1 div GroupVarint_BLOCK_SIZE + 1) dest 0 destLen src 0"

text \<open>\<^verbatim>\<open>GroupVint32Encoder::Encode\<close> into a buffer, with eight bytes for each value as the length.\<close>

definition GroupVint32Encoder_Encode :: "bytes \<Rightarrow> u32 list \<Rightarrow> (status \<times> bytes \<times> nat) option" where
  "GroupVint32Encoder_Encode dest src = GroupVarint_Compress dest (ucast (push_bit 3 (of_nat (length src)) :: u32)) src"

section \<open>Decompressing\<close>

text \<open>The fields of a packed structure, whose widths in bits are multiples of eight.\<close>

fun read_fields :: "nat list \<Rightarrow> bytes \<Rightarrow> u32 list option" where
  "read_fields [] buf = Some []"
| "read_fields (w # ws) buf =
     (if w div 8 \<le> length buf then
        do { vs \<leftarrow> read_fields ws (drop (w div 8) buf); Some (word_of (take (w div 8) buf) # vs) }
      else None)"

definition DecompressItem :: "u32 list \<Rightarrow> bytes \<Rightarrow> (u32 list \<times> nat) option" where
  "DecompressItem dest src =
     (case src of
        [] \<Rightarrow> None
      | p # buf \<Rightarrow>
          if 4 \<le> length dest then
            do { vs \<leftarrow> read_fields (GROUP_VARINT_TYPES ! unat p) buf;
                 Some (vs @ drop 4 dest, GROUP_VARINT_IDX_ARR ! unat p ! 4) }
          else None)"

primrec decompress_items :: "nat \<Rightarrow> u32 list \<Rightarrow> nat \<Rightarrow> bytes \<Rightarrow> nat \<Rightarrow> (u32 list \<times> nat) option" where
  "decompress_items 0 dest k src offset = Some (dest, offset)"
| "decompress_items (Suc n) dest k src offset =
     (if k \<le> length dest \<and> offset \<le> length src then
        do { (d, num) \<leftarrow> DecompressItem (drop k dest) (drop offset src);
             decompress_items n (take k dest @ d) (k + 4) src (offset + num) }
      else None)"

primrec decompress_left :: "nat \<Rightarrow> u32 list \<Rightarrow> nat \<Rightarrow> bytes \<Rightarrow> nat \<Rightarrow> (status \<times> u32 list \<times> nat \<times> bytes) option" where
  "decompress_left 0 dest k src len = Some (StatusOK, dest, k, src)"
| "decompress_left (Suc n) dest k src len =
     do { (st, v, src', len') \<leftarrow> DecodeVInt32 src len;
          if st \<noteq> StatusOK then Some (st, dest, 0, src)
          else if k < length dest then decompress_left n (dest[k := v]) (k + 1) src' len' else None }"

text \<open>
  \<^verbatim>\<open>Decompress\<close> of \<open>srcLen\<close> values: the status, the destination, the number of values, and the number of bytes read, which the
  variant with five arguments gives.
\<close>

definition GroupVarint_Decompress :: "u32 list \<Rightarrow> bytes \<Rightarrow> nat \<Rightarrow> (status \<times> u32 list \<times> nat \<times> nat) option" where
  "GroupVarint_Decompress dest src srcLen =
     do { (dest, offset) \<leftarrow> decompress_items (srcLen div 4) dest 0 src 0;
          let k = 4 * (srcLen div 4); leftLen = srcLen mod 4
          in if leftLen \<noteq> 0 then
               if offset \<le> length src then
                 do { (st, dest, n, rest) \<leftarrow> decompress_left leftLen dest k (drop offset src) (5 * leftLen);
                      if st \<noteq> StatusOK then Some (st, dest, 0, 0) else Some (StatusOK, dest, n, length src - length rest) }
               else None
             else Some (StatusOK, dest, k, offset) }"

section \<open>The reference encoding\<close>

definition item_code :: "u32 list \<Rightarrow> bytes" where
  "item_code vs = concat (map (\<lambda>v. bytes_of (item_length v) v) vs)"

fun lengths_byte :: "nat list \<Rightarrow> nat list \<Rightarrow> u8 \<Rightarrow> u8" where
  "lengths_byte (l # ls) (o1 # os) pos = lengths_byte ls os (pos OR push_bit o1 (of_nat (l - 1)))"
| "lengths_byte ls os pos = pos"

definition group_code :: "u32 list \<Rightarrow> bytes" where
  "group_code vs = lengths_byte (map item_length vs) BytesOffset 0 # item_code vs"

function gv_code :: "u32 list \<Rightarrow> bytes" where
  "gv_code vs = (if 4 \<le> length vs then group_code (take 4 vs) @ gv_code (drop 4 vs) else concat (map vbytes vs))"
  by pat_completeness auto
termination
  by (relation "measure length") auto

declare gv_code.simps [simp del]

section \<open>One group\<close>

lemma item_length_bounds: "0 < item_length v" "item_length v \<le> 4" "item_length v \<le> length (item_bytes v)" "length (item_bytes v) \<le> 4"
  by (auto simp: item_length_def item_bytes_def)

lemma item_bytes_take: "take (item_length v) (item_bytes v) = bytes_of (item_length v) v"
  by (simp add: item_length_def item_bytes_def eval_nat_numeral)

lemma word_of_item: "word_of (bytes_of (item_length v) v) = v"
proof -
  have "take_bit (8 * item_length v) v = v"
  proof -
    have "unat v < 2 ^ (8 * item_length v)"
      using unsigned_less [of v, where ?'a = nat]
      by (auto simp: item_length_def word_less_nat_alt simp del: unsigned_less split: if_splits)
    then show ?thesis
      by (simp add: word_unat_eq_iff unsigned_take_bit_eq take_bit_nat_eq_self)
  qed
  then show ?thesis
    by (simp add: word_of_bytes_of)
qed

lemma store_bytes_some:
  "off + length bs \<le> length mem \<Longrightarrow> store_bytes mem off bs = Some (take off mem @ bs @ drop (off + length bs) mem)"
  by (simp add: store_bytes_def)

lemma item_loop_code:
  assumes "1 + len + 4 * length vs \<le> length dest" "length os = length vs"
  obtains d where "item_loop dest vs os len pos =
      Some (d, len + length (item_code vs), lengths_byte (map item_length vs) os pos)"
    "length d = length dest" "take (1 + len + length (item_code vs)) d = take (1 + len) dest @ item_code vs"
proof -
  have "\<exists>d. item_loop dest vs os len pos = Some (d, len + length (item_code vs), lengths_byte (map item_length vs) os pos) \<and>
      length d = length dest \<and> take (1 + len + length (item_code vs)) d = take (1 + len) dest @ item_code vs"
    using assms
  proof (induction vs arbitrary: dest os len pos)
    case Nil
    then show ?case
      by (simp add: item_code_def)
  next
    case (Cons v vs)
    obtain o1 os' where os: "os = o1 # os'" "length os' = length vs"
      using Cons.prems(2) by (cases os) auto
    let ?d = "take (1 + len) dest @ item_bytes v @ drop (1 + len + length (item_bytes v)) dest"
    let ?l = "len + item_length v"
    have store: "store_bytes dest (1 + len) (item_bytes v) = Some ?d"
      using Cons.prems(1) item_length_bounds [of v] by (intro store_bytes_some) simp
    have len: "length ?d = length dest" "1 + ?l + 4 * length vs \<le> length ?d"
      using Cons.prems(1) item_length_bounds [of v] by simp_all
    have pre: "take (1 + ?l) ?d = take (1 + len) dest @ bytes_of (item_length v) v"
      using Cons.prems(1) item_length_bounds [of v] by (simp flip: item_bytes_take)
    obtain d where d: "item_loop ?d vs os' ?l (pos OR push_bit o1 (of_nat (item_length v - 1))) =
        Some (d, ?l + length (item_code vs), lengths_byte (map item_length vs) os' (pos OR push_bit o1 (of_nat (item_length v - 1))))"
      "length d = length ?d" "take (1 + ?l + length (item_code vs)) d = take (1 + ?l) ?d @ item_code vs"
      using Cons.IH [OF len(2) os(2)] by blast
    have code: "item_code (v # vs) = bytes_of (item_length v) v @ item_code vs"
      by (simp add: item_code_def)
    show ?case
      using d(1,2) d(3) [unfolded pre] len(1) store unfolding os(1) code by (simp add: ac_simps)
  qed
  then show thesis
    using that by blast
qed

lemma CompressItem_code:
  assumes "length vs = 4" "17 \<le> length dest"
  obtains d where "CompressItem dest (vs @ rest) = Some (d, length (group_code vs))" "length d = length dest"
    "take (length (group_code vs)) d = group_code vs"
proof -
  obtain d where d: "item_loop dest vs BytesOffset 0 0 = Some (d, length (item_code vs), lengths_byte (map item_length vs) BytesOffset 0)"
    "length d = length dest" "take (1 + length (item_code vs)) d = take 1 dest @ item_code vs"
    using item_loop_code [of 0 vs dest BytesOffset 0] assms by (auto simp: BytesOffset_def)
  let ?d = "lengths_byte (map item_length vs) BytesOffset 0 # drop 1 d"
  have "CompressItem dest (vs @ rest) = Some (?d, length (group_code vs))"
    using assms d(1,2) by (simp add: CompressItem_def store_bytes_def group_code_def)
  moreover have "take (length (item_code vs)) (drop 1 d) = item_code vs"
  proof -
    have "drop 1 (take (1 + length (item_code vs)) d) = item_code vs"
      unfolding d(3) using assms(2) by simp
    then show ?thesis
      by (simp add: drop_take)
  qed
  moreover have "length ?d = length dest"
    using d(2) assms(2) by simp
  ultimately show thesis
    using that [of ?d] by (simp add: group_code_def)
qed

text \<open>The byte of the lengths gives the lengths back.\<close>

lemma lengths_byte_fields:
  assumes "l0 \<in> {1..4}" "l1 \<in> {1..4}" "l2 \<in> {1..4}" "l3 \<in> {1..4}"
  shows "field_lengths (unat (lengths_byte [l0, l1, l2, l3] BytesOffset 0)) = [l0, l1, l2, l3]"
proof -
  have "l \<in> {1..4} \<Longrightarrow> l = 1 \<or> l = 2 \<or> l = 3 \<or> l = 4" for l :: nat
    by auto
  then have "l0 = 1 \<or> l0 = 2 \<or> l0 = 3 \<or> l0 = 4" "l1 = 1 \<or> l1 = 2 \<or> l1 = 3 \<or> l1 = 4"
    "l2 = 1 \<or> l2 = 2 \<or> l2 = 3 \<or> l2 = 4" "l3 = 1 \<or> l3 = 2 \<or> l3 = 3 \<or> l3 = 4"
    using assms by blast+
  then show ?thesis
    by (elim disjE; simp add: BytesOffset_def field_lengths_def)
qed

lemma read_fields_code:
  "read_fields (map (\<lambda>v. 8 * item_length v) vs) (item_code vs @ rest) = Some vs"
  by (induction vs arbitrary: rest) (simp_all add: item_code_def word_of_item)

lemma DecompressItem_code:
  assumes "length vs = 4" "4 \<le> length dest"
  shows "DecompressItem dest (group_code vs @ rest) = Some (vs @ drop 4 dest, length (group_code vs))"
proof -
  obtain a b c d where vs: "vs = [a, b, c, d]"
    using assms(1) by (auto simp: length_Suc_conv numeral_eq_Suc)
  let ?p = "lengths_byte (map item_length vs) BytesOffset 0"
  have fl: "field_lengths (unat ?p) = map item_length vs"
    unfolding vs using item_length_bounds by (simp only: list.map, intro lengths_byte_fields) (simp_all add: Suc_le_eq)
  have p: "unat ?p < 256"
    using unsigned_less [of ?p, where ?'a = nat] by simp
  have "GROUP_VARINT_TYPES ! unat ?p = map (\<lambda>v. 8 * item_length v) vs"
    using GROUP_VARINT_TYPES_nth [OF p] fl by (simp add: comp_def)
  moreover have "GROUP_VARINT_IDX_ARR ! unat ?p ! 4 = length (group_code vs)"
    using GROUP_VARINT_IDX_ARR_nth [OF p] fl by (simp add: group_code_def item_code_def vs)
  ultimately show ?thesis
    using assms(2) read_fields_code [of vs rest] by (simp add: DecompressItem_def group_code_def)
qed

section \<open>Blocks\<close>

primrec groups_code :: "nat \<Rightarrow> u32 list \<Rightarrow> bytes" where
  "groups_code 0 vs = []"
| "groups_code (Suc n) vs = group_code (take 4 vs) @ groups_code n (drop 4 vs)"

lemma group_code_length: "length vs = 4 \<Longrightarrow> length (group_code vs) \<le> 17"
proof -
  assume "length vs = 4"
  then obtain a b c d where vs: "vs = [a, b, c, d]"
    by (auto simp: length_Suc_conv numeral_eq_Suc)
  show ?thesis
    using item_length_bounds(2) [of a] item_length_bounds(2) [of b] item_length_bounds(2) [of c] item_length_bounds(2) [of d]
    by (simp add: vs group_code_def item_code_def)
qed

lemma groups_code_length: "4 * n \<le> length vs \<Longrightarrow> length (groups_code n vs) \<le> 17 * n"
proof (induction n arbitrary: vs)
  case (Suc n)
  have "length (groups_code n (drop 4 vs)) \<le> 17 * n"
    using Suc.prems by (intro Suc.IH) simp
  then show ?case
    using group_code_length [of "take 4 vs"] Suc.prems by simp
qed simp

lemma gv_code_groups: "gv_code vs = groups_code (length vs div 4) vs @ concat (map vbytes (drop (4 * (length vs div 4)) vs))"
proof (induction vs rule: gv_code.induct)
  case (1 vs)
  show ?case
  proof (cases "4 \<le> length vs")
    case True
    have d: "length vs div 4 = Suc (length (drop 4 vs) div 4)"
      using True by (simp add: div_if)
    show ?thesis
      using True 1 [OF True] unfolding d by (subst gv_code.simps) (simp add: add.commute)
  next
    case False
    then show ?thesis
      by (subst gv_code.simps) simp
  qed
qed

lemma gv_code_Nil [simp]: "gv_code [] = []"
  by (simp add: gv_code.simps)

lemma gv_code_append: "4 dvd length xs \<Longrightarrow> gv_code (xs @ ys) = gv_code xs @ gv_code ys"
proof (induction xs rule: gv_code.induct)
  case (1 xs)
  show ?case
  proof (cases "4 \<le> length xs")
    case True
    moreover have "4 dvd length (drop 4 xs)"
      using 1(2) True by (simp add: dvd_diff_nat)
    ultimately show ?thesis
      using 1(1) [OF True] by (subst (1 2) gv_code.simps) simp
  next
    case False
    then have "xs = []"
      using 1(2) by (auto dest: dvd_imp_le)
    then show ?thesis
      by simp
  qed
qed

text \<open>Writing at an offset: what was there before stays.\<close>

lemma take_at_offset:
  assumes "off \<le> length mem" "take (length c) d = c"
  shows "take (off + length c) (at_offset off mem d) = take off mem @ c"
  using assms by (simp add: at_offset_def)

lemma length_at_offset: "off \<le> length mem \<Longrightarrow> length d = length mem - off \<Longrightarrow> length (at_offset off mem d) = length mem"
  by (simp add: at_offset_def)

lemma compress_items_code:
  assumes "4 * n \<le> length src" "off + 17 * n \<le> length dest"
  shows "\<exists>d. compress_items n dest off destLen src =
      Some (d, off + length (groups_code n src), destLen - of_nat (length (groups_code n src))) \<and>
    length d = length dest \<and> take (off + length (groups_code n src)) d = take off dest @ groups_code n src"
  using assms
proof (induction n arbitrary: dest off destLen src)
  case 0
  then show ?case by simp
next
  case (Suc n)
  let ?g = "group_code (take 4 src)" and ?gs = "groups_code n (drop 4 src)"
  have "length (take 4 src) = 4" "17 \<le> length (drop off dest)"
    using Suc.prems by simp_all
  then obtain d where d: "CompressItem (drop off dest) (take 4 src @ drop 4 src) = Some (d, length ?g)" "length d = length (drop off dest)"
    "take (length ?g) d = ?g"
    by (rule CompressItem_code)
  let ?m = "at_offset off dest d"
  have m: "length ?m = length dest" "take (off + length ?g) ?m = take off dest @ ?g"
    using d(2,3) Suc.prems(2) by (simp_all add: length_at_offset take_at_offset)
  have "4 * n \<le> length (drop 4 src)" "off + length ?g + 17 * n \<le> length ?m"
    using Suc.prems m(1) group_code_length [of "take 4 src"] by simp_all
  then obtain d' where d': "compress_items n ?m (off + length ?g) (destLen - of_nat (length ?g)) (drop 4 src) =
      Some (d', off + length ?g + length ?gs, destLen - of_nat (length ?g) - of_nat (length ?gs))"
    "length d' = length ?m" "take (off + length ?g + length ?gs) d' = take (off + length ?g) ?m @ ?gs"
    using Suc.IH by blast
  then show ?case
    using d(1) m Suc.prems by (simp add: add.assoc diff_diff_eq)
qed

lemma limit_enough:
  assumes "n < 2 ^ 32" "k \<le> n"
  shows "k \<le> unat (ucast (of_nat n :: u64) :: u32)"
proof -
  have "unat (ucast (of_nat n :: u64) :: u32) = n"
    using assms(1) by (simp add: unsigned_of_nat unsigned_ucast_eq take_bit_nat_eq_self)
  then show ?thesis
    using assms(2) by simp
qed

lemma compress_left_code:
  assumes "off + 5 * length vs \<le> length dest" "length dest < 2 ^ 32" "destLen = of_nat (length dest - off)"
  shows "\<exists>d. compress_left dest off destLen vs = Some (StatusOK, d, off + length (concat (map vbytes vs))) \<and>
    length d = length dest \<and> take (off + length (concat (map vbytes vs))) d = take off dest @ concat (map vbytes vs)"
  using assms
proof (induction vs arbitrary: dest off destLen)
  case Nil
  then show ?case by simp
next
  case (Cons v vs)
  let ?c = "vbytes v" and ?cs = "concat (map vbytes vs)"
  have v: "length ?c \<le> 5"
    by (rule vbytes_le_5)
  let ?d = "?c @ drop (length ?c) (drop off dest)"
  have enc: "EncodeVInt32 (drop off dest) (unat (ucast destLen :: u32)) v = Some (StatusOK, ?d, length ?c)"
    unfolding Cons.prems(3) using Cons.prems(1,2) v by (intro EncodeVInt32_vbytes limit_enough) simp_all
  let ?m = "at_offset off dest ?d"
  have m: "length ?m = length dest" "take (off + length ?c) ?m = take off dest @ ?c"
    using Cons.prems(1) v by (simp_all add: length_at_offset take_at_offset)
  have "destLen - of_nat (length ?c) = of_nat (length ?m - (off + length ?c))"
    using Cons.prems(1,3) v m(1) by (simp add: of_nat_diff)
  then obtain d' where d': "compress_left ?m (off + length ?c) (destLen - of_nat (length ?c)) vs =
      Some (StatusOK, d', off + length ?c + length ?cs)"
    "length d' = length ?m" "take (off + length ?c + length ?cs) d' = take (off + length ?c) ?m @ ?cs"
    using Cons.IH [of "off + length ?c" ?m] Cons.prems v m(1) by auto
  then show ?case
    using enc m Cons.prems(1) by (simp add: add.assoc)
qed

text \<open>The room that the code of \<open>n\<close> values takes at most.\<close>

definition gv_room :: "nat \<Rightarrow> nat" where
  "gv_room n = 17 * (n div 4) + 5 * (n mod 4)"

lemma gv_code_length: "length (gv_code vs) \<le> gv_room (length vs)"
proof -
  have "length (concat (map vbytes ws)) \<le> 5 * length ws" for ws
    by (induction ws) (use vbytes_le_5 in \<open>auto intro: add_mono\<close>)
  then have "length (concat (map vbytes (drop (4 * (length vs div 4)) vs))) \<le> 5 * (length vs mod 4)"
    using minus_mult_div_eq_mod [of "length vs" 4] by (metis length_drop)
  then show ?thesis
    using groups_code_length [of "length vs div 4" vs] by (simp add: gv_code_groups gv_room_def)
qed

lemma GroupVarint_CompressBlock_code:
  assumes "gv_room (length src) \<le> length dest" "length dest < 2 ^ 32" "destLen = of_nat (length dest)"
  obtains d where "GroupVarint_CompressBlock dest destLen src = Some (StatusOK, d, length (gv_code src))" "length d = length dest"
    "take (length (gv_code src)) d = gv_code src"
proof -
  let ?n = "length src div 4" and ?left = "drop (4 * (length src div 4)) src"
  let ?g = "groups_code ?n src"
  have room: "17 * ?n + 5 * length ?left \<le> length dest"
    using assms(1) minus_mult_div_eq_mod [of "length src" 4] by (simp add: gv_room_def)
  obtain d where d: "compress_items ?n dest 0 destLen src = Some (d, length ?g, destLen - of_nat (length ?g))"
    "length d = length dest" "take (length ?g) d = ?g"
    using compress_items_code [of ?n src 0 dest destLen] room by auto
  have g: "length ?g \<le> 17 * ?n"
    by (rule groups_code_length) simp
  then have "destLen - of_nat (length ?g) = of_nat (length d - length ?g)"
    using assms(3) d(2) room by (simp add: of_nat_diff)
  then obtain d' where "compress_left d (length ?g) (destLen - of_nat (length ?g)) ?left =
      Some (StatusOK, d', length ?g + length (concat (map vbytes ?left)))"
    "length d' = length d" "take (length ?g + length (concat (map vbytes ?left))) d' = take (length ?g) d @ concat (map vbytes ?left)"
    using compress_left_code [of "length ?g" ?left d] room g d(2) assms(2) by auto
  then show thesis
    using that [of d'] d by (simp add: GroupVarint_CompressBlock_def gv_code_groups)
qed

section \<open>Whole arrays\<close>

lemma size_minus_le: "b \<le> a \<Longrightarrow> a < 2 ^ 64 \<Longrightarrow> size_minus a b = a - b"
  by (simp add: size_minus_def unsigned_of_nat take_bit_nat_eq_self flip: of_nat_diff)

lemma gv_room_block: "128 \<le> n \<Longrightarrow> gv_room n = 544 + gv_room (n - 128)"
proof -
  assume "128 \<le> n"
  then obtain m where "n = 128 + m"
    using le_Suc_ex by blast
  moreover have "(128 + m) div 4 = 32 + m div 4" "(128 + m) mod 4 = m mod 4"
    by presburger+
  ultimately show ?thesis
    by (simp add: gv_room_def)
qed

lemma compress_blocks_code:
  assumes "n = (length src - offset + 127) div 128" "offset \<le> length src" "off + gv_room (length src - offset) \<le> length dest"
    "length dest < 2 ^ 32" "destLen = of_nat (length dest - off)" "length src < 2 ^ 64"
  shows "\<exists>d. compress_blocks n dest off destLen src offset = Some (StatusOK, d, off + length (gv_code (drop offset src))) \<and>
    length d = length dest \<and> take (off + length (gv_code (drop offset src))) d = take off dest @ gv_code (drop offset src)"
  using assms
proof (induction n arbitrary: dest off destLen offset)
  case 0
  then have "drop offset src = []"
    by (simp add: div_eq_0_iff)
  then show ?case
    by simp
next
  case (Suc n)
  define left where "left = length src - offset"
  define len where "len = min left 128"
  have n: "Suc n = (left + 127) div 128"
    using Suc.prems(1) by (simp only: left_def)
  let ?b = "take len (drop offset src)"
  have lens: "0 < left" "offset + len \<le> length src" "length ?b = len" "size_minus (length src) offset = left"
    using Suc.prems size_minus_le by (auto simp: left_def len_def div_eq_0_iff)
  have code: "gv_code (drop offset src) = gv_code ?b @ gv_code (drop (offset + len) src)"
  proof (cases "left \<le> 128")
    case True
    then show ?thesis
      using lens(2) by (simp add: len_def left_def)
  next
    case False
    then have "4 dvd length ?b"
      using lens(3) by (simp add: len_def)
    then show ?thesis
      using gv_code_append [of ?b "drop len (drop offset src)"] unfolding append_take_drop_id by (simp add: add.commute)
  qed
  have room: "gv_room left = gv_room len + gv_room (length src - (offset + len))"
    using gv_room_block [of left] by (auto simp: len_def left_def min_def gv_room_def [of 128] gv_room_def [of 0])
  have "gv_room (length ?b) \<le> length (drop off dest)" "length (drop off dest) < 2 ^ 32" "destLen = of_nat (length (drop off dest))"
    using Suc.prems(3-5) room lens(3) by (simp_all add: left_def)
  then obtain d where d: "GroupVarint_CompressBlock (drop off dest) destLen ?b = Some (StatusOK, d, length (gv_code ?b))"
    "length d = length (drop off dest)" "take (length (gv_code ?b)) d = gv_code ?b"
    by (rule GroupVarint_CompressBlock_code)
  let ?m = "at_offset off dest d" and ?c = "gv_code ?b"
  have c: "length ?c \<le> gv_room len"
    using gv_code_length [of ?b] lens(3) by simp
  have m: "length ?m = length dest" "take (off + length ?c) ?m = take off dest @ ?c"
    using d(2,3) Suc.prems(3) by (simp_all add: length_at_offset take_at_offset)
  have step: "compress_blocks (Suc n) dest off destLen src offset =
      compress_blocks n ?m (off + length ?c) (destLen - of_nat (length ?c)) src (offset + 128)"
  proof -
    have len: "(if left \<le> GroupVarint_BLOCK_SIZE then left else GroupVarint_BLOCK_SIZE) = len"
      by (simp add: GroupVarint_BLOCK_SIZE_def len_def)
    have "off \<le> length dest"
      using Suc.prems(3) by simp
    then show ?thesis
      unfolding compress_blocks.simps(2) Let_def lens(4) len
      by (simp only: d(1) lens(2) simp_thms if_True if_False Option.bind.simps prod.case GroupVarint_BLOCK_SIZE_def)
  qed
  show ?case
  proof (cases "left \<le> 128")
    case True
    then have "(left + 127) div 128 < 2"
      by (simp add: div_less_iff_less_mult)
    then have "n = 0"
      unfolding n [symmetric] by simp
    moreover have "drop (offset + len) src = []"
      using True by (simp add: left_def len_def)
    then have "gv_code (drop offset src) = ?c"
      unfolding code by (simp only: gv_code_Nil append_Nil2)
    ultimately show ?thesis
      using step m by (simp only: compress_blocks.simps(1)) blast
  next
    case False
    then have len128: "len = 128"
      by (simp add: len_def)
    have "destLen - of_nat (length ?c) = of_nat (length ?m - (off + length ?c))"
      using Suc.prems(3,5) c room m(1) by (simp add: of_nat_diff left_def)
    moreover have "n = (length src - (offset + 128) + 127) div 128"
    proof -
      have "length src - (offset + 128) = left - 128"
        by (simp add: left_def)
      moreover have "left + 127 = 128 + (left - 128 + 127)"
        using False by simp
      then have "Suc n = (left - 128 + 127) div 128 + 1"
        unfolding n by (simp only: div_add_self1)
      ultimately show ?thesis
        by simp
    qed
    moreover have "offset + 128 \<le> length src"
      using False by (simp add: left_def)
    moreover have "off + length ?c + gv_room (length src - (offset + 128)) \<le> length ?m"
      using Suc.prems(3) c room m(1) unfolding left_def len128 by linarith
    moreover have "length ?m < 2 ^ 32"
      using m(1) Suc.prems(4) by simp
    ultimately obtain d' where "compress_blocks n ?m (off + length ?c) (destLen - of_nat (length ?c)) src (offset + 128) =
        Some (StatusOK, d', off + length ?c + length (gv_code (drop (offset + 128) src)))"
      "length d' = length ?m"
      "take (off + length ?c + length (gv_code (drop (offset + 128) src))) d' = take (off + length ?c) ?m @ gv_code (drop (offset + 128) src)"
      using Suc.IH Suc.prems(6) by blast
    then show ?thesis
      using step m code len128 by (simp add: add.assoc)
  qed
qed

lemma GroupVarint_Compress_code:
  assumes "src \<noteq> []" "gv_room (length src) \<le> length dest" "length dest < 2 ^ 32"
  obtains d where "GroupVarint_Compress dest (of_nat (length dest)) src = Some (StatusOK, d, length (gv_code src))"
    "length d = length dest" "take (length (gv_code src)) d = gv_code src"
proof -
  have "length src \<le> gv_room (length src)"
    using div_mult_mod_eq [of "length src" 4] unfolding gv_room_def by linarith
  then have l: "length src < 2 ^ 64"
    using assms(2,3) by simp
  have n: "size_minus (length src) 1 div GroupVarint_BLOCK_SIZE + 1 = (length src - 0 + 127) div 128"
    using assms(1) l by (cases "length src") (simp_all add: size_minus_le GroupVarint_BLOCK_SIZE_def)
  show thesis
    using compress_blocks_code [OF n, of 0 dest "of_nat (length dest)"] assms(2,3) l that by (auto simp: GroupVarint_Compress_def)
qed

text \<open>Compressing nothing reads past the source.\<close>

lemma GroupVarint_Compress_empty: "GroupVarint_Compress dest destLen [] = None"
proof -
  have "size_minus 0 1 div GroupVarint_BLOCK_SIZE + 1 = Suc (Suc (2 ^ 57 - 2))"
    by (simp add: size_minus_def GroupVarint_BLOCK_SIZE_def unsigned_minus_1_eq_mask mask_eq_exp_minus_1)
  moreover have "compress_blocks (Suc (Suc n)) dest 0 destLen [] 0 = None" for n
  proof -
    have "size_minus 0 0 = 0" "\<not> size_minus 0 128 \<le> 128"
      by (simp_all add: size_minus_def)
    then show ?thesis
      by (simp add: Let_def GroupVarint_CompressBlock_def GroupVarint_BLOCK_SIZE_def at_offset_def)
  qed
  ultimately show ?thesis
    by (simp only: GroupVarint_Compress_def list.size)
qed

section \<open>Decompression\<close>

lemma decompress_items_code:
  assumes "4 * n \<le> length vs" "k + 4 * n \<le> length dest" "drop offset src = groups_code n vs @ rest" "offset \<le> length src"
  shows "decompress_items n dest k src offset = Some (take k dest @ take (4 * n) vs @ drop (k + 4 * n) dest, offset + length (groups_code n vs))"
  using assms
proof (induction n arbitrary: vs dest k offset)
  case 0
  then show ?case by simp
next
  case (Suc n)
  let ?g = "group_code (take 4 vs)" and ?d = "take k dest @ take 4 vs @ drop 4 (drop k dest)"
  have "DecompressItem (drop k dest) (?g @ groups_code n (drop 4 vs) @ rest) = Some (take 4 vs @ drop 4 (drop k dest), length ?g)"
    using Suc.prems(1,2) by (intro DecompressItem_code) simp_all
  then have step: "decompress_items (Suc n) dest k src offset = decompress_items n ?d (k + 4) src (offset + length ?g)"
    using Suc.prems by simp
  have off: "drop (offset + length ?g) src = groups_code n (drop 4 vs) @ rest"
    using arg_cong [OF Suc.prems(3), of "drop (length ?g)"] by (simp add: add.commute)
  have "offset + length ?g \<le> length src"
    using arg_cong [OF Suc.prems(3), of length] Suc.prems(4) by simp
  then have "decompress_items n ?d (k + 4) src (offset + length ?g) =
      Some (take (k + 4) ?d @ take (4 * n) (drop 4 vs) @ drop (k + 4 + 4 * n) ?d, offset + length ?g + length (groups_code n (drop 4 vs)))"
    using Suc.prems off by (intro Suc.IH) simp_all
  moreover have "take (k + 4) ?d = take k dest @ take 4 vs" "drop (k + 4 + 4 * n) ?d = drop (k + 4 + 4 * n) dest"
    using Suc.prems(1,2) by (simp_all add: ac_simps)
  moreover have "take (4 * Suc n) vs = take 4 vs @ take (4 * n) (drop 4 vs)"
    by (simp add: take_add)
  ultimately show ?case
    using step by (simp add: add.assoc)
qed

lemma decompress_left_code:
  assumes "k + length vs \<le> length dest" "5 * length vs \<le> limit"
  shows "decompress_left (length vs) dest k (concat (map vbytes vs) @ rest) limit =
    Some (StatusOK, take k dest @ vs @ drop (k + length vs) dest, k + length vs, rest)"
  using assms
proof (induction vs arbitrary: dest k limit)
  case Nil
  then show ?case by simp
next
  case (Cons v vs)
  have v: "length (vbytes v) \<le> 5"
    by (rule vbytes_le_5)
  have "DecodeVInt32 (vbytes v @ concat (map vbytes vs) @ rest) limit =
      Some (StatusOK, v, concat (map vbytes vs) @ rest, limit - length (vbytes v))"
    using Cons.prems(2) v by (intro DecodeVInt32_vbytes) simp
  then have "decompress_left (length (v # vs)) dest k (concat (map vbytes (v # vs)) @ rest) limit =
      decompress_left (length vs) (dest[k := v]) (k + 1) (concat (map vbytes vs) @ rest) (limit - length (vbytes v))"
    using Cons.prems(1) by simp
  also have "\<dots> = Some (StatusOK, take (k + 1) (dest[k := v]) @ vs @ drop (k + 1 + length vs) (dest[k := v]), k + 1 + length vs, rest)"
    using Cons.prems v by (intro Cons.IH) simp_all
  finally show ?case
    using Cons.prems(1) by (simp add: take_Suc_conv_app_nth)
qed

lemma GroupVarint_Decompress_code:
  assumes "length vs \<le> length dest"
  shows "GroupVarint_Decompress dest (gv_code vs @ rest) (length vs) =
    Some (StatusOK, vs @ drop (length vs) dest, length vs, length (gv_code vs))"
proof -
  define n m where "n = length vs div 4" and "m = length vs mod 4"
  have l: "length vs = 4 * n + m"
    by (simp add: n_def m_def)
  have "m < 4"
    by (simp add: m_def)
  then have dm: "(4 * n + m) div 4 = n" "(4 * n + m) mod 4 = m"
    by simp_all
  let ?g = "groups_code n vs" and ?left = "drop (4 * n) vs"
  have code: "gv_code vs = ?g @ concat (map vbytes ?left)"
    by (simp add: gv_code_groups n_def)
  let ?d = "take (4 * n) vs @ drop (4 * n) dest"
  have items: "decompress_items n dest 0 (gv_code vs @ rest) 0 = Some (?d, length ?g)"
    using decompress_items_code [of n vs 0 dest 0 "gv_code vs @ rest" "concat (map vbytes ?left) @ rest"] assms l code by simp
  show ?thesis
  proof (cases "m = 0")
    case True
    then show ?thesis
      using items l code by (simp add: GroupVarint_Decompress_def l dm Let_def del: div_mult_self4 mod_mult_self4)
  next
    case False
    have "decompress_left m ?d (4 * n) (concat (map vbytes ?left) @ rest) (5 * m) =
        Some (StatusOK, take (4 * n) ?d @ ?left @ drop (4 * n + m) ?d, 4 * n + m, rest)"
      using decompress_left_code [of "4 * n" ?left ?d "5 * m" rest] assms l by simp
    moreover have "take (4 * n) ?d @ ?left @ drop (4 * n + m) ?d = vs @ drop (length vs) dest"
    proof -
      have "take (4 * n) ?d = take (4 * n) vs" "drop (4 * n + m) ?d = drop (length vs) dest"
        using assms l by (simp_all add: ac_simps)
      then show ?thesis
        by (metis append.assoc append_take_drop_id)
    qed
    ultimately show ?thesis
      using items l code False by (simp add: GroupVarint_Decompress_def l dm Let_def del: div_mult_self4 mod_mult_self4)
  qed
qed

end
