(* ===== verification/VarintProps.thy ===== *)
theory VarintProps
  imports GroupVarint
begin

text \<open>
  The properties of the integer encodings of variable length: single values and groups of four are read back as they were
  written.
\<close>

section \<open>Single values\<close>

text \<open>
  C17. A variable length integer: for any 32-bit value, given room for five bytes, \<^verbatim>\<open>EncodeVInt32\<close> writes as many bytes as
  \<^verbatim>\<open>GetVInt32Length\<close> says, between one and five, and leaves the rest of the memory alone; both readers give the value
  back from these bytes, whatever follows, and move just past them.  A limit that is too small is reported, and nothing is
  written past it.
\<close>

theorem vbyte_round_trip:
  assumes "5 \<le> length mem" "5 \<le> maxOut" "limit < GetVInt32Length v"
  shows "\<exists>bs. EncodeVInt32 mem maxOut v = Some (StatusOK, bs @ drop (length bs) mem, length bs) \<and>
    length bs = GetVInt32Length v \<and> 1 \<le> length bs \<and> length bs \<le> 5 \<and>
    DecodeVInt32 (bs @ rest) (length bs + n) = Some (StatusOK, v, rest, n) \<and> ReadVUInt32 (bs @ rest) = Some (v, rest) \<and>
    (\<exists>mem' k. EncodeVInt32 mem limit v = Some (OutOfRange, mem', k) \<and> drop limit mem' = drop limit mem)"
proof -
  have len: "length (vbytes v) \<le> 5" "1 \<le> length (vbytes v)"
    using vbytes_le_5 [of v] by (simp_all add: Suc_le_eq)
  have "\<exists>mem' k. EncodeVInt32 mem limit v = Some (OutOfRange, mem', k) \<and> drop limit mem' = drop limit mem"
    using encode_loop_limit [of 0 limit v mem] assms(1,3) len(1) by (auto simp: EncodeVInt32_def GetVInt32Length_vbytes)
  then show ?thesis
    using EncodeVInt32_vbytes [of v maxOut mem] DecodeVInt32_vbytes [of v "length (vbytes v) + n" rest] ReadVUInt32_vbytes [of v rest]
      assms(1,2) len by (intro exI [of _ "vbytes v"]) (simp add: GetVInt32Length_vbytes)
qed

theorem vbyte_round_trip_witness:
  "\<exists>bs. EncodeVInt32 (replicate 6 0) 6 300 = Some (StatusOK, bs @ drop (length bs) (replicate 6 0), length bs) \<and>
    DecodeVInt32 (bs @ [7]) (length bs + 1) = Some (StatusOK, 300, [7], 1)"
proof -
  have "1 < GetVInt32Length 300"
    by (simp add: GetVInt32Length_def length_loop.simps)
  then show ?thesis
    using vbyte_round_trip [of "replicate 6 0" 6 1 300 "[7]" 1] by auto
qed

section \<open>Groups of four\<close>

text \<open>
  C16. The group coder: any nonempty array of 32-bit values, given 17 bytes of room for each four values and five for each
  that is left in a destination of less than 4 GiB, is compressed to at most that many bytes, and decompressing these bytes for the same number of values
  gives the array back, leaves the rest of the destination alone, and reports that it has read all the bytes.
\<close>

theorem group_varint_round_trip:
  assumes "src \<noteq> []" "gv_room (length src) \<le> length dest" "length dest < 2 ^ 32" "length src \<le> length out"
  shows "\<exists>d n. GroupVarint_Compress dest (of_nat (length dest)) src = Some (StatusOK, d, n) \<and>
    n \<le> gv_room (length src) \<and> length d = length dest \<and>
    GroupVarint_Decompress out (take n d @ rest) (length src) = Some (StatusOK, src @ drop (length src) out, length src, n)"
proof -
  obtain d where "GroupVarint_Compress dest (of_nat (length dest)) src = Some (StatusOK, d, length (gv_code src))"
    "length d = length dest" "take (length (gv_code src)) d = gv_code src"
    using GroupVarint_Compress_code [OF assms(1-3)] .
  then show ?thesis
    using GroupVarint_Decompress_code [OF assms(4), of rest] gv_code_length [of src] by auto
qed

theorem group_varint_round_trip_witness:
  "\<exists>d n. GroupVarint_Compress (replicate 27 0) 27 [1, 300, 70000, 5, 1000, 2] = Some (StatusOK, d, n) \<and>
    GroupVarint_Decompress (replicate 7 9) (take n d @ []) 6 = Some (StatusOK, [1, 300, 70000, 5, 1000, 2, 9], 6, n)"
proof -
  have "length [1, 300, 70000, 5, 1000, 2 :: u32] = 6"
    by simp
  then show ?thesis
    using group_varint_round_trip [of "[1, 300, 70000, 5, 1000, 2]" "replicate 27 0" "replicate 7 9" "[]"]
    by (simp only: length_replicate) (auto simp: gv_room_def simp del: list.size)
qed

end
