(* ===== verification/LayerMetas.thy ===== *)
theory LayerMetas
  imports QuerySeek
begin

text \<open>
  The ranges of documents that a search visits: \<^verbatim>\<open>DocIdRangeMeta\<close> and \<^verbatim>\<open>LayerMeta\<close> of \<^verbatim>\<open>ha3/search/LayerMetas.h\<close>, the full
  range of a partition of \<^verbatim>\<open>DefaultLayerMetaUtil.cpp\<close>, \<^verbatim>\<open>autil/TimeoutTerminator.h\<close>, and the restriction of a query to a
  layer of \<^verbatim>\<open>QueryExecutorRestrictor.cpp\<close>.  The clock is the function \<open>clock\<close> from the number of earlier readings to the time.
\<close>

section \<open>Layers\<close>

datatype ordered_type = OT_ORDERED | OT_UNORDERED | OT_UNKNOWN

datatype quota_mode = QM_PER_DOC | QM_PER_LAYER | QM_UNKNOWN

datatype quota_type = QT_PROPOTION | QT_AVERAGE | QT_QUOTA | QT_UNKNOW

record doc_id_range_meta =
  rm_nextBegin :: docid
  rm_end :: docid
  rm_quota :: u32
  rm_begin :: docid
  rm_ordered :: ordered_type

definition range_meta :: "docid \<Rightarrow> docid \<Rightarrow> ordered_type \<Rightarrow> u32 \<Rightarrow> doc_id_range_meta" where
  "range_meta b e ot q = \<lparr>rm_nextBegin = b, rm_end = e, rm_quota = q, rm_begin = b, rm_ordered = ot\<rparr>"

record layer_meta =
  lm_ranges :: "doc_id_range_meta list"
  lm_quota :: u32
  lm_maxQuota :: u32
  lm_quotaMode :: quota_mode
  lm_needAggregate :: bool
  lm_quotaType :: quota_type

definition layer_meta_init :: layer_meta where
  "layer_meta_init = \<lparr>lm_ranges = [], lm_quota = 0, lm_maxQuota = 0xFFFFFFFF, lm_quotaMode = QM_PER_DOC,
     lm_needAggregate = True, lm_quotaType = QT_PROPOTION\<rparr>"

text \<open>
  \<^verbatim>\<open>createFullRange\<close>: the answers of the partition, half open ranges, as a layer of closed ranges without the empty
  ones.  The arguments are the results of \<^verbatim>\<open>GetOrderedDocIdRanges\<close> and \<^verbatim>\<open>GetUnorderedDocIdRange\<close>.
\<close>

definition closed_range :: "ordered_type \<Rightarrow> docid \<times> docid \<Rightarrow> doc_id_range_meta list" where
  "closed_range ot r = (let l = snd r - 1 in if l \<ge> fst r then [range_meta (fst r) l ot 0] else [])"

definition create_full_range :: "(docid \<times> docid) list option \<Rightarrow> (docid \<times> docid) option \<Rightarrow> layer_meta" where
  "create_full_range ordered unordered =
     layer_meta_init\<lparr>lm_ranges :=
       (case ordered of None \<Rightarrow> [] | Some rs \<Rightarrow> concat (map (closed_range OT_ORDERED) rs)) @
       (case unordered of None \<Rightarrow> [] | Some r \<Rightarrow> closed_range OT_UNORDERED r)\<rparr>"

definition create_default_layer_metas :: "(docid \<times> docid) list option \<Rightarrow> (docid \<times> docid) option \<Rightarrow> layer_meta list" where
  "create_default_layer_metas ordered unordered = [(create_full_range ordered unordered)\<lparr>lm_quota := 0xFFFFFFFF\<rparr>]"

section \<open>Timeouts\<close>

definition TIME_ADD :: "int \<Rightarrow> int \<Rightarrow> int option" where
  "TIME_ADD startTime diff = (if startTime \<ge> 0 then Some (startTime + min diff (2 ^ 63 - 1 - startTime)) else None)"

record terminator =
  tt_timeout :: int
  tt_expireTime :: int
  tt_startTime :: int
  tt_checkMask :: u32
  tt_checkTimes :: u32
  tt_restrictorCheckMask :: u32
  tt_restrictorCheckTimes :: u32
  tt_isTimeout :: bool
  tt_isTerminated :: bool
  tt_readings :: nat

text \<open>The steps are powers of two, which the code asserts.\<close>

definition terminator_init :: "u32 \<Rightarrow> u32 \<Rightarrow> terminator \<Rightarrow> terminator option" where
  "terminator_init checkStep restrictStep t =
     (if 0 <s checkStep \<and> (checkStep - 1) AND checkStep = 0 \<and> 0 <s restrictStep \<and> (restrictStep - 1) AND restrictStep = 0 then
        Some (t\<lparr>tt_checkMask := checkStep - 1, tt_checkTimes := 0, tt_restrictorCheckMask := restrictStep - 1,
          tt_restrictorCheckTimes := 0, tt_isTimeout := False, tt_isTerminated := False\<rparr>)
      else None)"

definition terminator_new :: "int \<Rightarrow> int \<Rightarrow> terminator option" where
  "terminator_new timeout startTime =
     (case TIME_ADD startTime timeout of
        None \<Rightarrow> None
      | Some e \<Rightarrow> terminator_init 1 16
          \<lparr>tt_timeout = e - startTime, tt_expireTime = e, tt_startTime = startTime, tt_checkMask = 0, tt_checkTimes = 0,
           tt_restrictorCheckMask = 0, tt_restrictorCheckTimes = 0, tt_isTimeout = False, tt_isTerminated = False,
           tt_readings = 0\<rparr>)"

text \<open>The clock is read when the masked count of calls is zero.\<close>

definition check_clock :: "(nat \<Rightarrow> int) \<Rightarrow> bool \<Rightarrow> terminator \<Rightarrow> bool \<times> terminator" where
  "check_clock clock needCheck t =
     (let t = (if needCheck then
                 let now = clock (tt_readings t); t = t\<lparr>tt_readings := tt_readings t + 1\<rparr>
                 in if now \<ge> tt_expireTime t then t\<lparr>tt_isTimeout := True, tt_isTerminated := True\<rparr> else t
               else t)
      in (tt_isTerminated t, t))"

definition check_timeout :: "(nat \<Rightarrow> int) \<Rightarrow> terminator \<Rightarrow> bool \<times> terminator" where
  "check_timeout clock t =
     check_clock clock (tt_checkTimes t AND tt_checkMask t = 0) (t\<lparr>tt_checkTimes := tt_checkTimes t + 1\<rparr>)"

definition check_restrict_timeout :: "(nat \<Rightarrow> int) \<Rightarrow> terminator \<Rightarrow> bool \<times> terminator" where
  "check_restrict_timeout clock t =
     check_clock clock (tt_restrictorCheckTimes t AND tt_restrictorCheckMask t = 0)
       (t\<lparr>tt_restrictorCheckTimes := tt_restrictorCheckTimes t + 1\<rparr>)"

text \<open>A terminator that reports no timeout, because the clock stays before its time.\<close>

definition never_expires :: "(nat \<Rightarrow> int) \<Rightarrow> terminator \<Rightarrow> bool" where
  "never_expires clock t \<longleftrightarrow> \<not> tt_isTerminated t \<and> (\<forall>i. clock i < tt_expireTime t)"

lemma check_clock_never:
  assumes "never_expires clock t"
  obtains t' where "check_clock clock b t = (False, t')" "never_expires clock t'"
proof
  show "check_clock clock b t = (False, snd (check_clock clock b t))" "never_expires clock (snd (check_clock clock b t))"
    using assms by (auto simp: check_clock_def never_expires_def Let_def not_le [symmetric])
qed

lemma check_timeout_never:
  assumes "never_expires clock t"
  obtains t' where "check_timeout clock t = (False, t')" "never_expires clock t'"
proof -
  have "never_expires clock (t\<lparr>tt_checkTimes := tt_checkTimes t + 1\<rparr>)"
    using assms by (simp add: never_expires_def)
  then show ?thesis
    using that unfolding check_timeout_def by (rule check_clock_never)
qed

text \<open>Once terminated, every check reports it.\<close>

lemma check_timeout_terminated:
  "tt_isTerminated t \<Longrightarrow> fst (check_timeout clock t) \<and> tt_isTerminated (snd (check_timeout clock t))"
  by (simp add: check_timeout_def check_clock_def Let_def)

section \<open>Restricting a query to a layer\<close>

record layer_wrapper =
  lw_layerMeta :: layer_meta
  lw_offset :: nat

definition wrapper_reset :: "layer_wrapper \<Rightarrow> layer_wrapper" where
  "wrapper_reset w = w\<lparr>lw_offset := 0\<rparr>"

definition wrapper_init :: "layer_meta \<Rightarrow> layer_wrapper" where
  "wrapper_init m = \<lparr>lw_layerMeta = m, lw_offset = 0\<rparr>"

function skip_ranges :: "doc_id_range_meta list \<Rightarrow> nat \<Rightarrow> docid \<Rightarrow> nat" where
  "skip_ranges rs i d = (if i < length rs \<and> rm_end (rs ! i) < d then skip_ranges rs (i + 1) d else i)"
  by pat_completeness auto
termination
  by (relation "measure (\<lambda>(rs, i, d). length rs - i)") auto

declare skip_ranges.simps [simp del]

definition wrapper_seek :: "layer_wrapper \<Rightarrow> docid \<Rightarrow> docid \<times> layer_wrapper" where
  "wrapper_seek w curDocId =
     (let rs = lm_ranges (lw_layerMeta w); i = skip_ranges rs (lw_offset w) curDocId
      in (if i < length rs then max curDocId (rm_begin (rs ! i)) else END_DOCID, w\<lparr>lw_offset := i\<rparr>))"

record restrictor =
  re_timeoutTerminator :: "terminator option"
  re_layerMetaWrapper :: "layer_wrapper option"

definition set_layer_meta :: "layer_meta option \<Rightarrow> restrictor \<Rightarrow> restrictor" where
  "set_layer_meta m r = r\<lparr>re_layerMetaWrapper := map_option wrapper_init m\<rparr>"

definition meet_restrict :: "(nat \<Rightarrow> int) \<Rightarrow> restrictor \<Rightarrow> docid \<Rightarrow> docid \<times> restrictor" where
  "meet_restrict clock r curDocId =
     (let (out, t) = (case re_timeoutTerminator r of
            None \<Rightarrow> (False, None)
          | Some t \<Rightarrow> map_prod id Some (check_restrict_timeout clock t));
          r = r\<lparr>re_timeoutTerminator := t\<rparr>
      in if out then (END_DOCID, r)
         else case re_layerMetaWrapper r of
                None \<Rightarrow> (curDocId, r)
              | Some w \<Rightarrow> (let (d, w') = wrapper_seek w curDocId in (d, r\<lparr>re_layerMetaWrapper := Some w'\<rparr>)))"

definition restrictor_reset :: "restrictor \<Rightarrow> restrictor" where
  "restrictor_reset r = r\<lparr>re_layerMetaWrapper := map_option wrapper_reset (re_layerMetaWrapper r)\<rparr>"

section \<open>The documents of a layer\<close>

text \<open>Ranges in increasing order, none empty.\<close>

definition range_docs :: "doc_id_range_meta \<Rightarrow> docid set" where
  "range_docs r = {rm_nextBegin r..rm_end r}"

definition layer_docs :: "doc_id_range_meta list \<Rightarrow> docid set" where
  "layer_docs rs = (\<Union>r \<in> set rs. range_docs r)"

definition ranges_ok :: "doc_id_range_meta list \<Rightarrow> bool" where
  "ranges_ok rs \<longleftrightarrow> sorted_wrt (\<lambda>x y. rm_end x < rm_nextBegin y) rs \<and>
     (\<forall>r \<in> set rs. 0 \<le> rm_nextBegin r \<and> rm_nextBegin r \<le> rm_end r \<and> rm_end r < END_DOCID)"

lemma layer_docs_simps [simp]:
  "layer_docs [] = {}" "layer_docs (r # rs) = range_docs r \<union> layer_docs rs" "layer_docs (rs @ ss) = layer_docs rs \<union> layer_docs ss"
  by (auto simp: layer_docs_def)

lemma ranges_ok_simps [simp]:
  "ranges_ok []"
  "ranges_ok (r # rs) \<longleftrightarrow> 0 \<le> rm_nextBegin r \<and> rm_nextBegin r \<le> rm_end r \<and> rm_end r < END_DOCID \<and>
     (\<forall>x \<in> set rs. rm_end r < rm_nextBegin x) \<and> ranges_ok rs"
  by (auto simp: ranges_ok_def)

lemma layer_docs_after: "\<forall>x \<in> set rs. d < rm_nextBegin x \<Longrightarrow> y \<in> layer_docs rs \<Longrightarrow> d < y"
  by (auto simp: layer_docs_def range_docs_def)

lemma layer_docset: "ranges_ok rs \<Longrightarrow> docset (layer_docs rs)"
  by (auto simp: layer_docs_def range_docs_def docset_def ranges_ok_def)

text \<open>\<^verbatim>\<open>LayerMetaWrapper::seek\<close> gives the first document of the layer from its argument on, if it has not gone past it.\<close>

lemma skip_ranges_ge: "i \<le> skip_ranges rs i d"
proof (induction rs i d rule: skip_ranges.induct)
  case (1 rs i d)
  then show ?case
    by (subst skip_ranges.simps) auto
qed

lemma skip_ranges_drop:
  assumes "i \<le> length rs"
  shows "drop (skip_ranges rs i d) rs = dropWhile (\<lambda>r. rm_end r < d) (drop i rs)"
  using assms
proof (induction rs i d rule: skip_ranges.induct)
  case (1 rs i d)
  show ?case
  proof (cases "i < length rs")
    case True
    then show ?thesis
      using 1 by (subst skip_ranges.simps) (auto simp: Cons_nth_drop_Suc [symmetric])
  next
    case False
    then show ?thesis
      by (subst skip_ranges.simps) simp
  qed
qed

lemma nxt_dropWhile:
  assumes "ranges_ok rs" "d \<le> END_DOCID"
  shows "nxt (layer_docs rs) d =
    (case dropWhile (\<lambda>r. rm_end r < d) rs of [] \<Rightarrow> END_DOCID | r # _ \<Rightarrow> max d (rm_nextBegin r))"
  using assms
proof (induction rs)
  case Nil
  then show ?case by (simp add: nxt_def)
next
  case (Cons r rs)
  show ?case
  proof (cases "rm_end r < d")
    case True
    then have "nxt (layer_docs (r # rs)) d = nxt (layer_docs rs) d"
      unfolding nxt_def by (intro if_cong arg_cong [of _ _ Min]) (auto simp: range_docs_def)
    then show ?thesis
      using Cons True by simp
  next
    case False
    have "nxt (layer_docs (r # rs)) d = max d (rm_nextBegin r)"
    proof (rule nxt_eqI)
      show "docset (layer_docs (r # rs))"
        using Cons.prems(1) by (rule layer_docset)
      show "max d (rm_nextBegin r) \<in> layer_docs (r # rs)"
        using Cons.prems(1) False by (auto simp: range_docs_def)
      fix x
      assume "x \<in> layer_docs (r # rs)" "d \<le> x"
      then show "max d (rm_nextBegin r) \<le> x"
        using Cons.prems(1) layer_docs_after [of rs "rm_end r" x] by (auto simp: range_docs_def)
    qed simp
    then show ?thesis
      using False by simp
  qed
qed

lemma wrapper_seek_next:
  assumes "ranges_ok rs" "rs = lm_ranges (lw_layerMeta w)" "\<forall>r \<in> set rs. rm_nextBegin r = rm_begin r"
    "lw_offset w \<le> length rs" "\<forall>r \<in> set (take (lw_offset w) rs). rm_end r < d" "d \<le> END_DOCID"
  shows "fst (wrapper_seek w d) = nxt (layer_docs rs) d"
proof -
  let ?i = "skip_ranges rs (lw_offset w) d"
  have dw: "dropWhile (\<lambda>r. rm_end r < d) rs = drop ?i rs"
    using skip_ranges_drop [OF assms(4), of d] assms(5)
    by (metis append_take_drop_id dropWhile_append2)
  have "nxt (layer_docs rs) d = (if ?i < length rs then max d (rm_begin (rs ! ?i)) else END_DOCID)"
    unfolding nxt_dropWhile [OF assms(1,6)] dw using assms(3) by (simp add: Cons_nth_drop_Suc [symmetric])
  then show ?thesis
    using assms(2) by (simp add: wrapper_seek_def Let_def)
qed

text \<open>The full range of a partition: the documents of its ranges.\<close>

lemma create_full_range_docs:
  "layer_docs (lm_ranges (create_full_range ordered unordered)) =
     (\<Union>r \<in> set (case_option [] id ordered) \<union> set_option unordered. {fst r..<snd r})"
proof -
  have one: "layer_docs (closed_range ot r) = {fst r..<snd r}" for ot r
    by (auto simp: closed_range_def range_meta_def range_docs_def Let_def)
  have "layer_docs (concat (map (closed_range ot) rs)) = (\<Union>r \<in> set rs. {fst r..<snd r})" for ot rs
    by (induction rs) (simp_all add: one)
  then show ?thesis
    by (auto simp: create_full_range_def one split: option.splits)
qed

end
