(* ===== verification/LayerSearcher.thy ===== *)
theory LayerSearcher
  imports LayerMetas QueryExecutorOps
begin

text \<open>
  Model of \<^verbatim>\<open>ha3/search/single_layer_searcher/SingleLayerSearcher\<close>, the client of the query executors: it seeks the documents of a query in the ranges
  of a layer, leaves out deleted ones and those that a filter rejects, and counts a quota down; with its joining variant
  and the collection of sub documents, and \<^verbatim>\<open>FilterWrapper\<close>.

  The environment of a search is a record of what the object points to and does not change: the deletion maps, the filters,
  the map from documents to sub documents, the match data manager (of which only the errors matter here), and the join
  table.  A match document is its identifier, the list of its sub documents with their deletion flags, and the document
  it is joined with; allocating and releasing documents is the list operation.  As in the executors, \<open>None\<close> is a failed
  assertion or an access outside of the layer.
\<close>

section \<open>Match documents and filters\<close>

record match_doc =
  md_docId :: docid
  md_subDocs :: "(docid \<times> bool) list"
  md_auxDocId :: docid

definition allocate :: "docid \<Rightarrow> match_doc" where
  "allocate d = \<lparr>md_docId = d, md_subDocs = [], md_auxDocId = INVALID_DOCID\<rparr>"

text \<open>\<^verbatim>\<open>pass\<close> and \<^verbatim>\<open>passSubDoc\<close> of the join filter, the other filters, and whether there is a sub document filter.\<close>

record filter_wrapper =
  fw_joinFilter :: "((match_doc \<Rightarrow> bool) \<times> (match_doc \<Rightarrow> bool)) option"
  fw_subDocFilter :: bool
  fw_filter :: "(match_doc \<Rightarrow> bool) option"
  fw_subExprFilter :: "(match_doc \<Rightarrow> bool) option"

definition filter_wrapper_init :: filter_wrapper where
  "filter_wrapper_init = \<lparr>fw_joinFilter = None, fw_subDocFilter = False, fw_filter = None, fw_subExprFilter = None\<rparr>"

text \<open>\<^verbatim>\<open>setFilter\<close>, with the filter and its \<^verbatim>\<open>needFilterSubDoc\<close>.\<close>

definition set_filter :: "((match_doc \<Rightarrow> bool) \<times> bool) option \<Rightarrow> filter_wrapper \<Rightarrow> filter_wrapper" where
  "set_filter f w =
     (case f of
        None \<Rightarrow> w
      | Some (p, needSub) \<Rightarrow> if needSub then w\<lparr>fw_subExprFilter := Some p\<rparr> else w\<lparr>fw_filter := Some p\<rparr>)"

definition sub_doc_filter_pass :: "match_doc \<Rightarrow> bool" where
  "sub_doc_filter_pass md \<longleftrightarrow> \<not> (\<forall>s \<in> set (md_subDocs md). snd s)"

definition filter_pass :: "filter_wrapper \<Rightarrow> match_doc \<Rightarrow> bool" where
  "filter_pass w md =
     (if (case fw_joinFilter w of None \<Rightarrow> False | Some (p, _) \<Rightarrow> \<not> p md) then False
      else if fw_subDocFilter w \<and> \<not> sub_doc_filter_pass md then False
      else if (case fw_filter w of None \<Rightarrow> False | Some p \<Rightarrow> \<not> p md) then False
      else True)"

section \<open>The searcher\<close>

record match_data_manager =
  mm_hasMatchData :: bool
  mm_hasSubMatchData :: bool
  mm_hasMatchValues :: bool
  mm_filterNeedMatchData :: bool
  mm_fillMatchData :: "match_doc \<Rightarrow> error_code option"
  mm_fillSubMatchData :: "match_doc \<Rightarrow> docid \<Rightarrow> docid \<Rightarrow> error_code option"
  mm_fillMatchValues :: "match_doc \<Rightarrow> error_code option"

record searcher_env =
  env_clock :: "nat \<Rightarrow> int"
  env_deleted :: "(docid \<Rightarrow> bool) option"
  env_subDeleted :: "(docid \<Rightarrow> bool) option"
  env_main2Sub :: "docid \<Rightarrow> docid option"
  env_filterWrapper :: "filter_wrapper option"
  env_matchDataManager :: "match_data_manager option"
  env_getAllSubDoc :: bool
  env_joinKey :: "match_doc \<Rightarrow> u64"
  env_hashJoinMap :: "u64 \<Rightarrow> docid list option"

record 'it searcher =
  sl_curDocId :: docid
  sl_curBegin :: docid
  sl_curEnd :: docid
  sl_curQuota :: u32
  sl_cursorNextBegin :: docid
  sl_rangeCursor :: nat
  sl_timeoutTerminator :: "terminator option"
  sl_queryExecutor :: "'it executor"
  sl_layerMeta :: layer_meta
  sl_seekTimes :: u32
  sl_matchDocBuffer :: "match_doc list"

abbreviation sl_ranges :: "('it, 'z) searcher_scheme \<Rightarrow> doc_id_range_meta list" where
  "sl_ranges s \<equiv> lm_ranges (sl_layerMeta s)"

definition upd_range :: "nat \<Rightarrow> (doc_id_range_meta \<Rightarrow> doc_id_range_meta) \<Rightarrow> layer_meta \<Rightarrow> layer_meta" where
  "upd_range i f m = m\<lparr>lm_ranges := (lm_ranges m)[i := f (lm_ranges m ! i)]\<rparr>"

definition searcher_new :: "'it executor \<Rightarrow> layer_meta \<Rightarrow> terminator option \<Rightarrow> 'it searcher option" where
  "searcher_new e m t =
     (case lm_ranges m of
        [] \<Rightarrow> None
      | r # _ \<Rightarrow> Some
          \<lparr>sl_curDocId = rm_nextBegin r, sl_curBegin = rm_nextBegin r, sl_curEnd = rm_end r,
           sl_curQuota = (if lm_quotaMode m = QM_PER_LAYER then lm_maxQuota m else rm_quota r),
           sl_cursorNextBegin = rm_nextBegin r, sl_rangeCursor = 0, sl_timeoutTerminator = t, sl_queryExecutor = e,
           sl_layerMeta = (if lm_quotaMode m = QM_PER_LAYER then m else upd_range 0 (rm_quota_update (\<lambda>_. 0)) m),
           sl_seekTimes = 0, sl_matchDocBuffer = []\<rparr>)"

section \<open>Moving between ranges\<close>

text \<open>The loop over the ranges of \<^verbatim>\<open>moveToNextRange\<close> and that of \<^verbatim>\<open>moveBack\<close>: the first range that is not finished.\<close>

function next_range :: "doc_id_range_meta list \<Rightarrow> nat \<Rightarrow> nat" where
  "next_range rs i =
     (if i < length rs then if rm_nextBegin (rs ! i) \<le> rm_end (rs ! i) then i else next_range rs (i + 1) else i)"
  by pat_completeness auto
termination
  by (relation "measure (\<lambda>(rs, i). length rs - i)") auto

declare next_range.simps [simp del]

definition move_to_next_range :: "'it searcher \<Rightarrow> (bool \<times> 'it searcher) option" where
  "move_to_next_range s =
     (if sl_rangeCursor s < length (sl_ranges s) then
        let nb = (if sl_curQuota s > 0 then sl_curEnd s + 1 else sl_cursorNextBegin s);
            m = upd_range (sl_rangeCursor s) (rm_nextBegin_update (\<lambda>_. nb)) (sl_layerMeta s);
            c = next_range (lm_ranges m) (sl_rangeCursor s + 1)
        in if c < length (lm_ranges m) then
             let r = lm_ranges m ! c
             in Some (True, s\<lparr>sl_rangeCursor := c, sl_curQuota := sl_curQuota s + rm_quota r, sl_curBegin := rm_nextBegin r,
                  sl_curEnd := rm_end r, sl_cursorNextBegin := rm_nextBegin r,
                  sl_layerMeta := upd_range c (rm_quota_update (\<lambda>_. 0)) m\<rparr>)
           else Some (False, s\<lparr>sl_rangeCursor := c, sl_layerMeta := m\<rparr>)
      else None)"

definition move_back :: "('it, 'z) posting_ops_scheme \<Rightarrow> 'it searcher \<Rightarrow> bool \<times> 'it searcher" where
  "move_back P s =
     (if lm_quotaMode (sl_layerMeta s) \<noteq> QM_PER_DOC \<or> sl_curQuota s = 0 then (False, s)
      else
        let i = next_range (sl_ranges s) 0
        in if i < length (sl_ranges s) then
             let r = sl_ranges s ! i
             in (True, s\<lparr>sl_rangeCursor := i, sl_curBegin := rm_nextBegin r, sl_curEnd := rm_end r,
                  sl_curDocId := rm_nextBegin r, sl_cursorNextBegin := rm_nextBegin r,
                  sl_queryExecutor := reset P (sl_queryExecutor s)\<rparr>)
           else (False, s))"

text \<open>The result is whether the document is in a range, and the document to go on with.\<close>

partial_function (option) move_to_correct_range ::
  "('it, 'z) posting_ops_scheme \<Rightarrow> docid \<Rightarrow> 'it searcher \<Rightarrow> (bool \<times> docid \<times> 'it searcher) option" where
  "move_to_correct_range P docId s =
     do { (moved, s) \<leftarrow> move_to_next_range s;
          if \<not> moved then
            (case move_back P s of
               (False, s) \<Rightarrow> Some (False, END_DOCID, s)
             | (True, s) \<Rightarrow> Some (False, sl_curBegin s, s))
          else if docId > sl_curEnd s \<or> sl_curQuota s = 0 then move_to_correct_range P docId s
          else if docId < sl_curBegin s then Some (False, sl_curBegin s, s)
          else Some (True, docId, s\<lparr>sl_cursorNextBegin := docId + 1\<rparr>) }"

definition try_to_make_it_in_range ::
  "('it, 'z) posting_ops_scheme \<Rightarrow> docid \<Rightarrow> 'it searcher \<Rightarrow> (bool \<times> docid \<times> 'it searcher) option" where
  "try_to_make_it_in_range P docId s =
     (if sl_curQuota s > 0 \<and> sl_curEnd s \<ge> docId then Some (True, docId, s\<lparr>sl_cursorNextBegin := docId + 1\<rparr>)
      else move_to_correct_range P docId s)"

section \<open>Sub documents\<close>

definition is_deleted :: "(docid \<Rightarrow> bool) option \<Rightarrow> docid \<Rightarrow> bool" where
  "is_deleted m d = (case m of None \<Rightarrow> False | Some f \<Rightarrow> f d)"

definition add_sub :: "docid \<Rightarrow> bool \<Rightarrow> match_doc \<Rightarrow> match_doc" where
  "add_sub d del md = md\<lparr>md_subDocs := md_subDocs md @ [(d, del)]\<rparr>"

text \<open>\<^verbatim>\<open>releaseSubDoc\<close>: the last sub document is marked as deleted or removed.\<close>

definition release_sub_doc :: "bool \<Rightarrow> match_doc \<Rightarrow> match_doc" where
  "release_sub_doc getAll md =
     (let l = last (md_subDocs md); ls = butlast (md_subDocs md)
      in md\<lparr>md_subDocs := (if getAll then ls @ [(fst l, True)] else ls)\<rparr>)"

definition sub_match_data :: "searcher_env \<Rightarrow> bool" where
  "sub_match_data E = (case env_matchDataManager E of None \<Rightarrow> False | Some m \<Rightarrow> mm_hasSubMatchData m)"

definition fill_sub :: "searcher_env \<Rightarrow> bool \<Rightarrow> match_doc \<Rightarrow> docid \<Rightarrow> docid \<Rightarrow> error_code option" where
  "fill_sub E beforeFilter md d subEnd =
     (case env_matchDataManager E of
        None \<Rightarrow> None
      | Some m \<Rightarrow>
          if mm_hasSubMatchData m \<and> mm_filterNeedMatchData m = beforeFilter then mm_fillSubMatchData m md d subEnd else None)"

definition sub_filters_pass :: "searcher_env \<Rightarrow> match_doc \<Rightarrow> bool" where
  "sub_filters_pass E md =
     (case env_filterWrapper E of
        None \<Rightarrow> True
      | Some w \<Rightarrow>
          (case fw_joinFilter w of None \<Rightarrow> True | Some (_, p) \<Rightarrow> p md) \<and>
          (case fw_subExprFilter w of None \<Rightarrow> True | Some p \<Rightarrow> p md))"

text \<open>One sub document that the query has.\<close>

definition collect_sub_doc :: "searcher_env \<Rightarrow> docid \<Rightarrow> docid \<Rightarrow> match_doc \<Rightarrow> error_code + match_doc" where
  "collect_sub_doc E d subEnd md =
     (if is_deleted (env_subDeleted E) d then Inr md
      else
        let md = add_sub d False md
        in case fill_sub E True md d subEnd of
             Some ec \<Rightarrow> Inl ec
           | None \<Rightarrow>
               if sub_filters_pass E md then
                 (case fill_sub E False md d subEnd of Some ec \<Rightarrow> Inl ec | None \<Rightarrow> Inr md)
               else Inr (release_sub_doc (env_getAllSubDoc E) md))"

definition add_skipped :: "searcher_env \<Rightarrow> docid \<Rightarrow> docid \<Rightarrow> match_doc \<Rightarrow> match_doc" where
  "add_skipped E a b md =
     (if env_getAllSubDoc E then
        fold (\<lambda>d md. if is_deleted (env_subDeleted E) d then md else add_sub d True md) [a..b - 1] md
      else md)"

partial_function (option) sub_docs_loop ::
  "searcher_env \<Rightarrow> nat \<Rightarrow> bool \<Rightarrow> docid \<Rightarrow> docid \<Rightarrow> docid \<Rightarrow> match_doc \<Rightarrow> 'it executor \<Rightarrow>
   ((error_code + match_doc) \<times> 'it executor) option" where
  "sub_docs_loop E n needSubSeek docId subEnd cur md e =
     do { (r, e) \<leftarrow> (if needSubSeek then seek_sub n e docId cur subEnd (sub_match_data E) else Some (Inr cur, e));
          case r of
            Inl ec \<Rightarrow> Some (Inl ec, e)
          | Inr d \<Rightarrow>
              let md = add_skipped E cur (min d subEnd) md
              in if d \<ge> subEnd then Some (Inr md, e)
                 else case collect_sub_doc E d subEnd md of
                        Inl ec \<Rightarrow> Some (Inl ec, e)
                      | Inr md \<Rightarrow> sub_docs_loop E n needSubSeek docId subEnd (d + 1) md e }"

definition construct_sub_match_docs ::
  "searcher_env \<Rightarrow> nat \<Rightarrow> match_doc \<Rightarrow> 'it executor \<Rightarrow> ((error_code + match_doc) \<times> 'it executor) option" where
  "construct_sub_match_docs E n md e =
     (let docId = md_docId md
      in do { cur \<leftarrow> (if docId \<noteq> 0 then env_main2Sub E (docId - 1) else Some 0);
              subEnd \<leftarrow> env_main2Sub E docId;
              hit \<leftarrow> (if has_sub e then is_main_doc_hit docId e else Some True);
              sub_docs_loop E n (\<not> hit \<or> sub_match_data E) docId subEnd cur md e })"

section \<open>Seeking\<close>

text \<open>\<^verbatim>\<open>QueryExecutor::seekWithoutCheck\<close>.\<close>

definition seek_without_check :: "('it, 'z) posting_ops_scheme \<Rightarrow> nat \<Rightarrow> docid \<Rightarrow> 'it searcher \<Rightarrow> ((error_code + docid) \<times> 'it searcher) option" where
  "seek_without_check P n docId s =
     (if docId > get_doc_id (sl_queryExecutor s) then
        do { (r, e) \<leftarrow> seek P n (sl_queryExecutor s) docId; Some (r, s\<lparr>sl_queryExecutor := e\<rparr>) }
      else None)"

definition timed_out :: "searcher_env \<Rightarrow> 'it searcher \<Rightarrow> bool \<times> 'it searcher" where
  "timed_out E s =
     (case sl_timeoutTerminator s of
        None \<Rightarrow> (False, s)
      | Some t \<Rightarrow> (case check_timeout (env_clock E) t of (b, t') \<Rightarrow> (b, s\<lparr>sl_timeoutTerminator := Some t'\<rparr>)))"

definition fill_data :: "searcher_env \<Rightarrow> bool \<Rightarrow> match_doc \<Rightarrow> error_code option" where
  "fill_data E beforeFilter md =
     (case env_matchDataManager E of
        None \<Rightarrow> None
      | Some m \<Rightarrow> if mm_hasMatchData m \<and> mm_filterNeedMatchData m = beforeFilter then mm_fillMatchData m md else None)"

definition fill_values :: "searcher_env \<Rightarrow> match_doc \<Rightarrow> error_code option" where
  "fill_values E md =
     (case env_matchDataManager E of None \<Rightarrow> None | Some m \<Rightarrow> if mm_hasMatchValues m then mm_fillMatchValues m md else None)"

definition passes :: "searcher_env \<Rightarrow> match_doc \<Rightarrow> bool" where
  "passes E md = (case env_filterWrapper E of None \<Rightarrow> True | Some w \<Rightarrow> filter_pass w md)"

text \<open>
  What happens to a match document after its sub documents are there: match data, filter, quota.  \<open>Inr None\<close> is a document
  that the filter rejects; the search goes on from \<open>docId\<close>.
\<close>

definition judge :: "searcher_env \<Rightarrow> docid \<Rightarrow> match_doc \<Rightarrow> 'it searcher \<Rightarrow> (error_code + match_doc option) \<times> 'it searcher" where
  "judge E docId md s =
     (case fill_data E True md of
        Some ec \<Rightarrow> (Inl ec, s)
      | None \<Rightarrow>
          if passes E md then
            let s = s\<lparr>sl_curQuota := sl_curQuota s - 1, sl_curDocId := docId\<rparr>
            in case fill_data E False md of
                 Some ec \<Rightarrow> (Inl ec, s)
               | None \<Rightarrow> (case fill_values E md of Some ec \<Rightarrow> (Inl ec, s) | None \<Rightarrow> (Inr (Some md), s))
          else (Inr None, s))"

text \<open>The match document for a document, with its sub documents where they are needed.\<close>

definition make_match_doc ::
  "searcher_env \<Rightarrow> nat \<Rightarrow> bool \<Rightarrow> docid \<Rightarrow> 'it searcher \<Rightarrow> ((error_code + match_doc) \<times> 'it searcher) option" where
  "make_match_doc E n needSubDoc docId s =
     (if needSubDoc then
        do { (r, e) \<leftarrow> construct_sub_match_docs E n (allocate docId) (sl_queryExecutor s);
             Some (r, s\<lparr>sl_queryExecutor := e\<rparr>) }
      else Some (Inr (allocate docId), s))"

text \<open>The result \<open>Inr None\<close> is \<^verbatim>\<open>INVALID_MATCHDOC\<close>: the search is at its end, or out of time.\<close>

partial_function (option) layer_seek_loop ::
  "('it, 'z) posting_ops_scheme \<Rightarrow> searcher_env \<Rightarrow> nat \<Rightarrow> bool \<Rightarrow> docid \<Rightarrow> 'it searcher \<Rightarrow>
   ((error_code + match_doc option) \<times> 'it searcher) option" where
  "layer_seek_loop P E n needSubDoc docId s =
     (case timed_out E s of (out, s) \<Rightarrow>
        if out then Some (Inr None, s\<lparr>sl_curDocId := docId\<rparr>)
        else do { (r, s) \<leftarrow> seek_without_check P n docId s;
          case r of
            Inl ec \<Rightarrow> Some (Inl ec, s)
          | Inr found \<Rightarrow> do { (inRange, docId, s) \<leftarrow> try_to_make_it_in_range P found s;
              if \<not> inRange then
                if docId = END_DOCID then Some (Inr None, s\<lparr>sl_curDocId := docId\<rparr>)
                else layer_seek_loop P E n needSubDoc docId s
              else if is_deleted (env_deleted E) docId then
                layer_seek_loop P E n needSubDoc (docId + 1) (s\<lparr>sl_seekTimes := sl_seekTimes s + 1\<rparr>)
              else do { (m, s) \<leftarrow> make_match_doc E n needSubDoc docId (s\<lparr>sl_seekTimes := sl_seekTimes s + 1\<rparr>);
                case m of
                  Inl ec \<Rightarrow> Some (Inl ec, s)
                | Inr md \<Rightarrow>
                    (case judge E (docId + 1) md s of
                       (Inl ec, s) \<Rightarrow> Some (Inl ec, s)
                     | (Inr None, s) \<Rightarrow> layer_seek_loop P E n needSubDoc (docId + 1) s
                     | (Inr (Some md), s) \<Rightarrow> Some (Inr (Some md), s)) } } })"

definition layer_seek ::
  "('it, 'z) posting_ops_scheme \<Rightarrow> searcher_env \<Rightarrow> nat \<Rightarrow> bool \<Rightarrow> 'it searcher \<Rightarrow>
   ((error_code + match_doc option) \<times> 'it searcher) option" where
  "layer_seek P E n needSubDoc s =
     (if sl_curDocId s \<ge> sl_curBegin s then layer_seek_loop P E n needSubDoc (sl_curDocId s) s else None)"

section \<open>Joining\<close>

text \<open>\<^verbatim>\<open>doJoin\<close>: the document with its first partner, and a copy for every other one.\<close>

definition do_join :: "searcher_env \<Rightarrow> match_doc \<Rightarrow> (match_doc \<times> match_doc list) option" where
  "do_join E md =
     (case env_hashJoinMap E (env_joinKey E md) of
        None \<Rightarrow> Some (md\<lparr>md_auxDocId := INVALID_DOCID\<rparr>, [])
      | Some [] \<Rightarrow> None
      | Some (a # as) \<Rightarrow> Some (md\<lparr>md_auxDocId := a\<rparr>, map (\<lambda>x. md\<lparr>md_auxDocId := x\<rparr>) as))"

partial_function (option) seek_and_join_loop ::
  "('it, 'z) posting_ops_scheme \<Rightarrow> searcher_env \<Rightarrow> nat \<Rightarrow> bool \<Rightarrow> docid \<Rightarrow> 'it searcher \<Rightarrow>
   ((error_code + match_doc option) \<times> 'it searcher) option" where
  "seek_and_join_loop P E n needSubDoc docId s =
     (case timed_out E s of (out, s) \<Rightarrow>
        if out then Some (Inr None, s\<lparr>sl_curDocId := docId\<rparr>)
        else case sl_matchDocBuffer s of
          md # buf \<Rightarrow>
            (case judge E docId md (s\<lparr>sl_matchDocBuffer := buf\<rparr>) of
               (Inl ec, s) \<Rightarrow> Some (Inl ec, s)
             | (Inr None, s) \<Rightarrow> seek_and_join_loop P E n needSubDoc docId s
             | (Inr (Some md), s) \<Rightarrow> Some (Inr (Some md), s))
        | [] \<Rightarrow> do { (r, s) \<leftarrow> seek_without_check P n docId (s\<lparr>sl_seekTimes := sl_seekTimes s + 1\<rparr>);
          case r of
            Inl ec \<Rightarrow> Some (Inl ec, s)
          | Inr found \<Rightarrow> do { (inRange, docId, s) \<leftarrow> try_to_make_it_in_range P found s;
              if \<not> inRange then
                if docId = END_DOCID then Some (Inr None, s\<lparr>sl_curDocId := docId\<rparr>)
                else seek_and_join_loop P E n needSubDoc docId s
              else if is_deleted (env_deleted E) docId then seek_and_join_loop P E n needSubDoc (docId + 1) s
              else do { (m, s) \<leftarrow> make_match_doc E n needSubDoc docId s;
                case m of
                  Inl ec \<Rightarrow> Some (Inl ec, s)
                | Inr md \<Rightarrow> do { (md, buf) \<leftarrow> do_join E md;
                    case judge E (docId + 1) md (s\<lparr>sl_matchDocBuffer := buf\<rparr>) of
                      (Inl ec, s) \<Rightarrow> Some (Inl ec, s)
                    | (Inr None, s) \<Rightarrow> seek_and_join_loop P E n needSubDoc (docId + 1) s
                    | (Inr (Some md), s) \<Rightarrow> Some (Inr (Some md), s) } } } })"

definition seek_and_join ::
  "('it, 'z) posting_ops_scheme \<Rightarrow> searcher_env \<Rightarrow> nat \<Rightarrow> bool \<Rightarrow> 'it searcher \<Rightarrow>
   ((error_code + match_doc option) \<times> 'it searcher) option" where
  "seek_and_join P E n needSubDoc s =
     (if sl_curDocId s \<ge> sl_curBegin s then seek_and_join_loop P E n needSubDoc (sl_curDocId s) s else None)"

section \<open>Counters\<close>

definition get_left_quota_in_the_end :: "'it searcher \<Rightarrow> u32 option" where
  "get_left_quota_in_the_end s =
     (let m = sl_layerMeta s
      in if lm_quotaMode m = QM_PER_LAYER then
           if lm_maxQuota m \<ge> sl_curQuota s then
             let used = lm_maxQuota m - sl_curQuota s in Some (if used \<ge> lm_quota m then 0 else lm_quota m - used)
           else None
         else Some (sl_curQuota s))"

definition get_seeked_count :: "'it searcher \<Rightarrow> u32" where
  "get_seeked_count s =
     (\<Sum>(i, r) \<leftarrow> enumerate 0 (sl_ranges s).
        of_int ((if i \<noteq> sl_rangeCursor s then rm_nextBegin r else sl_cursorNextBegin s) - rm_begin r))"

definition get_whole_doc_count :: "'it searcher \<Rightarrow> u32" where
  "get_whole_doc_count s = (\<Sum>r \<leftarrow> sl_ranges s. of_int (rm_end r - rm_begin r))"

end
