(* ===== verification/LayerRanges.thy ===== *)
theory LayerRanges
  imports LayerSearcher
begin

text \<open>
  How a layer searcher goes through the ranges of its layer when it starts with the quota of the layer: the documents that
  are still to be visited and to be returned, and what the moves between ranges do to them.
\<close>

section \<open>The documents to visit\<close>

definition rest :: "'it searcher \<Rightarrow> doc_id_range_meta list" where
  "rest s = drop (sl_rangeCursor s + 1) (sl_ranges s)"

definition todo :: "docid \<Rightarrow> 'it searcher \<Rightarrow> docid set" where
  "todo a s = {a..sl_curEnd s} \<union> layer_docs (rest s)"

text \<open>The current range is in the layer, and the ranges after it are in order.\<close>

definition in_layer :: "'it searcher \<Rightarrow> bool" where
  "in_layer s \<longleftrightarrow> sl_rangeCursor s < length (sl_ranges s) \<and> lm_quotaMode (sl_layerMeta s) = QM_PER_LAYER \<and>
     ranges_ok (rest s) \<and> (\<forall>r \<in> set (rest s). sl_curEnd s < rm_nextBegin r) \<and> sl_curEnd s < END_DOCID"

text \<open>
  The documents of a set that a search returns: entering a range adds the quota of the range to what is left, and the search
  takes the first documents of the range up to the quota.
\<close>

fun layer_take :: "u32 \<Rightarrow> docid set \<Rightarrow> doc_id_range_meta list \<Rightarrow> docid list" where
  "layer_take q H [] = []"
| "layer_take q H (r # rs) =
     (let q' = q + rm_quota r; ds = take (unat q') (sorted_list_of_set (H \<inter> range_docs r))
      in ds @ layer_take (q' - of_nat (length ds)) H rs)"

definition to_return :: "docid set \<Rightarrow> docid \<Rightarrow> 'it searcher \<Rightarrow> docid list" where
  "to_return H a s =
     (let ds = take (unat (sl_curQuota s)) (sorted_list_of_set (H \<inter> {a..sl_curEnd s}))
      in ds @ layer_take (sl_curQuota s - of_nat (length ds)) H (rest s))"

text \<open>What the moves leave alone.\<close>

definition same_search :: "'it searcher \<Rightarrow> 'it searcher \<Rightarrow> bool" where
  "same_search s s' \<longleftrightarrow> sl_queryExecutor s' = sl_queryExecutor s \<and> sl_timeoutTerminator s' = sl_timeoutTerminator s \<and>
     sl_matchDocBuffer s' = sl_matchDocBuffer s"

lemma same_search_trans: "same_search a b \<Longrightarrow> same_search b c \<Longrightarrow> same_search a c"
  by (simp add: same_search_def)

lemma lm_ranges_upd_range [simp]:
  "lm_ranges (upd_range i f m) = (lm_ranges m)[i := f (lm_ranges m ! i)]"
  "lm_quotaMode (upd_range i f m) = lm_quotaMode m"
  by (simp_all add: upd_range_def)

text \<open>The fields that say where the search is.\<close>

lemma layer_fields:
  assumes "sl_rangeCursor s' = sl_rangeCursor s" "sl_layerMeta s' = sl_layerMeta s" "sl_curEnd s' = sl_curEnd s"
  shows "rest s' = rest s" "todo a s' = todo a s" "in_layer s' = in_layer s"
  using assms by (simp_all add: rest_def todo_def in_layer_def)

lemma layer_updates [simp]:
  "todo a (s\<lparr>sl_cursorNextBegin := d\<rparr>) = todo a s" "in_layer (s\<lparr>sl_cursorNextBegin := d\<rparr>) = in_layer s"
  "todo a (s\<lparr>sl_seekTimes := n\<rparr>) = todo a s" "in_layer (s\<lparr>sl_seekTimes := n\<rparr>) = in_layer s"
  "todo a (s\<lparr>sl_curQuota := q, sl_curDocId := b\<rparr>) = todo a s" "in_layer (s\<lparr>sl_curQuota := q, sl_curDocId := b\<rparr>) = in_layer s"
  "todo a (s\<lparr>sl_queryExecutor := e\<rparr>) = todo a s" "in_layer (s\<lparr>sl_queryExecutor := e\<rparr>) = in_layer s"
  "todo a (s\<lparr>sl_timeoutTerminator := t\<rparr>) = todo a s" "in_layer (s\<lparr>sl_timeoutTerminator := t\<rparr>) = in_layer s"
  by (rule layer_fields; simp)+

lemma to_return_updates [simp]:
  "to_return H a (s\<lparr>sl_cursorNextBegin := d\<rparr>) = to_return H a s" "to_return H a (s\<lparr>sl_seekTimes := n\<rparr>) = to_return H a s"
  "to_return H a (s\<lparr>sl_curDocId := d\<rparr>) = to_return H a s"
  by (simp_all add: to_return_def rest_def)

lemma after_range:
  assumes "in_layer s" "x \<in> layer_docs (rest s)"
  shows "sl_curEnd s < x"
  using assms layer_docs_after [of "rest s" "sl_curEnd s" x] by (auto simp: in_layer_def)

text \<open>Without quota, or without documents in the current range, the search goes on with the next range.\<close>

lemma to_return_next:
  "sl_curQuota s = 0 \<or> H \<inter> {a..sl_curEnd s} = {} \<Longrightarrow> to_return H a s = layer_take (sl_curQuota s) H (rest s)"
  by (auto simp: to_return_def)

lemma layer_take_skip:
  "q + rm_quota r = 0 \<or> H \<inter> range_docs r = {} \<Longrightarrow> layer_take q H (r # rs) = layer_take (q + rm_quota r) H rs"
  by (auto simp: Let_def)

lemma to_return_from: "H \<inter> {a..sl_curEnd s} = H \<inter> {b..sl_curEnd s} \<Longrightarrow> to_return H a s = to_return H b s"
  by (simp add: to_return_def)

text \<open>The first document to return.\<close>

lemma to_return_first:
  assumes "d \<in> H" "d \<le> sl_curEnd s" "0 < sl_curQuota s"
  shows "to_return H d s = d # to_return H (d + 1) (s\<lparr>sl_curQuota := sl_curQuota s - 1\<rparr>)"
proof -
  let ?A = "H \<inter> {d + 1..sl_curEnd s}"
  have "H \<inter> {d..sl_curEnd s} = insert d ?A"
    using assms(1,2) by auto
  moreover have "sorted_list_of_set (insert d ?A) = d # sorted_list_of_set ?A"
    by (rule sorted_list_first) auto
  moreover have "unat (sl_curQuota s) = Suc (unat (sl_curQuota s - 1))"
    using assms(3) by (simp add: unat_minus_one unat_gt_0 word_neq_0_conv)
  ultimately show ?thesis
    by (simp add: to_return_def rest_def Let_def diff_diff_eq)
qed

lemma in_layer_docset: "in_layer s \<Longrightarrow> 0 \<le> a \<Longrightarrow> docset (todo a s)"
  using layer_docset [of "rest s"] by (auto simp: in_layer_def todo_def docset_def)

lemma rest_Cons:
  assumes "rest s = r # rs"
  shows "sl_rangeCursor s + 1 < length (sl_ranges s)" "sl_ranges s ! (sl_rangeCursor s + 1) = r"
    "drop (sl_rangeCursor s + 2) (sl_ranges s) = rs"
proof -
  show l: "sl_rangeCursor s + 1 < length (sl_ranges s)"
    using assms unfolding rest_def by (metis drop_eq_Nil leI list.distinct(1))
  have "drop (sl_rangeCursor s + 1) (sl_ranges s) = sl_ranges s ! (sl_rangeCursor s + 1) # drop (sl_rangeCursor s + 2) (sl_ranges s)"
    using Cons_nth_drop_Suc [OF l] by simp
  then show "sl_ranges s ! (sl_rangeCursor s + 1) = r" "drop (sl_rangeCursor s + 2) (sl_ranges s) = rs"
    using assms unfolding rest_def by simp_all
qed

lemma move_to_next_range_none:
  assumes "in_layer s" "rest s = []"
  obtains s' where "move_to_next_range s = Some (False, s')" "same_search s s'" "lm_quotaMode (sl_layerMeta s') = QM_PER_LAYER"
proof -
  have l: "length (sl_ranges s) = sl_rangeCursor s + 1"
    using assms by (auto simp: in_layer_def rest_def)
  show ?thesis
    by (rule that [of "snd (the (move_to_next_range s))"])
      (use assms(1) l in \<open>simp_all add: move_to_next_range_def next_range.simps Let_def same_search_def in_layer_def\<close>)
qed

lemma move_to_next_range_some:
  assumes "in_layer s" "rest s = r # rs"
  obtains s' where "move_to_next_range s = Some (True, s')" "same_search s s'" "in_layer s'" "rest s' = rs"
    "sl_curBegin s' = rm_nextBegin r" "sl_curEnd s' = rm_end r" "sl_curQuota s' = sl_curQuota s + rm_quota r"
proof -
  note r = rest_Cons [OF assms(2)]
  have ok: "rm_nextBegin r \<le> rm_end r" "rm_end r < END_DOCID" "ranges_ok rs" "\<forall>x \<in> set rs. rm_end r < rm_nextBegin x"
    using assms by (auto simp: in_layer_def)
  let ?s = "snd (the (move_to_next_range s))"
  have m: "move_to_next_range s = Some (True, ?s)" "sl_rangeCursor ?s = sl_rangeCursor s + 1"
    "sl_curBegin ?s = rm_nextBegin r" "sl_curEnd ?s = rm_end r" "sl_curQuota ?s = sl_curQuota s + rm_quota r" "same_search s ?s"
    "lm_quotaMode (sl_layerMeta ?s) = lm_quotaMode (sl_layerMeta s)" "length (sl_ranges ?s) = length (sl_ranges s)"
    "drop (sl_rangeCursor s + 2) (sl_ranges ?s) = drop (sl_rangeCursor s + 2) (sl_ranges s)"
    using r(1,2) ok(1) by (simp_all add: move_to_next_range_def next_range.simps Let_def same_search_def)
  have "rest ?s = rs"
    using m(2,9) r(3) by (simp add: rest_def)
  moreover have "in_layer ?s"
    using assms(1) r(1) ok m calculation by (simp add: in_layer_def)
  ultimately show ?thesis
    using that m by blast
qed

section \<open>Moving to the range of a document\<close>

text \<open>
  The possible results of looking for the range of \<open>d\<close> when the documents \<open>ds\<close> of \<open>H\<close> are to be returned: it is in a range, and
  there is quota; it is not, and the search goes on from the start of the next range; or there is none any more.
\<close>

definition placed :: "docid set \<Rightarrow> docid \<Rightarrow> docid list \<Rightarrow> bool \<times> docid \<times> 'it searcher \<Rightarrow> bool" where
  "placed H d ds res \<longleftrightarrow>
     (case res of (found, d', s') \<Rightarrow>
        if found then d' = d \<and> in_layer s' \<and> sl_curBegin s' \<le> d \<and> d \<le> sl_curEnd s' \<and> 0 < sl_curQuota s' \<and> to_return H d s' = ds
        else if d' = END_DOCID then ds = []
        else d < d' \<and> in_layer s' \<and> sl_curBegin s' = d' \<and> d' < END_DOCID \<and> to_return H d' s' = ds \<and> todo d' s' \<subseteq> {d'..})"

lemma move_to_correct_range_placed:
  assumes "in_layer s" "H \<inter> layer_docs (rest s) \<subseteq> {d..}"
  shows "\<exists>res. move_to_correct_range P d s = Some res \<and> same_search s (snd (snd res)) \<and>
    placed H d (layer_take (sl_curQuota s) H (rest s)) res"
  using assms
proof (induction "rest s" arbitrary: s)
  case Nil
  obtain s' where s': "move_to_next_range s = Some (False, s')" "same_search s s'" "lm_quotaMode (sl_layerMeta s') = QM_PER_LAYER"
    using move_to_next_range_none [OF Nil.prems(1)] Nil.hyps by metis
  then have "move_to_correct_range P d s = Some (False, END_DOCID, s')"
    by (subst move_to_correct_range.simps) (simp add: move_back_def)
  then show ?case
    using s'(2) Nil.hyps [symmetric] by (simp add: placed_def)
next
  case (Cons r rs)
  note rest = Cons.hyps(2) [symmetric]
  obtain s' where s': "move_to_next_range s = Some (True, s')" "same_search s s'" "in_layer s'" "rest s' = rs"
    "sl_curBegin s' = rm_nextBegin r" "sl_curEnd s' = rm_end r" "sl_curQuota s' = sl_curQuota s + rm_quota r"
    using move_to_next_range_some [OF Cons.prems(1) rest] by metis
  have H: "H \<inter> range_docs r \<subseteq> {d..}" "H \<inter> layer_docs (rest s') \<subseteq> {d..}"
    using Cons.prems(2) s'(4) rest by auto
  have r: "rm_nextBegin r \<le> rm_end r" "rm_end r < END_DOCID"
    using Cons.prems(1) rest by (auto simp: in_layer_def)
  have enter: "to_return H a s' = layer_take (sl_curQuota s) H (rest s)" if "H \<inter> {a..rm_end r} = H \<inter> range_docs r" for a
    using that by (simp add: to_return_def s' rest Let_def)
  consider (skip) "rm_end r < d \<or> sl_curQuota s' = 0" | (before) "sl_curQuota s' \<noteq> 0" "d < rm_nextBegin r"
    | (inside) "sl_curQuota s' \<noteq> 0" "rm_nextBegin r \<le> d" "d \<le> rm_end r"
    by linarith
  then show ?case
  proof cases
    case skip
    then have "move_to_correct_range P d s = move_to_correct_range P d s'"
      using s'(1,6) by (subst move_to_correct_range.simps) auto
    moreover obtain res where "move_to_correct_range P d s' = Some res" "same_search s' (snd (snd res))"
      "placed H d (layer_take (sl_curQuota s') H rs) res"
      using Cons.hyps(1) [OF s'(4) [symmetric] s'(3) H(2)] s'(4) by auto
    moreover have "layer_take (sl_curQuota s) H (rest s) = layer_take (sl_curQuota s') H rs"
      using skip H(1) unfolding rest s'(7) by (intro layer_take_skip) (auto simp: range_docs_def)
    ultimately show ?thesis
      using same_search_trans [OF s'(2)] by auto
  next
    case before
    then have "move_to_correct_range P d s = Some (False, rm_nextBegin r, s')"
      using s'(1,5,6) r by (subst move_to_correct_range.simps) simp
    moreover have "to_return H (rm_nextBegin r) s' = layer_take (sl_curQuota s) H (rest s)"
      by (rule enter) (simp add: range_docs_def)
    moreover have "todo (rm_nextBegin r) s' \<subseteq> {rm_nextBegin r..}"
      using r after_range [OF s'(3)] by (fastforce simp: todo_def s'(6))
    ultimately show ?thesis
      using s' before r by (simp add: placed_def)
  next
    case inside
    then have "move_to_correct_range P d s = Some (True, d, s'\<lparr>sl_cursorNextBegin := d + 1\<rparr>)"
      using s'(1,5,6) by (subst move_to_correct_range.simps) simp
    moreover have "to_return H d s' = layer_take (sl_curQuota s) H (rest s)"
      using inside H(1) by (intro enter) (auto simp: range_docs_def)
    ultimately show ?thesis
      using s' inside by (simp add: placed_def same_search_def word_neq_0_conv)
  qed
qed

lemma try_to_make_it_in_range_placed:
  assumes "in_layer s" "todo a s \<subseteq> {a..}" "sl_curBegin s \<le> a" "a \<le> d" "H \<inter> {a..} \<subseteq> {d..}"
  shows "\<exists>res. try_to_make_it_in_range P d s = Some res \<and> same_search s (snd (snd res)) \<and> placed H d (to_return H a s) res"
proof (cases "0 < sl_curQuota s \<and> d \<le> sl_curEnd s")
  case True
  then have "try_to_make_it_in_range P d s = Some (True, d, s\<lparr>sl_cursorNextBegin := d + 1\<rparr>)"
    by (simp add: try_to_make_it_in_range_def)
  moreover have "to_return H d s = to_return H a s"
    using assms(4,5) by (intro to_return_from) auto
  ultimately show ?thesis
    using assms True by (simp add: placed_def same_search_def)
next
  case False
  then have "sl_curQuota s = 0 \<or> H \<inter> {a..sl_curEnd s} = {}"
    using assms(5) by (auto simp: word_neq_0_conv [symmetric])
  moreover have "H \<inter> layer_docs (rest s) \<subseteq> {d..}"
    using assms(2,5) by (auto simp: todo_def)
  ultimately show ?thesis
    using move_to_correct_range_placed [OF assms(1), of H d P] False
    by (auto simp: try_to_make_it_in_range_def to_return_next)
qed

section \<open>Layers whose ranges have no quota\<close>

lemma layer_take_plain:
  assumes "ranges_ok rs" "\<forall>r \<in> set rs. rm_quota r = 0"
  shows "layer_take q H rs = take (unat q) (sorted_list_of_set (H \<inter> layer_docs rs))"
  using assms
proof (induction rs arbitrary: q)
  case (Cons r rs)
  let ?A = "H \<inter> range_docs r" and ?B = "H \<inter> layer_docs rs"
  let ?ds = "take (unat q) (sorted_list_of_set ?A)"
  have "x < y" if "x \<in> ?A" "y \<in> ?B" for x y
    using that Cons.prems(1) layer_docs_after [of rs "rm_end r" y] by (auto simp: range_docs_def)
  moreover have "finite ?A" "finite ?B"
    using docset_finite [OF layer_docset, of rs] Cons.prems(1) by (simp_all add: range_docs_def)
  ultimately have split: "sorted_list_of_set (H \<inter> layer_docs (r # rs)) = sorted_list_of_set ?A @ sorted_list_of_set ?B"
    using sorted_list_of_set_append [of ?A ?B] by (simp add: Int_Un_distrib)
  have "unat (q - of_nat (length ?ds)) = unat q - length ?ds"
    by (rule unat_sub_of_nat) simp
  then have "take (unat (q - of_nat (length ?ds))) xs = take (unat q - length (sorted_list_of_set ?A)) xs" for xs :: "docid list"
    by (simp add: min_def)
  then show ?case
    using Cons unfolding split by (simp add: Let_def)
qed simp

end
