(* ===== verification/LayerProps.thy ===== *)
theory LayerProps
  imports LayerRanges QueryProps
begin

text \<open>
  The correctness of searching a layer: the composition of the ranges of the layer, the query executors, the deletion map
  and the filters.  The lemmas on the search loop are proved for any posting iterators that keep the contract \<open>postings\<close>.
\<close>

section \<open>One seek\<close>

definition wanted :: "searcher_env \<Rightarrow> docid \<Rightarrow> bool" where
  "wanted E d \<longleftrightarrow> \<not> is_deleted (env_deleted E) d \<and> passes E (allocate d)"

definition hits :: "('it, 'y) posting_spec_scheme \<Rightarrow> searcher_env \<Rightarrow> 'it searcher \<Rightarrow> docid set" where
  "hits G E s = {d \<in> exec_docs G (sl_queryExecutor s). wanted E d}"

text \<open>Match data is filled in without errors, or not at all; and a terminator, if there is one, never stops the search.\<close>

definition fills :: "searcher_env \<Rightarrow> bool" where
  "fills E \<longleftrightarrow> (\<forall>beforeFilter md. fill_data E beforeFilter md = None \<and> fill_values E md = None)"

definition endless :: "searcher_env \<Rightarrow> terminator option \<Rightarrow> bool" where
  "endless E t \<longleftrightarrow> (case t of None \<Rightarrow> True | Some t \<Rightarrow> never_expires (env_clock E) t)"

definition searching :: "('it, 'y) posting_spec_scheme \<Rightarrow> nat \<Rightarrow> docid \<Rightarrow> 'it searcher \<Rightarrow> bool" where
  "searching G n a s \<longleftrightarrow> in_layer s \<and> todo a s \<subseteq> {a..} \<and> sl_curBegin s \<le> a \<and> 0 \<le> a \<and> a \<le> END_DOCID \<and>
     exec_inv G n (sl_queryExecutor s) \<and> get_doc_id (sl_queryExecutor s) < a"

lemma timed_out_cases:
  obtains out t where "timed_out E s = (out, s\<lparr>sl_timeoutTerminator := t\<rparr>)" "endless E (sl_timeoutTerminator s) \<Longrightarrow> \<not> out \<and> endless E t"
proof (cases "sl_timeoutTerminator s")
  case None
  then show ?thesis
    using that [of False None] by (simp add: timed_out_def endless_def)
next
  case (Some t)
  show ?thesis
  proof (rule that [of "fst (check_timeout (env_clock E) t)" "Some (snd (check_timeout (env_clock E) t))"])
    assume "endless E (sl_timeoutTerminator s)"
    then obtain t' where "check_timeout (env_clock E) t = (False, t')" "never_expires (env_clock E) t'"
      using Some by (auto simp: endless_def elim: check_timeout_never)
    then show "\<not> fst (check_timeout (env_clock E) t) \<and> endless E (Some (snd (check_timeout (env_clock E) t)))"
      by (simp add: endless_def)
  qed (simp add: timed_out_def Some case_prod_beta)
qed

lemma judge_fills:
  assumes "fills E"
  shows "judge E a md s =
    (if passes E md then (Inr (Some md), s\<lparr>sl_curQuota := sl_curQuota s - 1, sl_curDocId := a\<rparr>) else (Inr None, s))"
  using assms by (simp add: judge_def fills_def Let_def)

text \<open>What a seek gives where the documents \<open>ds\<close> are to be returned.\<close>

definition found_next ::
  "('it, 'y) posting_spec_scheme \<Rightarrow> searcher_env \<Rightarrow> nat \<Rightarrow> docid list \<Rightarrow> match_doc option \<Rightarrow> 'it searcher \<Rightarrow> bool" where
  "found_next G E n ds res s \<longleftrightarrow>
     (case ds of
        [] \<Rightarrow> res = None
      | d # ds' \<Rightarrow> res = Some (allocate d) \<and> searching G n (d + 1) s \<and> sl_curDocId s = d + 1 \<and> to_return (hits G E s) (d + 1) s = ds')"

lemma searching_updates [simp]:
  "searching G n a (s\<lparr>sl_seekTimes := k\<rparr>) = searching G n a s" "hits G E (s\<lparr>sl_seekTimes := k\<rparr>) = hits G E s"
  "searching G n a (s\<lparr>sl_curQuota := q, sl_curDocId := b\<rparr>) = searching G n a s"
  "hits G E (s\<lparr>sl_curQuota := q, sl_curDocId := b\<rparr>) = hits G E s"
  by (simp_all add: searching_def hits_def)

lemma hits_from: "searching G n a s \<Longrightarrow> hits G E s \<inter> {a..} \<subseteq> {nxt (exec_docs G (sl_queryExecutor s)) a..}"
  using nxt_le [OF exec_inv_docset, of G n "sl_queryExecutor s" _ a] by (auto simp: searching_def hits_def)

text \<open>The executor has found \<open>d\<close>; the searcher is then where \<open>d\<close> is placed.\<close>

definition at_doc :: "('it, 'y) posting_spec_scheme \<Rightarrow> nat \<Rightarrow> docid \<Rightarrow> 'it searcher \<Rightarrow> 'it searcher \<Rightarrow> bool" where
  "at_doc G n d s s' \<longleftrightarrow> exec_inv G n (sl_queryExecutor s') \<and> exec_docs G (sl_queryExecutor s') = exec_docs G (sl_queryExecutor s) \<and>
     get_doc_id (sl_queryExecutor s') = d"

lemma at_doc_hits: "at_doc G n d s s' \<Longrightarrow> hits G E s' = hits G E s"
  by (simp add: at_doc_def hits_def)

lemma placed_visit:
  assumes s: "searching G n a s" and d: "d = nxt (exec_docs G (sl_queryExecutor s)) a"
    and p: "placed (hits G E s) d ds (True, d', s')" "at_doc G n d s s'"
  shows "d' = d" "searching G n (d + 1) s'"
    "if wanted E d then ds = d # to_return (hits G E s) (d + 1) (s'\<lparr>sl_curQuota := sl_curQuota s' - 1\<rparr>)
     else ds = to_return (hits G E s) (d + 1) s'"
proof -
  have v: "d' = d" "in_layer s'" "sl_curBegin s' \<le> d" "d \<le> sl_curEnd s'" "0 < sl_curQuota s'" "to_return (hits G E s) d s' = ds"
    using p(1) by (simp_all add: placed_def)
  have "docset (exec_docs G (sl_queryExecutor s))"
    using s exec_inv_docset unfolding searching_def by blast
  moreover have "d < END_DOCID"
    using v(2,4) by (simp add: in_layer_def)
  ultimately have d0: "d \<in> exec_docs G (sl_queryExecutor s)" "0 \<le> d"
    using nxt_hit [of "exec_docs G (sl_queryExecutor s)" a] d by (auto simp: docset_def)
  show "d' = d"
    by (rule v)
  have "todo (d + 1) s' \<subseteq> {d + 1..}"
    using v(4) after_range [OF v(2)] by (fastforce simp: todo_def)
  then show "searching G n (d + 1) s'"
    using v d0 \<open>d < END_DOCID\<close> p(2) by (simp add: searching_def at_doc_def)
  show "if wanted E d then ds = d # to_return (hits G E s) (d + 1) (s'\<lparr>sl_curQuota := sl_curQuota s' - 1\<rparr>)
     else ds = to_return (hits G E s) (d + 1) s'"
  proof (cases "wanted E d")
    case True
    then show ?thesis
      using to_return_first [of d "hits G E s" s'] v d0 by (simp add: hits_def)
  next
    case False
    then have "x \<noteq> d" if "x \<in> hits G E s" for x
      using that by (auto simp: hits_def)
    then have "to_return (hits G E s) d s' = to_return (hits G E s) (d + 1) s'"
      by (intro to_return_from) force
    then show ?thesis
      using False v(6) by simp
  qed
qed

lemma placed_jump:
  assumes s: "searching G n a s" and d: "d = nxt (exec_docs G (sl_queryExecutor s)) a"
    and p: "placed (hits G E s) d ds (False, d', s')" "d' \<noteq> END_DOCID" "at_doc G n d s s'"
  shows "a < d'" "searching G n d' s'" "to_return (hits G E s) d' s' = ds"
proof -
  have j: "d < d'" "in_layer s'" "sl_curBegin s' = d'" "d' < END_DOCID" "to_return (hits G E s) d' s' = ds" "todo d' s' \<subseteq> {d'..}"
    using p(1,2) unfolding placed_def by auto
  have "a \<le> d" "0 \<le> a"
    using s nxt_ge [OF exec_inv_docset, of G n "sl_queryExecutor s" a] d by (simp_all add: searching_def)
  then show "a < d'" "searching G n d' s'" "to_return (hits G E s) d' s' = ds"
    using j p(3) unfolding searching_def at_doc_def by simp_all
qed

text \<open>The documents of at most \<open>k\<close> calls of \<^verbatim>\<open>seek\<close>, up to the first that gives none.\<close>

fun search_layer ::
  "('it, 'z) posting_ops_scheme \<Rightarrow> searcher_env \<Rightarrow> nat \<Rightarrow> nat \<Rightarrow> 'it searcher \<Rightarrow> docid list option" where
  "search_layer P E n 0 s = None"
| "search_layer P E n (Suc k) s =
     do { (r, s') \<leftarrow> layer_seek P E n False s;
          case r of
            Inl _ \<Rightarrow> None
          | Inr None \<Rightarrow> Some []
          | Inr (Some md) \<Rightarrow> do { ds \<leftarrow> search_layer P E n k s'; Some (md_docId md # ds) } }"

context postings
begin

text \<open>The seek of the executor at the head of the loop.\<close>

lemma searching_seek:
  assumes "searching G n a s" ok
  obtains e where
    "seek_without_check P n a s = Some (Inr (nxt (exec_docs G (sl_queryExecutor s)) a), s\<lparr>sl_queryExecutor := e\<rparr>)"
    "at_doc G n (nxt (exec_docs G (sl_queryExecutor s)) a) s (s\<lparr>sl_queryExecutor := e\<rparr>)"
proof -
  let ?e = "sl_queryExecutor s"
  note s = assms(1) [unfolded searching_def]
  have dv: "docset (exec_docs G ?e)"
    using s exec_inv_docset by blast
  have "get_doc_id ?e \<le> nxt (exec_docs G ?e) a"
    using nxt_ge [OF dv, of a] s by simp
  then obtain r e where r: "seek P n ?e a = Some (r, e)"
    "case r of Inl _ \<Rightarrow> \<not> ok
     | Inr d \<Rightarrow> d = nxt (exec_docs G ?e) a \<and> exec_inv G n e \<and> exec_docs G e = exec_docs G ?e \<and> get_doc_id e = d"
    using tree.sk_law [of n ?e a] s by blast
  then obtain d where "r = Inr d"
    using assms(2) by (cases r) auto
  then show ?thesis
    using that [of e] r s by (simp add: seek_without_check_def at_doc_def)
qed

text \<open>The seek, and the move to the range of the document that it finds.\<close>

lemma searching_place:
  assumes "searching G n a s" ok and d: "d = nxt (exec_docs G (sl_queryExecutor s)) a"
  obtains e found d' s' where "seek_without_check P n a s = Some (Inr d, s\<lparr>sl_queryExecutor := e\<rparr>)"
    "try_to_make_it_in_range P d (s\<lparr>sl_queryExecutor := e\<rparr>) = Some (found, d', s')"
    "placed (hits G E s) d (to_return (hits G E s) a s) (found, d', s')" "at_doc G n d s s'"
    "sl_timeoutTerminator s' = sl_timeoutTerminator s"
proof -
  obtain e where e: "seek_without_check P n a s = Some (Inr d, s\<lparr>sl_queryExecutor := e\<rparr>)" "at_doc G n d s (s\<lparr>sl_queryExecutor := e\<rparr>)"
    using searching_seek [OF assms(1,2)] by (auto simp: d)
  let ?s = "s\<lparr>sl_queryExecutor := e\<rparr>"
  have "a \<le> d"
    using assms(1) nxt_ge [OF exec_inv_docset, of G n "sl_queryExecutor s" a] by (simp add: searching_def d)
  moreover have "to_return H a ?s = to_return H a s" "in_layer ?s" "todo a ?s \<subseteq> {a..}" "sl_curBegin ?s \<le> a" for H
    using assms(1) by (simp_all add: searching_def to_return_def rest_def)
  ultimately obtain found d' s' where p: "try_to_make_it_in_range P d ?s = Some (found, d', s')" "same_search ?s s'"
    "placed (hits G E s) d (to_return (hits G E s) a s) (found, d', s')"
    using try_to_make_it_in_range_placed [of ?s a d "hits G E s" P] hits_from [OF assms(1), of E] unfolding d [symmetric] by fastforce
  then show ?thesis
    using that [OF e(1) p(1,3)] e(2) by (simp add: same_search_def at_doc_def)
qed

text \<open>
  One round of the loop: the search runs out of time; it finds the next document or ends; or it goes on further ahead with
  the same documents to return.
\<close>

lemma layer_seek_round:
  assumes s: "searching G n a s" and "fills E" ok
  obtains (timeout) s' where "layer_seek_loop P E n False a s = Some (Inr None, s')" "\<not> endless E (sl_timeoutTerminator s)"
  | (result) res s' where "layer_seek_loop P E n False a s = Some (Inr res, s')"
      "found_next G E n (to_return (hits G E s) a s) res s'" "endless E (sl_timeoutTerminator s) \<Longrightarrow> endless E (sl_timeoutTerminator s')"
  | (again) b s' where "layer_seek_loop P E n False a s = layer_seek_loop P E n False b s'" "a < b" "searching G n b s'"
      "to_return (hits G E s') b s' = to_return (hits G E s) a s" "endless E (sl_timeoutTerminator s) \<Longrightarrow> endless E (sl_timeoutTerminator s')"
proof -
  define d where d: "d = nxt (exec_docs G (sl_queryExecutor s)) a"
  define L where L: "L = to_return (hits G E s) a s"
  obtain out t where t: "timed_out E s = (out, s\<lparr>sl_timeoutTerminator := t\<rparr>)"
    "endless E (sl_timeoutTerminator s) \<Longrightarrow> \<not> out \<and> endless E t"
    using timed_out_cases [of E s] by metis
  let ?t = "s\<lparr>sl_timeoutTerminator := t\<rparr>"
  have st: "searching G n a ?t" "hits G E ?t = hits G E s" "to_return (hits G E s) a ?t = L" "d = nxt (exec_docs G (sl_queryExecutor ?t)) a"
    using s by (simp_all add: searching_def hits_def to_return_def rest_def d L)
  obtain e found d' s' where p: "seek_without_check P n a ?t = Some (Inr d, ?t\<lparr>sl_queryExecutor := e\<rparr>)"
    "try_to_make_it_in_range P d (?t\<lparr>sl_queryExecutor := e\<rparr>) = Some (found, d', s')"
    "placed (hits G E s) d L (found, d', s')" "at_doc G n d ?t s'" "sl_timeoutTerminator s' = t"
    by (rule searching_place [OF st(1) \<open>ok\<close> st(4), of E]) (simp add: st(2,3))
  have at: "at_doc G n d s s'" "endless E (sl_timeoutTerminator s) \<Longrightarrow> endless E (sl_timeoutTerminator s')"
    using p(4,5) t(2) by (simp_all add: at_doc_def)
  have "a \<le> d"
    using s nxt_ge [OF exec_inv_docset, of G n "sl_queryExecutor s" a] by (simp add: searching_def d)
  note loop = layer_seek_loop.simps [of P E n False a s] t(1) p(1,2)
  consider (out) "out" | (visit) "\<not> out" "found" | (stop) "\<not> out" "\<not> found" "d' = END_DOCID" | (jump) "\<not> out" "\<not> found" "d' \<noteq> END_DOCID"
    by blast
  then show thesis
  proof cases
    case out
    then show thesis
      using timeout t(2) by (auto simp: loop)
  next
    case stop
    then have "L = []"
      using p(3) by (simp add: placed_def)
    then show thesis
      using result at(2) stop by (simp add: loop found_next_def L)
  next
    case jump
    then show thesis
      using again [of d' s'] placed_jump [OF s d, of E L d' s'] p(3) at by (simp add: loop at_doc_hits [OF at(1)] L)
  next
    case visit
    note v = placed_visit [OF s d _ at(1), of E L d', OF p(3) [unfolded eqTrueI [OF visit(2)]]]
    let ?v = "s'\<lparr>sl_seekTimes := sl_seekTimes s' + 1\<rparr>"
    show thesis
    proof (cases "wanted E d")
      case True
      then have "layer_seek_loop P E n False a s =
          Some (Inr (Some (allocate d)), ?v\<lparr>sl_curQuota := sl_curQuota s' - 1, sl_curDocId := d + 1\<rparr>)"
        using visit v(1) by (simp add: loop wanted_def make_match_doc_def judge_fills [OF \<open>fills E\<close>])
      then show thesis
        by (rule result) (use v True at in \<open>simp_all add: found_next_def L at_doc_hits to_return_def rest_def\<close>)
    next
      case False
      then have "layer_seek_loop P E n False a s = layer_seek_loop P E n False (d + 1) ?v"
        using visit v(1) by (auto simp: loop wanted_def make_match_doc_def judge_fills [OF \<open>fills E\<close>])
      then show thesis
        by (rule again) (use v False at \<open>a \<le> d\<close> in \<open>simp_all add: L at_doc_hits\<close>)
    qed
  qed
qed

lemma layer_seek_loop_finds:
  assumes "searching G n a s" "fills E" ok
  shows "\<exists>res s'. layer_seek_loop P E n False a s = Some (Inr res, s') \<and>
    (res = None \<and> \<not> endless E (sl_timeoutTerminator s) \<or>
     found_next G E n (to_return (hits G E s) a s) res s' \<and> (endless E (sl_timeoutTerminator s) \<longrightarrow> endless E (sl_timeoutTerminator s')))"
  using assms
proof (induction "nat (END_DOCID - a)" arbitrary: a s rule: less_induct)
  case less
  from less.prems show ?case
  proof (cases rule: layer_seek_round)
    case (timeout s')
    then show ?thesis by blast
  next
    case (result res s')
    then show ?thesis by blast
  next
    case (again b s')
    have "nat (END_DOCID - b) < nat (END_DOCID - a)"
      using again by (simp add: searching_def)
    from less.hyps [OF this again(3) less.prems(2,3)] show ?thesis
      unfolding again(1,4) using again(5) by blast
  qed
qed

text \<open>Successive seeks.\<close>

lemma search_layer_from:
  assumes "searching G n (sl_curDocId s) s" "fills E" "length (to_return (hits G E s) (sl_curDocId s) s) < k" ok
  shows "\<exists>j. search_layer P E n k s = Some (take j (to_return (hits G E s) (sl_curDocId s) s)) \<and>
    (endless E (sl_timeoutTerminator s) \<longrightarrow> length (to_return (hits G E s) (sl_curDocId s) s) \<le> j)"
  using assms
proof (induction k arbitrary: s)
  case 0
  then show ?case by simp
next
  case (Suc k)
  let ?L = "to_return (hits G E s) (sl_curDocId s) s"
  have "layer_seek P E n False s = layer_seek_loop P E n False (sl_curDocId s) s"
    using Suc.prems(1) by (simp add: layer_seek_def searching_def)
  then obtain res s' where r: "layer_seek P E n False s = Some (Inr res, s')"
    "res = None \<and> \<not> endless E (sl_timeoutTerminator s) \<or>
     found_next G E n ?L res s' \<and> (endless E (sl_timeoutTerminator s) \<longrightarrow> endless E (sl_timeoutTerminator s'))"
    using layer_seek_loop_finds [OF Suc.prems(1,2,4)] by auto
  show ?case
  proof (cases res)
    case None
    then have "?L = [] \<or> \<not> endless E (sl_timeoutTerminator s)"
      using r(2) by (auto simp: found_next_def split: list.splits)
    then show ?thesis
      using r(1) None by (intro exI [of _ 0]) auto
  next
    case (Some md)
    then obtain d ds where L: "?L = d # ds" and md: "md = allocate d" and s': "searching G n (d + 1) s'" "sl_curDocId s' = d + 1"
      "to_return (hits G E s') (d + 1) s' = ds" and t: "endless E (sl_timeoutTerminator s) \<longrightarrow> endless E (sl_timeoutTerminator s')"
      using r(2) by (auto simp: found_next_def split: list.splits)
    obtain j where "search_layer P E n k s' = Some (take j ds)" "endless E (sl_timeoutTerminator s') \<longrightarrow> length ds \<le> j"
      using Suc.IH [of s'] s' Suc.prems(2-4) L by auto
    then show ?thesis
      using r(1) Some md t unfolding L by (intro exI [of _ "Suc j"]) (simp add: allocate_def)
  qed
qed

end

section \<open>The whole search\<close>

text \<open>
  The documents of a set that a search of a layer returns: it starts with the quota of the layer, and not with that of the
  first range.
\<close>

definition layer_result :: "layer_meta \<Rightarrow> docid set \<Rightarrow> docid list" where
  "layer_result m H = (case lm_ranges m of [] \<Rightarrow> [] | r # rs \<Rightarrow> layer_take (lm_maxQuota m) H (r\<lparr>rm_quota := 0\<rparr> # rs))"

lemma layer_result_plain:
  assumes "ranges_ok (lm_ranges m)" "\<forall>r \<in> set (lm_ranges m). rm_quota r = 0"
  shows "layer_result m H = take (unat (lm_maxQuota m)) (sorted_list_of_set (H \<inter> layer_docs (lm_ranges m)))"
proof (cases "lm_ranges m")
  case (Cons r rs)
  then have "r\<lparr>rm_quota := 0\<rparr> = r"
    using assms(2) by (cases r) simp
  then show ?thesis
    using layer_take_plain [OF assms] Cons by (simp add: layer_result_def)
qed (simp add: layer_result_def)

text \<open>The searcher that the constructor builds is at the start of its layer.\<close>

lemma searcher_new_searching:
  assumes "fresh G n e" "ranges_ok (lm_ranges m)" "lm_quotaMode m = QM_PER_LAYER" "searcher_new e m t = Some s"
  shows "searching G n (sl_curDocId s) s" "to_return H (sl_curDocId s) s = layer_result m H" "sl_queryExecutor s = e"
    "sl_timeoutTerminator s = t"
proof -
  obtain r rs where m: "lm_ranges m = r # rs"
    using assms(4) by (cases "lm_ranges m") (simp_all add: searcher_new_def)
  have s: "sl_curDocId s = rm_nextBegin r" "sl_curBegin s = rm_nextBegin r" "sl_curEnd s = rm_end r" "rest s = rs"
    "sl_rangeCursor s = 0" "sl_layerMeta s = m" "sl_curQuota s = lm_maxQuota m"
    using assms(3,4) m by (auto simp: searcher_new_def rest_def)
  show e: "sl_queryExecutor s = e" "sl_timeoutTerminator s = t"
    using assms(4) m by (auto simp: searcher_new_def)
  show "to_return H (sl_curDocId s) s = layer_result m H"
    by (simp add: to_return_def layer_result_def s m range_docs_def Let_def)
  have "in_layer s"
    using assms(2,3) by (simp add: in_layer_def s m)
  moreover from this have "todo (sl_curDocId s) s \<subseteq> {rm_nextBegin r..}"
    using assms(2) after_range [of s] by (fastforce simp: todo_def s m)
  ultimately show "searching G n (sl_curDocId s) s"
    using assms(1,2) by (simp add: searching_def s e fresh_def m INVALID_DOCID_def)
qed

text \<open>
  C3. Successive calls of \<^verbatim>\<open>SingleLayerSearcher::seek\<close> without sub documents, over a fresh tree of executors on bitmap postings
  and a layer in the mode \<^verbatim>\<open>QM_PER_LAYER\<close> whose ranges are not empty, disjoint and in increasing order, where match data, if
  it is filled in, is filled in without errors.  Of the documents that the query matches, that are not deleted and that pass
  the filter, they return those of \<open>layer_result\<close>: range by range in increasing order, in each range the first ones up to
  what is left of the quota, which starts as the maximal quota of the layer and grows by the quota of each further range that
  is entered.  If no range has a quota of its own, these are the first documents of the layer up to the maximal quota.  If
  the terminator expires, the documents that are returned are a prefix of these; otherwise they are all of them, and then
  the search ends.
\<close>

theorem layer_search_finds_matches:
  assumes "fresh bitmap_spec n e" "ranges_ok (lm_ranges m)" "lm_quotaMode m = QM_PER_LAYER"
    "\<forall>beforeFilter md. fill_data E beforeFilter md = None \<and> fill_values E md = None" "searcher_new e m t = Some s"
    and "H = {d \<in> exec_docs bitmap_spec e. \<not> is_deleted (env_deleted E) d \<and> passes E (allocate d)}"
    and "length (layer_result m H) < k"
  shows "(\<exists>j. search_layer bitmap_postings E n k s = Some (take j (layer_result m H))) \<and>
    ((case t of None \<Rightarrow> True | Some t \<Rightarrow> never_expires (env_clock E) t) \<longrightarrow>
       search_layer bitmap_postings E n k s = Some (layer_result m H)) \<and>
    ((\<forall>r \<in> set (lm_ranges m). rm_quota r = 0) \<longrightarrow>
       layer_result m H = take (unat (lm_maxQuota m)) (sorted_list_of_set (H \<inter> layer_docs (lm_ranges m))))"
proof -
  note new = searcher_new_searching [OF assms(1-3,5)]
  have H: "hits bitmap_spec E s = H"
    by (simp add: hits_def new(3) assms(6) wanted_def)
  have "fills E"
    using assms(4) by (simp add: fills_def)
  then obtain j where "search_layer bitmap_postings E n k s = Some (take j (layer_result m H))"
    "endless E t \<longrightarrow> length (layer_result m H) \<le> j"
    using bmp.search_layer_from [OF new(1), of E k] assms(7) unfolding H new(2,4) by auto
  then show ?thesis
    using layer_result_plain [OF assms(2)] by (auto simp: endless_def)
qed

text \<open>A layer of two ranges, of which the second has a quota of its own, and a deleted document.\<close>

definition layer_example :: layer_meta where
  "layer_example = layer_meta_init\<lparr>lm_ranges := [range_meta 0 4 OT_ORDERED 0, range_meta 6 9 OT_UNORDERED 1],
     lm_quotaMode := QM_PER_LAYER, lm_maxQuota := 1\<rparr>"

definition env_example :: searcher_env where
  "env_example = \<lparr>env_clock = int, env_deleted = Some (\<lambda>d. d = 9), env_subDeleted = None, env_main2Sub = Some,
     env_filterWrapper = Some (set_filter (Some (\<lambda>md. md_docId md \<noteq> 8, False)) filter_wrapper_init),
     env_matchDataManager = None, env_getAllSubDoc = False, env_joinKey = (\<lambda>_. 0), env_hashJoinMap = (\<lambda>_. None)\<rparr>"

theorem layer_search_finds_matches_witness:
  "\<exists>s. searcher_new docs_tree layer_example None = Some s \<and> search_layer bitmap_postings env_example 2 4 s = Some [2, 7]"
proof -
  let ?H = "{d \<in> exec_docs bitmap_spec docs_tree. \<not> is_deleted (env_deleted env_example) d \<and> passes env_example (allocate d)}"
  obtain s where s: "searcher_new docs_tree layer_example None = Some s"
    by (simp add: searcher_new_def layer_example_def)
  have fresh: "fresh bitmap_spec 2 docs_tree"
    using docs_tree_fresh(1) [of 0] by (simp add: numeral_2_eq_2)
  have H: "?H = {2, 4, 7}"
    unfolding docs_tree_fresh(2)
    by (auto simp: env_example_def is_deleted_def passes_def set_filter_def filter_pass_def filter_wrapper_init_def allocate_def)
  have "{2, 4, 7} \<inter> {0..4} = {2, 4 :: int}" "{2, 4, 7} \<inter> {6..9} = {7 :: int}"
    by auto
  then have L: "layer_result layer_example ?H = [2, 7]"
    unfolding H by (simp add: layer_result_def layer_example_def range_meta_def range_docs_def Let_def)
  have "ranges_ok (lm_ranges layer_example)" "lm_quotaMode layer_example = QM_PER_LAYER"
    "\<forall>beforeFilter md. fill_data env_example beforeFilter md = None \<and> fill_values env_example md = None"
    by (simp_all add: layer_example_def range_meta_def fill_data_def fill_values_def env_example_def END_DOCID_def)
  then show ?thesis
    using layer_search_finds_matches [OF fresh _ _ _ s refl, of env_example 4] s unfolding L by simp
qed

section \<open>Joins and counters\<close>

text \<open>
  A document that waits in the join buffer is returned whatever the quota: the quota of zero wraps around to the largest
  number, so that the search then goes on past its quota.
\<close>

lemma join_buffer_ignores_quota:
  assumes "fills E" "endless E (sl_timeoutTerminator s)" "sl_matchDocBuffer s = md # buf" "passes E md" "sl_curBegin s \<le> sl_curDocId s"
    "sl_curQuota s = 0"
  shows "\<exists>s'. seek_and_join P E n needSubDoc s = Some (Inr (Some md), s') \<and> sl_curQuota s' = 0xFFFFFFFF"
proof -
  obtain t where "timed_out E s = (False, s\<lparr>sl_timeoutTerminator := t\<rparr>)"
    using timed_out_cases [of E s] assms(2) by metis
  then show ?thesis
    using assms(3-6)
    by (simp add: seek_and_join_def seek_and_join_loop.simps [of P E n needSubDoc "sl_curDocId s" s] judge_fills [OF assms(1)])
qed

text \<open>The ranges include their ends, but \<^verbatim>\<open>getWholeDocCount\<close> counts one document less for each of them.\<close>

lemma whole_doc_count_misses_ends:
  assumes "\<forall>r \<in> set (sl_ranges s). rm_begin r \<le> rm_end r"
  shows "get_whole_doc_count s + of_nat (length (sl_ranges s)) = (\<Sum>r \<leftarrow> sl_ranges s. of_nat (card {rm_begin r..rm_end r}))"
proof -
  have one: "(of_nat (card {b..e}) :: u32) = of_int (e - b) + 1" if "b \<le> e" for b e :: int
    using that by (simp add: of_nat_nat)
  have "(\<Sum>r \<leftarrow> rs. of_int (rm_end r - rm_begin r)) + of_nat (length rs) = (\<Sum>r \<leftarrow> rs. (of_nat (card {rm_begin r..rm_end r}) :: u32))"
    if "\<forall>r \<in> set rs. rm_begin r \<le> rm_end r" for rs
    using that
  proof (induction rs)
    case (Cons r rs)
    then show ?case
      using one [of "rm_begin r" "rm_end r"] by (simp only: list.map sum_list.Cons list.size of_nat_Suc set_simps ball_simps) (simp add: ac_simps)
  qed simp
  then show ?thesis
    using assms by (simp add: get_whole_doc_count_def)
qed

end
