(* ===== verification/Spec2Isabelle.thy ===== *)
theory Spec2Isabelle
  imports LocatorGuard LocatorCodec QueryProps CompressProps VarintProps LayerProps
begin

text \<open>
  Verification of five parts of havenask, a distributed search engine in C++ (sources under \<^verbatim>\<open>src/aios\<close>): the checkpoint of
  consumed messages, the bitmaps, the query executors with the posting iterator over bitmaps, the search of a layer of
  documents, and the compression of posting lists.  Paths below that start with \<^verbatim>\<open>indexlib\<close> are under
  \<^verbatim>\<open>src/aios/storage\<close>, and those that start with \<^verbatim>\<open>ha3\<close> are under \<^verbatim>\<open>src/aios\<close>.

  \<^bold>\<open>How the parts interact.\<close>  A tablet records in a locator up to where it has consumed each part of its sources;
  every batch of documents is checked against it and advances it.  The index of a tablet keeps the documents of frequent
  terms as bitmaps and those of other terms as posting lists, which are compressed in blocks.  A query is a tree of
  executors over posting iterators; seeking the tree enumerates the documents that match.  The layer searcher
  drives such a tree through ranges of documents and drops those that are deleted or filtered out.

  \<^bold>\<open>Conventions.\<close>  A class is a record, or a constructor of a datatype where the code has a class hierarchy; a member function
  takes the state and returns it updated.  \<open>None\<close> stands for undefined behaviour (an access outside of an array, a failed
  assertion) or for not returning; theorems that an operation returns are stated as \<open>= Some \<dots>\<close>.  Machine integers are
  words where wrap-around matters, and \<open>int\<close> or \<open>nat\<close> where the code keeps clear of the bounds.  \<open>Prelude\<close> has the types, the
  byte layout of integers, the status codes, and the lemmas that several parts share.

  \<^bold>\<open>Locator\<close> (\<^verbatim>\<open>indexlib/base/Progress.h\<close>, \<^verbatim>\<open>indexlib/framework/Locator.h\<close>, \<^verbatim>\<open>Locator.cpp\<close>).
  \<^item> \<open>Progress\<close> and \<open>Locator\<close>: a progress is a range of hash values with an offset; a locator has a vector of disjoint
    progresses for each topic.  \<open>update_progress_vec\<close> with \<open>merge_loop\<close> and \<open>get_left_progress\<close> is \<^verbatim>\<open>UpdateProgressVec\<close>,
    \<open>locator_update\<close> is \<^verbatim>\<open>Update\<close>, and the comparisons and \<^verbatim>\<open>ShrinkToRange\<close> follow.
  \<^item> \<open>LocatorCorrect\<close> reads a vector as the function \<open>offset_at\<close> from hash values to offsets, and proves that merging is
    pointwise update and that comparing is pointwise comparison.
  \<^item> \<open>LocatorGuard\<close>: the locale \<open>checkpoint\<close> is what clients rely on, that an update never moves back, and that an
    accepted one reaches what it was given; it is interpreted on \<open>locator_update\<close>.  The invariant of this instance excludes
    ranges whose offset is the sentinel \<^verbatim>\<open>INVALID_OFFSET\<close>: the comparison of \<^verbatim>\<open>Locator.cpp\<close> that refuses smaller offsets
    lets the sentinel pass, so that such a range may overwrite a real offset.  The properties state
    refinement, order, monotonicity over sequences of updates, and how a refused update may change the state.  Locators
    of the legacy kind, which a flag makes the comparisons ignore, are excluded where a property says so.
  \<^item> \<open>LocatorCodec\<close>: both byte layouts with the round trip, the exact length, and the reads of malformed input.  The old
    layout has no magic number; a locator whose bytes there happen to be that number is not read back, which the property of
    the round trip states.  Writing is that of a build without assertions.

  \<^bold>\<open>Bitmaps\<close> (\<^verbatim>\<open>indexlib/util/Bitmap\<close>, \<^verbatim>\<open>ExpandableBitmap\<close>).
  \<^item> \<open>Bitmap\<close> and \<open>ExpandableBitmap\<close>: arrays of 32-bit slots with a count of set bits; every operation.
  \<^item> \<open>BitmapCorrect\<close>, \<open>BitmapOps\<close>, \<open>BitmapRange\<close>, \<open>BitmapCount\<close>, \<open>BitmapCopy\<close>, \<open>Popcount\<close>: a bitmap stands for the set \<open>items\<close>;
    invariants \<open>bm_wf\<close> and \<open>bm_tight\<close>; the operators are set operations, and the counts are those of set bits.
  \<^item> \<open>ItemSets\<close>: the locale \<open>item_set\<close>, the contract of a set with insertion and deletion, and what follows for sequences
    of calls; both bitmaps interpret it, the expandable one for bitmaps that are created clear: one that is created set
    grows by set bits that it does not count.  \<open>BitmapProps\<close> has the properties, among them when the growth loop of
    \<^verbatim>\<open>Expand\<close> ends and when it does not.

  \<^bold>\<open>Query executors\<close> (\<^verbatim>\<open>ha3/ha3/search/query_executor\<close>, \<^verbatim>\<open>indexlib/index/inverted_index/builtin_index/bitmap\<close>).
  \<^item> \<open>QueryExecutorHeap\<close>: the entry heap and its \<^verbatim>\<open>adjustDown\<close>.  \<open>QueryExecutor\<close>: one datatype with a constructor for each
    executor class, and \<open>seek\<close>, which is \<^verbatim>\<open>QueryExecutor::seek\<close> with \<^verbatim>\<open>doSeek\<close> dispatched by class; loops that may not end are
    partial functions.  \<open>QueryExecutorOps\<close>: construction from children, \<^verbatim>\<open>reset\<close>, sub documents, document frequencies.
  \<^item> \<open>QuerySeek\<close>: the locale \<open>seekable\<close>, what seeking promises: the least matching document not before the one asked for.
    \<open>QueryOr\<close>, \<open>QueryWeakAnd\<close> and \<open>QueryTree\<close> prove that every executor keeps the promise if its children do; \<open>postings\<close> is
    the locale for the posting iterators, which are a parameter of the executors, and a sublocale of it gives \<open>seekable\<close>
    for all trees.  The depth of a tree is the fuel of \<open>seek\<close>: \<open>exec_inv G n\<close> holds of trees of depth at most \<open>n\<close>, and for
    these seeking returns.
  \<^item> \<open>BitmapPosting\<close> and \<open>BitmapIterator\<close>: the iterator over the bitmaps of the segments; it interprets \<open>postings\<close>, so
    that the properties hold with the iterator of the code.  \<open>QueryBuild\<close>: trees built by \<^verbatim>\<open>addQueryExecutors\<close> satisfy the
    invariant.  \<open>QueryProps\<close> has the properties: seeking is correct, repeated seeking finds every match, and AND,
    AND NOT and weak AND build the intersection, difference and threshold.  AND and AND NOT may use the filter of a range
    executor in place of the executor itself, and the properties give the documents also in this case.  For bitmap AND the
    intersection is shown where the filter of a range accepts the documents that the range finds.

  \<^bold>\<open>Searching a layer\<close> (\<^verbatim>\<open>ha3/ha3/search/single_layer_searcher\<close>, and \<^verbatim>\<open>LayerMetas.h\<close>, \<^verbatim>\<open>DefaultLayerMetaUtil.cpp\<close>
  and \<^verbatim>\<open>QueryExecutorRestrictor.cpp\<close> of the executors).
  \<^item> \<open>LayerMetas\<close>: ranges and layers of documents, restrictors, and timeouts over a clock that is a parameter.
  \<^item> \<open>LayerSearcher\<close>: \<^verbatim>\<open>SingleLayerSearcher\<close> with its filters, quotas, sub documents and joining variant.
  \<^item> \<open>LayerRanges\<close>: the documents that are still to be visited.  \<open>LayerProps\<close>: successive calls of \<^verbatim>\<open>seek\<close> return the
    matching documents of the layer that are kept, in order and up to the quotas of the layer and its ranges; if time runs
    out, a prefix of them.  The property is for the quota mode of a layer, without sub documents, and with match data that
    is filled in without errors.

  \<^bold>\<open>Compression\<close> (\<^verbatim>\<open>indexlib/index/common/numeric_compress\<close>).
  \<^item> \<open>BitPacking\<close>: the reference, a stream of fields of \<open>b\<close> bits.  \<open>PackBlocks\<close>, \<open>UnalignedBlocks\<close> and \<open>UnpackBlocks\<close>: the
    routines of \<^verbatim>\<open>Pack.h\<close>, \<^verbatim>\<open>UnalignedUnpack.h\<close> and \<^verbatim>\<open>Unpack.h\<close> for every width, expression by expression, each proved
    equal to the reference.  \<open>FramePacking\<close>: the tables of routines, and the locale \<open>value_store\<close>, storing and loading,
    which the block compressor relies on.
  \<^item> \<open>S9Compressor\<close>: the Simple-9 coder of \<^verbatim>\<open>S9Compressor.h\<close>.
  \<^item> \<open>PForDelta\<close>: the block compressor of \<^verbatim>\<open>NosseNewPfordeltaCompressor.h\<close>, with \<open>PForDeltaParts\<close> on headers and memory,
    \<open>PForDeltaSelect\<close> on the choice of a width, \<open>PForDeltaExceptions\<close> on the values that do not fit, and \<open>PForDeltaRound\<close> on
    frames.  \<open>CompressProps\<close> has the properties: the round trip for all inputs, headers, and the exactness of the coders.
  \<^item> \<open>VByte\<close>: the variable length integers of \<^verbatim>\<open>VbyteCompressor.h\<close>.  \<open>GroupVarintTables\<close> and \<open>GroupVarint\<close>: the structures
    and offsets of the group coder, row by row, and its routines; \<^verbatim>\<open>DecompressItem\<close> is a lookup in the tables where the code
    has a switch.  \<open>VarintProps\<close> has the round trips.

  \<^bold>\<open>Bounds.\<close>  Properties of expandable bitmaps are for indices below \<^verbatim>\<open>2 ^ 31\<close>, as the code multiplies slot counts by 32
  in 32 bits.  A
  compressed block takes at most 152 words: the header, 128 words of values, and 23 words of exceptions, as at most 12
  of 128 values are exceptions and each but the first brings two numbers.  The group coder takes
  at most 17 bytes for four values and five for each value that is left over.  The compressor is modelled at the element type
  \<^verbatim>\<open>uint32_t\<close>.  Document identifiers are unbounded integers; \<^verbatim>\<open>END_DOCID\<close> and \<^verbatim>\<open>INVALID_DOCID\<close> keep their values.

  \<^bold>\<open>Not modelled.\<close>  Formatting and logging; memory pools; the SSE and assembly variants of the unpacking routines (the
  portable templates are modelled); the 8 and 16 bit instances of the compressor; the encoders over byte slices of the
  file system; Simple-16, the reference and the equivalent compression, which are separate formats; match data and query
  labels of the executors; the executors that read positions or attributes (phrase, restricted phrase, sub document term,
  field map, spatial), the thin variants of the term and multi-term executors (buffered, composite, dynamic, number, single
  document, row information), and the creator of executors from parsed queries; single filters, which are parameters;
  the decoding of stored bitmap headers; and the rest of the engine, most of which is files, networking and threads:
  tablets and versions, the other index formats, ranking, query parsing, SQL, and the services.
\<close>

end
